(* ===== verification/EnerOS_Prelude.thy ===== *)
theory EnerOS_Prelude
  imports Main "HOL-Library.Word" "HOL-Library.List_Lexorder" "HOL-Library.Product_Lexorder"
begin

text \<open>
  Shared ground of the development: Rust's fixed-width integers as words with the
  checked and saturating operations of the standard library, little- and big-endian
  byte encodings, slices of byte buffers (\<open>buf[a..b]\<close>, \<open>copy_from_slice\<close>),
  IEEE-754 comparisons on \<open>f64\<close> bit patterns, and two generic interfaces: a codec
  (encode/decode with a round trip) and a transition system (invariants over runs).
\<close>

unbundle bit_operations_syntax

named_theorems slice_simps \<open>reading and writing ranges of a byte buffer\<close>
named_theorems arith_defs \<open>definitions of the standard library's integer operations\<close>

section \<open>Types\<close>

type_synonym u8 = "8 word"
type_synonym u16 = "16 word"
type_synonym u32 = "32 word"
type_synonym u64 = "64 word"
type_synonym i64 = "64 word"
type_synonym bytes = "8 word list"

text \<open>An \<open>f64\<close> is its IEEE-754 bit pattern; comparisons are below, arithmetic on the patterns is in
  the theories \<open>Float64\<close> and \<open>Float32\<close>.\<close>

type_synonym f64 = "64 word"

section \<open>Integer operations of the Rust standard library\<close>

definition checked_add :: "'a::len word \<Rightarrow> 'a word \<Rightarrow> 'a word option" where
  "checked_add a b = (if unat a + unat b < 2 ^ LENGTH('a) then Some (a + b) else None)"

definition checked_sub :: "'a::len word \<Rightarrow> 'a word \<Rightarrow> 'a word option" where
  "checked_sub a b = (if b \<le> a then Some (a - b) else None)"

definition saturating_add :: "'a::len word \<Rightarrow> 'a word \<Rightarrow> 'a word" where
  "saturating_add a b = (if unat a + unat b < 2 ^ LENGTH('a) then a + b else - 1)"

definition saturating_sub :: "'a::len word \<Rightarrow> 'a word \<Rightarrow> 'a word" where
  "saturating_sub a b = (if b \<le> a then a - b else 0)"

definition u16_try_from :: "u32 \<Rightarrow> u16 option" where
  "u16_try_from x = (if unat x < 65536 then Some (ucast x) else None)"

lemmas [arith_defs] = checked_add_def checked_sub_def saturating_add_def saturating_sub_def

section \<open>Results\<close>

text \<open>\<open>Result<T, E>\<close> is \<open>'e + 'a\<close>; the \<open>?\<close> operator is \<open>and_then\<close>, \<open>Option::ok_or\<close> is
  \<open>ok_or\<close>, \<open>map_err\<close> is \<open>map_err\<close>.\<close>

definition and_then :: "'e + 'a \<Rightarrow> ('a \<Rightarrow> 'e + 'b) \<Rightarrow> 'e + 'b" where
  "and_then r f = (case r of Inl e \<Rightarrow> Inl e | Inr x \<Rightarrow> f x)"

definition ok_or :: "'a option \<Rightarrow> 'e \<Rightarrow> 'e + 'a" where
  "ok_or x e = (case x of None \<Rightarrow> Inl e | Some y \<Rightarrow> Inr y)"

definition map_err :: "'e + 'a \<Rightarrow> ('e \<Rightarrow> 'f) \<Rightarrow> 'f + 'a" where
  "map_err r f = (case r of Inl e \<Rightarrow> Inl (f e) | Inr x \<Rightarrow> Inr x)"

section \<open>Bytes of integers\<close>

fun le_bytes :: "nat \<Rightarrow> 'a::len word \<Rightarrow> bytes" where
  "le_bytes 0 w = []"
| "le_bytes (Suc n) w = ucast w # le_bytes n (drop_bit 8 w)"

fun from_le :: "bytes \<Rightarrow> 'a::len word" where
  "from_le [] = 0"
| "from_le (b # bs) = ucast b OR push_bit 8 (from_le bs)"

definition be_bytes :: "nat \<Rightarrow> 'a::len word \<Rightarrow> bytes" where
  "be_bytes n w = rev (le_bytes n w)"

definition from_be :: "bytes \<Rightarrow> 'a::len word" where
  "from_be bs = from_le (rev bs)"

section \<open>Byte buffers\<close>

text \<open>\<open>slice a b buf\<close> is Rust's \<open>buf[a..b]\<close> for \<open>a \<le> b \<le> buf.len()\<close>;
  \<open>put buf a xs\<close> is \<open>buf[a..a + xs.len()].copy_from_slice(xs)\<close>.\<close>

definition slice :: "nat \<Rightarrow> nat \<Rightarrow> 'a list \<Rightarrow> 'a list" where
  "slice a b xs = take (b - a) (drop a xs)"

definition put :: "'a list \<Rightarrow> nat \<Rightarrow> 'a list \<Rightarrow> 'a list" where
  "put buf a xs = take a buf @ xs @ drop (a + length xs) buf"

definition is_zero :: "bytes \<Rightarrow> bool" where
  "is_zero bs = list_all (\<lambda>b. b = 0) bs"

abbreviation zeros :: "nat \<Rightarrow> bytes" where
  "zeros n \<equiv> replicate n 0"

section \<open>IEEE-754 comparisons\<close>

definition f64_is_nan :: "f64 \<Rightarrow> bool" where
  "f64_is_nan x = (0x7FF0000000000000 < take_bit 63 x)"

definition f64_key :: "f64 \<Rightarrow> int" where
  "f64_key x = (if bit x 63 then - uint (take_bit 63 x) else uint x)"

definition f64_lt :: "f64 \<Rightarrow> f64 \<Rightarrow> bool" where
  "f64_lt x y = (\<not> f64_is_nan x \<and> \<not> f64_is_nan y \<and> f64_key x < f64_key y)"

definition f64_le :: "f64 \<Rightarrow> f64 \<Rightarrow> bool" where
  "f64_le x y = (\<not> f64_is_nan x \<and> \<not> f64_is_nan y \<and> f64_key x \<le> f64_key y)"

definition f64_eq :: "f64 \<Rightarrow> f64 \<Rightarrow> bool" where
  "f64_eq x y = (\<not> f64_is_nan x \<and> \<not> f64_is_nan y \<and> f64_key x = f64_key y)"

text \<open>The literals the modelled code uses.\<close>

abbreviation (input) f64_0 :: f64 where "f64_0 \<equiv> 0"
abbreviation (input) f64_1 :: f64 where "f64_1 \<equiv> 0x3FF0000000000000"
abbreviation (input) f64_50 :: f64 where "f64_50 \<equiv> 0x4049000000000000"
abbreviation (input) f64_100 :: f64 where "f64_100 \<equiv> 0x4059000000000000"
abbreviation (input) f64_500 :: f64 where "f64_500 \<equiv> 0x407F400000000000"
abbreviation (input) f64_m500 :: f64 where "f64_m500 \<equiv> 0xC07F400000000000"
abbreviation (input) f64_600 :: f64 where "f64_600 \<equiv> 0x4082C00000000000"
abbreviation (input) f64_1000 :: f64 where "f64_1000 \<equiv> 0x408F400000000000"
abbreviation (input) f64_nan :: f64 where "f64_nan \<equiv> 0x7FF8000000000000"

section \<open>Integer lemmas\<close>

lemma xor_cancel: "x XOR z = y XOR (z :: 'a::len word) \<longleftrightarrow> x = y"
  by (metis xor.assoc xor.right_neutral xor_self_eq)

lemma saturating_add_ge: "a \<le> saturating_add a b"
proof (cases "unat a + unat b < 2 ^ LENGTH('a)")
  case True
  then have "unat (a + b) = unat a + unat b" by (simp add: unat_word_ariths)
  then have "unat a \<le> unat (a + b)" by simp
  with True show ?thesis by (simp add: saturating_add_def word_le_nat_alt)
next
  case False
  then show ?thesis by (simp add: saturating_add_def)
qed

lemma and_then_Inr_iff [simp]: "and_then r f = Inr y \<longleftrightarrow> (\<exists>x. r = Inr x \<and> f x = Inr y)"
  by (auto simp: and_then_def split: sum.splits)

lemma and_then_simps [simp]: "and_then (Inr x) f = f x" "and_then (Inl e) f = Inl e"
  by (simp_all add: and_then_def)

lemma ok_or_Inr_iff [simp]: "ok_or x e = Inr y \<longleftrightarrow> x = Some y"
  by (auto simp: ok_or_def split: option.splits)

lemma map_err_Inr_iff [simp]: "map_err r f = Inr y \<longleftrightarrow> r = Inr y"
  by (auto simp: map_err_def split: sum.splits)

lemma map_err_simps [simp]: "map_err (Inr x) f = Inr x" "map_err (Inl e) f = Inl (f e)"
  by (simp_all add: map_err_def)

lemma checked_add_Some_unat: "checked_add a b = Some c \<Longrightarrow> unat c = unat a + unat b"
  by (auto simp: checked_add_def unat_word_ariths split: if_splits)

lemma checked_add_one_less: "checked_add a 1 = Some c \<Longrightarrow> a < (c :: 'a::len word)"
  using checked_add_Some_unat[of a 1 c] by (simp add: word_less_nat_alt)

lemma unat_Suc_less_iff: "unat a + 1 < 2 ^ LENGTH('a) \<longleftrightarrow> a \<noteq> (- 1 :: 'a::len word)"
proof
  assume "unat a + 1 < 2 ^ LENGTH('a)"
  then show "a \<noteq> - 1" by (auto simp: unsigned_minus_1_eq_mask mask_eq_exp_minus_1)
next
  assume "a \<noteq> - 1"
  then have "unat a \<noteq> unat (- 1 :: 'a word)" using word_unat_eq_iff [of a "- 1"] by blast
  then have "unat a \<noteq> 2 ^ LENGTH('a) - 1"
    by (simp add: unsigned_minus_1_eq_mask mask_eq_exp_minus_1)
  moreover have "unat a < 2 ^ LENGTH('a)" by (rule unsigned_less)
  ultimately show "unat a + 1 < 2 ^ LENGTH('a)" by linarith
qed

lemma checked_add_one: "checked_add a 1 = (if a = - 1 then None else Some (a + 1 :: 'a::len word))"
  using unat_Suc_less_iff [of a] by (simp add: checked_add_def)

lemma unat_inc: "a < b \<Longrightarrow> unat (a + 1) = Suc (unat (a :: 'a::len word))"
proof -
  assume "a < b"
  then have "unat a < unat b" by (simp add: word_less_nat_alt)
  moreover have "unat b < 2 ^ LENGTH('a)" by (rule unsigned_less)
  ultimately have "Suc (unat a) < 2 ^ LENGTH('a)" by linarith
  then show ?thesis by (simp add: unat_word_ariths)
qed

lemma word_Suc_le: "a < b \<Longrightarrow> a + 1 \<le> (b :: 'a::len word) \<and> a < a + 1"
  using unat_inc [of a b] by (simp add: word_less_nat_alt word_le_nat_alt)

lemma checked_add_one_neq0: "checked_add a 1 = Some c \<Longrightarrow> c \<noteq> (0 :: 'a::len word)"
  using checked_add_one_less[of a c] by auto

lemma checked_sub_Some: "checked_sub a b = Some c \<Longrightarrow> b \<le> a \<and> c = a - b"
  by (auto simp: checked_sub_def split: if_splits)

lemma unat_saturating_sub: "unat (saturating_sub a b) = unat a - unat b"
  by (simp add: saturating_sub_def unat_sub word_le_nat_alt)

lemma saturating_sub_self [simp]: "saturating_sub a a = 0"
  by (simp add: saturating_sub_def)

section \<open>Byte lemmas\<close>

lemma length_le_bytes [simp]: "length (le_bytes n w) = n"
  by (induction n arbitrary: w) auto

lemma length_be_bytes [simp]: "length (be_bytes n w) = n"
  by (simp add: be_bytes_def)

lemma from_le_le_bytes: "from_le (le_bytes n w) = take_bit (8 * n) w"
proof (induction n arbitrary: w)
  case 0
  show ?case by simp
next
  case (Suc n)
  have "from_le (le_bytes (Suc n) w) = ucast (ucast w :: u8) OR push_bit 8 (take_bit (8 * n) (drop_bit 8 w))"
    by (simp add: Suc.IH)
  also have "\<dots> = take_bit (8 * Suc n) w"
    by (rule bit_word_eqI) (auto simp: bit_simps)
  finally show ?case .
qed

lemma from_le_le_bytes_full [simp]:
  "8 * n = LENGTH('a::len) \<Longrightarrow> from_le (le_bytes n (w :: 'a word)) = w"
  by (simp add: from_le_le_bytes)

lemma bit_from_le: "bit (from_le bs :: 'a::len word) i \<Longrightarrow> i < 8 * length bs"
proof (induction bs arbitrary: i)
  case (Cons c cs)
  show ?case
  proof (cases "i < 8")
    case False
    with Cons.prems have "bit (from_le cs :: 'a word) (i - 8)"
      by (auto simp: bit_simps dest: bit_imp_le_length)
    then have "i - 8 < 8 * length cs" by (rule Cons.IH)
    then show ?thesis by simp
  qed simp
qed simp

lemma le_bytes_from_le:
  "8 * length bs \<le> LENGTH('a::len) \<Longrightarrow> le_bytes (length bs) (from_le bs :: 'a word) = bs"
proof (induction bs)
  case Nil
  show ?case by simp
next
  case (Cons b bs)
  have b: "ucast (ucast b OR push_bit 8 (from_le bs) :: 'a word) = b"
    using Cons.prems by (intro bit_word_eqI) (auto simp: bit_simps)
  have d: "drop_bit 8 (ucast b OR push_bit 8 (from_le bs) :: 'a word) = from_le bs"
    using Cons.prems
    by (intro bit_word_eqI) (auto simp: bit_simps dest: bit_imp_le_length bit_from_le)
  have "le_bytes (length bs) (from_le bs :: 'a word) = bs" using Cons by simp
  then show ?case by (simp only: list.size(4) add_Suc_right add_0_right le_bytes.simps from_le.simps b d)
qed

lemma le_bytes_from_le_full [simp]:
  "length bs = n \<Longrightarrow> 8 * n = LENGTH('a::len) \<Longrightarrow> le_bytes n (from_le bs :: 'a word) = bs"
  using le_bytes_from_le[of bs, where 'a = 'a] by simp

section \<open>Buffer lemmas\<close>

lemma length_slice [simp, slice_simps]: "length (slice a b xs) = min (b - a) (length xs - a)"
  by (simp add: slice_def)

lemma length_put [slice_simps]: "a + length xs \<le> length buf \<Longrightarrow> length (put buf a xs) = length buf"
  by (simp add: put_def)

lemma slice_join: "a \<le> b \<Longrightarrow> b \<le> c \<Longrightarrow> slice a b xs @ slice b c xs = slice a c xs"
proof -
  assume "a \<le> b" "b \<le> c"
  then have "c - a = (b - a) + (c - b)" "drop (b - a) (drop a xs) = drop b xs"
    by simp_all
  then show ?thesis unfolding slice_def by (metis take_add)
qed

lemma slice_join_left:
  "a \<le> b \<Longrightarrow> b \<le> c \<Longrightarrow> slice a b xs @ slice b c xs @ ys = slice a c xs @ ys"
  by (metis append_assoc slice_join)

lemma slice_whole: "length xs \<le> b \<Longrightarrow> slice 0 b xs = xs"
  by (simp add: slice_def)

lemma slice_singleton: "a < length xs \<Longrightarrow> slice a (Suc a) xs = [xs ! a]"
  by (simp add: slice_def take_Suc_conv_app_nth hd_drop_conv_nth flip: hd_conv_nth)

lemma nth_slice: "a < length xs \<Longrightarrow> b = Suc a \<Longrightarrow> [xs ! a] = slice a b xs"
  by (simp add: slice_singleton)

lemma slice_append_left: "b \<le> length xs \<Longrightarrow> slice a b (xs @ ys) = slice a b xs"
  by (cases "a \<le> b") (auto simp: slice_def)

lemma slice_append_right:
  "length xs \<le> a \<Longrightarrow> slice a b (xs @ ys) = slice (a - length xs) (b - length xs) ys"
  by (simp add: slice_def)

lemma slice_slice: "b \<le> d - c \<Longrightarrow> slice a b (slice c d xs) = slice (c + a) (c + b) xs"
  by (simp add: slice_def drop_take min_def add.commute)

lemma slice_put_prefix:
  "length xs \<le> n \<Longrightarrow> a \<le> length buf \<Longrightarrow>
     slice a (a + n) (put buf a xs) = xs @ slice (a + length xs) (a + n) buf"
  by (simp add: slice_def put_def min_def)

lemma put_append:
  "length pre = a \<Longrightarrow> put (pre @ rest) a xs = (pre @ xs) @ drop (length xs) rest"
  by (simp add: put_def)

lemma put_zeros_gap:
  "length pre \<le> a \<Longrightarrow> a - length pre + length xs \<le> n \<Longrightarrow>
     put (pre @ zeros n) a xs =
       (pre @ zeros (a - length pre) @ xs) @ zeros (n - (a - length pre) - length xs)"
  by (auto simp: put_def min_def)

lemma slice_put_same [slice_simps]:
  "a + length xs \<le> length buf \<Longrightarrow> b = a + length xs \<Longrightarrow> slice a b (put buf a xs) = xs"
  by (simp add: slice_def put_def)

lemma slice_put_before [slice_simps]:
  "b \<le> a \<Longrightarrow> a \<le> length buf \<Longrightarrow> slice i b (put buf a xs) = slice i b buf"
  by (cases "i \<le> b") (simp_all add: slice_def put_def take_drop min_absorb1)

lemma slice_put_after [slice_simps]:
  "a + length xs \<le> i \<Longrightarrow> a \<le> length buf \<Longrightarrow> slice i b (put buf a xs) = slice i b buf"
  by (simp add: slice_def put_def)

lemma nth_put_before [slice_simps]:
  "i < a \<Longrightarrow> a \<le> length buf \<Longrightarrow> put buf a xs ! i = buf ! i"
  by (simp add: put_def nth_append)

lemma nth_put_after [slice_simps]:
  "a + length xs \<le> i \<Longrightarrow> i < length buf \<Longrightarrow> put buf a xs ! i = buf ! i"
  by (auto simp: put_def nth_append min_absorb1)

lemma is_zero_replicate [simp]: "is_zero (replicate n 0)"
  by (simp add: is_zero_def list_all_iff)

lemma is_zero_iff: "is_zero bs \<longleftrightarrow> bs = zeros (length bs)"
  by (induction bs) (auto simp: is_zero_def)

lemma in_set_tlD: "x \<in> set (tl xs) \<Longrightarrow> x \<in> set xs"
  by (cases xs) auto

section \<open>Comparison lemmas\<close>

lemma f64_le_or_lt: "\<not> f64_is_nan x \<Longrightarrow> \<not> f64_is_nan y \<Longrightarrow> f64_le x y \<or> f64_lt y x"
  by (auto simp: f64_le_def f64_lt_def)

lemma f64_nan_unordered:
  "f64_is_nan x \<Longrightarrow> \<not> f64_lt x y \<and> \<not> f64_lt y x \<and> \<not> f64_le x y \<and> \<not> f64_le y x \<and> \<not> f64_eq x y"
  by (simp add: f64_lt_def f64_le_def f64_eq_def)

section \<open>Codecs\<close>

text \<open>A codec writes well-formed values as byte strings and reads them back. \<open>canonical\<close>
  is the other half of the round trip: only byte strings the encoder writes are read.\<close>

locale codec =
  fixes encode :: "'v \<Rightarrow> bytes" and decode :: "bytes \<Rightarrow> 'e + 'v" and wf :: "'v \<Rightarrow> bool"
  assumes decode_encode: "wf v \<Longrightarrow> decode (encode v) = Inr v"
    and canonical: "decode bs = Inr v \<Longrightarrow> wf v \<and> encode v = bs"
begin

lemma encode_injective: "wf v \<Longrightarrow> wf w \<Longrightarrow> encode v = encode w \<Longrightarrow> v = w"
  by (metis decode_encode sum.inject(2))

lemma decode_iff: "decode bs = Inr v \<longleftrightarrow> wf v \<and> bs = encode v"
  using canonical decode_encode by blast

lemma decode_injective: "decode bs = Inr v \<Longrightarrow> decode cs = Inr v \<Longrightarrow> bs = cs"
  by (simp add: decode_iff)

end

section \<open>Transition systems\<close>

text \<open>States reached by any sequence of operations; an invariant that holds initially and
  is kept by every operation holds in every reachable state.\<close>

locale transition_system =
  fixes init :: "'s \<Rightarrow> bool" and step :: "'s \<Rightarrow> 's \<Rightarrow> bool" and inv :: "'s \<Rightarrow> bool"
  assumes inv_init: "init s \<Longrightarrow> inv s"
    and inv_step: "inv s \<Longrightarrow> step s t \<Longrightarrow> inv t"
begin

lemma inv_run: "step\<^sup>*\<^sup>* s t \<Longrightarrow> inv s \<Longrightarrow> inv t"
  by (induction rule: rtranclp_induct) (auto intro: inv_step)

lemma inv_reachable: "init s \<Longrightarrow> step\<^sup>*\<^sup>* s t \<Longrightarrow> inv t"
  by (blast intro: inv_init inv_run)

end

end
