(* ===== verification/Command_Model.thy ===== *)
theory Command_Model
  imports EnerOS_Prelude
begin

text \<open>
  The shared model layer (\<open>crates/protocols/telemetry-model\<close>): commands, actor kinds, the
  authorized command, data quality, physical units and control-point specifications.
\<close>

section \<open>Commands\<close>

datatype single_command = SOff | SOn

datatype double_command = DOff | DOn | DIntermediate | DBad

datatype control_command = Single single_command | Double double_command

datatype control_exec_state = ExIdle | ExSelected | ExExecuting | ExDone | ExFailed | ExTimeout

definition is_terminal :: "control_exec_state \<Rightarrow> bool" where
  "is_terminal s = (s = ExDone \<or> s = ExFailed \<or> s = ExTimeout)"

definition is_active_state :: "control_exec_state \<Rightarrow> bool" where
  "is_active_state s = (s = ExSelected \<or> s = ExExecuting)"

datatype actor_kind = Operator | Agent | Ai | System | Emergency

fun actor_byte :: "actor_kind \<Rightarrow> u8" where
  "actor_byte Operator = 0"
| "actor_byte Agent = 1"
| "actor_byte Ai = 2"
| "actor_byte System = 3"
| "actor_byte Emergency = 4"

definition actor_from_byte :: "u8 \<Rightarrow> actor_kind option" where
  "actor_from_byte b =
     (if b = 0 then Some Operator
      else if b = 1 then Some Agent
      else if b = 2 then Some Ai
      else if b = 3 then Some System
      else if b = 4 then Some Emergency
      else None)"

record authorized_command =
  ac_device_id :: u16
  ac_point_id :: u32
  ac_command :: control_command
  ac_actor_kind :: actor_kind
  ac_issuer :: bytes
  ac_correlation_id :: bytes
  ac_sequence :: u64
  ac_lease_id :: bytes
  ac_fencing_token :: u64
  ac_policy_version :: u64
  ac_idempotency_key :: bytes

section \<open>Quality\<close>

datatype quality_flag =
  Good | Invalid | Questionable | Substituted | Blocked | Overflow | Outdated

record point_quality =
  pq_valid :: bool
  pq_invalid :: bool
  pq_questionable :: bool
  pq_substituted :: bool
  pq_blocked :: bool
  pq_overflow :: bool
  pq_outdated :: bool

definition quality_is_valid :: "quality_flag \<Rightarrow> bool" where
  "quality_is_valid q = (q = Good)"

definition quality_is_error :: "quality_flag \<Rightarrow> bool" where
  "quality_is_error q = (q = Invalid \<or> q = Blocked \<or> q = Overflow \<or> q = Outdated)"

definition from_point_quality :: "point_quality \<Rightarrow> quality_flag" where
  "from_point_quality q =
     (if pq_valid q then Good
      else if pq_invalid q then Invalid
      else if pq_questionable q then Questionable
      else if pq_substituted q then Substituted
      else if pq_blocked q then Blocked
      else if pq_overflow q then Overflow
      else if pq_outdated q then Outdated
      else Invalid)"

section \<open>Units and point specifications\<close>

datatype dimension =
  Voltage | Current | Power | ReactivePower | Energy | Frequency | Temperature | Ratio | Time
  | NoDimension

datatype physical_unit =
  Volts | Kilovolts | Amperes | Kiloamperes | Watts | Kilowatts | Megawatts
  | VoltAmpereReactive | Kilovar | Megavar | Hertz | Celsius | Percent | KilowattHour
  | AmpereHour | Seconds | Rpm | Dimensionless

fun unit_dimension :: "physical_unit \<Rightarrow> dimension" where
  "unit_dimension Volts = Voltage"
| "unit_dimension Kilovolts = Voltage"
| "unit_dimension Amperes = Current"
| "unit_dimension Kiloamperes = Current"
| "unit_dimension Watts = Power"
| "unit_dimension Kilowatts = Power"
| "unit_dimension Megawatts = Power"
| "unit_dimension VoltAmpereReactive = ReactivePower"
| "unit_dimension Kilovar = ReactivePower"
| "unit_dimension Megavar = ReactivePower"
| "unit_dimension KilowattHour = Energy"
| "unit_dimension AmpereHour = Energy"
| "unit_dimension Hertz = Frequency"
| "unit_dimension Celsius = Temperature"
| "unit_dimension Percent = Ratio"
| "unit_dimension Seconds = Time"
| "unit_dimension Rpm = NoDimension"
| "unit_dimension Dimensionless = NoDimension"

definition compatible_dims :: "dimension \<Rightarrow> dimension \<Rightarrow> bool" where
  "compatible_dims a b =
     ((a, b) \<in> set [(Voltage, Voltage), (Current, Current), (Power, Power),
        (ReactivePower, ReactivePower), (Energy, Energy), (Frequency, Frequency),
        (Temperature, Temperature), (Ratio, Ratio), (Time, Time), (NoDimension, NoDimension)])"

definition compatible_with :: "physical_unit \<Rightarrow> physical_unit \<Rightarrow> bool" where
  "compatible_with a b = compatible_dims (unit_dimension a) (unit_dimension b)"

datatype control_direction = Increase | Decrease | Discrete

record point_spec =
  ps_point_id :: u32
  ps_device_id :: u16
  ps_unit :: physical_unit
  ps_safe_min :: f64
  ps_safe_max :: f64
  ps_max_ramp_per_sec :: "f64 option"
  ps_direction :: control_direction
  ps_remote_controllable :: bool

definition is_within_safe_range :: "point_spec \<Rightarrow> f64 \<Rightarrow> bool" where
  "is_within_safe_range p v = (f64_le (ps_safe_min p) v \<and> f64_le v (ps_safe_max p))"

definition unit_compatible_with :: "point_spec \<Rightarrow> point_spec \<Rightarrow> bool" where
  "unit_compatible_with a b = compatible_with (ps_unit a) (ps_unit b)"

section \<open>Lemmas\<close>

lemma actor_from_byte_byte [simp]: "actor_from_byte (actor_byte a) = Some a"
  by (cases a) (simp_all add: actor_from_byte_def)

lemma actor_from_byte_Some: "actor_from_byte b = Some a \<longleftrightarrow> b = actor_byte a"
  by (cases a) (auto simp: actor_from_byte_def split: if_splits)

lemma from_point_quality_Good: "from_point_quality q = Good \<longleftrightarrow> pq_valid q"
  by (auto simp: from_point_quality_def)

lemma compatible_dims_iff: "compatible_dims a b \<longleftrightarrow> a = b"
  by (cases a) (auto simp: compatible_dims_def)

end
