(* ===== verification/SM3.thy ===== *)
theory SM3
  imports EnerOS_Prelude
begin

text \<open>
  The SM3 hash (\<open>crates/security/crypto/src/sm3/mod.rs\<close>), its streaming hasher, HMAC-SM3
  (\<open>sm3/hmac.rs\<close>) and the constant-time comparison (\<open>constant_time.rs\<close>). The streaming
  hasher is proved equal to a reference definition that pads the whole message and folds the
  compression function over its 64-byte blocks.
\<close>

section \<open>Round functions\<close>

definition sm3_IV :: "u32 list" where
  "sm3_IV = [0x7380166F, 0x4914B2B9, 0x172442D7, 0xDA8A0600, 0xA96F30BC, 0x163138AA, 0xE38DEE4D,
    0xB0FB0E4E]"

definition t_j :: "nat \<Rightarrow> u32" where
  "t_j j = (if j < 16 then 0x79CC4519 else 0x7A879D8A)"

definition ff_j :: "u32 \<Rightarrow> u32 \<Rightarrow> u32 \<Rightarrow> nat \<Rightarrow> u32" where
  "ff_j x y z j = (if j < 16 then x XOR y XOR z else (x AND y) OR (x AND z) OR (y AND z))"

definition gg_j :: "u32 \<Rightarrow> u32 \<Rightarrow> u32 \<Rightarrow> nat \<Rightarrow> u32" where
  "gg_j x y z j = (if j < 16 then x XOR y XOR z else (x AND y) OR ((NOT x) AND z))"

definition rotate_left :: "nat \<Rightarrow> u32 \<Rightarrow> u32" where
  "rotate_left n x = push_bit n x OR drop_bit (32 - n) x"

definition p0 :: "u32 \<Rightarrow> u32" where
  "p0 x = x XOR rotate_left 9 x XOR rotate_left 17 x"

definition p1 :: "u32 \<Rightarrow> u32" where
  "p1 x = x XOR rotate_left 15 x XOR rotate_left 23 x"

section \<open>Message expansion and compression\<close>

text \<open>The first sixteen words are the block read big-endian; the words are appended one by
  one, so that \<open>w ! (j - 16)\<close> reads what the array \<open>w\<close> of the source holds at that point.\<close>

definition block_words :: "bytes \<Rightarrow> u32 list" where
  "block_words block =
     map (\<lambda>i. from_be [block ! (i * 4), block ! (i * 4 + 1), block ! (i * 4 + 2), block ! (i * 4 + 3)])
       [0..<16]"

definition expand_word :: "u32 list \<Rightarrow> nat \<Rightarrow> u32" where
  "expand_word w j =
     (let tmp = w ! (j - 16) XOR w ! (j - 9) XOR rotate_left 15 (w ! (j - 3))
      in p1 tmp XOR rotate_left 7 (w ! (j - 13)) XOR w ! (j - 6))"

definition message_expand :: "bytes \<Rightarrow> u32 list \<times> u32 list" where
  "message_expand block =
     (let w = foldl (\<lambda>w j. w @ [expand_word w j]) (block_words block) [16..<68];
          w_prime = map (\<lambda>j. w ! j XOR w ! (j + 4)) [0..<64]
      in (w, w_prime))"

type_synonym sm3_regs = "u32 \<times> u32 \<times> u32 \<times> u32 \<times> u32 \<times> u32 \<times> u32 \<times> u32"

fun sm3_round :: "u32 list \<Rightarrow> u32 list \<Rightarrow> sm3_regs \<Rightarrow> nat \<Rightarrow> sm3_regs" where
  "sm3_round w w_prime (a, b, c, d, e, f, g, h) j =
     (let ss1 = rotate_left 7 (rotate_left 12 a + e + rotate_left (j mod 32) (t_j j));
          ss2 = ss1 XOR rotate_left 12 a;
          tt1 = ff_j a b c j + d + ss2 + w_prime ! j;
          tt2 = gg_j e f g j + h + ss1 + w ! j
      in (tt1, a, rotate_left 9 b, c, p0 tt2, e, rotate_left 19 f, g))"

definition compress :: "u32 list \<Rightarrow> bytes \<Rightarrow> u32 list" where
  "compress v block =
     (let (w, w_prime) = message_expand block;
          (a, b, c, d, e, f, g, h) =
            foldl (sm3_round w w_prime)
              (v ! 0, v ! 1, v ! 2, v ! 3, v ! 4, v ! 5, v ! 6, v ! 7) [0..<64]
      in [v ! 0 XOR a, v ! 1 XOR b, v ! 2 XOR c, v ! 3 XOR d,
          v ! 4 XOR e, v ! 5 XOR f, v ! 6 XOR g, v ! 7 XOR h])"

section \<open>The streaming hasher\<close>

record sm3_hasher =
  h_state :: "u32 list"
  h_buffer :: bytes
  h_buffer_len :: nat
  h_total_len :: u64

definition sm3_new :: sm3_hasher where
  "sm3_new = \<lparr>h_state = sm3_IV, h_buffer = zeros 64, h_buffer_len = 0, h_total_len = 0\<rparr>"

text \<open>The loop over complete blocks: \<open>data\<close> stands for \<open>data[offset..]\<close>.\<close>

function sm3_blocks :: "u32 list \<Rightarrow> bytes \<Rightarrow> u32 list \<times> bytes" where
  "sm3_blocks v data =
     (if 64 \<le> length data then sm3_blocks (compress v (take 64 data)) (drop 64 data)
      else (v, data))"
  by pat_completeness auto
termination
  by (relation "measure (\<lambda>(v, data). length data)") auto

declare sm3_blocks.simps [simp del]

text \<open>Once the partial buffer has been dealt with: the complete blocks, then what is left goes
  to the front of the buffer (an empty rest leaves buffer and length as they are).\<close>

definition sm3_absorb :: "sm3_hasher \<Rightarrow> bytes \<Rightarrow> sm3_hasher" where
  "sm3_absorb s data =
     (let (v, rest) = sm3_blocks (h_state s) data
      in if rest \<noteq> []
         then s\<lparr>h_state := v, h_buffer := put (h_buffer s) 0 rest, h_buffer_len := length rest\<rparr>
         else s\<lparr>h_state := v\<rparr>)"

definition sm3_update :: "sm3_hasher \<Rightarrow> bytes \<Rightarrow> sm3_hasher" where
  "sm3_update s0 data =
     (let s = s0\<lparr>h_total_len := h_total_len s0 + of_nat (length data)\<rparr>
      in if 0 < h_buffer_len s
         then let need = 64 - h_buffer_len s
              in if length data < need
                 then s\<lparr>h_buffer := put (h_buffer s) (h_buffer_len s) data,
                        h_buffer_len := h_buffer_len s + length data\<rparr>
                 else let buf = put (h_buffer s) (h_buffer_len s) (take need data)
                      in sm3_absorb
                           (s\<lparr>h_buffer := buf, h_state := compress (h_state s) buf, h_buffer_len := 0\<rparr>)
                           (drop need data)
         else sm3_absorb s data)"

definition sm3_finalize :: "sm3_hasher \<Rightarrow> bytes" where
  "sm3_finalize s =
     (let bit_len = h_total_len s * 8;
          buf = (h_buffer s)[h_buffer_len s := 0x80];
          len = h_buffer_len s + 1;
          (v, buf, len) =
            (if 56 < len
             then let buf = put buf len (zeros (64 - len)) in (compress (h_state s) buf, buf, 0)
             else (h_state s, buf, len));
          buf = put buf len (zeros (56 - len));
          buf = put buf 56 (be_bytes 8 bit_len);
          v = compress v buf
      in concat (map (be_bytes 4) v))"

definition sm3_hash :: "bytes \<Rightarrow> bytes" where
  "sm3_hash data = sm3_finalize (sm3_update sm3_new data)"

section \<open>HMAC-SM3 and constant-time comparison\<close>

definition normalize_key :: "bytes \<Rightarrow> bytes" where
  "normalize_key key =
     (if 64 < length key then put (zeros 64) 0 (sm3_hash key) else put (zeros 64) 0 key)"

record sm3_hmac =
  hm_ipad :: bytes
  hm_opad :: bytes
  hm_inner :: sm3_hasher

definition hmac_new :: "bytes \<Rightarrow> sm3_hmac" where
  "hmac_new key =
     (let key_64 = normalize_key key;
          ipad = map (\<lambda>b. b XOR 0x36) key_64;
          opad = map (\<lambda>b. b XOR 0x5C) key_64
      in \<lparr>hm_ipad = ipad, hm_opad = opad, hm_inner = sm3_update sm3_new ipad\<rparr>)"

definition hmac_update :: "sm3_hmac \<Rightarrow> bytes \<Rightarrow> sm3_hmac" where
  "hmac_update c data = c\<lparr>hm_inner := sm3_update (hm_inner c) data\<rparr>"

definition hmac_finalize :: "sm3_hmac \<Rightarrow> bytes" where
  "hmac_finalize c =
     sm3_finalize (sm3_update (sm3_update sm3_new (hm_opad c)) (sm3_finalize (hm_inner c)))"

definition hmac_sm3 :: "bytes \<Rightarrow> bytes \<Rightarrow> bytes" where
  "hmac_sm3 key msg = hmac_finalize (hmac_update (hmac_new key) msg)"

text \<open>The accumulator loop of \<open>ct_eq\<close>, over the pairs of bytes of two equally long slices.\<close>

definition ct_eq :: "bytes \<Rightarrow> bytes \<Rightarrow> bool" where
  "ct_eq a b =
     (if length a \<noteq> length b then False
      else foldl (\<lambda>diff p. diff OR (fst p XOR snd p)) 0 (zip a b) = 0)"

section \<open>Reference definition\<close>

text \<open>The hash as the standard states it: pad the message to a multiple of 64 bytes (a one
  bit, zeros, the bit length) and fold the compression function over the blocks.\<close>

function chunks :: "bytes \<Rightarrow> bytes list" where
  "chunks xs = (if 64 \<le> length xs then take 64 xs # chunks (drop 64 xs) else [])"
  by pat_completeness auto
termination
  by (relation "measure length") auto

declare chunks.simps [simp del]

definition sm3_pad :: "bytes \<Rightarrow> bytes" where
  "sm3_pad msg =
     msg @ [0x80] @ zeros ((119 - length msg mod 64) mod 64) @ be_bytes 8 (of_nat (length msg) * 8 :: u64)"

definition sm3_reference :: "bytes \<Rightarrow> bytes" where
  "sm3_reference msg = concat (map (be_bytes 4) (foldl compress sm3_IV (chunks (sm3_pad msg))))"

text \<open>A hasher has absorbed a message when its state is the fold over the complete blocks and
  its buffer starts with the rest.\<close>

definition absorbed :: "sm3_hasher \<Rightarrow> bytes \<Rightarrow> bool" where
  "absorbed s msg \<longleftrightarrow>
     (\<exists>full rest. msg = full @ rest \<and> 64 dvd length full \<and> length rest < 64 \<and>
        length (h_buffer s) = 64 \<and> h_buffer_len s = length rest \<and>
        take (length rest) (h_buffer s) = rest \<and>
        h_state s = foldl compress sm3_IV (chunks full) \<and>
        h_total_len s = of_nat (length msg))"

section \<open>Lemmas\<close>

lemma chunks_short: "length xs < 64 \<Longrightarrow> chunks xs = []"
  by (subst chunks.simps) simp

lemma chunks_64: "length xs = 64 \<Longrightarrow> chunks xs = [xs]"
  by (subst chunks.simps) (simp add: chunks_short)

lemma chunks_append: "64 dvd length xs \<Longrightarrow> chunks (xs @ ys) = chunks xs @ chunks ys"
proof (induction xs rule: chunks.induct)
  case (1 xs)
  show ?case
  proof (cases "64 \<le> length xs")
    case True
    with 1 have "chunks (drop 64 xs @ ys) = chunks (drop 64 xs) @ chunks ys"
      by (simp add: dvd_diff_nat)
    with True show ?thesis
      by (simp add: chunks.simps[of "xs @ ys"] chunks.simps[of xs])
  next
    case False
    with 1 have "xs = []" by (cases "length xs = 0") (auto dest: dvd_imp_le)
    then show ?thesis by (simp add: chunks_short)
  qed
qed

lemma sm3_blocks_split:
  "\<exists>full rest. data = full @ rest \<and> 64 dvd length full \<and> length rest < 64 \<and>
     sm3_blocks v data = (foldl compress v (chunks full), rest)"
proof (induction v data rule: sm3_blocks.induct)
  case (1 v data)
  show ?case
  proof (cases "64 \<le> length data")
    case True
    with 1 obtain full rest where ih: "drop 64 data = full @ rest" "64 dvd length full"
      "length rest < 64"
      "sm3_blocks (compress v (take 64 data)) (drop 64 data)
         = (foldl compress (compress v (take 64 data)) (chunks full), rest)"
      by blast
    from True have t: "length (take 64 data) = 64" by simp
    have "chunks (take 64 data @ full) = take 64 data # chunks full"
      using t by (simp add: chunks_append chunks_64)
    moreover have "data = (take 64 data @ full) @ rest"
      using ih(1) by (metis append.assoc append_take_drop_id)
    moreover have "64 dvd length (take 64 data @ full)"
      using t ih(2) by simp
    ultimately show ?thesis
      using True ih by (subst sm3_blocks.simps) (metis foldl_Cons)
  next
    case False
    then show ?thesis
      by (subst sm3_blocks.simps) (auto intro!: exI[of _ "[]"] simp: chunks_short)
  qed
qed

lemma absorbed_new: "absorbed sm3_new []"
  by (simp add: absorbed_def sm3_new_def chunks_short)

text \<open>With an empty buffer, absorbing data continues the fold.\<close>

lemma absorbed_absorb:
  assumes "h_buffer_len s = 0" and "length (h_buffer s) = 64" and "64 dvd length full"
    and "h_state s = foldl compress sm3_IV (chunks full)"
    and "h_total_len s = of_nat (length (full @ data))"
  shows "absorbed (sm3_absorb s data) (full @ data)"
proof -
  obtain f r where fr: "data = f @ r" "64 dvd length f" "length r < 64"
    "sm3_blocks (h_state s) data = (foldl compress (h_state s) (chunks f), r)"
    using sm3_blocks_split[of data "h_state s"] by blast
  have st: "foldl compress (h_state s) (chunks f) = foldl compress sm3_IV (chunks (full @ f))"
    using assms(3,4) by (simp add: chunks_append)
  show ?thesis
    unfolding absorbed_def
  proof (intro exI conjI)
    show "full @ data = (full @ f) @ r" by (simp add: fr(1))
    show "64 dvd length (full @ f)" using assms(3) fr(2) by simp
    show "h_state (sm3_absorb s data) = foldl compress sm3_IV (chunks (full @ f))"
      using st by (simp add: sm3_absorb_def fr(4))
  qed (use assms fr in \<open>auto simp: sm3_absorb_def put_def\<close>)
qed

lemma absorbed_update:
  assumes "absorbed s msg"
  shows "absorbed (sm3_update s data) (msg @ data)"
proof -
  from assms obtain full rest where m: "msg = full @ rest" "64 dvd length full"
    "length rest < 64" "length (h_buffer s) = 64" "h_buffer_len s = length rest"
    "take (length rest) (h_buffer s) = rest"
    "h_state s = foldl compress sm3_IV (chunks full)" "h_total_len s = of_nat (length msg)"
    unfolding absorbed_def by blast
  let ?need = "64 - length rest"
  consider (empty) "rest = []" | (short) "rest \<noteq> []" "length data < ?need"
    | (fill) "rest \<noteq> []" "?need \<le> length data" by linarith
  then show ?thesis
  proof cases
    case empty
    with m show ?thesis
      using absorbed_absorb[of "s\<lparr>h_total_len := h_total_len s + of_nat (length data)\<rparr>" full data]
      by (simp add: sm3_update_def)
  next
    case short
    with m show ?thesis
      unfolding absorbed_def sm3_update_def
      by (intro exI[of _ full] exI[of _ "rest @ data"]) (auto simp: put_def Let_def)
  next
    case fill
    let ?buf = "put (h_buffer s) (length rest) (take ?need data)"
    let ?s = "s\<lparr>h_total_len := h_total_len s + of_nat (length data), h_buffer := ?buf,
      h_state := compress (h_state s) ?buf, h_buffer_len := 0\<rparr>"
    have buf: "?buf = rest @ take ?need data" "length ?buf = 64"
      using m fill by (simp_all add: put_def)
    have "absorbed (sm3_absorb ?s (drop ?need data)) ((full @ ?buf) @ drop ?need data)"
    proof (rule absorbed_absorb)
      show "h_state ?s = foldl compress sm3_IV (chunks (full @ ?buf))"
        using m buf(2) by (simp add: chunks_append chunks_64)
      show "h_total_len ?s = of_nat (length ((full @ ?buf) @ drop ?need data))"
        using m fill by (simp add: buf(1) add.assoc flip: of_nat_add)
    qed (use m buf in auto)
    moreover have "(full @ ?buf) @ drop ?need data = msg @ data"
      by (simp add: buf(1) m(1))
    ultimately show ?thesis
      using m fill by (simp add: sm3_update_def Let_def)
  qed
qed

lemma list_update_take_Cons:
  "n < length xs \<Longrightarrow> xs[n := x] = take n xs @ x # drop (Suc n) xs"
  by (simp add: upd_conv_take_nth_drop)

lemma absorbed_finalize:
  assumes "absorbed s msg"
  shows "sm3_finalize s = sm3_reference msg"
proof -
  from assms obtain full rest where m: "msg = full @ rest" "64 dvd length full"
    "length rest < 64" "length (h_buffer s) = 64" "h_buffer_len s = length rest"
    "take (length rest) (h_buffer s) = rest"
    "h_state s = foldl compress sm3_IV (chunks full)" "h_total_len s = of_nat (length msg)"
    unfolding absorbed_def by blast
  let ?n = "length rest" and ?len = "be_bytes 8 (of_nat (length msg) * 8 :: u64)"
  have buf: "(h_buffer s)[?n := 0x80] = rest @ 0x80 # drop (Suc ?n) (h_buffer s)"
    using m by (simp add: list_update_take_Cons)
  have mod: "length msg mod 64 = ?n"
    using m(1-3) by (auto elim!: dvdE)
  have pad: "chunks (sm3_pad msg)
      = chunks full @ chunks (rest @ [0x80] @ zeros ((119 - ?n) mod 64) @ ?len)"
    unfolding sm3_pad_def mod using m(1,2) by (simp add: chunks_append)
  show ?thesis
  proof (cases "56 < Suc ?n")
    case True
    let ?b1 = "rest @ 0x80 # zeros (63 - ?n)" and ?b2 = "zeros 56 @ ?len"
    have l: "length ?b1 = 64" "length ?b2 = 64" using m(3) by simp_all
    have "119 - ?n < 64" "119 - ?n = (63 - ?n) + 56" using True m(3) by simp_all
    then have k: "(119 - ?n) mod 64 = (63 - ?n) + 56" by (metis mod_less)
    have e: "rest @ [0x80] @ zeros ((119 - ?n) mod 64) @ ?len = ?b1 @ ?b2"
      unfolding k replicate_add append_assoc append.simps ..
    have "64 dvd length ?b1" using l(1) by simp
    then have "chunks (?b1 @ ?b2) = chunks ?b1 @ chunks ?b2" by (rule chunks_append)
    then have "chunks (sm3_pad msg) = chunks full @ [?b1, ?b2]"
      unfolding pad e chunks_64[OF l(1)] chunks_64[OF l(2)] by simp
    moreover have "put ((h_buffer s)[?n := 0x80]) (Suc ?n) (zeros (64 - Suc ?n)) = ?b1"
      using m(3,4) by (simp add: buf put_def)
    moreover have "put (put ?b1 0 (zeros 56)) 56 ?len = ?b2"
      using l by (simp add: put_def)
    ultimately show ?thesis
      using True unfolding sm3_finalize_def sm3_reference_def Let_def m(5,7,8) by simp
  next
    case False
    let ?b = "rest @ 0x80 # zeros (55 - ?n) @ ?len"
    have l: "length ?b = 64" using False by simp
    have d56: "56 - ?n = Suc (55 - ?n)" using False by simp
    have "119 - ?n = (55 - ?n) + 64" "55 - ?n < 64" using False by simp_all
    then have "(119 - ?n) mod 64 = 55 - ?n" by (metis mod_add_self2 mod_less)
    then have "chunks (sm3_pad msg) = chunks full @ [?b]"
      using l pad by (simp add: chunks_64)
    moreover have "put (put ((h_buffer s)[?n := 0x80]) (Suc ?n) (zeros (56 - Suc ?n))) 56 ?len = ?b"
      using False m(4) d56 by (simp add: buf put_def)
    ultimately show ?thesis
      using False unfolding sm3_finalize_def sm3_reference_def Let_def m(5,7,8) by simp
  qed
qed

lemma absorbed_updates: "absorbed s msg \<Longrightarrow> absorbed (foldl sm3_update s ds) (msg @ concat ds)"
  by (induction ds arbitrary: s msg) (auto dest: absorbed_update simp flip: append_assoc)

lemma length_compress [simp]: "length (compress v block) = 8"
  by (simp add: compress_def split: prod.splits)

lemma length_sm3_finalize [simp]: "length (sm3_finalize s) = 32"
proof -
  have "length (concat (map (be_bytes 4) (xs :: u32 list))) = 4 * length xs" for xs
    by (induction xs) auto
  then show ?thesis by (simp add: sm3_finalize_def Let_def split: prod.splits)
qed

lemma length_sm3_hash [simp]: "length (sm3_hash data) = 32"
  by (simp add: sm3_hash_def)

lemma length_hmac_sm3 [simp]: "length (hmac_sm3 key msg) = 32"
  by (simp add: hmac_sm3_def hmac_finalize_def)

lemma ct_eq_fold:
  "length a = length b \<Longrightarrow>
     foldl (\<lambda>diff p. diff OR (fst p XOR snd p)) d (zip a b) = (0::u8) \<longleftrightarrow> d = 0 \<and> a = b"
proof (induction a b arbitrary: d rule: list_induct2)
  case (Cons x xs y ys)
  have "d OR (x XOR y) = 0 \<longleftrightarrow> d = 0 \<and> x = y"
    by (auto simp: bit_eq_iff bit_or_iff bit_xor_iff)
  with Cons show ?case by auto
qed simp

lemma ct_eq_iff: "ct_eq a b \<longleftrightarrow> a = b"
  by (auto simp: ct_eq_def ct_eq_fold)

section \<open>Properties\<close>

text \<open>C32. Feeding a message to the streaming hasher in any split into pieces and finalizing gives the SM3 digest of the whole message as the standard defines it: pad, cut into blocks, fold the compression function.\<close>

theorem sm3_streaming_correct:
  "sm3_finalize (foldl sm3_update sm3_new ds) = sm3_reference (concat ds)"
  using absorbed_updates [OF absorbed_new, of ds] by (intro absorbed_finalize) simp

text \<open>C33. The function hmac_sm3 is HMAC over SM3 for every key length: keys longer than a block are hashed first, shorter ones are padded with zeros.\<close>

theorem hmac_sm3_correct:
  "hmac_sm3 key msg =
     (let k = (if 64 < length key then sm3_reference key else key);
          k64 = k @ zeros (64 - length k)
      in sm3_reference (map (\<lambda>b. b XOR 0x5C) k64 @
           sm3_reference (map (\<lambda>b. b XOR 0x36) k64 @ msg)))"
proof -
  have two: "sm3_finalize (sm3_update (sm3_update sm3_new a) b) = sm3_reference (a @ b)" for a b
    using absorbed_updates [OF absorbed_new, of "[a, b]"] by (intro absorbed_finalize) simp
  have one: "sm3_hash a = sm3_reference a" for a
    using absorbed_updates [OF absorbed_new, of "[a]"] unfolding sm3_hash_def by (intro absorbed_finalize) simp
  moreover have "length (sm3_reference a) = 32" for a
    using length_sm3_hash [of a] by (simp only: one)
  ultimately show ?thesis
    by (simp add: hmac_sm3_def hmac_finalize_def hmac_update_def hmac_new_def normalize_key_def two put_def Let_def)
qed

text \<open>The constant-time comparison decides equality of byte strings, unequal lengths included.\<close>

lemma ct_eq_correct: "ct_eq a b \<longleftrightarrow> a = b"
  by (rule ct_eq_iff)

end
