(* ===== verification/Envelope.thy ===== *)
theory Envelope
  imports Command_Model SM3
begin

text \<open>
  The command envelope codec (\<open>crates/protocols/control-gateway/src/envelope.rs\<close>): a fixed
  172-byte little-endian record whose last 32 bytes are an HMAC-SM3 tag over the 140-byte
  header, its builder, and the decoder that rejects every other byte string.
\<close>

section \<open>Data\<close>

definition ENVELOPE_LEN :: nat where "ENVELOPE_LEN = 172"
definition HEADER_LEN :: nat where "HEADER_LEN = 140"
definition ENV_VERSION :: u8 where "ENV_VERSION = 2"

datatype envelope_error =
  BadLength nat | BadVersion u8 | BadCommand u8 u8 | BadActor u8

record command_envelope =
  env_command_id :: bytes
  env_correlation_id :: bytes
  env_sequence :: u64
  env_device_id :: u32
  env_point_id :: u32
  env_command :: control_command
  env_actor_kind :: actor_kind
  env_issuer :: bytes
  env_timestamp :: u64
  env_expiry :: u64
  env_lease_id :: bytes
  env_fencing_token :: u64
  env_policy_version :: u64
  env_config_version :: u64
  env_idempotency_key :: bytes
  env_hmac :: bytes

record envelope_builder =
  eb_command_id :: bytes
  eb_correlation_id :: bytes
  eb_sequence :: u64
  eb_device_id :: u32
  eb_point_id :: u32
  eb_command :: control_command
  eb_actor_kind :: actor_kind
  eb_issuer :: bytes
  eb_timestamp :: u64
  eb_expiry :: u64
  eb_lease_id :: bytes
  eb_fencing_token :: u64
  eb_policy_version :: u64
  eb_config_version :: u64
  eb_idempotency_key :: bytes

section \<open>Commands as bytes\<close>

fun encode_command :: "control_command \<Rightarrow> u8 \<times> u8" where
  "encode_command (Single SOff) = (0, 0)"
| "encode_command (Single SOn) = (0, 1)"
| "encode_command (Double DOff) = (1, 0)"
| "encode_command (Double DOn) = (1, 1)"
| "encode_command (Double DIntermediate) = (1, 2)"
| "encode_command (Double DBad) = (1, 3)"

definition decode_command :: "u8 \<Rightarrow> u8 \<Rightarrow> envelope_error + control_command" where
  "decode_command tag val =
     (if (tag, val) = (0, 0) then Inr (Single SOff)
      else if (tag, val) = (0, 1) then Inr (Single SOn)
      else if (tag, val) = (1, 0) then Inr (Double DOff)
      else if (tag, val) = (1, 1) then Inr (Double DOn)
      else if (tag, val) = (1, 2) then Inr (Double DIntermediate)
      else if (tag, val) = (1, 3) then Inr (Double DBad)
      else Inl (BadCommand tag val))"

section \<open>Encoding\<close>

definition encode_header_into :: "command_envelope \<Rightarrow> bytes \<Rightarrow> bytes" where
  "encode_header_into e buf =
     (let buf = buf[0 := ENV_VERSION];
          buf = put buf 1 (env_command_id e);
          buf = put buf 17 (env_correlation_id e);
          buf = put buf 33 (le_bytes 8 (env_sequence e));
          buf = put buf 41 (le_bytes 4 (env_device_id e));
          buf = put buf 45 (le_bytes 4 (env_point_id e));
          (tag, val) = encode_command (env_command e);
          buf = buf[49 := tag];
          buf = buf[50 := val];
          buf = buf[51 := actor_byte (env_actor_kind e)];
          buf = put buf 52 (env_issuer e);
          buf = put buf 68 (le_bytes 8 (env_timestamp e));
          buf = put buf 76 (le_bytes 8 (env_expiry e));
          buf = put buf 84 (env_lease_id e);
          buf = put buf 100 (le_bytes 8 (env_fencing_token e));
          buf = put buf 108 (le_bytes 8 (env_policy_version e));
          buf = put buf 116 (le_bytes 8 (env_config_version e))
      in put buf 124 (env_idempotency_key e))"

definition env_encode :: "command_envelope \<Rightarrow> bytes" where
  "env_encode e = put (encode_header_into e (zeros ENVELOPE_LEN)) 140 (env_hmac e)"

definition env_decode :: "bytes \<Rightarrow> envelope_error + command_envelope" where
  "env_decode buf =
     (if length buf \<noteq> ENVELOPE_LEN then Inl (BadLength (length buf))
      else if buf ! 0 \<noteq> ENV_VERSION then Inl (BadVersion (buf ! 0))
      else case decode_command (buf ! 49) (buf ! 50) of
        Inl err \<Rightarrow> Inl err
      | Inr cmd \<Rightarrow>
        (case actor_from_byte (buf ! 51) of
          None \<Rightarrow> Inl (BadActor (buf ! 51))
        | Some actor \<Rightarrow>
          Inr \<lparr>env_command_id = slice 1 17 buf, env_correlation_id = slice 17 33 buf,
            env_sequence = from_le (slice 33 41 buf),
            env_device_id = from_le (slice 41 45 buf), env_point_id = from_le (slice 45 49 buf),
            env_command = cmd, env_actor_kind = actor, env_issuer = slice 52 68 buf,
            env_timestamp = from_le (slice 68 76 buf), env_expiry = from_le (slice 76 84 buf),
            env_lease_id = slice 84 100 buf, env_fencing_token = from_le (slice 100 108 buf),
            env_policy_version = from_le (slice 108 116 buf),
            env_config_version = from_le (slice 116 124 buf),
            env_idempotency_key = slice 124 140 buf, env_hmac = slice 140 172 buf\<rparr>))"

definition env_header :: "command_envelope \<Rightarrow> bytes" where
  "env_header e = take HEADER_LEN (encode_header_into e (zeros ENVELOPE_LEN))"

definition verify_hmac :: "command_envelope \<Rightarrow> bytes \<Rightarrow> bool" where
  "verify_hmac e key = ct_eq (hmac_sm3 key (env_header e)) (env_hmac e)"

section \<open>The builder\<close>

definition eb_new ::
  "bytes \<Rightarrow> u32 \<Rightarrow> u32 \<Rightarrow> control_command \<Rightarrow> u64 \<Rightarrow> u64 \<Rightarrow> bytes \<Rightarrow> envelope_builder" where
  "eb_new command_id device_id point_id command timestamp expiry issuer =
     \<lparr>eb_command_id = command_id, eb_correlation_id = command_id, eb_sequence = 0,
      eb_device_id = device_id, eb_point_id = point_id, eb_command = command,
      eb_actor_kind = Operator, eb_issuer = issuer, eb_timestamp = timestamp,
      eb_expiry = expiry, eb_lease_id = zeros 16, eb_fencing_token = 0,
      eb_policy_version = 0, eb_config_version = 0, eb_idempotency_key = zeros 16\<rparr>"

definition with_correlation_id :: "envelope_builder \<Rightarrow> bytes \<Rightarrow> envelope_builder" where
  "with_correlation_id b i = b\<lparr>eb_correlation_id := i\<rparr>"

definition with_sequence :: "envelope_builder \<Rightarrow> u64 \<Rightarrow> envelope_builder" where
  "with_sequence b n = b\<lparr>eb_sequence := n\<rparr>"

definition with_actor_kind :: "envelope_builder \<Rightarrow> actor_kind \<Rightarrow> envelope_builder" where
  "with_actor_kind b k = b\<lparr>eb_actor_kind := k\<rparr>"

definition with_lease :: "envelope_builder \<Rightarrow> bytes \<Rightarrow> u64 \<Rightarrow> envelope_builder" where
  "with_lease b i t = b\<lparr>eb_lease_id := i, eb_fencing_token := t\<rparr>"

definition with_policy_version :: "envelope_builder \<Rightarrow> u64 \<Rightarrow> envelope_builder" where
  "with_policy_version b v = b\<lparr>eb_policy_version := v\<rparr>"

definition with_config_version :: "envelope_builder \<Rightarrow> u64 \<Rightarrow> envelope_builder" where
  "with_config_version b v = b\<lparr>eb_config_version := v\<rparr>"

definition with_idempotency_key :: "envelope_builder \<Rightarrow> bytes \<Rightarrow> envelope_builder" where
  "with_idempotency_key b k = b\<lparr>eb_idempotency_key := k\<rparr>"

definition eb_build :: "envelope_builder \<Rightarrow> bytes \<Rightarrow> command_envelope" where
  "eb_build b key =
     (let env = \<lparr>env_command_id = eb_command_id b, env_correlation_id = eb_correlation_id b,
            env_sequence = eb_sequence b, env_device_id = eb_device_id b,
            env_point_id = eb_point_id b, env_command = eb_command b,
            env_actor_kind = eb_actor_kind b, env_issuer = eb_issuer b,
            env_timestamp = eb_timestamp b, env_expiry = eb_expiry b,
            env_lease_id = eb_lease_id b, env_fencing_token = eb_fencing_token b,
            env_policy_version = eb_policy_version b, env_config_version = eb_config_version b,
            env_idempotency_key = eb_idempotency_key b, env_hmac = zeros 32\<rparr>
      in env\<lparr>env_hmac := hmac_sm3 key (env_header env)\<rparr>)"

section \<open>Well-formedness\<close>

text \<open>The fixed-size arrays of the Rust types.\<close>

definition env_wf :: "command_envelope \<Rightarrow> bool" where
  "env_wf e \<longleftrightarrow>
     length (env_command_id e) = 16 \<and> length (env_correlation_id e) = 16 \<and>
     length (env_issuer e) = 16 \<and> length (env_lease_id e) = 16 \<and>
     length (env_idempotency_key e) = 16 \<and> length (env_hmac e) = 32"

definition eb_wf :: "envelope_builder \<Rightarrow> bool" where
  "eb_wf b \<longleftrightarrow>
     length (eb_command_id b) = 16 \<and> length (eb_correlation_id b) = 16 \<and>
     length (eb_issuer b) = 16 \<and> length (eb_lease_id b) = 16 \<and>
     length (eb_idempotency_key b) = 16"

section \<open>Lemmas\<close>

lemma put_zeros:
  "length pre = a \<Longrightarrow> put (pre @ zeros n) a xs = (pre @ xs) @ zeros (n - length xs)"
  by (simp add: put_def)

lemma update_zeros:
  "length pre = a \<Longrightarrow> 0 < n \<Longrightarrow> (pre @ zeros n)[a := x] = (pre @ [x]) @ zeros (n - 1)"
  by (cases n) (simp_all add: list_update_append)

lemma update_zeros_0: "0 < n \<Longrightarrow> (zeros n)[0 := x] = [x] @ zeros (n - 1)"
  by (cases n) simp_all

lemma decode_encode_command [simp]:
  "decode_command (fst (encode_command c)) (snd (encode_command c)) = Inr c"
  by (cases c rule: encode_command.cases) (simp_all add: decode_command_def)

lemma decode_command_Inr: "decode_command t v = Inr c \<longleftrightarrow> encode_command c = (t, v)"
  by (cases c rule: encode_command.cases) (auto simp: decode_command_def split: if_splits)

text \<open>Before the tag, the envelope is the concatenation of its fields.\<close>

definition env_fields :: "command_envelope \<Rightarrow> bytes" where
  "env_fields e =
     [ENV_VERSION] @ env_command_id e @ env_correlation_id e @ le_bytes 8 (env_sequence e) @
     le_bytes 4 (env_device_id e) @ le_bytes 4 (env_point_id e) @
     [fst (encode_command (env_command e))] @ [snd (encode_command (env_command e))] @
     [actor_byte (env_actor_kind e)] @ env_issuer e @ le_bytes 8 (env_timestamp e) @
     le_bytes 8 (env_expiry e) @ env_lease_id e @ le_bytes 8 (env_fencing_token e) @
     le_bytes 8 (env_policy_version e) @ le_bytes 8 (env_config_version e) @
     env_idempotency_key e"

lemma length_env_fields: "env_wf e \<Longrightarrow> length (env_fields e) = 140"
  by (simp add: env_fields_def env_wf_def)

lemma encode_header_into_fields:
  assumes "env_wf e"
  shows "encode_header_into e (zeros ENVELOPE_LEN) = env_fields e @ zeros 32"
  using assms
  unfolding encode_header_into_def ENVELOPE_LEN_def env_fields_def env_wf_def Let_def case_prod_beta
  by (simp add: update_zeros_0 update_zeros put_zeros del: append_assoc append.simps)

lemma env_encode_fields: "env_wf e \<Longrightarrow> env_encode e = env_fields e @ env_hmac e"
  unfolding env_encode_def
  by (simp add: encode_header_into_fields put_def length_env_fields) (simp add: env_wf_def)

lemma env_header_fields: "env_wf e \<Longrightarrow> env_header e = env_fields e"
  by (simp add: env_header_def encode_header_into_fields HEADER_LEN_def length_env_fields)

lemma length_env_encode: "env_wf e \<Longrightarrow> length (env_encode e) = ENVELOPE_LEN"
  by (simp add: env_encode_fields length_env_fields ENVELOPE_LEN_def) (simp add: env_wf_def)

lemma env_decode_encode:
  assumes "env_wf e"
  shows "env_decode (env_encode e) = Inr e"
proof -
  let ?b = "env_encode e"
  have b: "?b = env_fields e @ env_hmac e" using assms by (rule env_encode_fields)
  note wf = assms[unfolded env_wf_def]
  have nths: "?b ! 0 = ENV_VERSION" "?b ! 49 = fst (encode_command (env_command e))"
    "?b ! 50 = snd (encode_command (env_command e))" "?b ! 51 = actor_byte (env_actor_kind e)"
    unfolding b env_fields_def using wf by (simp_all add: nth_append)
  have s1: "slice 1 17 ?b = env_command_id e" "slice 17 33 ?b = env_correlation_id e"
    "slice 33 41 ?b = le_bytes 8 (env_sequence e)" "slice 41 45 ?b = le_bytes 4 (env_device_id e)"
    "slice 45 49 ?b = le_bytes 4 (env_point_id e)" "slice 52 68 ?b = env_issuer e"
    "slice 68 76 ?b = le_bytes 8 (env_timestamp e)" "slice 76 84 ?b = le_bytes 8 (env_expiry e)"
    unfolding b env_fields_def using wf by (simp_all add: slice_def)
  have s2: "slice 84 100 ?b = env_lease_id e" "slice 100 108 ?b = le_bytes 8 (env_fencing_token e)"
    "slice 108 116 ?b = le_bytes 8 (env_policy_version e)"
    "slice 116 124 ?b = le_bytes 8 (env_config_version e)"
    "slice 124 140 ?b = env_idempotency_key e" "slice 140 172 ?b = env_hmac e"
    unfolding b env_fields_def using wf by (simp_all add: slice_def)
  show ?thesis
    unfolding env_decode_def nths s1 s2 by (simp add: length_env_encode assms)
qed

lemma env_decode_canonical:
  assumes "env_decode buf = Inr e"
  shows "env_wf e \<and> env_encode e = buf"
proof -
  from assms obtain c a where len: "length buf = 172" and v: "buf ! 0 = ENV_VERSION"
    and c: "encode_command c = (buf ! 49, buf ! 50)" and a: "buf ! 51 = actor_byte a"
    and e: "e = \<lparr>env_command_id = slice 1 17 buf, env_correlation_id = slice 17 33 buf,
            env_sequence = from_le (slice 33 41 buf),
            env_device_id = from_le (slice 41 45 buf), env_point_id = from_le (slice 45 49 buf),
            env_command = c, env_actor_kind = a, env_issuer = slice 52 68 buf,
            env_timestamp = from_le (slice 68 76 buf), env_expiry = from_le (slice 76 84 buf),
            env_lease_id = slice 84 100 buf, env_fencing_token = from_le (slice 100 108 buf),
            env_policy_version = from_le (slice 108 116 buf),
            env_config_version = from_le (slice 116 124 buf),
            env_idempotency_key = slice 124 140 buf, env_hmac = slice 140 172 buf\<rparr>"
    by (auto simp: env_decode_def ENVELOPE_LEN_def decode_command_Inr actor_from_byte_Some
        split: if_splits sum.splits option.splits)
  have wf: "env_wf e" unfolding e env_wf_def using len by simp
  have "env_encode e = slice 0 1 buf @ slice 1 17 buf @ slice 17 33 buf @ slice 33 41 buf @
     slice 41 45 buf @ slice 45 49 buf @ slice 49 50 buf @ slice 50 51 buf @ slice 51 52 buf @
     slice 52 68 buf @ slice 68 76 buf @ slice 76 84 buf @ slice 84 100 buf @ slice 100 108 buf @
     slice 108 116 buf @ slice 116 124 buf @ slice 124 140 buf @ slice 140 172 buf"
    unfolding env_encode_fields[OF wf] env_fields_def unfolding e
    using len c by (simp add: nth_slice flip: v a)
  also have "\<dots> = slice 0 172 buf"
    by (simp add: slice_join_left slice_join)
  also have "\<dots> = buf" using len by (simp add: slice_whole)
  finally show ?thesis using wf by simp
qed

interpretation env_codec: codec env_encode env_decode env_wf
  by unfold_locales (simp_all add: env_decode_encode env_decode_canonical)

text \<open>The header, and so the tag that authenticates it, ignores the stored tag.\<close>

lemma env_header_hmac [simp]: "env_header (e\<lparr>env_hmac := t\<rparr>) = env_header e"
  by (simp add: env_header_def encode_header_into_def)

lemma verify_hmac_iff: "verify_hmac e key \<longleftrightarrow> env_hmac e = hmac_sm3 key (env_header e)"
  by (auto simp: verify_hmac_def ct_eq_iff)

lemma verify_hmac_build: "verify_hmac (eb_build b key) key"
  unfolding verify_hmac_iff eb_build_def Let_def env_header_hmac by simp

lemma env_wf_build: "eb_wf b \<Longrightarrow> env_wf (eb_build b key)"
  by (simp add: eb_build_def Let_def env_wf_def eb_wf_def)

lemma eb_build_fields [simp]:
  "env_command_id (eb_build b key) = eb_command_id b"
  "env_correlation_id (eb_build b key) = eb_correlation_id b"
  "env_sequence (eb_build b key) = eb_sequence b"
  "env_device_id (eb_build b key) = eb_device_id b"
  "env_point_id (eb_build b key) = eb_point_id b"
  "env_command (eb_build b key) = eb_command b"
  "env_actor_kind (eb_build b key) = eb_actor_kind b"
  "env_issuer (eb_build b key) = eb_issuer b"
  "env_timestamp (eb_build b key) = eb_timestamp b"
  "env_expiry (eb_build b key) = eb_expiry b"
  "env_lease_id (eb_build b key) = eb_lease_id b"
  "env_fencing_token (eb_build b key) = eb_fencing_token b"
  "env_policy_version (eb_build b key) = eb_policy_version b"
  "env_idempotency_key (eb_build b key) = eb_idempotency_key b"
  by (simp_all add: eb_build_def Let_def)

lemmas builder_defs = eb_new_def with_correlation_id_def with_sequence_def with_actor_kind_def
  with_lease_def with_policy_version_def with_config_version_def with_idempotency_key_def

section \<open>Properties\<close>

text \<open>C34. The envelope codec is a bijection between well-formed envelopes and the byte strings the decoder accepts: decoding succeeds exactly on the encoding of the envelope it returns, so no two byte strings decode to the same command.\<close>

theorem envelope_decode_iff: "env_decode bs = Inr e \<longleftrightarrow> env_wf e \<and> bs = env_encode e"
  by (rule env_codec.decode_iff)

text \<open>An envelope produced by the builder decodes to itself, verifies under the key it was built with, and its tag is the HMAC of the first 140 bytes on the wire.\<close>

theorem built_envelope_authentic:
  assumes "eb_wf b"
  shows "env_decode (env_encode (eb_build b key)) = Inr (eb_build b key) \<and>
    verify_hmac (eb_build b key) key \<and>
    env_hmac (eb_build b key) = hmac_sm3 key (take 140 (env_encode (eb_build b key)))"
proof -
  have wf: "env_wf (eb_build b key)" using assms by (rule env_wf_build)
  then have "take 140 (env_encode (eb_build b key)) = env_header (eb_build b key)"
    by (simp add: env_header_fields env_encode_fields length_env_fields)
  with wf verify_hmac_build [of b key] show ?thesis
    by (auto simp: env_decode_encode verify_hmac_iff)
qed

theorem built_envelope_authentic_witness:
  "verify_hmac (eb_build (eb_new (replicate 16 2) 7 3 (Single SOn) 100 200 (replicate 16 3)) [9]) [9]"
  using built_envelope_authentic [of "eb_new (replicate 16 2) 7 3 (Single SOn) 100 200 (replicate 16 3)" "[9]"]
  by (simp add: eb_wf_def eb_new_def)

end
