(* ===== verification/Ordered_Map.thy ===== *)
theory Ordered_Map
  imports EnerOS_Prelude
begin

text \<open>
  The part of \<open>alloc::collections::BTreeMap\<close> the modelled crates rely on, as an association
  list kept strictly sorted by key, and the interface (\<open>ordered_map\<close>) its clients are proved
  against: lookup after insert and remove, the number of entries, and the least key.
\<close>

type_synonym ('k, 'v) btree = "('k \<times> 'v) list"

section \<open>Operations\<close>

abbreviation bt_empty :: "('k, 'v) btree" where
  "bt_empty \<equiv> []"

definition bt_get :: "('k, 'v) btree \<Rightarrow> 'k \<Rightarrow> 'v option" where
  "bt_get m k = map_of m k"

fun bt_insert :: "('k::linorder, 'v) btree \<Rightarrow> 'k \<Rightarrow> 'v \<Rightarrow> ('k, 'v) btree" where
  "bt_insert [] k v = [(k, v)]"
| "bt_insert ((k', v') # m) k v =
     (if k < k' then (k, v) # (k', v') # m
      else if k = k' then (k, v) # m
      else (k', v') # bt_insert m k v)"

definition bt_remove :: "('k, 'v) btree \<Rightarrow> 'k \<Rightarrow> ('k, 'v) btree" where
  "bt_remove m k = filter (\<lambda>p. fst p \<noteq> k) m"

definition bt_contains :: "('k, 'v) btree \<Rightarrow> 'k \<Rightarrow> bool" where
  "bt_contains m k = (bt_get m k \<noteq> None)"

definition bt_first_key :: "('k, 'v) btree \<Rightarrow> 'k option" where
  "bt_first_key m = (case m of [] \<Rightarrow> None | (k, v) # _ \<Rightarrow> Some k)"

definition bt_inv :: "('k::linorder, 'v) btree \<Rightarrow> bool" where
  "bt_inv m = sorted_wrt (<) (map fst m)"

section \<open>The interface\<close>

locale ordered_map =
  fixes empty :: "'m" and get :: "'m \<Rightarrow> 'k::linorder \<Rightarrow> 'v option"
    and ins :: "'m \<Rightarrow> 'k \<Rightarrow> 'v \<Rightarrow> 'm" and rem :: "'m \<Rightarrow> 'k \<Rightarrow> 'm"
    and len :: "'m \<Rightarrow> nat" and first_key :: "'m \<Rightarrow> 'k option" and inv :: "'m \<Rightarrow> bool"
  assumes get_empty: "get empty k = None"
    and get_ins: "get (ins m k v) k' = (if k' = k then Some v else get m k')"
    and get_rem: "get (rem m k) k' = (if k' = k then None else get m k')"
    and inv_empty: "inv empty"
    and inv_ins: "inv m \<Longrightarrow> inv (ins m k v)"
    and inv_rem: "inv m \<Longrightarrow> inv (rem m k)"
    and len_empty: "len empty = 0"
    and len_ins: "inv m \<Longrightarrow> len (ins m k v) = (if get m k = None then Suc (len m) else len m)"
    and len_rem: "inv m \<Longrightarrow> len (rem m k) = (if get m k = None then len m else len m - 1)"
    and first_key_None: "first_key m = None \<longleftrightarrow> len m = 0"
    and first_key_Some: "inv m \<Longrightarrow> first_key m = Some k \<Longrightarrow>
      get m k \<noteq> None \<and> (\<forall>k'. get m k' \<noteq> None \<longrightarrow> k \<le> k')"
begin

text \<open>The bounded insertion every cache of the code performs: evict the least key when the
  map is full and the key is new.\<close>

lemma evicting_insert_bounded:
  assumes "inv m" and "len m \<le> max cap 1"
    and "m' = (if cap \<le> len m \<and> get m k = None
               then case first_key m of None \<Rightarrow> m | Some f \<Rightarrow> rem m f else m)"
  shows "inv (ins m' k v) \<and> len (ins m' k v) \<le> max cap 1"
proof (cases "cap \<le> len m \<and> get m k = None")
  case False
  with assms have m': "m' = m" by simp
  show ?thesis
  proof (cases "get m k = None")
    case True
    with False have "len m < cap" by simp
    with assms m' True show ?thesis by (simp add: inv_ins len_ins)
  next
    case False
    with assms m' show ?thesis by (auto simp: inv_ins len_ins)
  qed
next
  case True
  show ?thesis
  proof (cases "first_key m")
    case None
    with assms True have "m' = m" "len m = 0" by (simp_all add: first_key_None)
    with assms True show ?thesis by (simp add: inv_ins len_ins)
  next
    case (Some f)
    with assms True have m': "m' = rem m f" by simp
    from Some assms have f: "get m f \<noteq> None" by (simp add: first_key_Some)
    from Some have "len m \<noteq> 0" using first_key_None[of m] by auto
    moreover from f True have "get (rem m f) k = None" by (simp add: get_rem)
    ultimately show ?thesis
      using assms(1,2) f unfolding m' by (auto simp: inv_ins inv_rem len_ins len_rem)
  qed
qed

end

section \<open>The association list implements it\<close>

lemma bt_insert_keys: "fst ` set (bt_insert m k v) = insert k (fst ` set m)"
  by (induction m k v rule: bt_insert.induct) auto

lemma bt_get_insert [simp]: "bt_get (bt_insert m k v) k' = (if k' = k then Some v else bt_get m k')"
  by (induction m k v rule: bt_insert.induct) (auto simp: bt_get_def)

lemma bt_get_remove [simp]: "bt_get (bt_remove m k) k' = (if k' = k then None else bt_get m k')"
  by (induction m) (auto simp: bt_get_def bt_remove_def)

lemma bt_get_Nil [simp]: "bt_get [] k = None"
  by (simp add: bt_get_def)

lemma bt_get_Cons [simp]: "bt_get ((k', v') # m) k = (if k = k' then Some v' else bt_get m k)"
  by (simp add: bt_get_def)

lemma bt_get_None_iff: "bt_get m k = None \<longleftrightarrow> k \<notin> fst ` set m"
  by (simp add: bt_get_def map_of_eq_None_iff)

lemma bt_inv_insert: "bt_inv m \<Longrightarrow> bt_inv (bt_insert m k v)"
proof (induction m k v rule: bt_insert.induct)
  case (2 k' v' m k v)
  from 2 have lt: "\<forall>x \<in> fst ` set m. k' < x" and m: "bt_inv m" by (auto simp: bt_inv_def)
  show ?case
  proof (cases "k' < k")
    case True
    then have ins: "bt_insert ((k', v') # m) k v = (k', v') # bt_insert m k v" by auto
    have "\<forall>x \<in> fst ` set (bt_insert m k v). k' < x"
      using lt True by (simp add: bt_insert_keys)
    with True m 2 show ?thesis unfolding ins by (auto simp: bt_inv_def)
  next
    case False
    with 2 lt show ?thesis by (fastforce simp: bt_inv_def)
  qed
qed (simp add: bt_inv_def)

lemma bt_inv_remove: "bt_inv m \<Longrightarrow> bt_inv (bt_remove m k)"
  by (simp add: bt_inv_def bt_remove_def sorted_wrt_map sorted_wrt_filter)

lemma bt_length_insert:
  "bt_inv m \<Longrightarrow> length (bt_insert m k v) = (if bt_get m k = None then Suc (length m) else length m)"
proof (induction m k v rule: bt_insert.induct)
  case (2 k' v' m k v)
  from 2 have lt: "\<forall>x \<in> fst ` set m. k' < x" and m: "bt_inv m" by (auto simp: bt_inv_def)
  have "bt_get m k = None" if "k < k'"
    using that lt by (force simp: bt_get_None_iff)
  with 2 m show ?case by auto
qed simp

lemma bt_length_remove:
  "bt_inv m \<Longrightarrow> length (bt_remove m k) = (if bt_get m k = None then length m else length m - 1)"
proof (induction m)
  case (Cons p m)
  obtain k' v' where p: "p = (k', v')" by (cases p)
  from Cons.prems p have inv: "bt_inv m" and lt: "\<forall>x \<in> fst ` set m. k' < x"
    by (auto simp: bt_inv_def)
  show ?case
  proof (cases "k = k'")
    case True
    with lt have "bt_get m k = None" by (auto simp: bt_get_None_iff)
    with Cons.IH[OF inv] True p show ?thesis by (simp add: bt_remove_def)
  next
    case False
    have "length m \<noteq> 0" if "bt_get m k \<noteq> None" using that by (cases m) auto
    with Cons.IH[OF inv] False p show ?thesis by (auto simp: bt_remove_def)
  qed
qed (simp add: bt_remove_def)

lemma bt_length_insert_le: "length (bt_insert m k v) \<le> Suc (length m)"
  by (induction m k v rule: bt_insert.induct) auto

lemma bt_length_remove_le: "length (bt_remove m k) \<le> length m"
  by (simp add: bt_remove_def)

text \<open>Two maps with the same entries are the same list.\<close>

lemma assoc_list_of_map: "distinct (map fst m) \<Longrightarrow> map (\<lambda>k. (k, the (map_of m k))) (map fst m) = m"
  unfolding map_map by (rule map_idI) (auto simp: map_of_is_SomeI)

lemma bt_ext:
  assumes "bt_inv m" and "bt_inv m'" and "\<And>k. bt_get m k = bt_get m' k"
  shows "m = m'"
proof -
  have eq: "map_of m = map_of m'" using assms(3) by (auto simp: bt_get_def)
  have d: "distinct (map fst m)" "distinct (map fst m')" "sorted (map fst m)" "sorted (map fst m')"
    using assms(1,2) by (auto simp: bt_inv_def strict_sorted_iff)
  have "set (map fst m) = set (map fst m')" using eq dom_map_of_conv_image_fst by (metis list.set_map)
  then have "map fst m = map fst m'" using d by (intro sorted_distinct_set_unique) auto
  then show ?thesis using assoc_list_of_map [OF d(1)] assoc_list_of_map [OF d(2)] eq by metis
qed

lemma bt_get_in_set: "bt_inv m \<Longrightarrow> (k, v) \<in> set m \<longleftrightarrow> bt_get m k = Some v"
  by (auto simp: bt_get_def bt_inv_def strict_sorted_iff intro: map_of_is_SomeI dest: map_of_SomeD)

lemma bt_inv_filter: "bt_inv m \<Longrightarrow> bt_inv (filter P m)"
  by (simp add: bt_inv_def sorted_wrt_map sorted_wrt_filter)

lemma bt_get_filter: "bt_inv m \<Longrightarrow> bt_get (filter P m) k = Some v \<longleftrightarrow> bt_get m k = Some v \<and> P (k, v)"
  by (auto simp: bt_inv_filter simp flip: bt_get_in_set)

lemma bt_first_key_None: "bt_first_key m = None \<longleftrightarrow> length m = 0"
  by (auto simp: bt_first_key_def split: list.splits)

lemma bt_first_key_least:
  "bt_inv m \<Longrightarrow> bt_first_key m = Some k \<Longrightarrow>
     bt_get m k \<noteq> None \<and> (\<forall>k'. bt_get m k' \<noteq> None \<longrightarrow> k \<le> k')"
proof (cases m)
  case (Cons p m')
  assume "bt_inv m" and "bt_first_key m = Some k"
  with Cons have k: "fst p = k" and lt: "\<forall>x \<in> fst ` set m'. k < x"
    by (auto simp: bt_first_key_def bt_inv_def split: prod.splits)
  have "k \<le> k'" if "bt_get m k' \<noteq> None" for k'
    using that Cons k lt by (auto simp: bt_get_None_iff)
  with Cons k show ?thesis by (auto simp: bt_get_None_iff)
qed (simp add: bt_first_key_def)

interpretation btm: ordered_map bt_empty bt_get bt_insert bt_remove length bt_first_key bt_inv
proof (unfold_locales, goal_cases)
  case (8 m k v)
  then show ?case by (rule bt_length_insert)
next
  case (9 m k)
  then show ?case by (rule bt_length_remove)
next
  case (10 m)
  show ?case by (rule bt_first_key_None)
next
  case (11 m k)
  then show ?case by (rule bt_first_key_least)
qed (simp_all add: bt_inv_insert bt_inv_remove, simp add: bt_inv_def)

lemmas bt_simps = bt_get_insert bt_get_remove bt_contains_def bt_first_key_def

end
