(* ===== verification/Lease.thy ===== *)
theory Lease
  imports Ordered_Map Command_Model
begin

text \<open>
  Leases and fencing tokens (\<open>control-gateway/src/lease.rs\<close>) and the \<open>LeaseChecker\<close>
  interface of \<open>gateway.rs\<close> as a locale, interpreted on the default structural checker and on
  the lease service.
\<close>

section \<open>Data\<close>

datatype lease_status = Valid | Revoked | Stale | Unknown

record lease_scope =
  ls_devices :: "u32 list"
  ls_points :: "u32 list"
  ls_max_class :: u8

record lease_grant =
  lg_token :: u64
  lg_expiry :: u64
  lg_scope :: lease_scope

record lease_service =
  lsv_epoch :: u64
  lsv_grants :: "(bytes, lease_grant) btree"
  lsv_revoked :: "bytes list"

section \<open>Operations\<close>

definition lease_new :: lease_service where
  "lease_new = \<lparr>lsv_epoch = 0, lsv_grants = bt_empty, lsv_revoked = []\<rparr>"

definition seed_epoch :: "lease_service \<Rightarrow> u64 \<Rightarrow> lease_service" where
  "seed_epoch s seed = s\<lparr>lsv_epoch := seed\<rparr>"

definition token_of :: "lease_service \<Rightarrow> bytes \<Rightarrow> u64 option" where
  "token_of s lease_id = map_option lg_token (bt_get (lsv_grants s) lease_id)"

definition lease_issue ::
  "lease_service \<Rightarrow> bytes \<Rightarrow> lease_scope \<Rightarrow> u64 \<Rightarrow> u64 \<Rightarrow> lease_service \<times> (u64 \<times> u64) option" where
  "lease_issue s lease_id scope ttl_secs now =
     (if lease_id \<in> set (lsv_revoked s) then (s, None)
      else if bt_contains (lsv_grants s) lease_id then (s, None)
      else case checked_add (lsv_epoch s) 1 of
        None \<Rightarrow> (s, None)
      | Some token \<Rightarrow>
        let expiry = saturating_add now ttl_secs
        in (s\<lparr>lsv_epoch := token,
              lsv_grants := bt_insert (lsv_grants s) lease_id
                \<lparr>lg_token = token, lg_expiry = expiry, lg_scope = scope\<rparr>\<rparr>,
            Some (token, expiry)))"

definition lease_revoke :: "lease_service \<Rightarrow> bytes \<Rightarrow> lease_service \<times> bool" where
  "lease_revoke s lease_id =
     (let was_active = bt_contains (lsv_grants s) lease_id;
          s = s\<lparr>lsv_grants := bt_remove (lsv_grants s) lease_id\<rparr>
      in (if lease_id \<in> set (lsv_revoked s) then s
          else s\<lparr>lsv_revoked := lsv_revoked s @ [lease_id]\<rparr>, was_active))"

definition lease_scope_of :: "lease_service \<Rightarrow> bytes \<Rightarrow> u64 \<Rightarrow> lease_scope option" where
  "lease_scope_of s lease_id now =
     (if lease_id \<in> set (lsv_revoked s) then None
      else case bt_get (lsv_grants s) lease_id of
        None \<Rightarrow> None
      | Some g \<Rightarrow> if lg_expiry g < now then None else Some (lg_scope g))"

definition active_count :: "lease_service \<Rightarrow> nat" where
  "active_count s = length (lsv_grants s)"

definition lease_check :: "lease_service \<Rightarrow> bytes \<Rightarrow> u64 \<Rightarrow> u64 \<Rightarrow> lease_status" where
  "lease_check s lease_id fencing_token now =
     (if lease_id \<in> set (lsv_revoked s) then Revoked
      else case bt_get (lsv_grants s) lease_id of
        None \<Rightarrow> Unknown
      | Some g \<Rightarrow>
        if lg_expiry g < now then Revoked
        else if fencing_token < lg_token g then Stale
        else if fencing_token = lg_token g then Valid
        else Stale)"

text \<open>The default checker of the gateway.\<close>

definition structural_check :: "bytes \<Rightarrow> u64 \<Rightarrow> u64 \<Rightarrow> lease_status" where
  "structural_check lease_id fencing_token now = (if fencing_token = 0 then Stale else Valid)"

section \<open>Runs of the service\<close>

datatype lease_op =
  Issue bytes lease_scope u64 u64
  | Revoke bytes

fun lease_apply :: "lease_service \<Rightarrow> lease_op \<Rightarrow> lease_service \<times> u64 list" where
  "lease_apply s (Issue i sc ttl now) =
     (case lease_issue s i sc ttl now of
        (s', None) \<Rightarrow> (s', [])
      | (s', Some (token, _)) \<Rightarrow> (s', [token]))"
| "lease_apply s (Revoke i) = (fst (lease_revoke s i), [])"

text \<open>The final state and the tokens minted on the way, in order.\<close>

fun lease_run :: "lease_service \<Rightarrow> lease_op list \<Rightarrow> lease_service \<times> u64 list" where
  "lease_run s [] = (s, [])"
| "lease_run s (x # xs) =
     (let (s1, ts) = lease_apply s x; (s2, us) = lease_run s1 xs in (s2, ts @ us))"

definition lease_step :: "lease_service \<Rightarrow> lease_service \<Rightarrow> bool" where
  "lease_step s t \<longleftrightarrow> (\<exists>x. t = fst (lease_apply s x))"

section \<open>Invariant\<close>

text \<open>Tokens are non-zero, bounded by the epoch and never shared by two active leases; a
  tombstoned lease has no grant.\<close>

definition lease_inv :: "lease_service \<Rightarrow> bool" where
  "lease_inv s \<longleftrightarrow>
     bt_inv (lsv_grants s) \<and>
     (\<forall>i g. bt_get (lsv_grants s) i = Some g \<longrightarrow> 0 < lg_token g \<and> lg_token g \<le> lsv_epoch s) \<and>
     (\<forall>i j g h. bt_get (lsv_grants s) i = Some g \<longrightarrow> bt_get (lsv_grants s) j = Some h \<longrightarrow>
        lg_token g = lg_token h \<longrightarrow> i = j) \<and>
     (\<forall>i \<in> set (lsv_revoked s). bt_get (lsv_grants s) i = None)"

section \<open>The checker interface\<close>

locale lease_checker =
  fixes check :: "'s \<Rightarrow> bytes \<Rightarrow> u64 \<Rightarrow> u64 \<Rightarrow> lease_status" and inv :: "'s \<Rightarrow> bool"
  assumes valid_token: "inv s \<Longrightarrow> check s i tok now = Valid \<Longrightarrow> tok \<noteq> 0"
begin

lemma zero_token_denied: "inv s \<Longrightarrow> check s i 0 now \<noteq> Valid"
  using valid_token by blast

end

text \<open>A checker with revocation: a revoked lease is dead, stays dead whatever operations
  follow, and is reported as revoked.\<close>

locale revocable_lease_checker = lease_checker check inv
  for check :: "'s \<Rightarrow> bytes \<Rightarrow> u64 \<Rightarrow> u64 \<Rightarrow> lease_status" and inv :: "'s \<Rightarrow> bool" +
  fixes step :: "'s \<Rightarrow> 's \<Rightarrow> bool" and dead :: "'s \<Rightarrow> bytes \<Rightarrow> bool" and revoke :: "'s \<Rightarrow> bytes \<Rightarrow> 's"
  assumes revoke_dead: "dead (revoke s i) i"
    and dead_stable: "dead s i \<Longrightarrow> step s t \<Longrightarrow> dead t i"
    and dead_denied: "dead s i \<Longrightarrow> check s i tok now = Revoked"
begin

lemma dead_run: "step\<^sup>*\<^sup>* s t \<Longrightarrow> dead s i \<Longrightarrow> dead t i"
  by (induction rule: rtranclp_induct) (auto intro: dead_stable)

lemma revoked_forever: "step\<^sup>*\<^sup>* (revoke s i) t \<Longrightarrow> check t i tok now = Revoked"
  by (rule dead_denied [OF dead_run [OF _ revoke_dead]])

end

section \<open>Lemmas\<close>

lemma lease_check_Valid_iff:
  "lease_check s i tok now = Valid \<longleftrightarrow>
     i \<notin> set (lsv_revoked s) \<and>
     (\<exists>g. bt_get (lsv_grants s) i = Some g \<and> tok = lg_token g \<and> now \<le> lg_expiry g)"
  by (auto simp: lease_check_def not_less split: option.splits if_splits)

lemma lease_inv_new: "lease_inv lease_new"
  by (simp add: lease_inv_def lease_new_def bt_inv_def)

lemma lease_issue_inv: "lease_inv s \<Longrightarrow> lease_inv (fst (lease_issue s i sc ttl now))"
proof (cases "i \<in> set (lsv_revoked s) \<or> bt_contains (lsv_grants s) i \<or> checked_add (lsv_epoch s) 1 = None")
  case True
  assume "lease_inv s"
  with True show ?thesis by (auto simp: lease_issue_def)
next
  case False
  assume inv: "lease_inv s"
  from False obtain t where t: "checked_add (lsv_epoch s) 1 = Some t" by auto
  from t have gt: "lsv_epoch s < t" by (rule checked_add_one_less)
  have old: "lg_token g < t" if "bt_get (lsv_grants s) j = Some g" for j g
    using inv that gt unfolding lease_inv_def by fastforce
  from gt have "0 < t" by (simp add: word_gt_0) auto
  with inv False t gt old show ?thesis
    unfolding lease_inv_def
    by (auto simp: lease_issue_def bt_inv_insert Let_def dest: less_imp_neq
        intro: less_imp_le order.strict_implies_order)
qed

lemma lease_revoke_inv: "lease_inv s \<Longrightarrow> lease_inv (fst (lease_revoke s i))"
  unfolding lease_inv_def lease_revoke_def Let_def
  by (auto simp: bt_inv_remove split: if_splits)

lemma lease_apply_inv: "lease_inv s \<Longrightarrow> lease_inv (fst (lease_apply s x))"
proof (cases x)
  case (Issue i sc ttl now)
  assume "lease_inv s"
  then have "lease_inv (fst (lease_issue s i sc ttl now))" by (rule lease_issue_inv)
  then show ?thesis by (auto simp: Issue split: prod.splits option.splits)
qed (simp add: lease_revoke_inv)

lemma lease_revoke_revoked: "i \<in> set (lsv_revoked (fst (lease_revoke s i)))"
  by (simp add: lease_revoke_def Let_def)

lemma lease_apply_revoked_mono: "set (lsv_revoked s) \<subseteq> set (lsv_revoked (fst (lease_apply s x)))"
  by (cases x) (auto simp: lease_issue_def lease_revoke_def Let_def split: option.splits)

interpretation structural: lease_checker "\<lambda>_::unit. structural_check" "\<lambda>_. True"
  by unfold_locales (auto simp: structural_check_def)

interpretation lease_ts: transition_system "\<lambda>s. s = lease_new" lease_step lease_inv
  by unfold_locales (auto simp: lease_inv_new lease_step_def intro: lease_apply_inv)

interpretation lease_srv: revocable_lease_checker lease_check lease_inv lease_step
  "\<lambda>s i. i \<in> set (lsv_revoked s)" "\<lambda>s i. fst (lease_revoke s i)"
proof unfold_locales
  show "tok \<noteq> 0" if "lease_inv s" "lease_check s i tok now = Valid" for s i tok now
    using that by (fastforce simp: lease_check_Valid_iff lease_inv_def)
  show "i \<in> set (lsv_revoked t)" if "i \<in> set (lsv_revoked s)" "lease_step s t" for s t i
    using that lease_apply_revoked_mono by (auto simp: lease_step_def)
qed (simp_all add: lease_revoke_revoked lease_check_def)

text \<open>Every token a run mints is larger than the epoch it starts from, and than all the tokens
  minted before it.\<close>

lemma lease_apply_tokens:
  "snd (lease_apply s x) = [] \<and> lsv_epoch (fst (lease_apply s x)) = lsv_epoch s \<or>
   (\<exists>t. snd (lease_apply s x) = [t] \<and> lsv_epoch s < t \<and> lsv_epoch (fst (lease_apply s x)) = t)"
  by (cases x)
    (auto simp: lease_issue_def lease_revoke_def Let_def split: option.splits
      dest: checked_add_one_less)

lemma lease_run_tokens:
  "sorted_wrt (<) (snd (lease_run s xs)) \<and> (\<forall>t \<in> set (snd (lease_run s xs)). lsv_epoch s < t)"
proof (induction xs arbitrary: s)
  case (Cons x xs)
  obtain s1 ts where a: "lease_apply s x = (s1, ts)" by force
  obtain s2 us where b: "lease_run s1 xs = (s2, us)" by force
  from Cons[of s1] b have us: "sorted_wrt (<) us" "\<forall>t \<in> set us. lsv_epoch s1 < t" by auto
  from lease_apply_tokens[of s x] a us show ?case
    by (auto simp: b) 
qed simp

section \<open>Properties\<close>

text \<open>Fencing tokens never repeat and never go back: the tokens minted by any run of issue and revoke calls, preceded by the epoch the run starts from, are strictly increasing.\<close>

theorem lease_tokens_increase: "sorted_wrt (<) (lsv_epoch s # snd (lease_run s xs))"
  using lease_run_tokens [of s xs] by simp

text \<open>In every reachable lease service, a token that passes the check is non-zero, was minted in this epoch, belongs to a lease that is not revoked, and is valid for no other lease.\<close>

theorem lease_reachable:
  assumes "lease_step\<^sup>*\<^sup>* lease_new s" and "lease_check s i tok now = Valid"
  shows "tok \<noteq> 0 \<and> tok \<le> lsv_epoch s \<and> i \<notin> set (lsv_revoked s) \<and>
    (\<forall>j now'. lease_check s j tok now' = Valid \<longrightarrow> j = i)"
proof -
  have "lease_inv s" using lease_ts.inv_reachable [OF refl assms(1)] .
  with assms(2) show ?thesis
    unfolding lease_inv_def lease_check_Valid_iff by (metis word_neq_0_conv)
qed

theorem lease_reachable_witness:
  "lease_check (fst (lease_issue lease_new [1] \<lparr>ls_devices = [], ls_points = [], ls_max_class = 0\<rparr> 10 5)) [1] 1 9 = Valid \<and>
   lease_check (fst (lease_issue lease_new [1] \<lparr>ls_devices = [], ls_points = [], ls_max_class = 0\<rparr> 10 5)) [2] 1 9 \<noteq> Valid"
proof -
  let ?s = "fst (lease_issue lease_new [1] \<lparr>ls_devices = [], ls_points = [], ls_max_class = 0\<rparr> 10 5)"
  have v: "lease_check ?s [1] 1 9 = Valid"
    by (simp add: lease_issue_def lease_new_def lease_check_def checked_add_one bt_contains_def saturating_add_def)
  have "?s = fst (lease_apply lease_new (Issue [1] \<lparr>ls_devices = [], ls_points = [], ls_max_class = 0\<rparr> 10 5))"
    by (simp split: prod.splits option.splits)
  then have "lease_step lease_new ?s" unfolding lease_step_def by (rule exI)
  from lease_reachable [OF r_into_rtranclp [of lease_step, OF this] v] v show ?thesis by fastforce
qed

end
