(* ===== verification/Gateway.thy ===== *)
theory Gateway
  imports Envelope Lease
begin

text \<open>
  The control gateway (\<open>control-gateway/src/gateway.rs\<close>): the only function that turns
  envelope bytes into an authorized command, with its bounded replay cache. The boxed
  \<open>dyn LeaseChecker\<close> is a function-valued field.
\<close>

section \<open>Data\<close>

datatype gateway_error =
  Decode envelope_error | Unauthorized | Expired | Future | Replayed | NoLease | NoPolicy
  | GwLeaseRevoked | GwStaleFencing | BadDeviceId

record control_gateway =
  gw_key :: bytes
  gw_max_skew_secs :: u64
  gw_replay_cache :: "bytes list"
  gw_replay_cache_cap :: nat
  gw_lease_checker :: "bytes \<Rightarrow> u64 \<Rightarrow> u64 \<Rightarrow> lease_status"

section \<open>Operations\<close>

definition gw_new_with_lease_checker ::
  "bytes \<Rightarrow> u64 \<Rightarrow> nat \<Rightarrow> (bytes \<Rightarrow> u64 \<Rightarrow> u64 \<Rightarrow> lease_status) \<Rightarrow> control_gateway" where
  "gw_new_with_lease_checker key max_skew cap checker =
     \<lparr>gw_key = key, gw_max_skew_secs = max_skew, gw_replay_cache = [],
      gw_replay_cache_cap = cap, gw_lease_checker = checker\<rparr>"

definition gw_new :: "bytes \<Rightarrow> u64 \<Rightarrow> nat \<Rightarrow> control_gateway" where
  "gw_new key max_skew cap = gw_new_with_lease_checker key max_skew cap structural_check"

definition is_replayed :: "control_gateway \<Rightarrow> bytes \<Rightarrow> bool" where
  "is_replayed g command_id = list_ex (\<lambda>c. c = command_id) (gw_replay_cache g)"

definition gw_record :: "control_gateway \<Rightarrow> bytes \<Rightarrow> control_gateway" where
  "gw_record g command_id =
     (if gw_replay_cache_cap g = 0 then g
      else let cache = (if gw_replay_cache_cap g \<le> length (gw_replay_cache g)
                        then tl (gw_replay_cache g) else gw_replay_cache g)
           in g\<lparr>gw_replay_cache := cache @ [command_id]\<rparr>)"

definition authorized_of :: "command_envelope \<Rightarrow> u16 \<Rightarrow> authorized_command" where
  "authorized_of env device_id =
     \<lparr>ac_device_id = device_id, ac_point_id = env_point_id env, ac_command = env_command env,
      ac_actor_kind = env_actor_kind env, ac_issuer = env_issuer env,
      ac_correlation_id = env_correlation_id env, ac_sequence = env_sequence env,
      ac_lease_id = env_lease_id env, ac_fencing_token = env_fencing_token env,
      ac_policy_version = env_policy_version env,
      ac_idempotency_key = env_idempotency_key env\<rparr>"

definition gw_authorize ::
  "control_gateway \<Rightarrow> bytes \<Rightarrow> u64 \<Rightarrow> control_gateway \<times> (gateway_error + authorized_command)" where
  "gw_authorize g buf now =
     (case env_decode buf of
        Inl e \<Rightarrow> (g, Inl (Decode e))
      | Inr env \<Rightarrow>
        if \<not> verify_hmac env (gw_key g) then (g, Inl Unauthorized)
        else if env_expiry env < now then (g, Inl Expired)
        else if saturating_add now (gw_max_skew_secs g) < env_timestamp env then (g, Inl Future)
        else if is_replayed g (env_command_id env) then (g, Inl Replayed)
        else if env_fencing_token env = 0 then (g, Inl NoLease)
        else if env_policy_version env = 0 then (g, Inl NoPolicy)
        else (case gw_lease_checker g (env_lease_id env) (env_fencing_token env) now of
            Revoked \<Rightarrow> (g, Inl GwLeaseRevoked)
          | Stale \<Rightarrow> (g, Inl GwStaleFencing)
          | Unknown \<Rightarrow> (g, Inl GwLeaseRevoked)
          | Valid \<Rightarrow>
            let g' = gw_record g (env_command_id env)
            in (case u16_try_from (env_device_id env) of
                  None \<Rightarrow> (g', Inl BadDeviceId)
                | Some device_id \<Rightarrow> (g', Inr (authorized_of env device_id)))))"

definition replay_cache_len :: "control_gateway \<Rightarrow> nat" where
  "replay_cache_len g = length (gw_replay_cache g)"

text \<open>A gateway serving a sequence of requests \<open>(buf, now)\<close>.\<close>

fun gw_serve :: "control_gateway \<Rightarrow> (bytes \<times> u64) list \<Rightarrow> control_gateway" where
  "gw_serve g [] = g"
| "gw_serve g ((buf, now) # rs) = gw_serve (fst (gw_authorize g buf now)) rs"

section \<open>Specification of a granted request\<close>

text \<open>Every check an envelope must pass, stated once and independently of the order in which
  the gateway performs them.\<close>

definition gw_accepts :: "control_gateway \<Rightarrow> command_envelope \<Rightarrow> u64 \<Rightarrow> bool" where
  "gw_accepts g env now \<longleftrightarrow>
     env_hmac env = hmac_sm3 (gw_key g) (env_header env) \<and>
     now \<le> env_expiry env \<and>
     env_timestamp env \<le> saturating_add now (gw_max_skew_secs g) \<and>
     env_command_id env \<notin> set (gw_replay_cache g) \<and>
     env_fencing_token env \<noteq> 0 \<and> env_policy_version env \<noteq> 0 \<and>
     gw_lease_checker g (env_lease_id env) (env_fencing_token env) now = Valid"

section \<open>Lemmas\<close>

lemma is_replayed_iff: "is_replayed g c \<longleftrightarrow> c \<in> set (gw_replay_cache g)"
  by (auto simp: is_replayed_def list_ex_iff)

lemma gw_authorize_Inr_iff:
  "snd (gw_authorize g buf now) = Inr cmd \<longleftrightarrow>
     (\<exists>env d. env_decode buf = Inr env \<and> gw_accepts g env now \<and>
        u16_try_from (env_device_id env) = Some d \<and> cmd = authorized_of env d)"
  by (auto simp: gw_authorize_def gw_accepts_def verify_hmac_iff is_replayed_iff not_less Let_def
      split: sum.splits if_splits lease_status.splits option.splits)

lemma gw_authorize_state:
  "fst (gw_authorize g buf now) =
     (case env_decode buf of
        Inl _ \<Rightarrow> g
      | Inr env \<Rightarrow> if gw_accepts g env now then gw_record g (env_command_id env) else g)"
  by (auto simp: gw_authorize_def gw_accepts_def verify_hmac_iff is_replayed_iff not_less Let_def
      split: sum.splits lease_status.splits option.splits)

lemma gw_record_frame [simp]:
  "gw_key (gw_record g c) = gw_key g" "gw_max_skew_secs (gw_record g c) = gw_max_skew_secs g"
  "gw_replay_cache_cap (gw_record g c) = gw_replay_cache_cap g"
  "gw_lease_checker (gw_record g c) = gw_lease_checker g"
  by (simp_all add: gw_record_def Let_def)

lemma gw_authorize_frame [simp]:
  "gw_key (fst (gw_authorize g buf now)) = gw_key g"
  "gw_max_skew_secs (fst (gw_authorize g buf now)) = gw_max_skew_secs g"
  "gw_replay_cache_cap (fst (gw_authorize g buf now)) = gw_replay_cache_cap g"
  "gw_lease_checker (fst (gw_authorize g buf now)) = gw_lease_checker g"
  by (simp_all add: gw_authorize_state split: sum.splits)

definition gw_inv :: "control_gateway \<Rightarrow> bool" where
  "gw_inv g \<longleftrightarrow> length (gw_replay_cache g) \<le> gw_replay_cache_cap g \<and> distinct (gw_replay_cache g)"

lemma gw_inv_new: "gw_inv (gw_new_with_lease_checker key skew cap chk)"
  by (simp add: gw_inv_def gw_new_with_lease_checker_def)

lemma gw_record_inv: "gw_inv g \<Longrightarrow> c \<notin> set (gw_replay_cache g) \<Longrightarrow> gw_inv (gw_record g c)"
  unfolding gw_inv_def gw_record_def Let_def
  by (auto simp: distinct_tl dest: in_set_tlD)

lemma gw_authorize_inv: "gw_inv g \<Longrightarrow> gw_inv (fst (gw_authorize g buf now))"
  by (auto simp: gw_authorize_state gw_accepts_def intro: gw_record_inv split: sum.splits)

definition gw_step :: "control_gateway \<Rightarrow> control_gateway \<Rightarrow> bool" where
  "gw_step g h \<longleftrightarrow> (\<exists>buf now. h = fst (gw_authorize g buf now))"

interpretation gw_ts: transition_system
  "\<lambda>g. \<exists>key skew cap chk. g = gw_new_with_lease_checker key skew cap chk" gw_step gw_inv
  by unfold_locales (auto simp: gw_inv_new gw_step_def intro: gw_authorize_inv)

text \<open>How long a recorded command id is remembered: behind it there are at most as many ids
  as requests served since.\<close>

definition remembered :: "control_gateway \<Rightarrow> bytes \<Rightarrow> nat \<Rightarrow> bool" where
  "remembered g c n \<longleftrightarrow> (\<exists>xs ys. gw_replay_cache g = xs @ c # ys \<and> length ys \<le> n)"

lemma remembered_record: "remembered g c n \<Longrightarrow> Suc n < gw_replay_cache_cap g \<Longrightarrow> remembered (gw_record g d) c (Suc n)"
proof -
  assume "remembered g c n" and cap: "Suc n < gw_replay_cache_cap g"
  then obtain xs ys where c: "gw_replay_cache g = xs @ c # ys" and n: "length ys \<le> n"
    unfolding remembered_def by blast
  show ?thesis
  proof (cases "gw_replay_cache_cap g \<le> length (gw_replay_cache g)")
    case True
    with c n cap have "xs \<noteq> []" by auto
    with True c n cap have "gw_replay_cache (gw_record g d) = tl xs @ c # (ys @ [d])"
      by (simp add: gw_record_def)
    with n show ?thesis unfolding remembered_def by (metis length_append_singleton Suc_le_mono)
  next
    case False
    with c cap have "gw_replay_cache (gw_record g d) = xs @ c # (ys @ [d])"
      by (simp add: gw_record_def)
    with n show ?thesis unfolding remembered_def by (metis length_append_singleton Suc_le_mono)
  qed
qed

lemma remembered_mono: "remembered g c n \<Longrightarrow> n \<le> m \<Longrightarrow> remembered g c m"
  unfolding remembered_def by (meson le_trans)

lemma remembered_authorize:
  "remembered g c n \<Longrightarrow> Suc n < gw_replay_cache_cap g \<Longrightarrow>
     remembered (fst (gw_authorize g buf now)) c (Suc n)"
  by (auto simp: gw_authorize_state intro: remembered_record remembered_mono split: sum.splits)

lemma remembered_serve:
  "remembered g c n \<Longrightarrow> n + length rs < gw_replay_cache_cap g \<Longrightarrow>
     remembered (gw_serve g rs) c (n + length rs)"
proof (induction g rs arbitrary: n rule: gw_serve.induct)
  case (2 g buf now rs)
  from 2 have "remembered (fst (gw_authorize g buf now)) c (Suc n)"
    by (intro remembered_authorize) auto
  with 2 show ?case by fastforce
qed simp

lemma remembered_after_record: "0 < gw_replay_cache_cap g \<Longrightarrow> remembered (gw_record g c) c 0"
  by (auto simp: remembered_def gw_record_def)

lemma remembered_denied:
  assumes "remembered g c n" and "env_decode buf = Inr env" and "env_command_id env = c"
  shows "\<exists>e. snd (gw_authorize g buf now) = Inl e"
proof -
  from assms(1) have "c \<in> set (gw_replay_cache g)" by (auto simp: remembered_def)
  with assms(2,3) have "\<not> (\<exists>cmd. snd (gw_authorize g buf now) = Inr cmd)"
    by (simp add: gw_authorize_Inr_iff gw_accepts_def)
  then show ?thesis by (metis sum.exhaust)
qed

end
