(* ===== verification/Idempotency.thy ===== *)
theory Idempotency
  imports Ordered_Map
begin

text \<open>
  Idempotency cache and select-before-operate tracker
  (\<open>control-gateway/src/idempotency.rs\<close>).
\<close>

section \<open>The idempotency cache\<close>

datatype op_outcome = Applied | Rejected

record idempotency_cache =
  ic_ttl_secs :: u64
  ic_entries :: "(bytes, op_outcome \<times> u64) btree"
  ic_cap :: nat

definition ic_new :: "u64 \<Rightarrow> nat \<Rightarrow> idempotency_cache" where
  "ic_new ttl cap = \<lparr>ic_ttl_secs = ttl, ic_entries = bt_empty, ic_cap = cap\<rparr>"

definition ic_check :: "idempotency_cache \<Rightarrow> bytes \<Rightarrow> u64 \<Rightarrow> op_outcome option" where
  "ic_check c key now =
     (if key = zeros 16 then None
      else case bt_get (ic_entries c) key of
        None \<Rightarrow> None
      | Some (outcome, expiry) \<Rightarrow> if expiry < now then None else Some outcome)"

definition ic_record :: "idempotency_cache \<Rightarrow> bytes \<Rightarrow> op_outcome \<Rightarrow> u64 \<Rightarrow> idempotency_cache" where
  "ic_record c key outcome now =
     (if key = zeros 16 then c
      else let entries =
             (if ic_cap c \<le> length (ic_entries c) \<and> \<not> bt_contains (ic_entries c) key
              then case bt_first_key (ic_entries c) of
                  None \<Rightarrow> ic_entries c
                | Some k \<Rightarrow> bt_remove (ic_entries c) k
              else ic_entries c)
           in c\<lparr>ic_entries := bt_insert entries key (outcome, saturating_add now (ic_ttl_secs c))\<rparr>)"

definition ic_len :: "idempotency_cache \<Rightarrow> nat" where
  "ic_len c = length (ic_entries c)"

definition ic_is_empty :: "idempotency_cache \<Rightarrow> bool" where
  "ic_is_empty c = (ic_entries c = [])"

section \<open>Select before operate\<close>

datatype sbo_state = SboIdle | SboSelected u64 u64 | SboDone

record sbo_tracker =
  sbo_select_ttl_secs :: u64
  sbo_states :: "(u32, sbo_state) btree"

datatype sbo_execute_result = SboExecuted | SboNotSelected | SboSelectExpired

definition sbo_new :: "u64 \<Rightarrow> sbo_tracker" where
  "sbo_new ttl = \<lparr>sbo_select_ttl_secs = ttl, sbo_states = bt_empty\<rparr>"

definition sbo_select :: "sbo_tracker \<Rightarrow> u32 \<Rightarrow> u64 \<Rightarrow> sbo_tracker" where
  "sbo_select s point_id now =
     s\<lparr>sbo_states := bt_insert (sbo_states s) point_id
         (SboSelected now (saturating_add now (sbo_select_ttl_secs s)))\<rparr>"

definition sbo_execute :: "sbo_tracker \<Rightarrow> u32 \<Rightarrow> u64 \<Rightarrow> sbo_tracker \<times> sbo_execute_result" where
  "sbo_execute s point_id now =
     (case bt_get (sbo_states s) point_id of
        None \<Rightarrow> (s, SboNotSelected)
      | Some SboIdle \<Rightarrow> (s, SboNotSelected)
      | Some SboDone \<Rightarrow> (s, SboNotSelected)
      | Some (SboSelected _ expiry_epoch) \<Rightarrow>
          if expiry_epoch < now then (s, SboSelectExpired)
          else (s\<lparr>sbo_states := bt_insert (sbo_states s) point_id SboDone\<rparr>, SboExecuted))"

definition sbo_cancel :: "sbo_tracker \<Rightarrow> u32 \<Rightarrow> sbo_tracker" where
  "sbo_cancel s point_id = s\<lparr>sbo_states := bt_insert (sbo_states s) point_id SboIdle\<rparr>"

definition sbo_state_of :: "sbo_tracker \<Rightarrow> u32 \<Rightarrow> sbo_state" where
  "sbo_state_of s point_id =
     (case bt_get (sbo_states s) point_id of None \<Rightarrow> SboIdle | Some st \<Rightarrow> st)"

section \<open>Runs of the tracker\<close>

datatype sbo_op = Select u32 u64 | Execute u32 u64 | Cancel u32

fun sbo_apply :: "sbo_tracker \<Rightarrow> sbo_op \<Rightarrow> sbo_tracker \<times> bool" where
  "sbo_apply s (Select p now) = (sbo_select s p now, False)"
| "sbo_apply s (Execute p now) =
     (let (s', r) = sbo_execute s p now in (s', r = SboExecuted))"
| "sbo_apply s (Cancel p) = (sbo_cancel s p, False)"

text \<open>How often a run executes on a point, and how often it selects it.\<close>

fun sbo_executions :: "sbo_tracker \<Rightarrow> sbo_op list \<Rightarrow> u32 \<Rightarrow> nat" where
  "sbo_executions s [] p = 0"
| "sbo_executions s (x # xs) p =
     (if snd (sbo_apply s x) \<and> (case x of Execute q _ \<Rightarrow> q = p | _ \<Rightarrow> False) then 1 else 0) +
     sbo_executions (fst (sbo_apply s x)) xs p"

fun sbo_selections :: "sbo_op list \<Rightarrow> u32 \<Rightarrow> nat" where
  "sbo_selections [] p = 0"
| "sbo_selections (Select q _ # xs) p = (if q = p then 1 else 0) + sbo_selections xs p"
| "sbo_selections (_ # xs) p = sbo_selections xs p"

lemma sbo_apply_Execute [simp]:
  "sbo_apply s (Execute p now) =
     (fst (sbo_execute s p now), snd (sbo_execute s p now) = SboExecuted)"
  by (simp add: case_prod_beta)

declare sbo_apply.simps(2) [simp del]

section \<open>Lemmas on the cache\<close>

definition ic_inv :: "idempotency_cache \<Rightarrow> bool" where
  "ic_inv c \<longleftrightarrow> bt_inv (ic_entries c) \<and> length (ic_entries c) \<le> max (ic_cap c) 1"

lemma ic_inv_new: "ic_inv (ic_new ttl cap)"
  by (simp add: ic_inv_def ic_new_def bt_inv_def)

lemma ic_record_inv: "ic_inv c \<Longrightarrow> ic_inv (ic_record c k out now)"
proof (cases "k = zeros 16")
  case False
  assume "ic_inv c"
  then show ?thesis
    using btm.evicting_insert_bounded [OF _ _ refl, of "ic_entries c" "ic_cap c" k
        "(out, saturating_add now (ic_ttl_secs c))"] False
    unfolding ic_inv_def ic_record_def bt_contains_def Let_def not_not
    by (simp split del: if_split)
qed (simp add: ic_record_def)

lemma ic_record_frame [simp]:
  "ic_ttl_secs (ic_record c k out now) = ic_ttl_secs c" "ic_cap (ic_record c k out now) = ic_cap c"
  by (simp_all add: ic_record_def Let_def)

lemma ic_check_record_same:
  "k \<noteq> zeros 16 \<Longrightarrow>
     ic_check (ic_record c k out now) k t =
       (if t \<le> saturating_add now (ic_ttl_secs c) then Some out else None)"
  by (auto simp: ic_check_def ic_record_def Let_def)

lemma ic_check_record_other:
  "k' \<noteq> k \<Longrightarrow> length (ic_entries c) < ic_cap c \<or> bt_contains (ic_entries c) k \<Longrightarrow>
     ic_check (ic_record c k out now) k' t = ic_check c k' t"
  by (auto simp: ic_check_def ic_record_def Let_def)

lemma ic_check_zero [simp]: "ic_check c (zeros 16) t = None"
  by (simp add: ic_check_def)

section \<open>Lemmas on the tracker\<close>

lemma sbo_execute_iff:
  "snd (sbo_execute s p now) = SboExecuted \<longleftrightarrow>
     (\<exists>sel ex. bt_get (sbo_states s) p = Some (SboSelected sel ex) \<and> now \<le> ex)"
  by (auto simp: sbo_execute_def not_less split: option.splits sbo_state.splits)

lemma sbo_execute_consumes:
  "snd (sbo_execute s p now) = SboExecuted \<Longrightarrow>
     snd (sbo_execute (fst (sbo_execute s p now)) p now') = SboNotSelected"
  by (auto simp: sbo_execute_def split: option.splits sbo_state.splits if_splits)

lemma sbo_execute_frame:
  "bt_get (sbo_states (fst (sbo_execute s p now))) q =
     (if q = p \<and> snd (sbo_execute s p now) = SboExecuted then Some SboDone
      else bt_get (sbo_states s) q)"
  by (auto simp: sbo_execute_def split: option.splits sbo_state.splits)

definition sbo_selected :: "sbo_tracker \<Rightarrow> u32 \<Rightarrow> bool" where
  "sbo_selected s p \<longleftrightarrow> (\<exists>a b. bt_get (sbo_states s) p = Some (SboSelected a b))"

lemma sbo_executions_bound:
  "sbo_executions s xs p \<le> sbo_selections xs p + (if sbo_selected s p then 1 else 0)"
proof (induction xs arbitrary: s)
  case (Cons x xs)
  note ih = Cons[of "fst (sbo_apply s x)"]
  show ?case
  proof (cases x)
    case (Select q now)
    with ih show ?thesis
      by (auto simp: sbo_selected_def sbo_select_def split: if_splits)
  next
    case (Cancel q)
    with ih show ?thesis
      by (auto simp: sbo_selected_def sbo_cancel_def split: if_splits)
  next
    case (Execute q now)
    show ?thesis
    proof (cases "q = p \<and> snd (sbo_execute s q now) = SboExecuted")
      case True
      then have "sbo_selected s p" "\<not> sbo_selected (fst (sbo_execute s q now)) p"
        by (auto simp: sbo_selected_def sbo_execute_iff sbo_execute_frame)
      with ih True show ?thesis by (simp add: Execute)
    next
      case False
      then have "sbo_selected (fst (sbo_execute s q now)) p = sbo_selected s p"
        by (auto simp: sbo_selected_def sbo_execute_frame)
      with ih False show ?thesis by (auto simp: Execute)
    qed
  qed
qed simp

section \<open>Properties\<close>

text \<open>Select before operate: over any sequence of selections, executions and cancellations, a point is executed at most once per selection (plus one if it was already selected at the start).\<close>

theorem sbo_one_execution_per_selection:
  "sbo_executions s xs p \<le> sbo_selections xs p + (if sbo_selected s p then 1 else 0)"
  by (rule sbo_executions_bound)

end
