(* ===== verification/Override.thy ===== *)
theory Override
  imports Ordered_Map Command_Model
begin

text \<open>Emergency override sessions (\<open>control-gateway/src/override_ctrl.rs\<close>).\<close>

section \<open>Data and operations\<close>

record override_session =
  os_point_id :: u32
  os_issued_epoch :: u64
  os_expiry_epoch :: u64

record override_authority =
  oa_sessions :: "(u32, override_session) btree"

datatype override_decision = EmergencyBypass | Normal | SupersededByOverride

definition oa_new :: override_authority where
  "oa_new = \<lparr>oa_sessions = bt_empty\<rparr>"

definition oa_activate ::
  "override_authority \<Rightarrow> u32 \<Rightarrow> u64 \<Rightarrow> u64 \<Rightarrow> actor_kind \<Rightarrow>
     override_authority \<times> override_session option" where
  "oa_activate a point_id ttl_secs now actor =
     (if actor \<noteq> Emergency then (a, None)
      else let s = \<lparr>os_point_id = point_id, os_issued_epoch = now,
                    os_expiry_epoch = saturating_add now ttl_secs\<rparr>
           in (a\<lparr>oa_sessions := bt_insert (oa_sessions a) point_id s\<rparr>, Some s))"

definition oa_deactivate :: "override_authority \<Rightarrow> u32 \<Rightarrow> override_authority" where
  "oa_deactivate a point_id = a\<lparr>oa_sessions := bt_remove (oa_sessions a) point_id\<rparr>"

definition oa_gc :: "override_authority \<Rightarrow> u64 \<Rightarrow> override_authority" where
  "oa_gc a now =
     (let expired = map fst (filter (\<lambda>(_, s). os_expiry_epoch s < now) (oa_sessions a))
      in a\<lparr>oa_sessions := foldl bt_remove (oa_sessions a) expired\<rparr>)"

definition oa_is_active :: "override_authority \<Rightarrow> u32 \<Rightarrow> u64 \<Rightarrow> bool" where
  "oa_is_active a point_id now =
     (case bt_get (oa_sessions a) point_id of
        Some s \<Rightarrow> now \<le> os_expiry_epoch s
      | None \<Rightarrow> False)"

definition oa_decide :: "override_authority \<Rightarrow> authorized_command \<Rightarrow> u64 \<Rightarrow> override_decision" where
  "oa_decide a cmd now =
     (let under_override = oa_is_active a (ac_point_id cmd) now
      in if ac_actor_kind cmd = Emergency then EmergencyBypass
         else if under_override then SupersededByOverride
         else Normal)"

section \<open>Lemmas\<close>

lemma oa_decide_iff:
  "oa_decide a cmd now = EmergencyBypass \<longleftrightarrow> ac_actor_kind cmd = Emergency"
  "oa_decide a cmd now = SupersededByOverride \<longleftrightarrow>
     ac_actor_kind cmd \<noteq> Emergency \<and> oa_is_active a (ac_point_id cmd) now"
  "oa_decide a cmd now = Normal \<longleftrightarrow>
     ac_actor_kind cmd \<noteq> Emergency \<and> \<not> oa_is_active a (ac_point_id cmd) now"
  by (auto simp: oa_decide_def Let_def)

lemma bt_get_removes: "bt_get (foldl bt_remove m ks) k = (if k \<in> set ks then None else bt_get m k)"
  by (induction ks arbitrary: m) auto

lemma oa_gc_active:
  assumes "bt_inv (oa_sessions a)" and "now \<le> t"
  shows "oa_is_active (oa_gc a now) p t = oa_is_active a p t"
proof -
  let ?ex = "map fst (filter (\<lambda>(_, s). os_expiry_epoch s < now) (oa_sessions a))"
  have dist: "distinct (map fst (oa_sessions a))"
    using assms(1) strict_sorted_iff unfolding bt_inv_def by blast
  have "p \<in> set ?ex \<longleftrightarrow> (\<exists>s. bt_get (oa_sessions a) p = Some s \<and> os_expiry_epoch s < now)"
    using dist by (force simp: bt_get_def map_of_eq_Some_iff)
  with assms(2) show ?thesis
    by (auto simp: oa_is_active_def oa_gc_def bt_get_removes Let_def split: option.splits)
qed

section \<open>Properties\<close>

text \<open>Collecting expired override sessions never changes whether an override is active, now or at any later time.\<close>

theorem override_gc_preserves:
  assumes "bt_inv (oa_sessions a)" and "now \<le> t"
  shows "oa_is_active (oa_gc a now) p t = oa_is_active a p t"
  by (rule oa_gc_active [OF assms])

theorem override_gc_preserves_witness:
  "oa_is_active (oa_gc (fst (oa_activate oa_new 3 10 100 Emergency)) 105) 3 110"
  using override_gc_preserves [of "fst (oa_activate oa_new 3 10 100 Emergency)" 105 110 3]
  by (simp add: oa_activate_def oa_new_def oa_is_active_def saturating_add_def bt_inv_def Let_def)

end
