(* ===== verification/Policy.thy ===== *)
theory Policy
  imports Lease
begin

text \<open>
  The policy decision point (\<open>control-gateway/src/policy.rs\<close>): generations, ordered rules,
  default deny.
\<close>

section \<open>Data\<close>

datatype command_class = ReadClass | SwitchClass | SetpointClass | EmergencyClass

datatype obligation = AuditBefore | SecondaryConfirm | RateLimitPerMinute u32 | DryRun

record policy_rule =
  pr_actor_kind :: "actor_kind option"
  pr_devices :: "u32 list"
  pr_points :: "u32 list"
  pr_kinds :: "command_class list"
  pr_time_window :: "u64 \<times> u64"
  pr_obligations :: "obligation list"

datatype deny_reason =
  NoMatchingRule | StalePolicyVersion u64 u64 | OutsideTimeWindow | OutsideLeaseScope

datatype decision = Allow "obligation list" | Deny deny_reason

record policy =
  pol_generation :: u64
  pol_rules :: "policy_rule list"

section \<open>Operations\<close>

definition class_of_command :: "authorized_command \<Rightarrow> command_class" where
  "class_of_command cmd = (case ac_actor_kind cmd of Emergency \<Rightarrow> EmergencyClass | _ \<Rightarrow> SwitchClass)"

definition policy_new :: "u64 \<Rightarrow> policy" where
  "policy_new generation = \<lparr>pol_generation = generation, pol_rules = []\<rparr>"

definition policy_with_rule :: "policy \<Rightarrow> policy_rule \<Rightarrow> policy" where
  "policy_with_rule p r = p\<lparr>pol_rules := pol_rules p @ [r]\<rparr>"

definition policy_replace_rules :: "policy \<Rightarrow> policy_rule list \<Rightarrow> policy \<times> u64" where
  "policy_replace_rules p rules =
     (let generation = max (pol_generation p + 1) 1
      in (p\<lparr>pol_rules := rules, pol_generation := generation\<rparr>, generation))"

text \<open>The loop over the rules: \<open>continue\<close> goes on with the rest, \<open>return\<close> ends it.\<close>

fun decide_rules :: "policy_rule list \<Rightarrow> authorized_command \<Rightarrow> command_class \<Rightarrow> u64 \<Rightarrow> decision" where
  "decide_rules [] cmd cls now = Deny NoMatchingRule"
| "decide_rules (rule # rules) cmd cls now =
     (if (case pr_actor_kind rule of Some ak \<Rightarrow> ak \<noteq> ac_actor_kind cmd | None \<Rightarrow> False)
      then decide_rules rules cmd cls now
      else if pr_devices rule \<noteq> [] \<and> ucast (ac_device_id cmd) \<notin> set (pr_devices rule)
      then decide_rules rules cmd cls now
      else if pr_points rule \<noteq> [] \<and> ac_point_id cmd \<notin> set (pr_points rule)
      then decide_rules rules cmd cls now
      else if pr_kinds rule \<noteq> [] \<and> cls \<notin> set (pr_kinds rule)
      then decide_rules rules cmd cls now
      else if pr_time_window rule \<noteq> (0, 0) \<and>
              (now < fst (pr_time_window rule) \<or> snd (pr_time_window rule) < now)
      then Deny OutsideTimeWindow
      else Allow (pr_obligations rule))"

definition in_scope :: "lease_scope \<Rightarrow> authorized_command \<Rightarrow> bool" where
  "in_scope lease cmd =
     ((ls_devices lease = [] \<or> ucast (ac_device_id cmd) \<in> set (ls_devices lease)) \<and>
      (ls_points lease = [] \<or> ac_point_id cmd \<in> set (ls_points lease)))"

definition pdp_decide :: "policy \<Rightarrow> authorized_command \<Rightarrow> lease_scope \<Rightarrow> u64 \<Rightarrow> decision" where
  "pdp_decide p cmd lease now =
     (if ac_policy_version cmd \<noteq> pol_generation p
      then Deny (StalePolicyVersion (pol_generation p) (ac_policy_version cmd))
      else if \<not> in_scope lease cmd then Deny OutsideLeaseScope
      else decide_rules (pol_rules p) cmd (class_of_command cmd) now)"

section \<open>Specification\<close>

text \<open>What a rule covers, and when it is open.\<close>

definition rule_covers :: "policy_rule \<Rightarrow> authorized_command \<Rightarrow> bool" where
  "rule_covers r cmd \<longleftrightarrow>
     (pr_actor_kind r = None \<or> pr_actor_kind r = Some (ac_actor_kind cmd)) \<and>
     (pr_devices r = [] \<or> ucast (ac_device_id cmd) \<in> set (pr_devices r)) \<and>
     (pr_points r = [] \<or> ac_point_id cmd \<in> set (pr_points r)) \<and>
     (pr_kinds r = [] \<or> class_of_command cmd \<in> set (pr_kinds r))"

definition rule_open :: "policy_rule \<Rightarrow> u64 \<Rightarrow> bool" where
  "rule_open r now \<longleftrightarrow>
     pr_time_window r = (0, 0) \<or> fst (pr_time_window r) \<le> now \<and> now \<le> snd (pr_time_window r)"

section \<open>Lemmas\<close>

lemma decide_rules_covers:
  "decide_rules (r # rs) cmd (class_of_command cmd) now =
     (if \<not> rule_covers r cmd then decide_rules rs cmd (class_of_command cmd) now
      else if rule_open r now then Allow (pr_obligations r) else Deny OutsideTimeWindow)"
  by (auto simp: rule_covers_def rule_open_def not_less split: option.splits)

lemma decide_rules_find:
  "decide_rules rs cmd (class_of_command cmd) now =
     (case find (\<lambda>r. rule_covers r cmd) rs of
        None \<Rightarrow> Deny NoMatchingRule
      | Some r \<Rightarrow> if rule_open r now then Allow (pr_obligations r) else Deny OutsideTimeWindow)"
  by (induction rs) (simp_all add: decide_rules_covers del: decide_rules.simps(2))

lemma pdp_decide_Allow_iff:
  "pdp_decide p cmd lease now = Allow obs \<longleftrightarrow>
     ac_policy_version cmd = pol_generation p \<and> in_scope lease cmd \<and>
     (\<exists>r. find (\<lambda>r. rule_covers r cmd) (pol_rules p) = Some r \<and> rule_open r now \<and>
        obs = pr_obligations r)"
  by (auto simp: pdp_decide_def decide_rules_find split: option.splits)

lemma policy_replace_rules_generation:
  "pol_generation (fst (policy_replace_rules p rs)) \<noteq> 0"
  "pol_generation p \<noteq> - 1 \<Longrightarrow> pol_generation (fst (policy_replace_rules p rs)) = pol_generation p + 1"
proof -
  have "1 \<le> max (pol_generation p + 1) 1" by (rule max.cobounded2)
  then have "max (pol_generation p + 1) 1 \<noteq> 0"
    by (metis word_le_0_iff zero_neq_one)
  then show "pol_generation (fst (policy_replace_rules p rs)) \<noteq> 0"
    by (simp add: policy_replace_rules_def Let_def)
  assume "pol_generation p \<noteq> - 1"
  then have "pol_generation p + 1 \<noteq> 0" by (simp add: add_eq_0_iff2)
  then have "1 \<le> pol_generation p + 1" by (metis linorder_not_less word_less_1)
  then show "pol_generation (fst (policy_replace_rules p rs)) = pol_generation p + 1"
    by (simp add: policy_replace_rules_def Let_def max_def)
qed

section \<open>Properties\<close>

lemma find_Some_split:
  "find P xs = Some r \<longleftrightarrow> (\<exists>pre post. xs = pre @ r # post \<and> list_all (\<lambda>q. \<not> P q) pre \<and> P r)"
proof (induction xs)
  case (Cons x xs)
  show ?case
  proof (cases "P x")
    case True
    then have "(\<exists>pre post. x # xs = pre @ r # post \<and> list_all (\<lambda>q. \<not> P q) pre \<and> P r) \<longleftrightarrow> x = r"
      by (auto simp: Cons_eq_append_conv)
    with True show ?thesis by simp
  next
    case False
    have "(\<exists>pre post. x # xs = pre @ r # post \<and> list_all (\<lambda>q. \<not> P q) pre \<and> P r) \<longleftrightarrow>
        (\<exists>pre post. xs = pre @ r # post \<and> list_all (\<lambda>q. \<not> P q) pre \<and> P r)" (is "?L \<longleftrightarrow> ?R")
    proof
      assume ?L
      then obtain pre post where "x # xs = pre @ r # post" "list_all (\<lambda>q. \<not> P q) pre" "P r" by blast
      with False show ?R by (cases pre) auto
    next
      assume ?R
      then obtain pre post where "xs = pre @ r # post" "list_all (\<lambda>q. \<not> P q) pre" "P r" by blast
      with False have "x # xs = (x # pre) @ r # post \<and> list_all (\<lambda>q. \<not> P q) (x # pre) \<and> P r" by simp
      then show ?L by blast
    qed
    with False Cons show ?thesis by simp
  qed
qed simp

text \<open>The decision point allows a command exactly when it carries the current policy generation, lies in the scope of its lease, and the first rule that covers it is open at that time; the obligations are those of that rule.\<close>

theorem pdp_allows_iff:
  "pdp_decide p cmd lease now = Allow obs \<longleftrightarrow>
     ac_policy_version cmd = pol_generation p \<and> in_scope lease cmd \<and>
     (\<exists>pre r post. pol_rules p = pre @ r # post \<and> list_all (\<lambda>q. \<not> rule_covers q cmd) pre \<and>
        rule_covers r cmd \<and> rule_open r now \<and> obs = pr_obligations r)"
  by (auto simp: pdp_decide_Allow_iff find_Some_split)

text \<open>After the rules are replaced, every command issued under the previous generation is denied as stale, whatever the new rules are (the one exception is the wrap-around of the generation counter).\<close>

theorem replaced_policy_is_stale:
  assumes "pol_generation p \<noteq> - 1" and "ac_policy_version cmd = pol_generation p"
  shows "pdp_decide (fst (policy_replace_rules p rs)) cmd lease now =
     Deny (StalePolicyVersion (pol_generation p + 1) (pol_generation p))"
  using policy_replace_rules_generation(2) [OF assms(1), of rs] assms(2) by (simp add: pdp_decide_def)

theorem replaced_policy_is_stale_witness:
  "pdp_decide (fst (policy_replace_rules (policy_new 4) []))
     \<lparr>ac_device_id = 7, ac_point_id = 3, ac_command = Single SOn, ac_actor_kind = Ai,
      ac_issuer = zeros 16, ac_correlation_id = zeros 16, ac_sequence = 0, ac_lease_id = zeros 16,
      ac_fencing_token = 1, ac_policy_version = 4, ac_idempotency_key = zeros 16\<rparr>
     \<lparr>ls_devices = [], ls_points = [], ls_max_class = 0\<rparr> 100 = Deny (StalePolicyVersion 5 4)"
  using replaced_policy_is_stale [of "policy_new 4"
      "\<lparr>ac_device_id = 7, ac_point_id = 3, ac_command = Single SOn, ac_actor_kind = Ai,
      ac_issuer = zeros 16, ac_correlation_id = zeros 16, ac_sequence = 0, ac_lease_id = zeros 16,
      ac_fencing_token = 1, ac_policy_version = 4, ac_idempotency_key = zeros 16\<rparr>"]
  by (simp add: policy_new_def)

end
