(* ===== verification/Safety.thy ===== *)
theory Safety
  imports Ordered_Map Command_Model
begin

text \<open>
  Feedback reconciliation (\<open>control-gateway/src/reconcile.rs\<close>) and the independent safety
  validator (\<open>safety.rs\<close>).
\<close>

section \<open>Reconciliation\<close>

record feedback_sample =
  fs_value :: f64
  fs_quality :: quality_flag
  fs_timestamp_epoch :: u64

datatype reconciled =
  RecOk f64 | RecStale u64 u64 | RecBadQuality quality_flag | RecOutOfRange f64 f64 f64

definition reconcile :: "feedback_sample \<Rightarrow> u64 \<Rightarrow> u64 \<Rightarrow> f64 \<Rightarrow> f64 \<Rightarrow> reconciled" where
  "reconcile sample now max_age_secs sane_min sane_max =
     (let age = saturating_sub now (fs_timestamp_epoch sample)
      in if max_age_secs < age then RecStale age max_age_secs
         else if fs_quality sample \<noteq> Good then RecBadQuality (fs_quality sample)
         else if f64_lt (fs_value sample) sane_min \<or> f64_lt sane_max (fs_value sample)
         then RecOutOfRange (fs_value sample) sane_min sane_max
         else RecOk (fs_value sample))"

section \<open>The validator\<close>

datatype safety_role =
  PccBreaker | BatteryCharge | BatteryDischarge | InverterBlock | PvCurtail | Unassigned

record safety_point =
  sp_role :: safety_role
  sp_spec :: point_spec

record plant_context =
  pc_grid_up :: bool
  pc_soc_pct :: f64
  pc_dc_bus_v :: f64
  pc_overcurrent :: bool
  pc_overtemp :: bool
  pc_maintenance_lockout :: bool

datatype safety_verdict = Safe | Unsafe string

definition is_safe :: "safety_verdict \<Rightarrow> bool" where
  "is_safe v = (v = Safe)"

record safety_validator =
  sv_table :: "(u32 \<times> u32, safety_point) btree"

definition sv_new :: safety_validator where
  "sv_new = \<lparr>sv_table = bt_empty\<rparr>"

definition sv_register :: "safety_validator \<Rightarrow> u32 \<Rightarrow> u32 \<Rightarrow> safety_point \<Rightarrow> safety_validator" where
  "sv_register v device_id point_id p =
     v\<lparr>sv_table := bt_insert (sv_table v) (device_id, point_id) p\<rparr>"

definition role_of :: "safety_validator \<Rightarrow> u32 \<Rightarrow> u32 \<Rightarrow> safety_role option" where
  "role_of v device_id point_id = map_option sp_role (bt_get (sv_table v) (device_id, point_id))"

definition is_on :: "control_command \<Rightarrow> bool" where
  "is_on c = (c = Single SOn \<or> c = Double DOn)"

definition is_off :: "control_command \<Rightarrow> bool" where
  "is_off c = (c = Single SOff \<or> c = Double DOff)"

definition validate_pcc :: "authorized_command \<Rightarrow> plant_context \<Rightarrow> safety_verdict" where
  "validate_pcc cmd ctx =
     (let is_close = is_on (ac_command cmd)
      in if is_close \<and> pc_maintenance_lockout ctx
         then Unsafe ''UCA-PCC-001: close during maintenance lockout''
         else if is_close \<and> \<not> pc_grid_up ctx
         then Unsafe ''UCA-PCC-001: close PCC while grid down (islanding)''
         else Safe)"

definition validate_charge ::
  "authorized_command \<Rightarrow> plant_context \<Rightarrow> safety_point \<Rightarrow> safety_verdict" where
  "validate_charge cmd ctx point =
     (let enable = is_on (ac_command cmd)
      in if enable \<and> f64_le (ps_safe_max (sp_spec point)) (pc_soc_pct ctx)
         then Unsafe ''UCA-CHG-001: charge past SOC ceiling''
         else if pc_overtemp ctx then Unsafe ''HZ-THERM-001: charge while overtemp''
         else Safe)"

definition validate_discharge ::
  "authorized_command \<Rightarrow> plant_context \<Rightarrow> safety_point \<Rightarrow> safety_verdict" where
  "validate_discharge cmd ctx point =
     (let enable = is_on (ac_command cmd)
      in if enable \<and> f64_le (pc_soc_pct ctx) (ps_safe_min (sp_spec point))
         then Unsafe ''UCA-DIS-001: discharge below SOC floor''
         else Safe)"

definition validate_inverter_block :: "authorized_command \<Rightarrow> plant_context \<Rightarrow> safety_verdict" where
  "validate_inverter_block cmd ctx =
     (let unblock = is_off (ac_command cmd)
      in if unblock \<and> pc_overcurrent ctx
         then Unsafe ''UCA-PCS-001: unblock inverter while overcurrent''
         else Safe)"

definition validate :: "safety_validator \<Rightarrow> authorized_command \<Rightarrow> plant_context \<Rightarrow> safety_verdict" where
  "validate v cmd ctx =
     (case bt_get (sv_table v) (ucast (ac_device_id cmd), ac_point_id cmd) of
        None \<Rightarrow> Unsafe ''point not in safety table''
      | Some point \<Rightarrow>
        if sp_role point = Unassigned then Unsafe ''point has no safety role''
        else (case sp_role point of
            PccBreaker \<Rightarrow> validate_pcc cmd ctx
          | BatteryCharge \<Rightarrow> validate_charge cmd ctx point
          | BatteryDischarge \<Rightarrow> validate_discharge cmd ctx point
          | InverterBlock \<Rightarrow> validate_inverter_block cmd ctx
          | PvCurtail \<Rightarrow> Safe
          | Unassigned \<Rightarrow> Unsafe ''unassigned''))"

section \<open>Specification: the unsafe control actions\<close>

text \<open>The hazards of the STPA table the validator enforces, over the validator's own role of a
  point and a plant context.\<close>

definition unsafe_action :: "safety_point \<Rightarrow> control_command \<Rightarrow> plant_context \<Rightarrow> bool" where
  "unsafe_action p c ctx \<longleftrightarrow>
     (sp_role p = PccBreaker \<and> is_on c \<and> (pc_maintenance_lockout ctx \<or> \<not> pc_grid_up ctx)) \<or>
     (sp_role p = BatteryCharge \<and>
        (is_on c \<and> f64_le (ps_safe_max (sp_spec p)) (pc_soc_pct ctx) \<or> pc_overtemp ctx)) \<or>
     (sp_role p = BatteryDischarge \<and> is_on c \<and> f64_le (pc_soc_pct ctx) (ps_safe_min (sp_spec p))) \<or>
     (sp_role p = InverterBlock \<and> is_off c \<and> pc_overcurrent ctx) \<or>
     sp_role p = Unassigned"

section \<open>Lemmas\<close>

lemma reconcile_Ok_iff:
  "reconcile s now age lo hi = RecOk v \<longleftrightarrow>
     v = fs_value s \<and> saturating_sub now (fs_timestamp_epoch s) \<le> age \<and> fs_quality s = Good \<and>
     \<not> f64_lt v lo \<and> \<not> f64_lt hi v"
  by (auto simp: reconcile_def Let_def not_less)

lemma validate_Safe_iff:
  "validate v cmd ctx = Safe \<longleftrightarrow>
     (\<exists>p. bt_get (sv_table v) (ucast (ac_device_id cmd), ac_point_id cmd) = Some p \<and>
        \<not> unsafe_action p (ac_command cmd) ctx)"
  by (auto simp: validate_def unsafe_action_def validate_pcc_def validate_charge_def
      validate_discharge_def validate_inverter_block_def Let_def
      split: option.splits safety_role.splits if_splits)

end
