(* ===== verification/Control_Chain.thy ===== *)
theory Control_Chain
  imports Gateway Idempotency Override Policy Safety
begin

text \<open>
  The control chain (\<open>control-gateway/src/chain/mod.rs\<close>, \<open>chain/execute.rs\<close>): the single
  default-deny path from envelope bytes to a command that may be applied to a device.

  The reason text \<open>format!("{field} feedback {verdict:?}; safety={reason}")\<close> is kept as the
  data it is printed from: the field, the reconciliation verdict and the validator's reason.
\<close>

section \<open>Data\<close>

datatype chain_deny_reason =
  GatewayDeny gateway_error
  | LeaseRevoked
  | StaleFencing
  | Superseded
  | PolicyDeny deny_reason
  | NotSelected
  | SelectExpired
  | UnsafeCommand string
  | FeedbackUntrusted "string \<times> reconciled" "string option"

datatype chain_outcome =
  Executed authorized_command "obligation list"
  | IdempotentHit op_outcome
  | DryRunOutcome authorized_command "obligation list"
  | Denied chain_deny_reason

record feedback_bundle =
  fb_grid_up :: feedback_sample
  fb_soc_pct :: feedback_sample
  fb_dc_bus_v :: feedback_sample
  fb_overcurrent :: feedback_sample
  fb_overtemp :: feedback_sample
  fb_maintenance_lockout :: bool

definition good_sample :: "f64 \<Rightarrow> u64 \<Rightarrow> feedback_sample" where
  "good_sample v now = \<lparr>fs_value = v, fs_quality = Good, fs_timestamp_epoch = now\<rparr>"

definition fb_fresh :: "bool \<Rightarrow> f64 \<Rightarrow> u64 \<Rightarrow> feedback_bundle" where
  "fb_fresh grid_up soc_pct now =
     \<lparr>fb_grid_up = good_sample (if grid_up then f64_1 else f64_0) now,
      fb_soc_pct = good_sample soc_pct now,
      fb_dc_bus_v = good_sample f64_600 now,
      fb_overcurrent = good_sample f64_0 now,
      fb_overtemp = good_sample f64_0 now,
      fb_maintenance_lockout = False\<rparr>"

definition fb_untrusted :: "u64 \<Rightarrow> feedback_bundle" where
  "fb_untrusted now =
     (let bad = \<lparr>fs_value = f64_0, fs_quality = Invalid, fs_timestamp_epoch = now\<rparr>
      in \<lparr>fb_grid_up = bad, fb_soc_pct = bad, fb_dc_bus_v = bad, fb_overcurrent = bad,
          fb_overtemp = bad, fb_maintenance_lockout = False\<rparr>)"

record control_chain =
  cc_gateway :: control_gateway
  cc_lease_service :: lease_service
  cc_policy :: policy
  cc_safety :: safety_validator
  cc_idempotency :: idempotency_cache
  cc_sbo :: sbo_tracker
  cc_override_auth :: override_authority
  cc_feedback_max_age_secs :: u64

section \<open>Operations\<close>

definition chain_new ::
  "bytes \<Rightarrow> u64 \<Rightarrow> nat \<Rightarrow> policy \<Rightarrow> u64 \<Rightarrow> u64 \<Rightarrow> nat \<Rightarrow> u64 \<Rightarrow> control_chain" where
  "chain_new key max_skew replay_cap pol max_age idem_ttl idem_cap sbo_ttl =
     \<lparr>cc_gateway = gw_new key max_skew replay_cap, cc_lease_service = lease_new,
      cc_policy = pol, cc_safety = sv_new, cc_idempotency = ic_new idem_ttl idem_cap,
      cc_sbo = sbo_new sbo_ttl, cc_override_auth = oa_new, cc_feedback_max_age_secs = max_age\<rparr>"

definition chain_select :: "control_chain \<Rightarrow> u32 \<Rightarrow> u64 \<Rightarrow> control_chain" where
  "chain_select c point_id now = c\<lparr>cc_sbo := sbo_select (cc_sbo c) point_id now\<rparr>"

text \<open>One field of the context: its value when the sample reconciles, otherwise the fail-safe
  value and, unless an earlier field already failed, the reason.\<close>

definition reconcile_field ::
  "string \<Rightarrow> reconciled \<Rightarrow> (f64 \<Rightarrow> 'a) \<Rightarrow> 'a \<Rightarrow> (string \<times> reconciled) option \<Rightarrow>
     'a \<times> (string \<times> reconciled) option" where
  "reconcile_field nm r ok failsafe untrusted =
     (case r of
        RecOk v \<Rightarrow> (ok v, untrusted)
      | other \<Rightarrow> (failsafe, case untrusted of None \<Rightarrow> Some (nm, other) | Some u \<Rightarrow> Some u))"

definition reconcile_context ::
  "control_chain \<Rightarrow> feedback_bundle \<Rightarrow> u64 \<Rightarrow> plant_context \<times> (string \<times> reconciled) option" where
  "reconcile_context c fb now =
     (let max_age = cc_feedback_max_age_secs c;
          (grid_up, u) = reconcile_field ''grid_up''
            (reconcile (fb_grid_up fb) now max_age f64_0 f64_1) (\<lambda>v. \<not> f64_eq v f64_0) False None;
          (soc_pct, u) = reconcile_field ''soc_pct''
            (reconcile (fb_soc_pct fb) now max_age f64_0 f64_100) (\<lambda>v. v) f64_0 u;
          (dc_bus_v, u) = reconcile_field ''dc_bus_v''
            (reconcile (fb_dc_bus_v fb) now max_age f64_0 f64_1000) (\<lambda>v. v) f64_0 u;
          (overcurrent, u) = reconcile_field ''overcurrent''
            (reconcile (fb_overcurrent fb) now max_age f64_0 f64_1) (\<lambda>v. \<not> f64_eq v f64_0) True u;
          (overtemp, u) = reconcile_field ''overtemp''
            (reconcile (fb_overtemp fb) now max_age f64_0 f64_1) (\<lambda>v. \<not> f64_eq v f64_0) True u
      in (\<lparr>pc_grid_up = grid_up, pc_soc_pct = soc_pct, pc_dc_bus_v = dc_bus_v,
           pc_overcurrent = overcurrent, pc_overtemp = overtemp,
           pc_maintenance_lockout = fb_maintenance_lockout fb\<rparr>, u))"

text \<open>Steps 4 and 5: the override authority, then the policy decision point.\<close>

definition chain_route ::
  "control_chain \<Rightarrow> authorized_command \<Rightarrow> u64 \<Rightarrow> chain_deny_reason + obligation list" where
  "chain_route c cmd now =
     (case oa_decide (cc_override_auth c) cmd now of
        SupersededByOverride \<Rightarrow> Inl Superseded
      | EmergencyBypass \<Rightarrow> Inr []
      | Normal \<Rightarrow>
        (case lease_scope_of (cc_lease_service c) (ac_lease_id cmd) now of
            None \<Rightarrow> Inl LeaseRevoked
          | Some scope \<Rightarrow>
            (case pdp_decide (cc_policy c) cmd scope now of
                Allow obligations \<Rightarrow> Inr obligations
              | Deny reason \<Rightarrow> Inl (PolicyDeny reason))))"

text \<open>Every deny from step 4 on records the idempotency key as rejected.\<close>

definition chain_record :: "control_chain \<Rightarrow> authorized_command \<Rightarrow> op_outcome \<Rightarrow> u64 \<Rightarrow> control_chain" where
  "chain_record c cmd outcome now =
     c\<lparr>cc_idempotency := ic_record (cc_idempotency c) (ac_idempotency_key cmd) outcome now\<rparr>"

definition chain_reject ::
  "control_chain \<Rightarrow> authorized_command \<Rightarrow> u64 \<Rightarrow> chain_deny_reason \<Rightarrow> control_chain \<times> chain_outcome" where
  "chain_reject c cmd now reason = (chain_record c cmd Rejected now, Denied reason)"

text \<open>Steps 7 to 10: feedback, independent validation, dry run, execution.\<close>

definition chain_finish ::
  "control_chain \<Rightarrow> authorized_command \<Rightarrow> obligation list \<Rightarrow> u64 \<Rightarrow> feedback_bundle \<Rightarrow>
     control_chain \<times> chain_outcome" where
  "chain_finish c cmd obligations now feedback =
     (case reconcile_context c feedback now of
        (ctx, Some reason) \<Rightarrow>
          (case validate (cc_safety c) cmd ctx of
              Unsafe safety_reason \<Rightarrow>
                chain_reject c cmd now (FeedbackUntrusted reason (Some safety_reason))
            | Safe \<Rightarrow> chain_reject c cmd now (FeedbackUntrusted reason None))
      | (ctx, None) \<Rightarrow>
          (case validate (cc_safety c) cmd ctx of
              Unsafe reason \<Rightarrow> chain_reject c cmd now (UnsafeCommand reason)
            | Safe \<Rightarrow>
                if list_ex (\<lambda>ob. ob = DryRun) obligations
                then (chain_record c cmd Applied now, DryRunOutcome cmd obligations)
                else (chain_record c cmd Applied now, Executed cmd obligations)))"

definition chain_execute ::
  "control_chain \<Rightarrow> bytes \<Rightarrow> u64 \<Rightarrow> feedback_bundle \<Rightarrow> control_chain \<times> chain_outcome" where
  "chain_execute c0 buf now feedback =
     (let (gw, auth) = gw_authorize (cc_gateway c0) buf now;
          c = c0\<lparr>cc_gateway := gw\<rparr>
      in case auth of
           Inl e \<Rightarrow> (c, Denied (GatewayDeny e))
         | Inr cmd \<Rightarrow>
           (case lease_check (cc_lease_service c) (ac_lease_id cmd) (ac_fencing_token cmd) now of
               Revoked \<Rightarrow> (c, Denied LeaseRevoked)
             | Stale \<Rightarrow> (c, Denied StaleFencing)
             | Unknown \<Rightarrow> (c, Denied LeaseRevoked)
             | Valid \<Rightarrow>
               (case ic_check (cc_idempotency c) (ac_idempotency_key cmd) now of
                   Some prior \<Rightarrow> (c, IdempotentHit prior)
                 | None \<Rightarrow>
                   (case chain_route c cmd now of
                       Inl reason \<Rightarrow> chain_reject c cmd now reason
                     | Inr obligations \<Rightarrow>
                       (let (sbo, r) = sbo_execute (cc_sbo c) (ac_point_id cmd) now;
                            c = c\<lparr>cc_sbo := sbo\<rparr>
                        in case r of
                             SboNotSelected \<Rightarrow> chain_reject c cmd now NotSelected
                           | SboSelectExpired \<Rightarrow> chain_reject c cmd now SelectExpired
                           | SboExecuted \<Rightarrow> chain_finish c cmd obligations now feedback)))))"

definition chain_replay_cache_len :: "control_chain \<Rightarrow> nat" where
  "chain_replay_cache_len c = replay_cache_len (cc_gateway c)"

section \<open>All the ways a chain changes\<close>

text \<open>The public operations, including those reached through the \<open>*_mut\<close> accessors: the
  policy accessor lets a caller replace the policy by any other.\<close>

inductive chain_step :: "control_chain \<Rightarrow> control_chain \<Rightarrow> bool" where
  execute: "chain_step c (fst (chain_execute c buf now fb))"
| select: "chain_step c (chain_select c p now)"
| issue: "chain_step c (c\<lparr>cc_lease_service := fst (lease_issue (cc_lease_service c) i sc ttl now)\<rparr>)"
| revoke: "chain_step c (c\<lparr>cc_lease_service := fst (lease_revoke (cc_lease_service c) i)\<rparr>)"
| seed: "chain_step c (c\<lparr>cc_lease_service := seed_epoch (cc_lease_service c) n\<rparr>)"
| register: "chain_step c (c\<lparr>cc_safety := sv_register (cc_safety c) d p sp\<rparr>)"
| activate: "chain_step c
    (c\<lparr>cc_override_auth := fst (oa_activate (cc_override_auth c) p ttl now actor)\<rparr>)"
| deactivate: "chain_step c (c\<lparr>cc_override_auth := oa_deactivate (cc_override_auth c) p\<rparr>)"
| gc: "chain_step c (c\<lparr>cc_override_auth := oa_gc (cc_override_auth c) now\<rparr>)"
| policy: "chain_step c (c\<lparr>cc_policy := pol\<rparr>)"

definition chain_revoke :: "control_chain \<Rightarrow> bytes \<Rightarrow> control_chain" where
  "chain_revoke c i = c\<lparr>cc_lease_service := fst (lease_revoke (cc_lease_service c) i)\<rparr>"

section \<open>Specification of an executed command\<close>

text \<open>A sample that may be acted on, and the context five such samples describe.\<close>

definition trusted :: "feedback_sample \<Rightarrow> u64 \<Rightarrow> u64 \<Rightarrow> f64 \<Rightarrow> f64 \<Rightarrow> bool" where
  "trusted s now max_age lo hi \<longleftrightarrow>
     saturating_sub now (fs_timestamp_epoch s) \<le> max_age \<and> fs_quality s = Good \<and>
     \<not> f64_lt (fs_value s) lo \<and> \<not> f64_lt hi (fs_value s)"

definition bundle_trusted :: "feedback_bundle \<Rightarrow> u64 \<Rightarrow> u64 \<Rightarrow> bool" where
  "bundle_trusted fb now max_age \<longleftrightarrow>
     trusted (fb_grid_up fb) now max_age f64_0 f64_1 \<and>
     trusted (fb_soc_pct fb) now max_age f64_0 f64_100 \<and>
     trusted (fb_dc_bus_v fb) now max_age f64_0 f64_1000 \<and>
     trusted (fb_overcurrent fb) now max_age f64_0 f64_1 \<and>
     trusted (fb_overtemp fb) now max_age f64_0 f64_1"

definition measured_context :: "feedback_bundle \<Rightarrow> plant_context" where
  "measured_context fb =
     \<lparr>pc_grid_up = (\<not> f64_eq (fs_value (fb_grid_up fb)) f64_0),
      pc_soc_pct = fs_value (fb_soc_pct fb), pc_dc_bus_v = fs_value (fb_dc_bus_v fb),
      pc_overcurrent = (\<not> f64_eq (fs_value (fb_overcurrent fb)) f64_0),
      pc_overtemp = (\<not> f64_eq (fs_value (fb_overtemp fb)) f64_0),
      pc_maintenance_lockout = fb_maintenance_lockout fb\<rparr>"

text \<open>Who may give the command: an emergency actor, or an actor the policy allows on a point no
  override holds.\<close>

definition chain_permits :: "control_chain \<Rightarrow> authorized_command \<Rightarrow> u64 \<Rightarrow> obligation list \<Rightarrow> bool" where
  "chain_permits c cmd now obs \<longleftrightarrow>
     (if ac_actor_kind cmd = Emergency then obs = []
      else \<not> oa_is_active (cc_override_auth c) (ac_point_id cmd) now \<and>
        (\<exists>scope. lease_scope_of (cc_lease_service c) (ac_lease_id cmd) now = Some scope \<and>
           pdp_decide (cc_policy c) cmd scope now = Allow obs))"

text \<open>The complete list of conditions, each over the state before the call.\<close>

definition chain_admits ::
  "control_chain \<Rightarrow> bytes \<Rightarrow> u64 \<Rightarrow> feedback_bundle \<Rightarrow> authorized_command \<Rightarrow> obligation list \<Rightarrow> bool" where
  "chain_admits c buf now fb cmd obs \<longleftrightarrow>
     (\<exists>env d. env_decode buf = Inr env \<and> gw_accepts (cc_gateway c) env now \<and>
        u16_try_from (env_device_id env) = Some d \<and> cmd = authorized_of env d) \<and>
     lease_check (cc_lease_service c) (ac_lease_id cmd) (ac_fencing_token cmd) now = Valid \<and>
     ic_check (cc_idempotency c) (ac_idempotency_key cmd) now = None \<and>
     chain_permits c cmd now obs \<and>
     (\<exists>sel ex. bt_get (sbo_states (cc_sbo c)) (ac_point_id cmd) = Some (SboSelected sel ex) \<and> now \<le> ex) \<and>
     bundle_trusted fb now (cc_feedback_max_age_secs c) \<and>
     (\<exists>p. bt_get (sv_table (cc_safety c)) (ucast (ac_device_id cmd), ac_point_id cmd) = Some p \<and>
        \<not> unsafe_action p (ac_command cmd) (measured_context fb))"

section \<open>Lemmas\<close>

lemma reconcile_trusted:
  "(\<exists>v. reconcile s now age lo hi = RecOk v) \<longleftrightarrow> trusted s now age lo hi"
  by (auto simp: reconcile_Ok_iff trusted_def)

lemma reconcile_field_trusted:
  "trusted s now age lo hi \<Longrightarrow>
     reconcile_field nm (reconcile s now age lo hi) ok failsafe u = (ok (fs_value s), u)"
  by (auto simp: reconcile_field_def trusted_def reconcile_def Let_def)

lemma reconcile_field_None_iff [simp]:
  "snd (reconcile_field nm (reconcile s now age lo hi) ok failsafe u) = None \<longleftrightarrow>
     u = None \<and> trusted s now age lo hi"
  by (auto simp: reconcile_field_def trusted_def reconcile_def Let_def split: option.splits)

lemma reconcile_context_trusted:
  "bundle_trusted fb now (cc_feedback_max_age_secs c) \<Longrightarrow>
     reconcile_context c fb now = (measured_context fb, None)"
  by (simp add: reconcile_context_def bundle_trusted_def reconcile_field_trusted measured_context_def)

lemma reconcile_context_None_iff:
  "snd (reconcile_context c fb now) = None \<longleftrightarrow>
     bundle_trusted fb now (cc_feedback_max_age_secs c)"
  by (auto simp: reconcile_context_def Let_def case_prod_beta bundle_trusted_def)

lemma chain_route_Inr_iff: "chain_route c cmd now = Inr obs \<longleftrightarrow> chain_permits c cmd now obs"
  by (auto simp: chain_route_def chain_permits_def oa_decide_def Let_def
      split: option.splits decision.splits)

lemma reconcile_context_cases:
  obtains (trusted) "bundle_trusted fb now (cc_feedback_max_age_secs c)"
      "reconcile_context c fb now = (measured_context fb, None)"
  | (untrusted) ctx r where "\<not> bundle_trusted fb now (cc_feedback_max_age_secs c)"
      "reconcile_context c fb now = (ctx, Some r)"
proof (cases "bundle_trusted fb now (cc_feedback_max_age_secs c)")
  case True
  then show thesis by (intro trusted reconcile_context_trusted)
next
  case False
  then obtain r where "snd (reconcile_context c fb now) = Some r"
    using reconcile_context_None_iff [of c fb now] by auto
  with False show thesis by (intro untrusted [of "fst (reconcile_context c fb now)" r]) (auto simp: prod_eq_iff)
qed

lemma chain_finish_Executed_iff:
  "snd (chain_finish c cmd obs now fb) = Executed cmd' obs' \<longleftrightarrow>
     cmd' = cmd \<and> obs' = obs \<and> DryRun \<notin> set obs \<and>
     bundle_trusted fb now (cc_feedback_max_age_secs c) \<and>
     validate (cc_safety c) cmd (measured_context fb) = Safe"
  by (rule reconcile_context_cases [of fb now c])
    (auto simp: chain_finish_def chain_reject_def list_ex_iff split: safety_verdict.splits)

lemma chain_finish_DryRun_iff:
  "snd (chain_finish c cmd obs now fb) = DryRunOutcome cmd' obs' \<longleftrightarrow>
     cmd' = cmd \<and> obs' = obs \<and> DryRun \<in> set obs \<and>
     bundle_trusted fb now (cc_feedback_max_age_secs c) \<and>
     validate (cc_safety c) cmd (measured_context fb) = Safe"
  by (rule reconcile_context_cases [of fb now c])
    (auto simp: chain_finish_def chain_reject_def list_ex_iff split: safety_verdict.splits)

lemma chain_finish_not_hit: "snd (chain_finish c cmd obs now fb) \<noteq> IdempotentHit r"
  by (rule reconcile_context_cases [of fb now c])
    (auto simp: chain_finish_def chain_reject_def split: safety_verdict.splits)

text \<open>The state a finished request leaves: only the idempotency cache changed.\<close>

lemma chain_finish_state:
  "\<exists>out. fst (chain_finish c cmd obs now fb) = chain_record c cmd out now \<and>
     (snd (chain_finish c cmd obs now fb) = Executed cmd obs \<longrightarrow> out = Applied)"
  by (rule reconcile_context_cases [of fb now c])
    (auto simp: chain_finish_def chain_reject_def split: safety_verdict.splits)

lemma chain_route_update [simp]:
  "chain_route (c\<lparr>cc_gateway := g\<rparr>) cmd now = chain_route c cmd now"
  by (simp add: chain_route_def split: override_decision.split option.split)

text \<open>Soundness and completeness of the chain: the outcome is \<open>Executed\<close> exactly when every
  condition holds.\<close>

lemma chain_execute_split:
  "snd (chain_execute c buf now fb) = out \<longleftrightarrow>
     (case snd (gw_authorize (cc_gateway c) buf now) of
        Inl e \<Rightarrow> out = Denied (GatewayDeny e)
      | Inr cmd \<Rightarrow>
        (case lease_check (cc_lease_service c) (ac_lease_id cmd) (ac_fencing_token cmd) now of
           Stale \<Rightarrow> out = Denied StaleFencing
         | Valid \<Rightarrow>
           (case ic_check (cc_idempotency c) (ac_idempotency_key cmd) now of
              Some prior \<Rightarrow> out = IdempotentHit prior
            | None \<Rightarrow>
              (case chain_route c cmd now of
                 Inl reason \<Rightarrow> out = Denied reason
               | Inr obs \<Rightarrow>
                 (case snd (sbo_execute (cc_sbo c) (ac_point_id cmd) now) of
                    SboNotSelected \<Rightarrow> out = Denied NotSelected
                  | SboSelectExpired \<Rightarrow> out = Denied SelectExpired
                  | SboExecuted \<Rightarrow>
                      out = snd (chain_finish
                        (c\<lparr>cc_gateway := fst (gw_authorize (cc_gateway c) buf now),
                           cc_sbo := fst (sbo_execute (cc_sbo c) (ac_point_id cmd) now)\<rparr>)
                        cmd obs now fb))))
         | _ \<Rightarrow> out = Denied LeaseRevoked))"
  by (auto simp: chain_execute_def chain_reject_def Let_def case_prod_beta
      split: sum.splits lease_status.splits option.splits sbo_execute_result.splits)

lemma chain_execute_Executed_iff:
  "snd (chain_execute c buf now fb) = Executed cmd obs \<longleftrightarrow>
     chain_admits c buf now fb cmd obs \<and> DryRun \<notin> set obs"
  unfolding chain_execute_split chain_admits_def gw_authorize_Inr_iff [symmetric]
    chain_route_Inr_iff [symmetric] sbo_execute_iff [symmetric] validate_Safe_iff [symmetric]
  by (auto simp: chain_finish_Executed_iff eq_commute [of "Executed cmd obs"]
      split: sum.splits lease_status.splits option.splits sbo_execute_result.splits)

lemma chain_execute_DryRun_iff:
  "snd (chain_execute c buf now fb) = DryRunOutcome cmd obs \<longleftrightarrow>
     chain_admits c buf now fb cmd obs \<and> DryRun \<in> set obs"
  unfolding chain_execute_split chain_admits_def gw_authorize_Inr_iff [symmetric]
    chain_route_Inr_iff [symmetric] sbo_execute_iff [symmetric] validate_Safe_iff [symmetric]
  by (auto simp: chain_finish_DryRun_iff eq_commute [of "DryRunOutcome cmd obs"]
      split: sum.splits lease_status.splits option.splits sbo_execute_result.splits)

section \<open>The state after a request\<close>

lemma chain_execute_frame [simp]:
  "cc_lease_service (fst (chain_execute c buf now fb)) = cc_lease_service c"
  "cc_policy (fst (chain_execute c buf now fb)) = cc_policy c"
  "cc_safety (fst (chain_execute c buf now fb)) = cc_safety c"
  "cc_override_auth (fst (chain_execute c buf now fb)) = cc_override_auth c"
  "cc_feedback_max_age_secs (fst (chain_execute c buf now fb)) = cc_feedback_max_age_secs c"
  by (auto simp: chain_execute_def chain_finish_def chain_reject_def chain_record_def Let_def
      split: prod.splits sum.splits lease_status.splits option.splits sbo_execute_result.splits
        safety_verdict.splits)

lemma chain_execute_gateway [simp]:
  "cc_gateway (fst (chain_execute c buf now fb)) = fst (gw_authorize (cc_gateway c) buf now)"
  by (auto simp: chain_execute_def chain_finish_def chain_reject_def chain_record_def Let_def
      split: prod.splits sum.splits lease_status.splits option.splits sbo_execute_result.splits
        safety_verdict.splits)

text \<open>The idempotency cache only ever changes by recording a key it does not currently hold.\<close>

lemma chain_execute_idempotency:
  "cc_idempotency (fst (chain_execute c buf now fb)) = cc_idempotency c \<or>
   (\<exists>k out. ic_check (cc_idempotency c) k now = None \<and>
      cc_idempotency (fst (chain_execute c buf now fb)) = ic_record (cc_idempotency c) k out now)"
  by (auto simp: chain_execute_def chain_finish_def chain_reject_def chain_record_def Let_def
      split: prod.splits sum.splits lease_status.splits option.splits sbo_execute_result.splits
        safety_verdict.splits)

lemma chain_execute_records:
  "snd (chain_execute c buf now fb) = Executed cmd obs \<Longrightarrow>
     cc_idempotency (fst (chain_execute c buf now fb)) =
       ic_record (cc_idempotency c) (ac_idempotency_key cmd) Applied now"
  by (auto simp: chain_execute_def chain_finish_def chain_reject_def chain_record_def Let_def
      split: prod.splits sum.splits lease_status.splits option.splits sbo_execute_result.splits
        safety_verdict.splits if_splits)

text \<open>Every step leaves the gateway as it is or lets it serve one request, and does the same to
  the idempotency cache.\<close>

lemma chain_step_gateway:
  "chain_step c d \<Longrightarrow>
     cc_gateway d = cc_gateway c \<or> (\<exists>buf now. cc_gateway d = fst (gw_authorize (cc_gateway c) buf now))"
  by (induction rule: chain_step.induct) (auto simp: chain_select_def)

lemma chain_step_idempotency:
  "chain_step c d \<Longrightarrow> cc_idempotency d = cc_idempotency c \<or>
     (\<exists>k out now. ic_check (cc_idempotency c) k now = None \<and>
        cc_idempotency d = ic_record (cc_idempotency c) k out now)"
proof (induction rule: chain_step.induct)
  case (execute c buf now fb)
  then show ?case using chain_execute_idempotency [of c buf now fb] by blast
qed (simp_all add: chain_select_def)

lemma chain_step_revoked:
  "chain_step c d \<Longrightarrow> i \<in> set (lsv_revoked (cc_lease_service c)) \<Longrightarrow>
     i \<in> set (lsv_revoked (cc_lease_service d))"
  by (induction rule: chain_step.induct)
    (auto simp: chain_select_def lease_issue_def lease_revoke_def seed_epoch_def Let_def
      split: option.splits)

text \<open>The chain is itself a revocable lease checker, for every operation it offers.\<close>

interpretation chain_lease: revocable_lease_checker
  "\<lambda>c. lease_check (cc_lease_service c)" "\<lambda>c. lease_inv (cc_lease_service c)" chain_step
  "\<lambda>c i. i \<in> set (lsv_revoked (cc_lease_service c))" chain_revoke
proof unfold_locales
  show "tok \<noteq> 0" if "lease_inv (cc_lease_service s)" "lease_check (cc_lease_service s) i tok now = Valid"
    for s :: control_chain and i tok now
    using that by (rule lease_srv.valid_token)
qed (simp_all add: chain_revoke_def lease_revoke_revoked lease_srv.dead_denied chain_step_revoked)

section \<open>Windows of memory\<close>

lemma remembered_step:
  "chain_step c d \<Longrightarrow> remembered (cc_gateway c) k n \<Longrightarrow> Suc n < gw_replay_cache_cap (cc_gateway c) \<Longrightarrow>
     remembered (cc_gateway d) k (Suc n) \<and>
     gw_replay_cache_cap (cc_gateway d) = gw_replay_cache_cap (cc_gateway c)"
  using chain_step_gateway [of c d] remembered_authorize [of "cc_gateway c" k n]
  by (auto intro: remembered_mono)

lemma remembered_steps:
  "(chain_step ^^ n) c d \<Longrightarrow> remembered (cc_gateway c) k m \<Longrightarrow>
     m + n < gw_replay_cache_cap (cc_gateway c) \<Longrightarrow>
     remembered (cc_gateway d) k (m + n) \<and>
     gw_replay_cache_cap (cc_gateway d) = gw_replay_cache_cap (cc_gateway c)"
proof (induction n arbitrary: d)
  case (Suc n)
  from Suc.prems(1) obtain e where e: "(chain_step ^^ n) c e" "chain_step e d" by auto
  with Suc.IH Suc.prems have "remembered (cc_gateway e) k (m + n)"
    "gw_replay_cache_cap (cc_gateway e) = gw_replay_cache_cap (cc_gateway c)" by auto
  with remembered_step [OF e(2)] Suc.prems(3) show ?case by auto
qed simp

text \<open>The cache covers key \<open>k\<close> until time \<open>T\<close>.\<close>

definition covered :: "idempotency_cache \<Rightarrow> bytes \<Rightarrow> u64 \<Rightarrow> bool" where
  "covered c k T \<longleftrightarrow> k \<noteq> zeros 16 \<and> (\<exists>out ex. bt_get (ic_entries c) k = Some (out, ex) \<and> T \<le> ex)"

lemma covered_check: "covered c k T \<Longrightarrow> t \<le> T \<Longrightarrow> ic_check c k t \<noteq> None"
  by (auto simp: covered_def ic_check_def)

lemma covered_record_same: "k \<noteq> zeros 16 \<Longrightarrow> covered (ic_record c k out now) k (saturating_add now (ic_ttl_secs c))"
  by (simp add: covered_def ic_record_def Let_def)

lemma ic_record_length: "length (ic_entries (ic_record c k out now)) \<le> Suc (length (ic_entries c))"
  using bt_length_insert_le bt_length_remove_le
  by (fastforce simp: ic_record_def Let_def intro: order_trans split: option.splits)

lemma covered_record:
  assumes "covered c k T" and "ic_check c k' now = None" and "length (ic_entries c) < ic_cap c"
  shows "covered (ic_record c k' out now) k T"
proof (cases "k' = k")
  case True
  with assms(1,2) have "T < now" by (auto simp: covered_def ic_check_def split: if_splits)
  then have "T \<le> saturating_add now (ic_ttl_secs c)" using saturating_add_ge by (meson less_imp_le order_trans)
  with True assms(1) show ?thesis by (auto simp: covered_def ic_record_def Let_def)
next
  case False
  with assms show ?thesis by (auto simp: covered_def ic_record_def Let_def)
qed

lemma covered_steps:
  "(chain_step ^^ n) c d \<Longrightarrow> covered (cc_idempotency c) k T \<Longrightarrow>
     length (ic_entries (cc_idempotency c)) + n \<le> ic_cap (cc_idempotency c) \<Longrightarrow>
     covered (cc_idempotency d) k T \<and> ic_cap (cc_idempotency d) = ic_cap (cc_idempotency c) \<and>
     length (ic_entries (cc_idempotency d)) \<le> length (ic_entries (cc_idempotency c)) + n"
proof (induction n arbitrary: d)
  case (Suc n)
  from Suc.prems(1) obtain e where e: "(chain_step ^^ n) c e" "chain_step e d" by auto
  with Suc.IH Suc.prems have ih: "covered (cc_idempotency e) k T"
    "ic_cap (cc_idempotency e) = ic_cap (cc_idempotency c)"
    "length (ic_entries (cc_idempotency e)) \<le> length (ic_entries (cc_idempotency c)) + n"
    by auto
  from chain_step_idempotency [OF e(2)] show ?case
  proof (elim disjE exE conjE)
    fix k' out now
    assume "ic_check (cc_idempotency e) k' now = None"
      and d: "cc_idempotency d = ic_record (cc_idempotency e) k' out now"
    with ih Suc.prems(3) have "covered (cc_idempotency d) k T"
      by (auto intro: covered_record)
    with ih d ic_record_length [of "cc_idempotency e" k' out now] show ?thesis by auto
  qed (use ih in auto)
qed simp

section \<open>The invariant of a chain\<close>

text \<open>Both caches stay within their capacity, the replay cache has no duplicate, and every map
  is a well-formed ordered map, whatever sequence of operations is called.\<close>

definition chain_inv :: "control_chain \<Rightarrow> bool" where
  "chain_inv c \<longleftrightarrow>
     gw_inv (cc_gateway c) \<and> ic_inv (cc_idempotency c) \<and> bt_inv (sbo_states (cc_sbo c)) \<and>
     bt_inv (lsv_grants (cc_lease_service c)) \<and> bt_inv (sv_table (cc_safety c)) \<and>
     bt_inv (oa_sessions (cc_override_auth c))"

lemma chain_execute_sbo:
  "cc_sbo (fst (chain_execute c buf now fb)) = cc_sbo c \<or>
   (\<exists>p. cc_sbo (fst (chain_execute c buf now fb)) = fst (sbo_execute (cc_sbo c) p now))"
  by (auto simp: chain_execute_def chain_finish_def chain_reject_def chain_record_def Let_def
      case_prod_beta split: sum.splits lease_status.splits option.splits
        sbo_execute_result.splits safety_verdict.splits)

lemma bt_inv_removes: "bt_inv m \<Longrightarrow> bt_inv (foldl bt_remove m ks)"
  by (induction ks arbitrary: m) (auto simp: bt_inv_remove)

lemma sbo_execute_wf: "bt_inv (sbo_states s) \<Longrightarrow> bt_inv (sbo_states (fst (sbo_execute s p now)))"
  by (auto simp: sbo_execute_def bt_inv_insert split: option.splits sbo_state.splits)

lemma chain_step_inv: "chain_step c d \<Longrightarrow> chain_inv c \<Longrightarrow> chain_inv d"
proof (induction rule: chain_step.induct)
  case (execute c buf now fb)
  then show ?case
    using chain_execute_idempotency [of c buf now fb] chain_execute_sbo [of c buf now fb]
    by (auto simp: chain_inv_def ic_record_inv gw_authorize_inv sbo_execute_wf)
qed (auto simp: chain_inv_def chain_select_def sbo_select_def lease_issue_def lease_revoke_def
    seed_epoch_def sv_register_def oa_activate_def oa_deactivate_def oa_gc_def Let_def
    bt_inv_insert bt_inv_remove bt_inv_removes split: option.splits)

lemma chain_new_inv: "chain_inv (chain_new key skew cap pol age ttl icap sttl)"
  by (simp add: chain_inv_def chain_new_def gw_new_def gw_inv_new ic_inv_new bt_inv_def
      lease_new_def sv_new_def sbo_new_def oa_new_def)

definition chain_init :: "control_chain \<Rightarrow> bool" where
  "chain_init c \<longleftrightarrow> (\<exists>key skew cap pol age ttl icap sttl. c = chain_new key skew cap pol age ttl icap sttl)"

interpretation chain_ts: transition_system chain_init chain_step chain_inv
  by unfold_locales (auto simp: chain_init_def chain_new_inv intro: chain_step_inv)

end
