(* ===== verification/Profile.thy ===== *)
theory Profile
  imports Control_Chain
begin

text \<open>
  Control profiles (\<open>control-gateway/src/profile.rs\<close>): one record from which both the issuing
  side (envelope fields) and the verifying side (the chain) are derived. The \<open>assert!\<close> of
  \<open>policy\<close> is a panic: it is the value \<open>None\<close>.
\<close>

section \<open>Data\<close>

record chain_tuning =
  ct_max_skew_secs :: u64
  ct_replay_cache_cap :: nat
  ct_feedback_max_age_secs :: u64
  ct_idempotency_ttl_secs :: u64
  ct_idempotency_cap :: nat
  ct_sbo_select_ttl_secs :: u64

definition tuning_default :: chain_tuning where
  "tuning_default =
     \<lparr>ct_max_skew_secs = 5, ct_replay_cache_cap = 64, ct_feedback_max_age_secs = 60,
      ct_idempotency_ttl_secs = 300, ct_idempotency_cap = 64, ct_sbo_select_ttl_secs = 30\<rparr>"

record control_profile =
  cp_lease_id :: bytes
  cp_epoch_seed :: u64
  cp_policy_version :: u64
  cp_lease_ttl_secs :: u64
  cp_actor_kind :: actor_kind
  cp_device_id :: u32
  cp_point_id :: u32
  cp_command_class :: command_class
  cp_lease_max_class :: u8
  cp_safety_role :: safety_role
  cp_unit :: physical_unit
  cp_safe_min :: f64
  cp_safe_max :: f64
  cp_max_ramp_per_sec :: "f64 option"
  cp_direction :: control_direction
  cp_remote_controllable :: bool
  cp_tuning :: chain_tuning

section \<open>Operations\<close>

definition ai_pcc_single :: "u32 \<Rightarrow> u32 \<Rightarrow> u64 \<Rightarrow> bytes \<Rightarrow> u64 \<Rightarrow> control_profile" where
  "ai_pcc_single device_id point_id policy_version lease_id epoch_seed =
     \<lparr>cp_lease_id = lease_id, cp_epoch_seed = epoch_seed, cp_policy_version = policy_version,
      cp_lease_ttl_secs = 3600, cp_actor_kind = Ai, cp_device_id = device_id,
      cp_point_id = point_id, cp_command_class = SwitchClass, cp_lease_max_class = 1,
      cp_safety_role = PccBreaker, cp_unit = Kilowatts, cp_safe_min = f64_m500,
      cp_safe_max = f64_500, cp_max_ramp_per_sec = None, cp_direction = Discrete,
      cp_remote_controllable = True, cp_tuning = tuning_default\<rparr>"

definition profile_rule :: "control_profile \<Rightarrow> policy_rule" where
  "profile_rule p =
     \<lparr>pr_actor_kind = Some (cp_actor_kind p), pr_devices = [cp_device_id p],
      pr_points = [cp_point_id p], pr_kinds = [cp_command_class p], pr_time_window = (0, 0),
      pr_obligations = []\<rparr>"

definition profile_policy :: "control_profile \<Rightarrow> policy option" where
  "profile_policy p =
     (if \<not> 1 \<le> cp_policy_version p then None
      else Some (fst (policy_replace_rules (policy_new (cp_policy_version p - 1)) [profile_rule p])))"

definition profile_lease_scope :: "control_profile \<Rightarrow> lease_scope" where
  "profile_lease_scope p =
     \<lparr>ls_devices = [cp_device_id p], ls_points = [cp_point_id p],
      ls_max_class = cp_lease_max_class p\<rparr>"

definition profile_safety_point :: "control_profile \<Rightarrow> safety_point" where
  "profile_safety_point p =
     \<lparr>sp_role = cp_safety_role p,
      sp_spec = \<lparr>ps_point_id = cp_point_id p, ps_device_id = ucast (cp_device_id p),
        ps_unit = cp_unit p, ps_safe_min = cp_safe_min p, ps_safe_max = cp_safe_max p,
        ps_max_ramp_per_sec = cp_max_ramp_per_sec p, ps_direction = cp_direction p,
        ps_remote_controllable = cp_remote_controllable p\<rparr>\<rparr>"

definition profile_safety_points :: "control_profile \<Rightarrow> (u32 \<times> u32 \<times> safety_point) list" where
  "profile_safety_points p = [(cp_device_id p, cp_point_id p, profile_safety_point p)]"

definition issue_lease :: "control_profile \<Rightarrow> control_chain \<Rightarrow> u64 \<Rightarrow> control_chain \<times> u64 option" where
  "issue_lease p chain now_secs =
     (case lease_issue (cc_lease_service chain) (cp_lease_id p) (profile_lease_scope p)
             (cp_lease_ttl_secs p) now_secs of
        (s, None) \<Rightarrow> (chain\<lparr>cc_lease_service := s\<rparr>, None)
      | (s, Some (token, _)) \<Rightarrow> (chain\<lparr>cc_lease_service := s\<rparr>, Some token))"

definition from_profile :: "bytes \<Rightarrow> control_profile \<Rightarrow> control_chain option" where
  "from_profile key p =
     (let t = cp_tuning p
      in case profile_policy p of
           None \<Rightarrow> None
         | Some pol \<Rightarrow>
           (let chain = chain_new key (ct_max_skew_secs t) (ct_replay_cache_cap t) pol
                  (ct_feedback_max_age_secs t) (ct_idempotency_ttl_secs t) (ct_idempotency_cap t)
                  (ct_sbo_select_ttl_secs t);
                chain = chain\<lparr>cc_lease_service := seed_epoch (cc_lease_service chain) (cp_epoch_seed p)\<rparr>
            in Some (foldl (\<lambda>c (device, point, spec). c\<lparr>cc_safety := sv_register (cc_safety c) device point spec\<rparr>)
                 chain (profile_safety_points p))))"

section \<open>The verifying side as a whole\<close>

text \<open>Assembly, lease and one selection, as the callers of \<open>from_profile\<close> sequence them.\<close>

definition profile_ready :: "bytes \<Rightarrow> control_profile \<Rightarrow> u64 \<Rightarrow> u64 \<Rightarrow> (control_chain \<times> u64) option" where
  "profile_ready key p issued selected =
     (case from_profile key p of
        None \<Rightarrow> None
      | Some c \<Rightarrow>
        (case issue_lease p c issued of
           (_, None) \<Rightarrow> None
         | (c, Some token) \<Rightarrow> Some (chain_select c (cp_point_id p) selected, token)))"

section \<open>Lemmas\<close>

lemma profile_policy_eq:
  "profile_policy p =
     (if cp_policy_version p = 0 then None
      else Some \<lparr>pol_generation = cp_policy_version p, pol_rules = [profile_rule p]\<rparr>)"
proof -
  have "1 \<le> cp_policy_version p \<longleftrightarrow> cp_policy_version p \<noteq> 0"
    by (metis linorder_not_less word_less_1)
  moreover have "max (cp_policy_version p) 1 = cp_policy_version p" if "1 \<le> cp_policy_version p"
    using that by (simp add: max_def)
  ultimately show ?thesis
    by (auto simp: profile_policy_def policy_replace_rules_def policy_new_def Let_def)
qed

lemma profile_ready_Some_iff:
  "profile_ready key p t0 t1 = Some (c, token) \<longleftrightarrow>
     cp_policy_version p \<noteq> 0 \<and> cp_epoch_seed p \<noteq> - 1 \<and> token = cp_epoch_seed p + 1 \<and>
     c = \<lparr>cc_gateway = gw_new key (ct_max_skew_secs (cp_tuning p)) (ct_replay_cache_cap (cp_tuning p)),
          cc_lease_service = \<lparr>lsv_epoch = token,
             lsv_grants = [(cp_lease_id p, \<lparr>lg_token = token,
                lg_expiry = saturating_add t0 (cp_lease_ttl_secs p),
                lg_scope = profile_lease_scope p\<rparr>)],
             lsv_revoked = []\<rparr>,
          cc_policy = \<lparr>pol_generation = cp_policy_version p, pol_rules = [profile_rule p]\<rparr>,
          cc_safety = \<lparr>sv_table = [((cp_device_id p, cp_point_id p), profile_safety_point p)]\<rparr>,
          cc_idempotency = ic_new (ct_idempotency_ttl_secs (cp_tuning p)) (ct_idempotency_cap (cp_tuning p)),
          cc_sbo = \<lparr>sbo_select_ttl_secs = ct_sbo_select_ttl_secs (cp_tuning p),
             sbo_states = [(cp_point_id p, SboSelected t1
               (saturating_add t1 (ct_sbo_select_ttl_secs (cp_tuning p))))]\<rparr>,
          cc_override_auth = oa_new,
          cc_feedback_max_age_secs = ct_feedback_max_age_secs (cp_tuning p)\<rparr>"
  by (auto simp: profile_ready_def from_profile_def issue_lease_def lease_issue_def chain_new_def
      lease_new_def seed_epoch_def sv_new_def sv_register_def sbo_new_def sbo_select_def
      chain_select_def profile_safety_points_def profile_policy_eq checked_add_one
      bt_contains_def Let_def
      split: option.splits if_splits)

text \<open>The assembly uses nothing but the chain's own operations: seeding the epoch, registering the
  safety point, issuing the lease, selecting the point.\<close>

lemma profile_ready_reachable:
  assumes "profile_ready key p t0 t1 = Some (c, token)"
  shows "\<exists>c0. chain_init c0 \<and> chain_step\<^sup>*\<^sup>* c0 c"
proof -
  from assms obtain c1 c2 where "from_profile key p = Some c1"
    and issued: "issue_lease p c1 t0 = (c2, Some token)" and c: "c = chain_select c2 (cp_point_id p) t1"
    by (auto simp: profile_ready_def split: option.splits prod.splits)
  moreover from this obtain pol where "profile_policy p = Some pol"
    by (cases "profile_policy p") (auto simp: from_profile_def)
  ultimately have assembled: "profile_policy p = Some pol" "from_profile key p = Some c1" by blast+
  define t where "t = cp_tuning p"
  define c0 where "c0 = chain_new key (ct_max_skew_secs t) (ct_replay_cache_cap t) pol
    (ct_feedback_max_age_secs t) (ct_idempotency_ttl_secs t) (ct_idempotency_cap t) (ct_sbo_select_ttl_secs t)"
  define s where "s = c0\<lparr>cc_lease_service := seed_epoch (cc_lease_service c0) (cp_epoch_seed p)\<rparr>"
  have "chain_init c0" unfolding chain_init_def c0_def by blast
  moreover have "chain_step c0 s" unfolding s_def by (rule seed)
  moreover have "c1 = s\<lparr>cc_safety := sv_register (cc_safety s) (cp_device_id p) (cp_point_id p) (profile_safety_point p)\<rparr>"
    using assembled by (simp add: from_profile_def profile_safety_points_def s_def c0_def t_def Let_def)
  then have "chain_step s c1" by (simp add: register)
  moreover have "c2 = c1\<lparr>cc_lease_service := fst (lease_issue (cc_lease_service c1) (cp_lease_id p)
      (profile_lease_scope p) (cp_lease_ttl_secs p) t0)\<rparr>"
    using issued by (auto simp: issue_lease_def split: prod.splits option.splits)
  then have "chain_step c1 c2" by (simp add: issue)
  moreover have "chain_step c2 c" unfolding c by (rule select)
  ultimately show ?thesis by (meson converse_rtranclp_into_rtranclp rtranclp.rtrancl_refl)
qed

section \<open>Both sides agree\<close>

text \<open>An envelope whose authorization facts are those of the profile and of the token issued to
  it, within its time bounds.\<close>

definition request_fits :: "control_profile \<Rightarrow> u64 \<Rightarrow> envelope_builder \<Rightarrow> u64 \<Rightarrow> bool" where
  "request_fits p token b now \<longleftrightarrow>
     eb_wf b \<and> eb_lease_id b = cp_lease_id p \<and> eb_fencing_token b = token \<and>
     eb_policy_version b = cp_policy_version p \<and> eb_actor_kind b = cp_actor_kind p \<and>
     eb_device_id b = cp_device_id p \<and> eb_point_id b = cp_point_id p \<and>
     now \<le> eb_expiry b \<and> eb_timestamp b \<le> saturating_add now (ct_max_skew_secs (cp_tuning p))"

text \<open>A profile that can be used at all: a target inside the device domain of the point model, and
  the command class its actor's commands have.\<close>

definition profile_usable :: "control_profile \<Rightarrow> bool" where
  "profile_usable p \<longleftrightarrow>
     unat (cp_device_id p) < 65536 \<and>
     (cp_actor_kind p = Emergency \<or> cp_command_class p = SwitchClass)"

lemma ucast_u16_u32: "unat (d :: u32) < 65536 \<Longrightarrow> ucast (ucast d :: u16) = d"
  by (rule word_unat_eq_iff [THEN iffD2]) (simp add: unsigned_ucast_eq take_bit_eq_mod unat_mod)

lemma profile_executes_lemma:
  assumes "profile_ready key p t0 t1 = Some (c, token)" and "profile_usable p"
    and "request_fits p token b now"
    and "now \<le> saturating_add t0 (cp_lease_ttl_secs p)"
    and "now \<le> saturating_add t1 (ct_sbo_select_ttl_secs (cp_tuning p))"
    and "bundle_trusted fb now (ct_feedback_max_age_secs (cp_tuning p))"
    and "\<not> unsafe_action (profile_safety_point p) (eb_command b) (measured_context fb)"
  shows "chain_admits c (env_encode (eb_build b key)) now fb
     (authorized_of (eb_build b key) (ucast (cp_device_id p))) []"
proof -
  note c = assms(1)[unfolded profile_ready_Some_iff]
  from assms(3) have "env_decode (env_encode (eb_build b key)) = Inr (eb_build b key)"
    by (intro env_decode_encode env_wf_build) (simp add: request_fits_def)
  moreover have "gw_accepts (cc_gateway c) (eb_build b key) now"
    using c assms(3) verify_hmac_build [of b key]
    by (auto simp: gw_accepts_def request_fits_def verify_hmac_iff gw_new_def
        gw_new_with_lease_checker_def structural_check_def add_eq_0_iff2)
  moreover have "u16_try_from (eb_device_id b) = Some (ucast (cp_device_id p))"
    using assms(2,3) by (simp add: u16_try_from_def profile_usable_def request_fits_def)
  moreover have "chain_permits c (authorized_of (eb_build b key) (ucast (cp_device_id p))) now []"
    using c assms(2-4)
    by (auto simp: chain_permits_def authorized_of_def request_fits_def profile_usable_def
        oa_is_active_def oa_new_def lease_scope_of_def not_less pdp_decide_Allow_iff in_scope_def
        profile_lease_scope_def rule_covers_def rule_open_def profile_rule_def
        class_of_command_def ucast_u16_u32 split: actor_kind.splits)
  ultimately show ?thesis
    using c assms(2-7)
    by (auto simp: chain_admits_def authorized_of_def lease_check_Valid_iff ic_new_def ic_check_def
        request_fits_def profile_usable_def ucast_u16_u32)
qed

end
