(* ===== verification/Chain_Scenario.thy ===== *)
theory Chain_Scenario
  imports Profile
begin

text \<open>
  One concrete deployment: a breaker profile, the chain assembled from it with its lease and one
  selection, and a signed close command, at time 100. The witnesses of the control-path
  properties run on it; the HMAC is never evaluated, only its verification lemma is used.
\<close>

definition demo_key :: bytes where "demo_key = [1, 2, 3]"

definition demo_profile :: control_profile where
  "demo_profile = ai_pcc_single 7 10 5 (replicate 16 1) 41"

definition demo_builder :: envelope_builder where
  "demo_builder =
     with_idempotency_key (with_policy_version (with_lease (with_actor_kind
       (eb_new (replicate 16 2) 7 10 (Single SOn) 100 200 (replicate 16 3)) Ai)
       (replicate 16 1) 42) 5) (replicate 16 4)"

definition demo_chain :: control_chain where
  "demo_chain = fst (the (profile_ready demo_key demo_profile 100 100))"

definition demo_buf :: bytes where
  "demo_buf = env_encode (eb_build demo_builder demo_key)"

definition demo_feedback :: feedback_bundle where
  "demo_feedback = fb_fresh True f64_50 100"

definition demo_cmd :: authorized_command where
  "demo_cmd = authorized_of (eb_build demo_builder demo_key) 7"

lemma demo_ready: "profile_ready demo_key demo_profile 100 100 = Some (demo_chain, 42)"
proof -
  obtain c where "profile_ready demo_key demo_profile 100 100 = Some (c, 42)"
    by (simp add: profile_ready_Some_iff demo_profile_def ai_pcc_single_def)
  then show ?thesis by (simp add: demo_chain_def)
qed

lemma demo_fits: "request_fits demo_profile 42 demo_builder 100"
  by (simp add: request_fits_def demo_profile_def ai_pcc_single_def demo_builder_def builder_defs
      eb_wf_def tuning_default_def saturating_add_def)

lemmas demo_feedback_defs = demo_feedback_def fb_fresh_def good_sample_def
  f64_lt_def f64_eq_def f64_key_def f64_is_nan_def

lemma demo_trusted: "bundle_trusted demo_feedback 100 60"
  by (simp add: bundle_trusted_def trusted_def demo_feedback_defs)

lemma demo_safe:
  "\<not> unsafe_action (profile_safety_point demo_profile) (eb_command demo_builder) (measured_context demo_feedback)"
  by (simp add: unsafe_action_def profile_safety_point_def demo_profile_def ai_pcc_single_def
      measured_context_def demo_feedback_defs)

lemma demo_admits:
  "chain_admits demo_chain demo_buf 100 demo_feedback demo_cmd []"
  using profile_executes_lemma [OF demo_ready _ demo_fits, of demo_feedback] demo_trusted demo_safe
  by (simp add: demo_buf_def demo_cmd_def profile_usable_def demo_profile_def ai_pcc_single_def
      tuning_default_def saturating_add_def)

lemma demo_executes: "snd (chain_execute demo_chain demo_buf 100 demo_feedback) = Executed demo_cmd []"
  by (simp add: chain_execute_Executed_iff demo_admits)

lemma demo_cmd_fields:
  "ac_device_id demo_cmd = 7" "ac_point_id demo_cmd = 10" "ac_command demo_cmd = Single SOn"
  "ac_idempotency_key demo_cmd = replicate 16 4" "ac_lease_id demo_cmd = replicate 16 1"
  by (simp_all add: demo_cmd_def authorized_of_def demo_builder_def builder_defs)

lemmas demo_chain_eq = demo_ready [unfolded profile_ready_Some_iff, THEN conjunct2, THEN conjunct2, THEN conjunct2]

lemma demo_chain_fields:
  "sv_table (cc_safety demo_chain) = [((7, 10), profile_safety_point demo_profile)]"
  "gw_replay_cache_cap (cc_gateway demo_chain) = 64" "gw_replay_cache (cc_gateway demo_chain) = []"
  "cc_idempotency demo_chain = ic_new 300 64"
  by (simp_all add: demo_chain_eq demo_profile_def ai_pcc_single_def tuning_default_def gw_new_def
      gw_new_with_lease_checker_def)

lemma demo_decode: "env_decode demo_buf = Inr (eb_build demo_builder demo_key)"
  using demo_fits unfolding demo_buf_def
  by (intro env_decode_encode env_wf_build) (simp add: request_fits_def)

lemma demo_authorized: "snd (gw_authorize (cc_gateway demo_chain) demo_buf 100) = Inr demo_cmd"
  using demo_admits by (simp add: chain_admits_def gw_authorize_Inr_iff)

text \<open>The state after that command, and after one more selection.\<close>

definition demo_after :: control_chain where
  "demo_after = fst (chain_execute demo_chain demo_buf 100 demo_feedback)"

definition demo_next :: control_chain where
  "demo_next = chain_select demo_after 10 110"

lemma demo_after_reachable: "\<exists>c0. chain_init c0 \<and> chain_step\<^sup>*\<^sup>* c0 demo_after"
  using profile_ready_reachable [OF demo_ready] unfolding demo_after_def
  by (meson chain_step.execute rtranclp.rtrancl_into_rtrancl)

lemma demo_after_idempotency:
  "cc_idempotency demo_after = ic_record (ic_new 300 64) (replicate 16 4) Applied 100"
  unfolding demo_after_def chain_execute_records [OF demo_executes] demo_chain_fields demo_cmd_fields ..

lemma demo_after_replay_cache: "gw_replay_cache (cc_gateway demo_after) = [replicate 16 2]"
  using demo_authorized demo_decode unfolding demo_after_def
  by (auto simp: gw_authorize_Inr_iff gw_authorize_state gw_record_def demo_chain_fields Let_def
      demo_builder_def builder_defs)

lemma demo_next_step: "(chain_step ^^ 1) demo_after demo_next"
  by (simp add: demo_next_def chain_step.select eq_OO)

lemma demo_idempotency_room:
  "length (ic_entries (cc_idempotency demo_after)) + 1 \<le> ic_cap (cc_idempotency demo_after)"
  using ic_record_length [of "ic_new 300 64" "ac_idempotency_key demo_cmd" Applied 100]
  unfolding demo_after_def chain_execute_records [OF demo_executes] demo_chain_fields
  by (simp add: ic_new_def)

end
