(* ===== verification/Wire.thy ===== *)
theory Wire
  imports Envelope
begin

text \<open>
  The delivery frames between control dispatch and the device agent
  (\<open>control-gateway/src/wire.rs\<close>): the 270-byte control envelope that carries a signed command
  envelope and a power set point, and the two-byte outcome frame.
\<close>

section \<open>Data\<close>

definition CONTROL_SCHEMA :: u16 where "CONTROL_SCHEMA = 1"
definition CONTROL_ENVELOPE_LEN :: nat where "CONTROL_ENVELOPE_LEN = 270"

datatype wire_error =
  WireBadLength nat | UnsupportedSchema u16 | WireEnvelope | PayloadDigestMismatch
  | BadOutcomeLength nat | UnknownOutcomeCode u8

record control_envelope =
  ce_schema :: u16
  ce_correlation_id :: bytes
  ce_issuer_service :: bytes
  ce_issuer_epoch :: u64
  ce_issued_at_ms :: u64
  ce_expires_at_ms :: u64
  ce_payload_digest :: bytes
  ce_envelope :: bytes
  ce_power_kw :: f64

section \<open>The control envelope\<close>

definition payload_digest_of :: "bytes \<Rightarrow> f64 \<Rightarrow> bytes" where
  "payload_digest_of envelope power_kw =
     (let buf = zeros (ENVELOPE_LEN + 8);
          buf = put buf 0 envelope;
          buf = put buf ENVELOPE_LEN (le_bytes 8 power_kw)
      in sm3_hash buf)"

definition ce_new ::
  "bytes \<Rightarrow> bytes \<Rightarrow> u64 \<Rightarrow> u64 \<Rightarrow> u64 \<Rightarrow> bytes \<Rightarrow> f64 \<Rightarrow> control_envelope" where
  "ce_new correlation_id issuer_service issuer_epoch issued_at_ms expires_at_ms envelope power_kw =
     \<lparr>ce_schema = CONTROL_SCHEMA, ce_correlation_id = correlation_id,
      ce_issuer_service = issuer_service, ce_issuer_epoch = issuer_epoch,
      ce_issued_at_ms = issued_at_ms, ce_expires_at_ms = expires_at_ms,
      ce_payload_digest = payload_digest_of envelope power_kw, ce_envelope = envelope,
      ce_power_kw = power_kw\<rparr>"

definition ce_encode :: "control_envelope \<Rightarrow> bytes" where
  "ce_encode e =
     (let buf = zeros CONTROL_ENVELOPE_LEN;
          buf = put buf 0 (le_bytes 2 (ce_schema e));
          buf = put buf 2 (ce_correlation_id e);
          buf = put buf 18 (ce_issuer_service e);
          buf = put buf 34 (le_bytes 8 (ce_issuer_epoch e));
          buf = put buf 42 (le_bytes 8 (ce_issued_at_ms e));
          buf = put buf 50 (le_bytes 8 (ce_expires_at_ms e));
          buf = put buf 58 (ce_payload_digest e);
          buf = put buf 90 (ce_envelope e)
      in put buf (90 + ENVELOPE_LEN) (le_bytes 8 (ce_power_kw e)))"

definition ce_decode :: "bytes \<Rightarrow> wire_error + control_envelope" where
  "ce_decode buf =
     (if length buf \<noteq> CONTROL_ENVELOPE_LEN then Inl (WireBadLength (length buf))
      else let schema = from_le (slice 0 2 buf)
           in if schema \<noteq> CONTROL_SCHEMA then Inl (UnsupportedSchema schema)
              else Inr \<lparr>ce_schema = schema, ce_correlation_id = slice 2 18 buf,
                ce_issuer_service = slice 18 34 buf,
                ce_issuer_epoch = from_le (slice 34 42 buf),
                ce_issued_at_ms = from_le (slice 42 50 buf),
                ce_expires_at_ms = from_le (slice 50 58 buf),
                ce_payload_digest = slice 58 90 buf,
                ce_envelope = slice 90 (90 + ENVELOPE_LEN) buf,
                ce_power_kw = from_le (drop (90 + ENVELOPE_LEN) buf)\<rparr>)"

definition verify_payload_digest :: "control_envelope \<Rightarrow> bool" where
  "verify_payload_digest e = (payload_digest_of (ce_envelope e) (ce_power_kw e) = ce_payload_digest e)"

definition decode_inner :: "control_envelope \<Rightarrow> wire_error + command_envelope" where
  "decode_inner e =
     (case env_decode (ce_envelope e) of Inl _ \<Rightarrow> Inl WireEnvelope | Inr env \<Rightarrow> Inr env)"

section \<open>The outcome frame\<close>

datatype outcome_code =
  OcApplied | OcIdempotentHit | OcDryRun | OcDenied | OcAppliedReadbackUnavailable
  | OcAppliedReadbackMismatch | OcFailed

fun oc_code :: "outcome_code \<Rightarrow> u8" where
  "oc_code OcApplied = 0"
| "oc_code OcIdempotentHit = 1"
| "oc_code OcDryRun = 2"
| "oc_code OcDenied = 3"
| "oc_code OcAppliedReadbackUnavailable = 4"
| "oc_code OcAppliedReadbackMismatch = 5"
| "oc_code OcFailed = 6"

definition oc_from_code :: "u8 \<Rightarrow> outcome_code option" where
  "oc_from_code c =
     (if c = 0 then Some OcApplied
      else if c = 1 then Some OcIdempotentHit
      else if c = 2 then Some OcDryRun
      else if c = 3 then Some OcDenied
      else if c = 4 then Some OcAppliedReadbackUnavailable
      else if c = 5 then Some OcAppliedReadbackMismatch
      else if c = 6 then Some OcFailed
      else None)"

record outcome_frame =
  of_code :: u8
  of_class :: u8

definition of_new :: "outcome_code \<Rightarrow> u8 \<Rightarrow> outcome_frame" where
  "of_new code cls = \<lparr>of_code = oc_code code, of_class = cls\<rparr>"

definition of_encode :: "outcome_frame \<Rightarrow> bytes" where
  "of_encode f = [of_code f, of_class f]"

definition of_decode :: "bytes \<Rightarrow> wire_error + outcome_frame" where
  "of_decode buf =
     (if length buf \<noteq> 2 then Inl (BadOutcomeLength (length buf))
      else if oc_from_code (buf ! 0) = None then Inl (UnknownOutcomeCode (buf ! 0))
      else Inr \<lparr>of_code = buf ! 0, of_class = buf ! 1\<rparr>)"

definition of_outcome :: "outcome_frame \<Rightarrow> outcome_code option" where
  "of_outcome f = oc_from_code (of_code f)"

section \<open>Lemmas\<close>

definition ce_wf :: "control_envelope \<Rightarrow> bool" where
  "ce_wf e \<longleftrightarrow>
     ce_schema e = CONTROL_SCHEMA \<and> length (ce_correlation_id e) = 16 \<and>
     length (ce_issuer_service e) = 16 \<and> length (ce_payload_digest e) = 32 \<and>
     length (ce_envelope e) = ENVELOPE_LEN"

definition ce_fields :: "control_envelope \<Rightarrow> bytes" where
  "ce_fields e =
     le_bytes 2 (ce_schema e) @ ce_correlation_id e @ ce_issuer_service e @
     le_bytes 8 (ce_issuer_epoch e) @ le_bytes 8 (ce_issued_at_ms e) @
     le_bytes 8 (ce_expires_at_ms e) @ ce_payload_digest e @ ce_envelope e @
     le_bytes 8 (ce_power_kw e)"

lemma put_zeros_0: "put (zeros n) 0 xs = xs @ zeros (n - length xs)"
  by (simp add: put_def)

lemma ce_encode_fields:
  assumes "ce_wf e"
  shows "ce_encode e = ce_fields e"
  using assms
  unfolding ce_encode_def CONTROL_ENVELOPE_LEN_def ENVELOPE_LEN_def ce_fields_def ce_wf_def Let_def
  by (simp add: put_zeros_0 put_zeros del: append_assoc append.simps)

lemma ce_decode_encode:
  assumes "ce_wf e"
  shows "ce_decode (ce_encode e) = Inr e"
proof -
  note wf = assms [unfolded ce_wf_def ENVELOPE_LEN_def]
  have s: "slice 0 2 (ce_fields e) = le_bytes 2 (ce_schema e)"
    "slice 2 18 (ce_fields e) = ce_correlation_id e" "slice 18 34 (ce_fields e) = ce_issuer_service e"
    "slice 34 42 (ce_fields e) = le_bytes 8 (ce_issuer_epoch e)"
    "slice 42 50 (ce_fields e) = le_bytes 8 (ce_issued_at_ms e)"
    "slice 50 58 (ce_fields e) = le_bytes 8 (ce_expires_at_ms e)"
    "slice 58 90 (ce_fields e) = ce_payload_digest e" "slice 90 262 (ce_fields e) = ce_envelope e"
    "drop 262 (ce_fields e) = le_bytes 8 (ce_power_kw e)" "length (ce_fields e) = 270"
    unfolding ce_fields_def using wf by (simp_all add: slice_def)
  then show ?thesis
    using wf by (simp add: ce_encode_fields [OF assms] ce_decode_def CONTROL_ENVELOPE_LEN_def
        ENVELOPE_LEN_def Let_def)
qed

lemma ce_decode_canonical:
  assumes "ce_decode buf = Inr e"
  shows "ce_wf e \<and> ce_encode e = buf"
proof -
  from assms have len: "length buf = 270" and sch: "from_le (slice 0 2 buf) = CONTROL_SCHEMA"
    and e: "e = \<lparr>ce_schema = from_le (slice 0 2 buf), ce_correlation_id = slice 2 18 buf,
                ce_issuer_service = slice 18 34 buf,
                ce_issuer_epoch = from_le (slice 34 42 buf),
                ce_issued_at_ms = from_le (slice 42 50 buf),
                ce_expires_at_ms = from_le (slice 50 58 buf),
                ce_payload_digest = slice 58 90 buf,
                ce_envelope = slice 90 262 buf,
                ce_power_kw = from_le (slice 262 270 buf)\<rparr>"
    by (auto simp: ce_decode_def CONTROL_ENVELOPE_LEN_def ENVELOPE_LEN_def Let_def slice_def
        split: if_splits)
  have wf: "ce_wf e" unfolding e ce_wf_def using len sch by (simp add: ENVELOPE_LEN_def)
  have "ce_fields e = slice 0 270 buf"
    unfolding e ce_fields_def using len by (simp add: slice_join_left slice_join)
  with len wf show ?thesis by (simp add: ce_encode_fields slice_whole)
qed

interpretation ce_codec: codec ce_encode ce_decode ce_wf
  by unfold_locales (simp_all add: ce_decode_encode ce_decode_canonical)

lemma payload_digest_of_concat:
  "length envelope = ENVELOPE_LEN \<Longrightarrow>
     payload_digest_of envelope kw = sm3_hash (envelope @ le_bytes 8 kw)"
  by (simp add: payload_digest_of_def put_def)

lemma oc_from_code_code [simp]: "oc_from_code (oc_code c) = Some c"
  by (cases c) (simp_all add: oc_from_code_def)

lemma oc_from_code_Some: "oc_from_code b = Some c \<longleftrightarrow> b = oc_code c"
  by (cases c) (auto simp: oc_from_code_def split: if_splits)

definition of_wf :: "outcome_frame \<Rightarrow> bool" where
  "of_wf f \<longleftrightarrow> (\<exists>c. of_code f = oc_code c)"

lemma oc_from_code_None: "oc_from_code b = None \<longleftrightarrow> (\<forall>c. b \<noteq> oc_code c)"
  using oc_from_code_Some by (metis not_None_eq)

interpretation of_codec: codec of_encode of_decode of_wf
proof unfold_locales
  show "of_decode (of_encode v) = Inr v" if "of_wf v" for v
    using that by (auto simp: of_decode_def of_encode_def of_wf_def)
  show "of_wf v \<and> of_encode v = bs" if d: "of_decode bs = Inr v" for bs v
  proof -
    from d have "length bs = 2" by (auto simp: of_decode_def split: if_splits)
    then obtain a b where "bs = [a, b]" by (auto simp: numeral_2_eq_2 length_Suc_conv)
    with d show ?thesis
      by (auto simp: of_decode_def of_encode_def of_wf_def oc_from_code_None split: if_splits)
  qed
qed

section \<open>Properties\<close>

text \<open>The 270-byte delivery envelope: decoding succeeds exactly on the encodings of well-formed envelopes of the supported schema.\<close>

theorem control_envelope_decode_iff: "ce_decode bs = Inr e \<longleftrightarrow> ce_wf e \<and> bs = ce_encode e"
  by (rule ce_codec.decode_iff)

text \<open>A freshly built delivery envelope carries the SM3 digest of the signed inner envelope followed by the power set point, and passes the digest check.\<close>

theorem payload_digest_correct:
  assumes "length envelope = ENVELOPE_LEN"
  shows "verify_payload_digest (ce_new cid svc ep t0 t1 envelope kw) \<and>
    ce_payload_digest (ce_new cid svc ep t0 t1 envelope kw) = sm3_hash (envelope @ le_bytes 8 kw)"
  using assms by (simp add: ce_new_def verify_payload_digest_def payload_digest_of_concat)

theorem payload_digest_correct_witness:
  "verify_payload_digest (ce_new (zeros 16) (zeros 16) 1 2 3 (replicate 172 7) f64_500)"
  using payload_digest_correct [of "replicate 172 7"] by (simp add: ENVELOPE_LEN_def)

end
