(* ===== verification/Crc32.thy ===== *)
theory Crc32
  imports EnerOS_Prelude
begin

unbundle bit_operations_syntax

text \<open>
  The bitwise CRC-32 of \<open>crates/abi/ipc-wire/src/lib.rs\<close>, the one checksum the boot-control
  record and the durable log share, and what it detects: any change of a single byte.
\<close>

section \<open>Operations\<close>

definition crc_shift :: "u32 \<Rightarrow> u32" where
  "crc_shift crc =
     (if crc AND 1 \<noteq> 0 then drop_bit 1 crc XOR 0xEDB88320 else drop_bit 1 crc)"

definition crc_byte :: "u32 \<Rightarrow> u8 \<Rightarrow> u32" where
  "crc_byte crc byte = (crc_shift ^^ 8) (crc XOR ucast byte)"

definition crc32 :: "bytes \<Rightarrow> u32" where
  "crc32 data = NOT (foldl crc_byte 0xFFFFFFFF data)"

section \<open>Lemmas\<close>

text \<open>The polynomial has its top bit set, so the bit shifted out can be read off the result.\<close>

lemma crc_shift_top: "bit (crc_shift x) 31 \<longleftrightarrow> bit x 0"
proof -
  have "x AND 1 \<noteq> 0 \<longleftrightarrow> bit x 0"
    by (simp add: and_one_eq bit_0 flip: even_iff_mod_2_eq_zero) 
  moreover have "\<not> bit x 32" using bit_imp_le_length [of x 32] by auto
  moreover have "bit (0xEDB88320 :: u32) 31" by simp
  ultimately show ?thesis
    by (simp add: crc_shift_def bit_xor_iff bit_drop_bit_eq)
qed

lemma drop_bit_1_inject:
  assumes "drop_bit 1 x = drop_bit 1 (y :: u32)" and "bit x 0 = bit y 0"
  shows "x = y"
proof (rule bit_eqI)
  fix n
  show "bit x n = bit y n"
  proof (cases n)
    case (Suc m)
    from assms(1) have "bit (drop_bit 1 x) m = bit (drop_bit 1 y) m" by simp
    then show ?thesis by (simp add: bit_drop_bit_eq Suc)
  qed (use assms(2) in simp)
qed

lemma crc_shift_inject: "crc_shift x = crc_shift y \<longleftrightarrow> x = y"
proof
  assume eq: "crc_shift x = crc_shift y"
  then have b: "bit x 0 = bit y 0" by (metis crc_shift_top)
  have "x AND 1 \<noteq> 0 \<longleftrightarrow> y AND 1 \<noteq> 0"
    using b by (simp add: and_one_eq bit_0 flip: even_iff_mod_2_eq_zero)
  with eq have "drop_bit 1 x = drop_bit 1 y"
    by (auto simp: crc_shift_def xor_cancel split: if_splits)
  then show "x = y" using b by (rule drop_bit_1_inject)
qed simp

lemma crc_shifts_inject: "(crc_shift ^^ n) x = (crc_shift ^^ n) y \<longleftrightarrow> x = y"
  by (induction n) (simp_all add: crc_shift_inject)

lemma crc_byte_state: "crc_byte s b = crc_byte t b \<longleftrightarrow> s = t"
  by (simp add: crc_byte_def crc_shifts_inject xor_cancel)

lemma crc_byte_data: "crc_byte s a = crc_byte s b \<longleftrightarrow> a = b"
proof -
  have "s XOR ucast a = s XOR ucast b \<longleftrightarrow> (ucast a :: u32) = ucast b"
    by (metis xor_cancel xor.commute)
  also have "\<dots> \<longleftrightarrow> a = b"
    by (auto simp: bit_eq_iff bit_ucast_iff) (use bit_imp_le_length [of a] bit_imp_le_length [of b] in auto)
  finally show ?thesis by (simp add: crc_byte_def crc_shifts_inject)
qed

lemma crc_bytes_state: "foldl crc_byte s xs = foldl crc_byte t xs \<longleftrightarrow> s = t"
  by (induction xs arbitrary: s t) (simp_all add: crc_byte_state)

lemma crc32_one_byte: "crc32 (xs @ a # ys) = crc32 (xs @ b # ys) \<longleftrightarrow> a = b"
  by (simp add: crc32_def crc_bytes_state crc_byte_data)

lemma crc32_update:
  assumes "i < length xs" and "b \<noteq> xs ! i"
  shows "crc32 (xs[i := b]) \<noteq> crc32 xs"
  using assms crc32_one_byte [of "take i xs" b "drop (Suc i) xs" "xs ! i"]
  by (simp add: upd_conv_take_nth_drop id_take_nth_drop [symmetric])

section \<open>Properties\<close>

text \<open>Changing any one byte of a message changes its checksum.\<close>

theorem crc32_detects_byte_change:
  assumes "i < length xs" and "b \<noteq> xs ! i"
  shows "crc32 (xs[i := b]) \<noteq> crc32 xs"
  by (rule crc32_update [OF assms])

theorem crc32_detects_byte_change_witness: "crc32 ([1, 2, 3][1 := 9]) \<noteq> crc32 [1, 2, 3]"
  by (rule crc32_detects_byte_change) simp_all

end
