(* ===== verification/Boot_Control.thy ===== *)
theory Boot_Control
  imports Crc32
begin

unbundle bit_operations_syntax

text \<open>
  A/B boot control (\<open>crates/boot/boot-protocol/src/boot_control.rs\<close>): slot states, selection,
  trial attempts, the 4096-byte record with its checksum, the anchored dual-copy store and its
  transactions.

  SHA-256 comes from the \<open>sha2\<close> package and is the parameter \<open>digest\<close>. Image ids are 16-byte
  and digests 32-byte lists.
\<close>

section \<open>Data\<close>

definition BOOT_CONTROL_MAGIC :: bytes where
  "BOOT_CONTROL_MAGIC = [0x45, 0x4E, 0x45, 0x52, 0x42, 0x43, 0x30, 0x31]"
definition BOOT_CONTROL_VERSION :: u16 where "BOOT_CONTROL_VERSION = 1"
definition BOOT_CONTROL_HEADER_SIZE :: u16 where "BOOT_CONTROL_HEADER_SIZE = 192"
definition BOOT_CONTROL_RECORD_SIZE :: nat where "BOOT_CONTROL_RECORD_SIZE = 4096"
definition BOOT_CONTROL_MAX_PRIORITY :: u8 where "BOOT_CONTROL_MAX_PRIORITY = 15"
definition BOOT_CONTROL_MAX_TRIES :: u8 where "BOOT_CONTROL_MAX_TRIES = 7"
definition BOOT_CONTROL_FLAG_MANUAL_RECOVERY :: u32 where "BOOT_CONTROL_FLAG_MANUAL_RECOVERY = 1"
definition BOOT_CONTROL_KNOWN_FLAGS :: u32 where
  "BOOT_CONTROL_KNOWN_FLAGS = BOOT_CONTROL_FLAG_MANUAL_RECOVERY"
definition BOOT_CONTROL_ANCHOR_SIZE :: nat where "BOOT_CONTROL_ANCHOR_SIZE = 64"
definition BOOT_CONTROL_ANCHOR_MAGIC :: bytes where
  "BOOT_CONTROL_ANCHOR_MAGIC = [0x45, 0x4E, 0x52, 0x42, 0x43, 0x41, 0x30, 0x31]"
definition BOOT_CONTROL_ANCHOR_VERSION :: u16 where "BOOT_CONTROL_ANCHOR_VERSION = 1"
definition SLOT_FLAG_SUCCESSFUL :: u8 where "SLOT_FLAG_SUCCESSFUL = 1"
definition CRC_OFFSET :: nat where "CRC_OFFSET = BOOT_CONTROL_RECORD_SIZE - 4"

lemmas boot_consts = BOOT_CONTROL_MAGIC_def BOOT_CONTROL_VERSION_def BOOT_CONTROL_HEADER_SIZE_def
  BOOT_CONTROL_RECORD_SIZE_def BOOT_CONTROL_MAX_PRIORITY_def BOOT_CONTROL_MAX_TRIES_def
  BOOT_CONTROL_FLAG_MANUAL_RECOVERY_def BOOT_CONTROL_KNOWN_FLAGS_def BOOT_CONTROL_ANCHOR_SIZE_def
  BOOT_CONTROL_ANCHOR_MAGIC_def BOOT_CONTROL_ANCHOR_VERSION_def SLOT_FLAG_SUCCESSFUL_def CRC_OFFSET_def

datatype boot_slot = SlotA | SlotB | SlotRecovery

datatype slot_error = NoError | AttemptInProgress | Verification | BootFailureError | HealthFailure

datatype boot_control_error =
  BcLength | BcMagic | BcVersion | BcReserved | BcCrc | BcFlags | BcPriority | BcTries | BcSlotFlags
  | BcSlotError | BcIdentity | BcState | BcNoBootableSlot | BcSequenceOverflow | BcAnchor
  | BcAnchorMismatch | BcGenesis | BcTransaction | BcRollback

record slot_state =
  ss_priority :: u8
  ss_tries_remaining :: u8
  ss_successful :: bool
  ss_security_version :: u64
  ss_image_id :: bytes
  ss_last_error :: slot_error
  ss_boot_attempts :: u64

record boot_control =
  bc_sequence :: u64
  bc_security_floor :: u64
  bc_recovery_security_version :: u64
  bc_recovery_image_id :: bytes
  bc_flags :: u32
  bc_slot_a :: slot_state
  bc_slot_b :: slot_state

record boot_selection =
  sel_slot :: boot_slot
  sel_trial :: bool
  sel_security_version :: u64
  sel_image_id :: bytes

record boot_control_anchor =
  an_sequence :: u64
  an_security_floor :: u64
  an_record_digest :: bytes

datatype boot_control_copy = First | Second

record resolved_boot_control =
  rb_control :: boot_control
  rb_source :: boot_control_copy
  rb_anchor :: boot_control_anchor
  rb_needs_anchor_initialization :: bool

record boot_control_transaction =
  tx_target :: boot_control_copy
  tx_mirror :: boot_control_copy
  tx_record :: bytes
  tx_anchor :: boot_control_anchor

fun copy_other :: "boot_control_copy \<Rightarrow> boot_control_copy" where
  "copy_other First = Second"
| "copy_other Second = First"

fun copy_offset :: "boot_control_copy \<Rightarrow> u64" where
  "copy_offset First = 0"
| "copy_offset Second = 4096"

section \<open>Slots\<close>

fun slot_error_code :: "slot_error \<Rightarrow> u32" where
  "slot_error_code NoError = 0"
| "slot_error_code AttemptInProgress = 1"
| "slot_error_code Verification = 2"
| "slot_error_code BootFailureError = 3"
| "slot_error_code HealthFailure = 4"

definition slot_error_try_from :: "u32 \<Rightarrow> boot_control_error + slot_error" where
  "slot_error_try_from v =
     (if v = 0 then Inr NoError
      else if v = 1 then Inr AttemptInProgress
      else if v = 2 then Inr Verification
      else if v = 3 then Inr BootFailureError
      else if v = 4 then Inr HealthFailure
      else Inl BcSlotError)"

definition slot_trial :: "u8 \<Rightarrow> u8 \<Rightarrow> u64 \<Rightarrow> bytes \<Rightarrow> slot_state" where
  "slot_trial priority tries version image_id =
     \<lparr>ss_priority = priority, ss_tries_remaining = tries, ss_successful = False,
      ss_security_version = version, ss_image_id = image_id, ss_last_error = NoError,
      ss_boot_attempts = 0\<rparr>"

definition slot_successful :: "u8 \<Rightarrow> u64 \<Rightarrow> bytes \<Rightarrow> slot_state" where
  "slot_successful priority version image_id =
     \<lparr>ss_priority = priority, ss_tries_remaining = 0, ss_successful = True,
      ss_security_version = version, ss_image_id = image_id, ss_last_error = NoError,
      ss_boot_attempts = 0\<rparr>"

definition slot_disabled :: "u64 \<Rightarrow> bytes \<Rightarrow> slot_state" where
  "slot_disabled version image_id =
     \<lparr>ss_priority = 0, ss_tries_remaining = 0, ss_successful = False,
      ss_security_version = version, ss_image_id = image_id, ss_last_error = NoError,
      ss_boot_attempts = 0\<rparr>"

definition slot_validate :: "slot_state \<Rightarrow> boot_control_error + unit" where
  "slot_validate s =
     (if BOOT_CONTROL_MAX_PRIORITY < ss_priority s then Inl BcPriority
      else if BOOT_CONTROL_MAX_TRIES < ss_tries_remaining s then Inl BcTries
      else if ss_security_version s = 0 \<or> is_zero (ss_image_id s) then Inl BcIdentity
      else if (ss_priority s = 0 \<and> (ss_successful s \<or> ss_tries_remaining s \<noteq> 0)) \<or>
              (ss_successful s \<and> ss_tries_remaining s \<noteq> 0)
      then Inl BcState
      else Inr ())"

definition slot_eligible :: "slot_state \<Rightarrow> u64 \<Rightarrow> bool" where
  "slot_eligible s min_version =
     (ss_priority s \<noteq> 0 \<and> min_version \<le> ss_security_version s \<and>
      (ss_successful s \<or> ss_tries_remaining s \<noteq> 0))"

section \<open>Selection and attempts\<close>

definition bc_factory :: "bytes \<Rightarrow> u64 \<Rightarrow> bytes \<Rightarrow> boot_control" where
  "bc_factory image_id version recovery_image_id =
     \<lparr>bc_sequence = 0, bc_security_floor = version, bc_recovery_security_version = version,
      bc_recovery_image_id = recovery_image_id, bc_flags = 0,
      bc_slot_a = slot_trial 15 3 version image_id, bc_slot_b = slot_successful 14 version image_id\<rparr>"

definition bc_validate :: "boot_control \<Rightarrow> boot_control_error + unit" where
  "bc_validate c =
     (if bc_security_floor c = 0 \<or> bc_recovery_security_version c = 0 \<or>
         is_zero (bc_recovery_image_id c)
      then Inl BcIdentity
      else if bc_flags c AND NOT BOOT_CONTROL_KNOWN_FLAGS \<noteq> 0 then Inl BcFlags
      else and_then (slot_validate (bc_slot_a c)) (\<lambda>_.
           and_then (slot_validate (bc_slot_b c)) (\<lambda>_. Inr ())))"

definition recovery_selection :: "boot_control \<Rightarrow> boot_control_error + boot_selection" where
  "recovery_selection c =
     (if bc_recovery_security_version c < bc_security_floor c then Inl BcNoBootableSlot
      else Inr \<lparr>sel_slot = SlotRecovery, sel_trial = False,
             sel_security_version = bc_recovery_security_version c,
             sel_image_id = bc_recovery_image_id c\<rparr>)"

fun bc_slot :: "boot_control \<Rightarrow> boot_slot \<Rightarrow> boot_control_error + slot_state" where
  "bc_slot c SlotA = Inr (bc_slot_a c)"
| "bc_slot c SlotB = Inr (bc_slot_b c)"
| "bc_slot c SlotRecovery = Inl BcState"

text \<open>\<open>slot_mut\<close>: the slot is changed in place by \<open>f\<close>, which may fail.\<close>

fun bc_slot_mut ::
  "boot_control \<Rightarrow> boot_slot \<Rightarrow> (slot_state \<Rightarrow> boot_control_error + slot_state) \<Rightarrow>
     boot_control_error + boot_control" where
  "bc_slot_mut c SlotA f = and_then (f (bc_slot_a c)) (\<lambda>s. Inr (c\<lparr>bc_slot_a := s\<rparr>))"
| "bc_slot_mut c SlotB f = and_then (f (bc_slot_b c)) (\<lambda>s. Inr (c\<lparr>bc_slot_b := s\<rparr>))"
| "bc_slot_mut c SlotRecovery f = Inl BcState"

definition bc_select :: "boot_control \<Rightarrow> boot_control_error + boot_selection" where
  "bc_select c =
     and_then (bc_validate c) (\<lambda>_.
       if bc_flags c AND BOOT_CONTROL_FLAG_MANUAL_RECOVERY \<noteq> 0 then recovery_selection c
       else let a = slot_eligible (bc_slot_a c) (bc_security_floor c);
                b = slot_eligible (bc_slot_b c) (bc_security_floor c)
            in if \<not> a \<and> \<not> b then recovery_selection c
               else let slot =
                      (if a \<and> \<not> b then SlotA
                       else if \<not> a \<and> b then SlotB
                       else if ss_priority (bc_slot_a c) < ss_priority (bc_slot_b c) then SlotB
                       else if ss_priority (bc_slot_b c) < ss_priority (bc_slot_a c) then SlotA
                       else if ss_successful (bc_slot_b c) \<and> \<not> ss_successful (bc_slot_a c) then SlotB
                       else SlotA)
                    in and_then (bc_slot c slot) (\<lambda>selected.
                         Inr \<lparr>sel_slot = slot, sel_trial = (\<not> ss_successful selected),
                              sel_security_version = ss_security_version selected,
                              sel_image_id = ss_image_id selected\<rparr>))"

definition start_attempt :: "slot_state \<Rightarrow> boot_control_error + slot_state" where
  "start_attempt s =
     and_then (ok_or (checked_sub (ss_tries_remaining s) 1) BcState) (\<lambda>tries.
     and_then (ok_or (checked_add (ss_boot_attempts s) 1) BcSequenceOverflow) (\<lambda>attempts.
       Inr (s\<lparr>ss_tries_remaining := tries, ss_last_error := AttemptInProgress,
              ss_boot_attempts := attempts\<rparr>)))"

definition prepare_attempt ::
  "boot_control \<Rightarrow> boot_control_error + (boot_selection \<times> boot_control option)" where
  "prepare_attempt c =
     and_then (bc_select c) (\<lambda>selection.
       if \<not> sel_trial selection \<or> sel_slot selection = SlotRecovery then Inr (selection, None)
       else and_then (ok_or (checked_add (bc_sequence c) 1) BcSequenceOverflow) (\<lambda>seq.
            and_then (bc_slot_mut (c\<lparr>bc_sequence := seq\<rparr>) (sel_slot selection) start_attempt) (\<lambda>next.
            and_then (bc_validate next) (\<lambda>_. Inr (selection, Some next)))))"

definition fail_slot :: "slot_state \<Rightarrow> boot_control_error + slot_state" where
  "fail_slot s =
     Inr (s\<lparr>ss_priority := 0, ss_tries_remaining := 0, ss_successful := False,
            ss_last_error := Verification\<rparr>)"

definition mark_verification_failed :: "boot_control \<Rightarrow> boot_slot \<Rightarrow> boot_control_error + boot_control" where
  "mark_verification_failed c slot =
     (if slot = SlotRecovery then Inl BcNoBootableSlot
      else and_then (ok_or (checked_add (bc_sequence c) 1) BcSequenceOverflow) (\<lambda>seq.
           and_then (bc_slot_mut (c\<lparr>bc_sequence := seq\<rparr>) slot fail_slot) (\<lambda>next.
           and_then (bc_validate next) (\<lambda>_. Inr next))))"

section \<open>The record\<close>

definition encode_slot :: "slot_state \<Rightarrow> bytes \<Rightarrow> bytes" where
  "encode_slot s buf =
     (let buf = buf[0 := ss_priority s];
          buf = buf[1 := ss_tries_remaining s];
          buf = buf[2 := (if ss_successful s then SLOT_FLAG_SUCCESSFUL else 0)];
          buf = put buf 8 (le_bytes 8 (ss_security_version s));
          buf = put buf 16 (ss_image_id s);
          buf = put buf 32 (le_bytes 4 (slot_error_code (ss_last_error s)))
      in put buf 40 (le_bytes 8 (ss_boot_attempts s)))"

definition decode_slot :: "bytes \<Rightarrow> boot_control_error + slot_state" where
  "decode_slot buf =
     (if buf ! 2 AND NOT SLOT_FLAG_SUCCESSFUL \<noteq> 0 \<or> buf ! 3 \<noteq> 0 \<or> \<not> is_zero (slice 4 8 buf) \<or>
         \<not> is_zero (slice 36 40 buf) \<or> \<not> is_zero (slice 48 64 buf)
      then Inl BcSlotFlags
      else and_then (slot_error_try_from (from_le (slice 32 36 buf))) (\<lambda>err.
        Inr \<lparr>ss_priority = buf ! 0, ss_tries_remaining = buf ! 1,
             ss_successful = (buf ! 2 AND SLOT_FLAG_SUCCESSFUL \<noteq> 0),
             ss_security_version = from_le (slice 8 16 buf), ss_image_id = slice 16 32 buf,
             ss_last_error = err, ss_boot_attempts = from_le (slice 40 48 buf)\<rparr>))"

definition bc_encode :: "boot_control \<Rightarrow> boot_control_error + bytes" where
  "bc_encode c =
     and_then (bc_validate c) (\<lambda>_.
       let buf = zeros BOOT_CONTROL_RECORD_SIZE;
           buf = put buf 0 BOOT_CONTROL_MAGIC;
           buf = put buf 8 (le_bytes 2 BOOT_CONTROL_VERSION);
           buf = put buf 10 (le_bytes 2 BOOT_CONTROL_HEADER_SIZE);
           buf = put buf 12 (le_bytes 4 (of_nat BOOT_CONTROL_RECORD_SIZE :: u32));
           buf = put buf 16 (le_bytes 8 (bc_sequence c));
           buf = put buf 24 (le_bytes 8 (bc_security_floor c));
           buf = put buf 32 (le_bytes 8 (bc_recovery_security_version c));
           buf = put buf 40 (bc_recovery_image_id c);
           buf = put buf 56 (le_bytes 4 (bc_flags c));
           buf = put buf 64 (encode_slot (bc_slot_a c) (slice 64 128 buf));
           buf = put buf 128 (encode_slot (bc_slot_b c) (slice 128 192 buf));
           crc = crc32 (take CRC_OFFSET buf)
       in Inr (put buf CRC_OFFSET (le_bytes 4 crc)))"

definition bc_decode :: "bytes \<Rightarrow> boot_control_error + boot_control" where
  "bc_decode buf =
     (if length buf \<noteq> BOOT_CONTROL_RECORD_SIZE then Inl BcLength
      else if slice 0 8 buf \<noteq> BOOT_CONTROL_MAGIC then Inl BcMagic
      else if from_le (slice 8 10 buf) \<noteq> BOOT_CONTROL_VERSION \<or>
              from_le (slice 10 12 buf) \<noteq> BOOT_CONTROL_HEADER_SIZE \<or>
              unat (from_le (slice 12 16 buf) :: u32) \<noteq> BOOT_CONTROL_RECORD_SIZE
      then Inl BcVersion
      else if crc32 (take CRC_OFFSET buf) \<noteq> from_le (slice CRC_OFFSET (CRC_OFFSET + 4) buf)
      then Inl BcCrc
      else if \<not> is_zero (slice 60 64 buf) \<or>
              \<not> is_zero (slice (unat BOOT_CONTROL_HEADER_SIZE) CRC_OFFSET buf)
      then Inl BcReserved
      else and_then (decode_slot (slice 64 128 buf)) (\<lambda>slot_a.
           and_then (decode_slot (slice 128 192 buf)) (\<lambda>slot_b.
             let control = \<lparr>bc_sequence = from_le (slice 16 24 buf),
                   bc_security_floor = from_le (slice 24 32 buf),
                   bc_recovery_security_version = from_le (slice 32 40 buf),
                   bc_recovery_image_id = slice 40 56 buf, bc_flags = from_le (slice 56 60 buf),
                   bc_slot_a = slot_a, bc_slot_b = slot_b\<rparr>
             in and_then (bc_validate control) (\<lambda>_.
                and_then (bc_encode control) (\<lambda>enc.
                  if enc \<noteq> buf then Inl BcReserved else Inr control)))))"

section \<open>Anchors, transactions, resolution\<close>

definition anchor_new ::
  "(bytes \<Rightarrow> bytes) \<Rightarrow> boot_control \<Rightarrow> bytes \<Rightarrow> boot_control_error + boot_control_anchor" where
  "anchor_new digest control record =
     and_then (bc_validate control) (\<lambda>_.
     and_then (bc_encode control) (\<lambda>enc.
       if enc \<noteq> record then Inl BcAnchor
       else Inr \<lparr>an_sequence = bc_sequence control, an_security_floor = bc_security_floor control,
              an_record_digest = digest record\<rparr>))"

definition anchor_encode :: "boot_control_anchor \<Rightarrow> boot_control_error + bytes" where
  "anchor_encode a =
     (if an_security_floor a = 0 \<or> is_zero (an_record_digest a) then Inl BcAnchor
      else let buf = zeros BOOT_CONTROL_ANCHOR_SIZE;
               buf = put buf 0 BOOT_CONTROL_ANCHOR_MAGIC;
               buf = put buf 8 (le_bytes 2 BOOT_CONTROL_ANCHOR_VERSION);
               buf = put buf 10 (le_bytes 2 (of_nat BOOT_CONTROL_ANCHOR_SIZE :: u16));
               buf = put buf 16 (le_bytes 8 (an_sequence a));
               buf = put buf 24 (le_bytes 8 (an_security_floor a))
           in Inr (put buf 32 (an_record_digest a)))"

definition anchor_decode :: "bytes \<Rightarrow> boot_control_error + boot_control_anchor" where
  "anchor_decode buf =
     (if length buf \<noteq> BOOT_CONTROL_ANCHOR_SIZE then Inl BcLength
      else if slice 0 8 buf \<noteq> BOOT_CONTROL_ANCHOR_MAGIC then Inl BcMagic
      else if from_le (slice 8 10 buf) \<noteq> BOOT_CONTROL_ANCHOR_VERSION \<or>
              unat (from_le (slice 10 12 buf) :: u16) \<noteq> BOOT_CONTROL_ANCHOR_SIZE \<or>
              \<not> is_zero (slice 12 16 buf)
      then Inl BcVersion
      else let anchor = \<lparr>an_sequence = from_le (slice 16 24 buf),
                 an_security_floor = from_le (slice 24 32 buf),
                 an_record_digest = slice 32 64 buf\<rparr>
           in if an_security_floor anchor = 0 \<or> is_zero (an_record_digest anchor) then Inl BcAnchor
              else and_then (anchor_encode anchor) (\<lambda>enc.
                if enc \<noteq> buf then Inl BcAnchor else Inr anchor))"

definition tx_plan ::
  "(bytes \<Rightarrow> bytes) \<Rightarrow> resolved_boot_control \<Rightarrow> boot_control \<Rightarrow>
     boot_control_error + boot_control_transaction" where
  "tx_plan digest current next =
     and_then (ok_or (checked_add (bc_sequence (rb_control current)) 1) BcSequenceOverflow) (\<lambda>seq.
       if bc_sequence next \<noteq> seq then Inl BcTransaction
       else if bc_security_floor next < bc_security_floor (rb_control current) then Inl BcRollback
       else and_then (bc_encode next) (\<lambda>record.
            and_then (anchor_new digest next record) (\<lambda>anchor.
              Inr \<lparr>tx_target = copy_other (rb_source current), tx_mirror = rb_source current,
                   tx_record = record, tx_anchor = anchor\<rparr>)))"

fun resolve_copies ::
  "(bytes \<Rightarrow> bytes) \<Rightarrow> boot_control_anchor \<Rightarrow> (boot_control_copy \<times> bytes) list \<Rightarrow>
     boot_control_error + resolved_boot_control" where
  "resolve_copies digest anchor [] = Inl BcAnchorMismatch"
| "resolve_copies digest anchor ((source, record) # rest) =
     (case bc_decode record of
        Inl _ \<Rightarrow> resolve_copies digest anchor rest
      | Inr control \<Rightarrow>
        if bc_sequence control = an_sequence anchor \<and>
           bc_security_floor control = an_security_floor anchor \<and>
           digest record = an_record_digest anchor
        then Inr \<lparr>rb_control = control, rb_source = source, rb_anchor = anchor,
               rb_needs_anchor_initialization = False\<rparr>
        else resolve_copies digest anchor rest)"

definition resolve_boot_control ::
  "(bytes \<Rightarrow> bytes) \<Rightarrow> bytes \<Rightarrow> bytes \<Rightarrow> boot_control_anchor option \<Rightarrow>
     boot_control_error + resolved_boot_control" where
  "resolve_boot_control digest first second protected_anchor =
     (case protected_anchor of
        Some anchor \<Rightarrow> resolve_copies digest anchor [(First, first), (Second, second)]
      | None \<Rightarrow>
        and_then (bc_decode first) (\<lambda>first_control.
        and_then (bc_decode second) (\<lambda>second_control.
          if first \<noteq> second \<or> first_control \<noteq> second_control \<or> bc_sequence first_control \<noteq> 0
          then Inl BcGenesis
          else and_then (anchor_new digest first_control first) (\<lambda>anchor.
            Inr \<lparr>rb_control = first_control, rb_source = First, rb_anchor = anchor,
                 rb_needs_anchor_initialization = True\<rparr>))))"

section \<open>Lemmas on the record\<close>

definition slot_wf :: "slot_state \<Rightarrow> bool" where
  "slot_wf s \<longleftrightarrow> length (ss_image_id s) = 16"

definition bc_wf :: "boot_control \<Rightarrow> bool" where
  "bc_wf c \<longleftrightarrow> length (bc_recovery_image_id c) = 16 \<and> slot_wf (bc_slot_a c) \<and> slot_wf (bc_slot_b c)"

definition slot_fields :: "slot_state \<Rightarrow> bytes" where
  "slot_fields s =
     [ss_priority s, ss_tries_remaining s, if ss_successful s then 1 else 0] @ zeros 5 @
     le_bytes 8 (ss_security_version s) @ ss_image_id s @
     le_bytes 4 (slot_error_code (ss_last_error s)) @ zeros 4 @ le_bytes 8 (ss_boot_attempts s) @
     zeros 16"

lemma zeros_64_split: "zeros 64 = [0, 0, 0] @ zeros 5 @ zeros 8 @ zeros 16 @ zeros 4 @ zeros 4 @ zeros 8 @ zeros 16"
  by (simp add: replicate_eq_replicate flip: replicate_add replicate_Suc)

lemma encode_slot_fields: "slot_wf s \<Longrightarrow> encode_slot s (zeros 64) = slot_fields s"
  unfolding encode_slot_def slot_fields_def zeros_64_split slot_wf_def Let_def
  by (simp add: put_def SLOT_FLAG_SUCCESSFUL_def)

lemma length_slot_fields [simp]: "slot_wf s \<Longrightarrow> length (slot_fields s) = 64"
  by (simp add: slot_fields_def slot_wf_def)

lemma slot_error_try_from_code [simp]: "slot_error_try_from (slot_error_code e) = Inr e"
  by (cases e) (simp_all add: slot_error_try_from_def)

lemma decode_slot_fields: "slot_wf s \<Longrightarrow> decode_slot (slot_fields s) = Inr s"
  unfolding decode_slot_def slot_fields_def slot_wf_def
  by (simp add: slice_def is_zero_iff SLOT_FLAG_SUCCESSFUL_def nth_append)

definition bc_body :: "boot_control \<Rightarrow> bytes" where
  "bc_body c =
     BOOT_CONTROL_MAGIC @ le_bytes 2 BOOT_CONTROL_VERSION @ le_bytes 2 BOOT_CONTROL_HEADER_SIZE @
     le_bytes 4 (4096 :: u32) @ le_bytes 8 (bc_sequence c) @ le_bytes 8 (bc_security_floor c) @
     le_bytes 8 (bc_recovery_security_version c) @ bc_recovery_image_id c @
     le_bytes 4 (bc_flags c) @ zeros 4 @ slot_fields (bc_slot_a c) @ slot_fields (bc_slot_b c) @
     zeros 3900"

lemma length_bc_body [simp]: "bc_wf c \<Longrightarrow> length (bc_body c) = 4092"
  by (simp add: bc_body_def bc_wf_def BOOT_CONTROL_MAGIC_def)

lemma length_magic [simp]: "length BOOT_CONTROL_MAGIC = 8" "length BOOT_CONTROL_ANCHOR_MAGIC = 8"
  by (simp_all add: boot_consts)

lemma put_zeros_at:
  "length pre = a \<Longrightarrow> put (pre @ zeros n) a xs = (pre @ xs) @ zeros (n - length xs)"
  by (simp add: put_def)

lemma put_zeros_start: "put (zeros n) 0 xs = xs @ zeros (n - length xs)"
  by (simp add: put_def)

lemma slice_zeros_at:
  "length pre \<le> a \<Longrightarrow> slice a b (pre @ zeros n) = zeros (min (b - a) (n - (a - length pre)))"
  by (simp add: slice_def min.commute)

lemma bc_encode_body:
  assumes "bc_wf c"
  shows "bc_encode c = and_then (bc_validate c) (\<lambda>_. Inr (bc_body c @ le_bytes 4 (crc32 (bc_body c))))"
proof -
  note wf = assms [unfolded bc_wf_def]
  have "slot_wf (bc_slot_a c)" "slot_wf (bc_slot_b c)" using wf by auto
  then show ?thesis
    unfolding bc_encode_def BOOT_CONTROL_RECORD_SIZE_def Let_def CRC_OFFSET_def
    using wf
    by (simp add: put_zeros_start put_zeros_at put_zeros_gap slice_zeros_at encode_slot_fields
        bc_body_def del: append_assoc append.simps) (simp only: append_assoc)
qed

lemma bc_decode_encode:
  assumes "bc_wf c" and "bc_encode c = Inr rec"
  shows "bc_decode rec = Inr c"
proof -
  note wf = assms(1) [unfolded bc_wf_def]
  have len: "length (slot_fields (bc_slot_a c)) = 64" "length (slot_fields (bc_slot_b c)) = 64"
    using wf by auto
  have valid: "bc_validate c = Inr ()" and r: "rec = bc_body c @ le_bytes 4 (crc32 (bc_body c))"
    using assms bc_encode_body [OF assms(1)] by auto
  have body: "slice 0 8 (bc_body c) = BOOT_CONTROL_MAGIC"
    "slice 8 10 (bc_body c) = le_bytes 2 BOOT_CONTROL_VERSION"
    "slice 10 12 (bc_body c) = le_bytes 2 BOOT_CONTROL_HEADER_SIZE"
    "slice 12 16 (bc_body c) = le_bytes 4 (4096 :: u32)"
    "slice 16 24 (bc_body c) = le_bytes 8 (bc_sequence c)"
    "slice 24 32 (bc_body c) = le_bytes 8 (bc_security_floor c)"
    "slice 32 40 (bc_body c) = le_bytes 8 (bc_recovery_security_version c)"
    "slice 40 56 (bc_body c) = bc_recovery_image_id c"
    "slice 56 60 (bc_body c) = le_bytes 4 (bc_flags c)" "slice 60 64 (bc_body c) = zeros 4"
    "slice 64 128 (bc_body c) = slot_fields (bc_slot_a c)"
    "slice 128 192 (bc_body c) = slot_fields (bc_slot_b c)"
    "slice 192 4092 (bc_body c) = zeros 3900"
    unfolding bc_body_def using wf len by (simp_all add: slice_def)
  have sl: "slice a b rec = slice a b (bc_body c)" if "b \<le> 4092" for a b
    using that assms(1) by (simp add: r slice_append_left)
  have "slice 4092 4096 rec = le_bytes 4 (crc32 (bc_body c))" "take 4092 rec = bc_body c"
    "length rec = 4096"
    using assms(1) by (simp_all add: r slice_def)
  moreover have eta: "\<lparr>bc_sequence = bc_sequence c, bc_security_floor = bc_security_floor c,
      bc_recovery_security_version = bc_recovery_security_version c,
      bc_recovery_image_id = bc_recovery_image_id c, bc_flags = bc_flags c,
      bc_slot_a = bc_slot_a c, bc_slot_b = bc_slot_b c\<rparr> = c" by simp
  ultimately show ?thesis
    using valid wf assms(2)
    by (simp add: bc_decode_def sl eta body decode_slot_fields is_zero_iff BOOT_CONTROL_RECORD_SIZE_def
        CRC_OFFSET_def BOOT_CONTROL_HEADER_SIZE_def Let_def)
qed

lemma decode_slot_wf: "decode_slot buf = Inr s \<Longrightarrow> length buf = 64 \<Longrightarrow> slot_wf s"
  by (auto simp: decode_slot_def slot_wf_def split: if_splits)

lemma bc_decode_canonical:
  assumes "bc_decode rec = Inr c"
  shows "bc_wf c \<and> bc_validate c = Inr () \<and> bc_encode c = Inr rec"
proof -
  from assms have len: "length rec = 4096"
    by (auto simp: bc_decode_def BOOT_CONTROL_RECORD_SIZE_def split: if_splits)
  from assms have "bc_validate c = Inr ()" "bc_encode c = Inr rec"
    by (auto simp: bc_decode_def Let_def split: if_splits)
  moreover have "bc_wf c"
    using assms len by (auto simp: bc_decode_def bc_wf_def Let_def split: if_splits
        dest: decode_slot_wf)
  ultimately show ?thesis by blast
qed

definition bc_record :: "boot_control \<Rightarrow> bytes" where
  "bc_record c = (case bc_encode c of Inr rec \<Rightarrow> rec | Inl _ \<Rightarrow> [])"

lemma bc_encode_valid: "bc_wf c \<Longrightarrow> bc_validate c = Inr () \<Longrightarrow> bc_encode c = Inr (bc_record c)"
  by (simp add: bc_record_def bc_encode_body)

lemma bc_encode_Inr_valid: "bc_encode c = Inr rec \<Longrightarrow> bc_validate c = Inr ()"
  by (simp add: bc_encode_def)

interpretation bc_codec: codec bc_record bc_decode "\<lambda>c. bc_wf c \<and> bc_validate c = Inr ()"
proof unfold_locales
  show "bc_decode (bc_record v) = Inr v" if "bc_wf v \<and> bc_validate v = Inr ()" for v
    using that by (intro bc_decode_encode bc_encode_valid) auto
  show "(bc_wf v \<and> bc_validate v = Inr ()) \<and> bc_record v = bs" if "bc_decode bs = Inr v" for bs v
    using bc_decode_canonical [OF that] by (simp add: bc_record_def)
qed

lemma bc_decode_crc:
  "bc_decode rec = Inr c \<Longrightarrow>
     length rec = 4096 \<and> crc32 (take 4092 rec) = from_le (slice 4092 4096 rec)"
  by (auto simp: bc_decode_def boot_consts split: if_splits)

lemma from_le_inject:
  "length a = n \<Longrightarrow> length b = n \<Longrightarrow> 8 * n = LENGTH('a::len) \<Longrightarrow>
     (from_le a :: 'a word) = from_le b \<longleftrightarrow> a = b"
  by (metis le_bytes_from_le_full)

lemma bc_decode_corrupt:
  assumes "bc_decode rec = Inr c" and "i < length rec" and "b \<noteq> rec ! i"
  shows "\<exists>e. bc_decode (rec[i := b]) = Inl e"
proof (cases "bc_decode (rec[i := b])")
  case (Inr c')
  note old = bc_decode_crc [OF assms(1)] and new = bc_decode_crc [OF Inr]
  show ?thesis
  proof (cases "i < 4092")
    case True
    then have "take 4092 (rec[i := b]) = (take 4092 rec)[i := b]"
      "slice 4092 4096 (rec[i := b]) = slice 4092 4096 rec"
      by (simp_all add: take_update_swap slice_def)
    with old new have "crc32 ((take 4092 rec)[i := b]) = crc32 (take 4092 rec)" by simp
    with crc32_update [of i "take 4092 rec" b] True old assms(3) show ?thesis by simp
  next
    case False
    then have "take 4092 (rec[i := b]) = take 4092 rec" by simp
    with old new have "(from_le (slice 4092 4096 (rec[i := b])) :: u32) = from_le (slice 4092 4096 rec)"
      by metis
    then have "slice 4092 4096 (rec[i := b]) = slice 4092 4096 rec"
      using old by (subst (asm) from_le_inject [of _ 4]) auto
    then have "slice 4092 4096 (rec[i := b]) ! (i - 4092) = slice 4092 4096 rec ! (i - 4092)" by simp
    with False assms(2,3) old show ?thesis by (simp add: slice_def)
  qed
qed blast

section \<open>Lemmas on selection\<close>

lemma slot_validate_iff:
  "slot_validate s = Inr u \<longleftrightarrow>
     ss_priority s \<le> 15 \<and> ss_tries_remaining s \<le> 7 \<and> ss_security_version s \<noteq> 0 \<and>
     \<not> is_zero (ss_image_id s) \<and> (ss_priority s = 0 \<longrightarrow> \<not> ss_successful s \<and> ss_tries_remaining s = 0) \<and>
     (ss_successful s \<longrightarrow> ss_tries_remaining s = 0)"
  by (auto simp: slot_validate_def boot_consts not_less)

lemma bc_validate_iff:
  "bc_validate c = Inr u \<longleftrightarrow>
     bc_security_floor c \<noteq> 0 \<and> bc_recovery_security_version c \<noteq> 0 \<and>
     \<not> is_zero (bc_recovery_image_id c) \<and> bc_flags c AND NOT 1 = 0 \<and>
     slot_validate (bc_slot_a c) = Inr () \<and> slot_validate (bc_slot_b c) = Inr ()"
  by (auto simp: bc_validate_def boot_consts split: if_splits)

text \<open>The slot a selection names, and the slots that compete for it.\<close>

definition selectable :: "boot_control \<Rightarrow> boot_slot \<Rightarrow> slot_state \<Rightarrow> bool" where
  "selectable c slot s \<longleftrightarrow> bc_slot c slot = Inr s \<and> slot_eligible s (bc_security_floor c)"

lemma bc_select_slot:
  assumes "bc_select c = Inr sel" and "sel_slot sel \<noteq> SlotRecovery"
  shows "\<exists>s. selectable c (sel_slot sel) s \<and> sel_security_version sel = ss_security_version s \<and>
     sel_image_id sel = ss_image_id s \<and> sel_trial sel = (\<not> ss_successful s) \<and>
     (\<forall>slot' s'. selectable c slot' s' \<longrightarrow> ss_priority s' \<le> ss_priority s)"
  using assms
  by (auto simp: bc_select_def selectable_def recovery_selection_def Let_def all_conj_distrib
      split: if_splits elim!: bc_slot.elims)

lemma bc_select_recovery:
  assumes "bc_select c = Inr sel" and "sel_slot sel = SlotRecovery"
  shows "bc_security_floor c \<le> bc_recovery_security_version c \<and>
     sel_security_version sel = bc_recovery_security_version c \<and> \<not> sel_trial sel \<and>
     (bc_flags c AND 1 \<noteq> 0 \<or> (\<forall>slot s. \<not> selectable c slot s))"
  using assms
  by (auto simp: bc_select_def selectable_def recovery_selection_def Let_def boot_consts
      split: if_splits elim!: bc_slot.elims)

section \<open>Lemmas on anchors\<close>

definition anchor_wf :: "boot_control_anchor \<Rightarrow> bool" where
  "anchor_wf a \<longleftrightarrow>
     length (an_record_digest a) = 32 \<and> an_security_floor a \<noteq> 0 \<and> \<not> is_zero (an_record_digest a)"

definition anchor_fields :: "boot_control_anchor \<Rightarrow> bytes" where
  "anchor_fields a =
     BOOT_CONTROL_ANCHOR_MAGIC @ le_bytes 2 BOOT_CONTROL_ANCHOR_VERSION @ le_bytes 2 (64 :: u16) @
     zeros 4 @ le_bytes 8 (an_sequence a) @ le_bytes 8 (an_security_floor a) @ an_record_digest a"

lemma anchor_encode_fields: "anchor_wf a \<Longrightarrow> anchor_encode a = Inr (anchor_fields a)"
  unfolding anchor_encode_def anchor_fields_def anchor_wf_def BOOT_CONTROL_ANCHOR_SIZE_def Let_def
  by (simp add: put_zeros_start put_zeros_at put_zeros_gap del: append_assoc append.simps)

lemma anchor_decode_encode:
  assumes "anchor_wf a"
  shows "anchor_decode (anchor_fields a) = Inr a"
proof -
  have "slice 0 8 (anchor_fields a) = BOOT_CONTROL_ANCHOR_MAGIC"
    "slice 8 10 (anchor_fields a) = le_bytes 2 BOOT_CONTROL_ANCHOR_VERSION"
    "slice 10 12 (anchor_fields a) = le_bytes 2 (64 :: u16)" "slice 12 16 (anchor_fields a) = zeros 4"
    "slice 16 24 (anchor_fields a) = le_bytes 8 (an_sequence a)"
    "slice 24 32 (anchor_fields a) = le_bytes 8 (an_security_floor a)"
    "slice 32 64 (anchor_fields a) = an_record_digest a" "length (anchor_fields a) = 64"
    unfolding anchor_fields_def using assms by (simp_all add: slice_def anchor_wf_def)
  moreover have eta: "\<lparr>an_sequence = an_sequence a, an_security_floor = an_security_floor a,
      an_record_digest = an_record_digest a\<rparr> = a" by simp
  ultimately show ?thesis
    using assms anchor_encode_fields [OF assms]
    by (auto simp: anchor_decode_def BOOT_CONTROL_ANCHOR_SIZE_def Let_def eta is_zero_iff anchor_wf_def)
qed

definition anchor_bytes :: "boot_control_anchor \<Rightarrow> bytes" where
  "anchor_bytes a = (case anchor_encode a of Inr bs \<Rightarrow> bs | Inl _ \<Rightarrow> [])"

interpretation anchor_codec: codec anchor_bytes anchor_decode anchor_wf
proof unfold_locales
  show "anchor_decode (anchor_bytes v) = Inr v" if "anchor_wf v" for v
    using that by (simp add: anchor_bytes_def anchor_encode_fields anchor_decode_encode)
  show "anchor_wf v \<and> anchor_bytes v = bs" if "anchor_decode bs = Inr v" for bs v
    using that by (auto simp: anchor_decode_def anchor_bytes_def anchor_wf_def Let_def
        BOOT_CONTROL_ANCHOR_SIZE_def split: if_splits)
qed

section \<open>Properties\<close>

text \<open>A boot-control record decodes to a control block exactly when it is the encoding of that block: the decoder accepts nothing but valid, canonical records.\<close>

theorem boot_record_decode_iff:
  "bc_decode rec = Inr c \<longleftrightarrow> bc_wf c \<and> bc_encode c = Inr rec"
  using bc_decode_encode bc_decode_canonical by blast

text \<open>A record in which any single byte is changed is rejected.\<close>

theorem boot_record_corruption_detected:
  assumes "bc_decode rec = Inr c" and "i < length rec" and "b \<noteq> rec ! i"
  shows "\<exists>e. bc_decode (rec[i := b]) = Inl e"
  by (rule bc_decode_corrupt [OF assms])

definition demo_control :: boot_control where
  "demo_control = bc_factory (replicate 16 1) 1 (replicate 16 3)"

lemma demo_control_ok: "bc_wf demo_control" "bc_validate demo_control = Inr ()"
  by (simp_all add: demo_control_def bc_factory_def bc_wf_def slot_wf_def slot_trial_def slot_successful_def
      bc_validate_iff slot_validate_iff is_zero_def list_all_iff)

lemma demo_control_decode: "bc_decode (bc_record demo_control) = Inr demo_control"
  by (rule bc_codec.decode_encode) (simp add: demo_control_ok)

theorem boot_record_corruption_witness:
  "\<exists>e. bc_decode ((bc_record demo_control)[20 := bc_record demo_control ! 20 + 1]) = Inl e"
proof (rule boot_record_corruption_detected [OF demo_control_decode])
  show "20 < length (bc_record demo_control)" using bc_decode_crc [OF demo_control_decode] by simp
  show "bc_record demo_control ! 20 + 1 \<noteq> bc_record demo_control ! 20" by simp
qed

end
