(* ===== verification/Boot_Store.thy ===== *)
theory Boot_Store
  imports Boot_Control
begin

unbundle bit_operations_syntax

text \<open>
  How the boot manager keeps the control block (\<open>crates/boot/boot-manager-uefi/src/main.rs\<close>):
  the anchored dual-copy store, the persist sequence with every power cut it may suffer, and the
  loop that tries slots until one verifies.
\<close>

section \<open>The boot manager's store\<close>

text \<open>The two copies on the control partition and the protected firmware variable. Block and
  variable services belong to the firmware, and what they answer is part of the store: the variable
  is missing, cannot be read, or has attributes and a value; the read of a copy, the write of a copy
  and the write of the variable may each fail. \<open>store_copy\<close> is the effect of a completed write,
  \<open>write_control_copy\<close> the call with its failure, which stands for every check of the method
  (alignment, range, address, write, flush, read-back) and carries the error of the one that failed.
  What a power cut or a failed write leaves behind is described by \<open>persist_cut\<close> below.\<close>

datatype loader_error =
  ManifestHeader | ManifestLength | ManifestFormat | Platform | KeyId | SecurityVersion
  | SecurityBinding | ImageId | PublicKey | Signature | ManifestSlotError | MissingKernel
  | MissingInitBundle | DuplicateComponent | MediaRange | MediaOverlap | LoadRange | LoadOverlap
  | Permission | PayloadLength | PayloadDigest

datatype boot_failure =
  NoBlockDevice | Media | DiskIdentity | PartitionMissing | PartitionRead | Manifest loader_error
  | ComponentMissing | Allocation | NoDeviceTree | EntropyUnavailable | EntropyFailure
  | BootControlFailure | ProtectedState | BootControlWrite | Measurement | DtLayout

text \<open>The answer of \<open>get_variable\<close>: \<open>NOT_FOUND\<close>, another error, or attributes and value.\<close>

datatype firmware_variable = VariableMissing | VariableError | VariableSet (var_attributes: u32) (var_value: bytes)

record boot_store =
  bst_first :: bytes
  bst_second :: bytes
  bst_anchor :: firmware_variable
  bst_read_fault :: "boot_failure option"
  bst_write_fault :: "boot_control_copy \<Rightarrow> boot_failure option"
  bst_variable_fault :: bool

text \<open>\<open>NON_VOLATILE | BOOTSERVICE_ACCESS\<close>.\<close>

definition anchor_attributes :: u32 where
  "anchor_attributes = 1 OR 2"

fun bst_copy :: "boot_store \<Rightarrow> boot_control_copy \<Rightarrow> bytes" where
  "bst_copy st First = bst_first st"
| "bst_copy st Second = bst_second st"

fun store_copy :: "boot_store \<Rightarrow> boot_control_copy \<Rightarrow> bytes \<Rightarrow> boot_store" where
  "store_copy st First rec = st\<lparr>bst_first := rec\<rparr>"
| "store_copy st Second rec = st\<lparr>bst_second := rec\<rparr>"

definition write_control_copy ::
  "boot_store \<Rightarrow> boot_control_copy \<Rightarrow> bytes \<Rightarrow> boot_failure + boot_store" where
  "write_control_copy st c rec =
     (case bst_write_fault st c of
        Some e \<Rightarrow> Inl e
      | None \<Rightarrow> Inr (store_copy st c rec))"

definition read_boot_control_copies :: "boot_store \<Rightarrow> boot_failure + (bytes \<times> bytes)" where
  "read_boot_control_copies st =
     (case bst_read_fault st of
        Some e \<Rightarrow> Inl e
      | None \<Rightarrow> Inr (bst_first st, bst_second st))"

definition read_protected_anchor :: "boot_store \<Rightarrow> boot_failure + boot_control_anchor option" where
  "read_protected_anchor st =
     (case bst_anchor st of
        VariableSet attributes value \<Rightarrow>
          if attributes \<noteq> anchor_attributes then Inl ProtectedState
          else map_err (and_then (anchor_decode value) (\<lambda>a. Inr (Some a))) (\<lambda>_. ProtectedState)
      | VariableMissing \<Rightarrow> Inr None
      | VariableError \<Rightarrow> Inl ProtectedState)"

definition write_protected_anchor ::
  "boot_store \<Rightarrow> boot_control_anchor \<Rightarrow> boot_failure + boot_store" where
  "write_protected_anchor st anchor =
     and_then (map_err (anchor_encode anchor) (\<lambda>_. ProtectedState)) (\<lambda>value.
       if bst_variable_fault st then Inl ProtectedState
       else let st = st\<lparr>bst_anchor := VariableSet anchor_attributes value\<rparr>
            in and_then (read_protected_anchor st) (\<lambda>back.
                 if back \<noteq> Some anchor then Inl ProtectedState else Inr st))"

text \<open>A sequence of writes with the early return of the first failure. \<open>persist_boot_control\<close> is the sequence \<open>persist_writes\<close>.\<close>

datatype store_write = CopyWrite boot_control_copy bytes | AnchorWrite boot_control_anchor

fun store_write_apply :: "boot_store \<Rightarrow> store_write \<Rightarrow> boot_failure + boot_store" where
  "store_write_apply st (CopyWrite c rec) = write_control_copy st c rec"
| "store_write_apply st (AnchorWrite a) = write_protected_anchor st a"

fun store_writes :: "boot_store \<Rightarrow> store_write list \<Rightarrow> boot_failure + boot_store" where
  "store_writes st [] = Inr st"
| "store_writes st (w # ws) = and_then (store_write_apply st w) (\<lambda>st. store_writes st ws)"

definition persist_writes :: "boot_control_transaction \<Rightarrow> store_write list" where
  "persist_writes tx =
     [CopyWrite (tx_target tx) (tx_record tx), AnchorWrite (tx_anchor tx),
      CopyWrite (tx_mirror tx) (tx_record tx)]"

definition persist_boot_control ::
  "boot_store \<Rightarrow> boot_control_transaction \<Rightarrow> boot_failure + boot_store" where
  "persist_boot_control st tx = store_writes st (persist_writes tx)"

definition MINIMUM_COMPILED_SECURITY_VERSION :: u64 where
  "MINIMUM_COMPILED_SECURITY_VERSION = 1"

definition refresh_boot_control ::
  "(bytes \<Rightarrow> bytes) \<Rightarrow> boot_store \<Rightarrow> boot_failure + resolved_boot_control" where
  "refresh_boot_control digest st =
     and_then (read_boot_control_copies st) (\<lambda>(first, second).
     and_then (read_protected_anchor st) (\<lambda>p.
     and_then (ok_or p ProtectedState) (\<lambda>anchor.
     and_then (map_err (resolve_boot_control digest first second (Some anchor))
                 (\<lambda>_. BootControlFailure)) (\<lambda>resolved.
       if bc_security_floor (rb_control resolved) < MINIMUM_COMPILED_SECURITY_VERSION
       then Inl BootControlFailure else Inr resolved))))"

section \<open>The boot loop\<close>

definition is_slot_verification_failure :: "boot_failure \<Rightarrow> bool" where
  "is_slot_verification_failure e =
     (case e of PartitionRead \<Rightarrow> True | Manifest _ \<Rightarrow> True | ComponentMissing \<Rightarrow> True | _ \<Rightarrow> False)"

text \<open>Plan, persist and read back, as the loop does after every change of the control block.\<close>

definition boot_commit ::
  "(bytes \<Rightarrow> bytes) \<Rightarrow> boot_store \<Rightarrow> resolved_boot_control \<Rightarrow> boot_control \<Rightarrow>
     boot_failure + (boot_store \<times> resolved_boot_control)" where
  "boot_commit digest st resolved next =
     and_then (map_err (tx_plan digest resolved next) (\<lambda>_. BootControlFailure)) (\<lambda>tx.
     and_then (persist_boot_control st tx) (\<lambda>st.
     and_then (refresh_boot_control digest st) (\<lambda>resolved. Inr (st, resolved))))"

text \<open>The loop of \<open>prepare_boot\<close>, with the outcome of \<open>verify_slot\<close> for a selection as a parameter:
  \<open>None\<close> when the slot verifies, otherwise the failure. The first argument bounds the number of
  iterations; running out of it is the value \<open>None\<close>.\<close>

fun boot_loop ::
  "nat \<Rightarrow> (bytes \<Rightarrow> bytes) \<Rightarrow> (boot_selection \<Rightarrow> boot_control \<Rightarrow> boot_failure option) \<Rightarrow>
     boot_store \<Rightarrow> resolved_boot_control \<Rightarrow>
     (boot_failure + (boot_selection \<times> resolved_boot_control \<times> boot_store)) option" where
  "boot_loop 0 digest verify st resolved = None"
| "boot_loop (Suc n) digest verify st resolved =
     (case prepare_attempt (rb_control resolved) of
        Inl _ \<Rightarrow> Some (Inl BootControlFailure)
      | Inr (selection, next_control) \<Rightarrow>
        (case (case next_control of
                 None \<Rightarrow> Inr (st, resolved)
               | Some next \<Rightarrow> boot_commit digest st resolved next) of
           Inl e \<Rightarrow> Some (Inl e)
         | Inr (st, resolved) \<Rightarrow>
           (case verify selection (rb_control resolved) of
              None \<Rightarrow> Some (Inr (selection, resolved, st))
            | Some e \<Rightarrow>
              if sel_slot selection \<noteq> SlotRecovery \<and> is_slot_verification_failure e
              then (case and_then (map_err (mark_verification_failed (rb_control resolved) (sel_slot selection))
                             (\<lambda>_. BootControlFailure)) (boot_commit digest st resolved) of
                      Inl e \<Rightarrow> Some (Inl e)
                    | Inr (st, resolved) \<Rightarrow> boot_loop n digest verify st resolved)
              else Some (Inl e))))"

section \<open>Power cuts\<close>

text \<open>What a power cut or a failed write during \<open>persist_boot_control\<close> may leave: some of its writes
  are done, and if the next one is the write of a copy, that copy may hold arbitrary bytes \<open>junk\<close>;
  the variable is written atomically.\<close>

inductive persist_cut :: "boot_store \<Rightarrow> boot_control_transaction \<Rightarrow> bytes \<Rightarrow> boot_store \<Rightarrow> bool" where
  between: "persist_writes tx = ws @ rest \<Longrightarrow> store_writes st ws = Inr st' \<Longrightarrow> persist_cut st tx junk st'"
| torn: "persist_writes tx = ws @ CopyWrite c rec # rest \<Longrightarrow> store_writes st ws = Inr st1 \<Longrightarrow>
    persist_cut st tx junk (store_copy st1 c junk)"

section \<open>Lemmas on resolution\<close>

text \<open>A copy that the anchor vouches for.\<close>

definition anchored :: "(bytes \<Rightarrow> bytes) \<Rightarrow> boot_control_anchor \<Rightarrow> bytes \<Rightarrow> boot_control \<Rightarrow> bool" where
  "anchored digest a rec c \<longleftrightarrow>
     bc_decode rec = Inr c \<and> bc_sequence c = an_sequence a \<and>
     bc_security_floor c = an_security_floor a \<and> digest rec = an_record_digest a"

lemma resolve_copies_cons:
  "resolve_copies digest a ((k, rec) # rest) =
     (if \<exists>c. anchored digest a rec c
      then Inr \<lparr>rb_control = (case bc_decode rec of Inr c \<Rightarrow> c), rb_source = k, rb_anchor = a,
             rb_needs_anchor_initialization = False\<rparr>
      else resolve_copies digest a rest)"
  by (auto simp: anchored_def split: sum.splits)

lemma resolve_Inr:
  assumes "resolve_boot_control digest (bst_first st) (bst_second st) (Some a) = Inr r"
  shows "anchored digest a (bst_copy st (rb_source r)) (rb_control r) \<and> rb_anchor r = a"
  using assms
  by (auto simp: resolve_boot_control_def anchored_def split: sum.splits if_splits)

lemma resolve_control:
  assumes "anchored digest a (bst_copy st k) c"
    and "\<And>c'. anchored digest a (bst_copy st (copy_other k)) c' \<Longrightarrow> c' = c"
  shows "\<exists>r. resolve_boot_control digest (bst_first st) (bst_second st) (Some a) = Inr r \<and>
     rb_control r = c"
  using assms
  by (cases k) (auto simp: resolve_boot_control_def anchored_def split: sum.splits)

lemma bst_copy_write [simp]:
  "bst_copy (store_copy st k rec) k' = (if k' = k then rec else bst_copy st k')"
  by (cases k; cases k') auto

lemma bst_anchor_write [simp]:
  "bst_anchor (store_copy st k rec) = bst_anchor st"
  "bst_read_fault (store_copy st k rec) = bst_read_fault st"
  by (cases k; simp)+

lemma write_control_copy_Inr:
  "write_control_copy st k rec = Inr st' \<longleftrightarrow> bst_write_fault st k = None \<and> st' = store_copy st k rec"
  by (auto simp: write_control_copy_def split: option.splits)

lemma copy_other_simps [simp]:
  "copy_other (copy_other k) = k" "copy_other k \<noteq> k" "k \<noteq> copy_other k"
  by (cases k; simp)+

lemma copy_cases: "k' = k \<or> k' = copy_other k"
  by (cases k; cases k') auto

lemma read_protected_anchor_cong:
  "bst_anchor st = bst_anchor st' \<Longrightarrow> read_protected_anchor st = read_protected_anchor st'"
  by (simp add: read_protected_anchor_def)

lemma refresh_iff:
  "refresh_boot_control digest st = Inr r \<longleftrightarrow>
     bst_read_fault st = None \<and>
     (\<exists>a. read_protected_anchor st = Inr (Some a) \<and>
        resolve_boot_control digest (bst_first st) (bst_second st) (Some a) = Inr r \<and>
        bc_security_floor (rb_control r) \<noteq> 0)"
  by (auto simp: refresh_boot_control_def read_boot_control_copies_def MINIMUM_COMPILED_SECURITY_VERSION_def
      split: if_splits option.splits)

lemma bc_validate_floor: "bc_validate c = Inr u \<Longrightarrow> bc_security_floor c \<noteq> 0"
  by (simp add: bc_validate_iff)

lemma refresh_control:
  assumes "read_protected_anchor st = Inr (Some a)" and "anchored digest a (bst_copy st k) c"
    and "\<And>c'. anchored digest a (bst_copy st (copy_other k)) c' \<Longrightarrow> c' = c"
    and "bst_read_fault st = None"
  shows "\<exists>r. refresh_boot_control digest st = Inr r \<and> rb_control r = c"
proof -
  from resolve_control [OF assms(2,3)] obtain r where
    "resolve_boot_control digest (bst_first st) (bst_second st) (Some a) = Inr r" "rb_control r = c"
    by blast
  moreover have "bc_security_floor c \<noteq> 0"
    using assms(2) bc_decode_canonical bc_validate_floor unfolding anchored_def by blast
  ultimately show ?thesis using assms(1,4) by (auto simp: refresh_iff)
qed

lemma refresh_wf: "refresh_boot_control digest st = Inr r \<Longrightarrow> bc_wf (rb_control r)"
  using resolve_Inr bc_decode_canonical unfolding refresh_iff anchored_def by blast

lemma write_protected_anchor_Inr:
  assumes "write_protected_anchor st a = Inr st1"
  shows "read_protected_anchor st1 = Inr (Some a) \<and> bst_copy st1 k = bst_copy st k \<and>
    bst_read_fault st1 = bst_read_fault st"
  using assms by (cases k) (auto simp: write_protected_anchor_def Let_def split: if_splits)

lemma anchor_new_Inr:
  "anchor_new digest c rec = Inr a \<longleftrightarrow>
     bc_encode c = Inr rec \<and>
     a = \<lparr>an_sequence = bc_sequence c, an_security_floor = bc_security_floor c,
          an_record_digest = digest rec\<rparr>"
  by (auto simp: anchor_new_def bc_encode_Inr_valid split: if_splits)

lemma tx_plan_Inr:
  assumes "tx_plan digest cur next = Inr tx" and "bc_wf next"
  shows "tx_target tx = copy_other (rb_source cur)" "tx_mirror tx = rb_source cur"
    "anchored digest (tx_anchor tx) (tx_record tx) next"
    "bc_sequence (rb_control cur) < bc_sequence next"
    "bc_security_floor (rb_control cur) \<le> bc_security_floor next"
  using assms
  by (auto simp: tx_plan_def anchor_new_Inr anchored_def not_less bc_decode_encode
      split: if_splits dest: checked_add_one_less)

lemma anchored_sequence: "anchored digest a rec c \<Longrightarrow> anchored digest a rec' c' \<Longrightarrow> bc_sequence c = bc_sequence c'"
  by (simp add: anchored_def)

lemma anchored_unique: "anchored digest a rec c \<Longrightarrow> anchored digest a rec c' \<Longrightarrow> c = c'"
  by (simp add: anchored_def)

section \<open>Atomicity\<close>

lemma persist_boot_control_cases:
  assumes "persist_boot_control st tx = Inr st'"
  obtains st0 where
    "write_protected_anchor (store_copy st (tx_target tx) (tx_record tx)) (tx_anchor tx) = Inr st0"
    "st' = store_copy st0 (tx_mirror tx) (tx_record tx)"
  using assms by (auto simp: persist_boot_control_def persist_writes_def write_control_copy_Inr)

text \<open>The six states a cut can leave.\<close>

lemma persist_cut_states:
  assumes "persist_cut st tx junk st'"
  obtains (untouched) "st' = st"
  | (target_torn) "st' = store_copy st (tx_target tx) junk"
  | (target_written) "st' = store_copy st (tx_target tx) (tx_record tx)"
  | (anchor_written) st0 where
      "write_protected_anchor (store_copy st (tx_target tx) (tx_record tx)) (tx_anchor tx) = Inr st0" "st' = st0"
  | (mirror_torn) st0 where
      "write_protected_anchor (store_copy st (tx_target tx) (tx_record tx)) (tx_anchor tx) = Inr st0"
      "st' = store_copy st0 (tx_mirror tx) junk"
  | (mirror_written) "persist_boot_control st tx = Inr st'"
  using assms
proof cases
  case (between ws rest)
  then consider "ws = []" | "ws = take 1 (persist_writes tx)" | "ws = take 2 (persist_writes tx)"
    | "ws = persist_writes tx"
    by (auto simp: persist_writes_def Cons_eq_append_conv)
  then show ?thesis
    using between(2) untouched target_written anchor_written mirror_written
    by cases (auto simp: persist_writes_def persist_boot_control_def write_control_copy_Inr)
next
  case (torn ws c rec rest st1)
  then consider "ws = []" "c = tx_target tx" | "ws = take 2 (persist_writes tx)" "c = tx_mirror tx"
    by (auto simp: persist_writes_def Cons_eq_append_conv)
  then show ?thesis
    using torn(1,3) target_torn mirror_torn by cases (auto simp: persist_writes_def write_control_copy_Inr)
qed

lemma persist_cut_target_torn: "persist_cut st tx junk (store_copy st (tx_target tx) junk)"
  by (rule torn [where ws = "[]"]) (simp_all add: persist_writes_def)

lemma persist_cut_refresh:
  assumes cur: "refresh_boot_control digest st = Inr cur" and plan: "tx_plan digest cur next = Inr tx"
    and wf: "bc_wf next" and cut: "persist_cut st tx junk st'"
    and old: "digest junk = an_record_digest (rb_anchor cur) \<Longrightarrow> bc_decode junk = Inr (rb_control cur)"
    and new: "digest junk = an_record_digest (tx_anchor tx) \<Longrightarrow> bc_decode junk = Inr next"
  shows "\<exists>r. refresh_boot_control digest st' = Inr r \<and> (rb_control r = rb_control cur \<or> rb_control r = next)"
proof -
  from cur obtain a where a: "read_protected_anchor st = Inr (Some a)" "bst_read_fault st = None"
    and res: "resolve_boot_control digest (bst_first st) (bst_second st) (Some a) = Inr cur"
    by (auto simp: refresh_iff)
  note ra = resolve_Inr [OF res]
  note tx = tx_plan_Inr [OF plan wf]
  let ?k = "rb_source cur"
  have old_junk: "c' = rb_control cur" if "anchored digest a junk c'" for c'
    using that old ra by (auto simp: anchored_def)
  have new_junk: "c' = next" if "anchored digest (tx_anchor tx) junk c'" for c'
    using that new by (auto simp: anchored_def)
  have old_new: "\<not> anchored digest a (tx_record tx) c'" for c'
    using tx(3,4) ra by (auto simp: anchored_def)
  have new_old: "\<not> anchored digest (tx_anchor tx) (bst_copy st ?k) c'" for c'
    using tx(3,4) ra by (auto simp: anchored_def)
  have mid: "\<exists>r. refresh_boot_control digest st1 = Inr r \<and> rb_control r = next"
    if w: "write_protected_anchor (store_copy st (tx_target tx) (tx_record tx)) (tx_anchor tx) = Inr st0"
      and st1: "st1 = st0 \<or> st1 = store_copy st0 (tx_mirror tx) junk \<or>
                st1 = store_copy st0 (tx_mirror tx) (tx_record tx)" for st0 st1
  proof (rule refresh_control [where k = "copy_other ?k" and a = "tx_anchor tx"])
    note w0 = write_protected_anchor_Inr [OF w]
    have "bst_anchor st1 = bst_anchor st0" using st1 by auto
    with w0 show "read_protected_anchor st1 = Inr (Some (tx_anchor tx))"
      by (metis read_protected_anchor_cong)
    show "anchored digest (tx_anchor tx) (bst_copy st1 (copy_other ?k)) next"
      using tx(1-3) w0 st1 by auto
    show "c' = next" if "anchored digest (tx_anchor tx) (bst_copy st1 (copy_other (copy_other ?k))) c'" for c'
      using that tx(1-3) w0 st1 new_junk new_old by (auto dest: anchored_unique)
    show "bst_read_fault st1 = None" using w0 st1 a(2) by auto
  qed
  have pre: "\<exists>r. refresh_boot_control digest st1 = Inr r \<and> rb_control r = rb_control cur"
    if st1: "st1 = store_copy st (tx_target tx) junk \<or>
             st1 = store_copy st (tx_target tx) (tx_record tx)" for st1
  proof (rule refresh_control [where k = ?k and a = a])
    have "bst_anchor st1 = bst_anchor st" using st1 by auto
    with a(1) show "read_protected_anchor st1 = Inr (Some a)" by (metis read_protected_anchor_cong)
    show "anchored digest a (bst_copy st1 ?k) (rb_control cur)" using ra tx(1) st1 by auto
    show "c' = rb_control cur" if "anchored digest a (bst_copy st1 (copy_other ?k)) c'" for c'
      using that tx(1) st1 old_junk old_new by auto
    show "bst_read_fault st1 = None" using st1 a(2) by auto
  qed
  have end_state: "\<exists>r. refresh_boot_control digest st1 = Inr r \<and> rb_control r = next"
    if "persist_boot_control st tx = Inr st1" for st1
    using that by (elim persist_boot_control_cases) (rule mid, auto)
  from cut show ?thesis
  proof (cases rule: persist_cut_states)
    case untouched
    with cur show ?thesis by blast
  next
    case target_torn
    with pre show ?thesis by blast
  next
    case target_written
    with pre show ?thesis by blast
  next
    case anchor_written
    with mid show ?thesis by blast
  next
    case (mirror_torn st1)
    with mid show ?thesis by blast
  next
    case mirror_written
    with end_state show ?thesis by blast
  qed
qed

lemma persist_commits:
  assumes "persist_boot_control st tx = Inr st'" and "tx_plan digest cur next = Inr tx" and "bc_wf next"
    and "bst_read_fault st = None"
  shows "\<exists>r. refresh_boot_control digest st' = Inr r \<and> rb_control r = next"
proof -
  note tx = tx_plan_Inr [OF assms(2,3)]
  from assms(1) obtain st0 where
    w: "write_protected_anchor (store_copy st (tx_target tx) (tx_record tx)) (tx_anchor tx) =
          Inr st0"
    and st': "st' = store_copy st0 (tx_mirror tx) (tx_record tx)"
    by (rule persist_boot_control_cases)
  have copies: "bst_copy st' k = tx_record tx" for k
    using tx(1,2) write_protected_anchor_Inr [OF w] copy_cases [of k "rb_source cur"] st' by auto
  show ?thesis
  proof (rule refresh_control [where k = First and a = "tx_anchor tx"])
    show "read_protected_anchor st' = Inr (Some (tx_anchor tx))"
      using write_protected_anchor_Inr [OF w] st' read_protected_anchor_cong [of st' st0] by simp
    show "bst_read_fault st' = None"
      using write_protected_anchor_Inr [OF w] st' assms(4) by simp
  qed (use copies [of First] copies [of Second] tx(3) in \<open>auto dest: anchored_unique\<close>)
qed

section \<open>The loop ends, and ends on a slot above the floor\<close>

definition live :: "boot_control \<Rightarrow> nat" where
  "live c = of_bool (ss_priority (bc_slot_a c) \<noteq> 0) + of_bool (ss_priority (bc_slot_b c) \<noteq> 0)"

lemma live_le: "live c \<le> 2"
  by (simp add: live_def)

lemma bc_select_floor: "bc_select c = Inr sel \<Longrightarrow> bc_security_floor c \<le> sel_security_version sel"
  using bc_select_slot [of c sel] bc_select_recovery [of c sel]
  by (cases "sel_slot sel = SlotRecovery") (auto simp: selectable_def slot_eligible_def)

lemma bc_select_priority:
  "bc_select c = Inr sel \<Longrightarrow> sel_slot sel \<noteq> SlotRecovery \<Longrightarrow>
     \<exists>s. bc_slot c (sel_slot sel) = Inr s \<and> ss_priority s \<noteq> 0"
  using bc_select_slot [of c sel] by (auto simp: selectable_def slot_eligible_def)

lemma prepare_attempt_select: "prepare_attempt c = Inr (sel, nxt) \<Longrightarrow> bc_select c = Inr sel"
  by (auto simp: prepare_attempt_def split: if_splits)

text \<open>What an attempt changes: one try of the selected slot is spent, nothing else that matters.\<close>

lemma prepare_attempt_next:
  assumes "prepare_attempt c = Inr (sel, Some n)"
  shows "bc_sequence c < bc_sequence n" "bc_security_floor n = bc_security_floor c"
    "bc_validate n = Inr ()" "live n = live c" "bc_wf c \<Longrightarrow> bc_wf n"
    "sel_trial sel" "sel_slot sel \<noteq> SlotRecovery"
    "\<exists>s s'. bc_slot c (sel_slot sel) = Inr s \<and> bc_slot n (sel_slot sel) = Inr s' \<and>
       unat (ss_tries_remaining s) = Suc (unat (ss_tries_remaining s')) \<and>
       ss_priority s' = ss_priority s \<and> ss_last_error s' = AttemptInProgress"
    "\<And>slot. slot \<noteq> sel_slot sel \<Longrightarrow> bc_slot n slot = bc_slot c slot"
proof -
  from assms obtain seq where sel: "sel_trial sel" "sel_slot sel \<noteq> SlotRecovery"
    and seq: "checked_add (bc_sequence c) 1 = Some seq" and valid: "bc_validate n = Inr ()"
    and mut: "bc_slot_mut (c\<lparr>bc_sequence := seq\<rparr>) (sel_slot sel) start_attempt = Inr n"
    by (auto simp: prepare_attempt_def split: if_splits)
  have tries: "unat (ss_tries_remaining s) = Suc (unat t)"
    if "checked_sub (ss_tries_remaining s) 1 = Some t" for s t
  proof -
    from that have "1 \<le> ss_tries_remaining s" "t = ss_tries_remaining s - 1"
      by (auto dest: checked_sub_Some)
    then show ?thesis by (simp add: unat_sub word_le_nat_alt)
  qed
  show "sel_trial sel" "sel_slot sel \<noteq> SlotRecovery" "bc_validate n = Inr ()" by fact+
  show "bc_sequence c < bc_sequence n"
    using mut checked_add_one_less [OF seq] by (cases "sel_slot sel") (auto simp: start_attempt_def)
  show "bc_security_floor n = bc_security_floor c" "live n = live c" "bc_wf c \<Longrightarrow> bc_wf n"
    using mut by (cases "sel_slot sel"; auto simp: start_attempt_def live_def bc_wf_def slot_wf_def)+
  show "\<exists>s s'. bc_slot c (sel_slot sel) = Inr s \<and> bc_slot n (sel_slot sel) = Inr s' \<and>
       unat (ss_tries_remaining s) = Suc (unat (ss_tries_remaining s')) \<and>
       ss_priority s' = ss_priority s \<and> ss_last_error s' = AttemptInProgress"
    using mut by (cases "sel_slot sel") (auto simp: start_attempt_def tries)
  show "bc_slot n slot = bc_slot c slot" if "slot \<noteq> sel_slot sel" for slot
    using mut that by (cases "sel_slot sel"; cases slot) (auto simp: start_attempt_def)
qed

lemma mark_verification_failed_next:
  assumes "mark_verification_failed c slot = Inr n"
  shows "bc_sequence c < bc_sequence n" "bc_security_floor n = bc_security_floor c"
    "bc_validate n = Inr ()" "bc_wf c \<Longrightarrow> bc_wf n" "slot \<noteq> SlotRecovery"
    "bc_slot c slot = Inr s \<Longrightarrow> ss_priority s \<noteq> 0 \<Longrightarrow> live n < live c"
proof -
  from assms obtain seq where rec: "slot \<noteq> SlotRecovery"
    and seq: "checked_add (bc_sequence c) 1 = Some seq" and valid: "bc_validate n = Inr ()"
    and mut: "bc_slot_mut (c\<lparr>bc_sequence := seq\<rparr>) slot fail_slot = Inr n"
    by (auto simp: mark_verification_failed_def split: if_splits)
  show "bc_validate n = Inr ()" "slot \<noteq> SlotRecovery" by fact+
  show "bc_sequence c < bc_sequence n"
    using mut checked_add_one_less [OF seq] by (cases slot) (auto simp: fail_slot_def)
  show "bc_security_floor n = bc_security_floor c" "bc_wf c \<Longrightarrow> bc_wf n"
    using mut by (cases slot; auto simp: fail_slot_def bc_wf_def slot_wf_def)+
  show "live n < live c" if "bc_slot c slot = Inr s" "ss_priority s \<noteq> 0"
    using mut that by (cases slot) (auto simp: fail_slot_def live_def)
qed

lemma boot_commit_Inr:
  assumes "boot_commit digest st r next = Inr (st', r')" and "bc_wf next"
  shows "rb_control r' = next \<and> refresh_boot_control digest st' = Inr r'"
proof -
  from assms(1) obtain tx where "tx_plan digest r next = Inr tx" "persist_boot_control st tx = Inr st'"
    and ref: "refresh_boot_control digest st' = Inr r'"
    by (auto simp: boot_commit_def)
  moreover have "bst_read_fault st = None"
  proof -
    from \<open>persist_boot_control st tx = Inr st'\<close> have "bst_read_fault st' = bst_read_fault st"
      by (elim persist_boot_control_cases) (auto dest: write_protected_anchor_Inr)
    with ref show ?thesis by (simp add: refresh_iff)
  qed
  ultimately obtain r2 where "refresh_boot_control digest st' = Inr r2" "rb_control r2 = next"
    using persist_commits assms(2) by blast
  with ref show ?thesis by simp
qed

text \<open>One iteration before verification: the control block keeps its floor, its well-formedness and
  its number of live slots.\<close>

lemma boot_iteration:
  assumes "prepare_attempt (rb_control r) = Inr (sel, nxt)" and "bc_wf (rb_control r)"
    and "refresh_boot_control digest st = Inr r"
    and "(case nxt of None \<Rightarrow> Inr (st, r) | Some next \<Rightarrow> boot_commit digest st r next) = Inr (st', r')"
  shows "bc_wf (rb_control r')" "live (rb_control r') = live (rb_control r)"
    "bc_security_floor (rb_control r') = bc_security_floor (rb_control r)"
    "refresh_boot_control digest st' = Inr r'"
    "sel_slot sel \<noteq> SlotRecovery \<Longrightarrow>
       \<exists>s. bc_slot (rb_control r') (sel_slot sel) = Inr s \<and> ss_priority s \<noteq> 0"
proof -
  note sel = prepare_attempt_select [OF assms(1)]
  have "bc_wf (rb_control r') \<and> live (rb_control r') = live (rb_control r) \<and>
    bc_security_floor (rb_control r') = bc_security_floor (rb_control r) \<and>
    refresh_boot_control digest st' = Inr r' \<and>
    (sel_slot sel \<noteq> SlotRecovery \<longrightarrow>
       (\<exists>s. bc_slot (rb_control r') (sel_slot sel) = Inr s \<and> ss_priority s \<noteq> 0))"
  proof (cases nxt)
    case None
    with assms bc_select_priority [OF sel] show ?thesis by auto
  next
    case (Some n)
    with assms(1) have p: "prepare_attempt (rb_control r) = Inr (sel, Some n)" by simp
    note n = prepare_attempt_next [OF p]
    have "rb_control r' = n" "refresh_boot_control digest st' = Inr r'"
      using boot_commit_Inr [of digest st r n st' r'] assms(2,4) n(5) Some by auto
    with n assms(2) bc_select_priority [OF sel] show ?thesis by fastforce
  qed
  then show "bc_wf (rb_control r')" "live (rb_control r') = live (rb_control r)"
    "bc_security_floor (rb_control r') = bc_security_floor (rb_control r)"
    "refresh_boot_control digest st' = Inr r'"
    "sel_slot sel \<noteq> SlotRecovery \<Longrightarrow>
       \<exists>s. bc_slot (rb_control r') (sel_slot sel) = Inr s \<and> ss_priority s \<noteq> 0"
    by auto
qed

lemma boot_loop_step:
  assumes "refresh_boot_control digest st = Inr r" and "bc_wf (rb_control r)"
  obtains (finished) out where "boot_loop (Suc n) digest verify st r = Some out"
      "\<And>sel r' st'. out = Inr (sel, r', st') \<Longrightarrow>
         bc_security_floor (rb_control r) \<le> sel_security_version sel \<and>
         bc_security_floor (rb_control r') = bc_security_floor (rb_control r) \<and>
         verify sel (rb_control r') = None \<and> refresh_boot_control digest st' = Inr r'"
  | (again) st' r' where "boot_loop (Suc n) digest verify st r = boot_loop n digest verify st' r'"
      "refresh_boot_control digest st' = Inr r'" "bc_wf (rb_control r')"
      "live (rb_control r') < live (rb_control r)"
      "bc_security_floor (rb_control r') = bc_security_floor (rb_control r)"
proof (cases "prepare_attempt (rb_control r)")
  case (Inl e)
  then show thesis by (intro finished [of "Inl BootControlFailure"]) auto
next
  case (Inr p)
  obtain sel nxt where p: "p = (sel, nxt)" by force
  let ?commit = "case nxt of None \<Rightarrow> Inr (st, r) | Some next \<Rightarrow> boot_commit digest st r next"
  show thesis
  proof (cases ?commit)
    case (Inl e)
    with Inr p show thesis by (intro finished [of "Inl e"]) auto
  next
    case (Inr q)
    note prep = \<open>prepare_attempt (rb_control r) = Inr p\<close> [unfolded p]
    obtain st1 r1 where q: "q = (st1, r1)" by force
    note it = boot_iteration [OF prep assms(2,1) Inr [unfolded q]]
    have sel_floor: "bc_security_floor (rb_control r) \<le> sel_security_version sel"
      by (rule bc_select_floor [OF prepare_attempt_select [OF prep]])
    show thesis
    proof (cases "verify sel (rb_control r1)")
      case None
      with prep Inr q it sel_floor show thesis by (intro finished [of "Inr (sel, r1, st1)"]) auto
    next
      case (Some e)
      let ?mark = "and_then (map_err (mark_verification_failed (rb_control r1) (sel_slot sel))
         (\<lambda>_. BootControlFailure)) (boot_commit digest st1 r1)"
      show thesis
      proof (cases "sel_slot sel \<noteq> SlotRecovery \<and> is_slot_verification_failure e")
        case False
        with prep Inr q Some show thesis by (intro finished [of "Inl e"]) auto
      next
        case True
        show thesis
        proof (cases ?mark)
          case (Inl e')
          with prep \<open>?commit = Inr q\<close> q Some True show thesis by (intro finished [of "Inl e'"]) auto
        next
          case (Inr t)
          obtain st2 r2 where t: "t = (st2, r2)" by force
          with Inr obtain m where m: "mark_verification_failed (rb_control r1) (sel_slot sel) = Inr m"
            and c: "boot_commit digest st1 r1 m = Inr (st2, r2)" by auto
          note mk = mark_verification_failed_next [OF m]
          have r2: "rb_control r2 = m" "refresh_boot_control digest st2 = Inr r2"
            using boot_commit_Inr [OF c mk(4)] it(1) by auto
          from it(5) True obtain s where "bc_slot (rb_control r1) (sel_slot sel) = Inr s" "ss_priority s \<noteq> 0"
            by blast
          with mk(6) it(2) r2 have "live (rb_control r2) < live (rb_control r)" by metis
          with r2 mk it prep \<open>?commit = Inr q\<close> q Some True Inr t show thesis
            by (intro again [of st2 r2]) auto
        qed
      qed
    qed
  qed
qed

lemma boot_loop_returns:
  assumes "refresh_boot_control digest st = Inr r" and "bc_wf (rb_control r)"
    and "live (rb_control r) < n"
  shows "\<exists>out. boot_loop n digest verify st r = Some out \<and>
     (\<forall>sel r' st'. out = Inr (sel, r', st') \<longrightarrow>
        bc_security_floor (rb_control r) \<le> sel_security_version sel \<and>
        bc_security_floor (rb_control r') = bc_security_floor (rb_control r) \<and>
        verify sel (rb_control r') = None \<and> refresh_boot_control digest st' = Inr r')"
  using assms
proof (induction n arbitrary: st r)
  case (Suc n)
  from Suc.prems(1,2) show ?case
  proof (cases rule: boot_loop_step [of digest st r n verify])
    case (finished out)
    then show ?thesis by blast
  next
    case (again st' r')
    with Suc.prems(3) Suc.IH [of st' r'] show ?thesis by auto
  qed
qed simp

section \<open>Properties\<close>

text \<open>C21. Anti-rollback: whatever the control block says, the selected image never has a security version below the floor. A slot is selected only if it is eligible, and then no eligible slot has a higher priority; recovery is selected only on request or when no slot is eligible.\<close>

theorem boot_selection_respects_floor:
  assumes "bc_select c = Inr sel"
  shows "bc_security_floor c \<le> sel_security_version sel \<and>
    (if sel_slot sel = SlotRecovery
     then \<not> sel_trial sel \<and> (bc_flags c AND 1 \<noteq> 0 \<or> (\<nexists>slot s. selectable c slot s))
     else (\<exists>s. selectable c (sel_slot sel) s \<and> sel_image_id sel = ss_image_id s \<and>
        sel_trial sel = (\<not> ss_successful s) \<and>
        (\<forall>slot' s'. selectable c slot' s' \<longrightarrow> ss_priority s' \<le> ss_priority s)))"
  using bc_select_floor [OF assms] bc_select_slot [OF assms] bc_select_recovery [OF assms] by auto

lemma demo_control_select:
  "bc_select demo_control = Inr \<lparr>sel_slot = SlotA, sel_trial = True, sel_security_version = 1,
     sel_image_id = replicate 16 1\<rparr>"
  unfolding bc_select_def demo_control_ok and_then_simps
  by (simp add: slot_eligible_def demo_control_def bc_factory_def slot_trial_def
      slot_successful_def Let_def)

theorem boot_selection_witness:
  "bc_select demo_control = Inr \<lparr>sel_slot = SlotA, sel_trial = True, sel_security_version = 1,
     sel_image_id = replicate 16 1\<rparr> \<and>
   bc_security_floor demo_control \<le> 1 \<and>
   (\<exists>s. selectable demo_control SlotA s \<and> ss_image_id s = replicate 16 1 \<and> \<not> ss_successful s \<and>
      (\<forall>slot' s'. selectable demo_control slot' s' \<longrightarrow> ss_priority s' \<le> ss_priority s))"
  using boot_selection_respects_floor [OF demo_control_select] demo_control_select by fastforce

text \<open>Starting a trial attempt advances the sequence number, keeps the security floor and the other slot, spends exactly one try of the selected slot, and leaves a valid control block.\<close>

theorem boot_attempt_spends_one_try:
  assumes "prepare_attempt c = Inr (sel, Some n)"
  shows "bc_sequence c < bc_sequence n \<and> bc_security_floor n = bc_security_floor c \<and>
    bc_validate n = Inr () \<and> (\<forall>slot. slot \<noteq> sel_slot sel \<longrightarrow> bc_slot n slot = bc_slot c slot) \<and>
    (\<exists>s s'. bc_slot c (sel_slot sel) = Inr s \<and> bc_slot n (sel_slot sel) = Inr s' \<and>
       unat (ss_tries_remaining s) = Suc (unat (ss_tries_remaining s')) \<and>
       ss_priority s' = ss_priority s \<and> ss_last_error s' = AttemptInProgress)"
  using prepare_attempt_next [OF assms] by blast

definition demo_attempt :: boot_control where
  "demo_attempt = demo_control\<lparr>bc_sequence := 1, bc_slot_a := (bc_slot_a demo_control)\<lparr>
     ss_tries_remaining := 2, ss_last_error := AttemptInProgress, ss_boot_attempts := 1\<rparr>\<rparr>"

lemma demo_attempt_ok: "bc_wf demo_attempt" "bc_validate demo_attempt = Inr ()"
  by (simp_all add: demo_attempt_def demo_control_def bc_factory_def bc_wf_def slot_wf_def slot_trial_def
      slot_successful_def bc_validate_iff slot_validate_iff is_zero_def list_all_iff)

lemma demo_prepare:
  "prepare_attempt demo_control = Inr (\<lparr>sel_slot = SlotA, sel_trial = True, sel_security_version = 1,
     sel_image_id = replicate 16 1\<rparr>, Some demo_attempt)"
proof -
  have "bc_slot_mut (demo_control\<lparr>bc_sequence := 1\<rparr>) SlotA start_attempt = Inr demo_attempt"
    by (simp add: start_attempt_def demo_attempt_def demo_control_def bc_factory_def
        slot_trial_def checked_sub_def checked_add_def ok_or_def)
  moreover have "checked_add (bc_sequence demo_control) 1 = Some 1"
    by (simp add: demo_control_def bc_factory_def checked_add_def)
  ultimately show ?thesis
    by (simp add: prepare_attempt_def demo_control_select demo_attempt_ok ok_or_def)
qed

theorem boot_attempt_witness: "bc_sequence demo_control < bc_sequence demo_attempt"
  using boot_attempt_spends_one_try [OF demo_prepare] by blast

text \<open>C20. Power cuts: wherever the write sequence of a transaction is cut, and whatever bytes are left in the copy being written, the next boot reads either the old or the new control block; the leftover bytes only must not collide with the digest of one of the two records unless they are that record.\<close>

theorem boot_persist_atomic:
  assumes "refresh_boot_control digest st = Inr cur" and "tx_plan digest cur next = Inr tx"
    and "bc_wf next" and "persist_cut st tx junk st'"
    and "digest junk = an_record_digest (rb_anchor cur) \<Longrightarrow> bc_decode junk = Inr (rb_control cur)"
    and "digest junk = an_record_digest (tx_anchor tx) \<Longrightarrow> bc_decode junk = Inr next"
  shows "\<exists>r. refresh_boot_control digest st' = Inr r \<and> (rb_control r = rb_control cur \<or> rb_control r = next)"
  by (rule persist_cut_refresh [OF assms])

definition demo_digest :: "bytes \<Rightarrow> bytes" where
  "demo_digest x = (if x = [] then replicate 32 2 else replicate 32 1)"

definition demo_anchor :: boot_control_anchor where
  "demo_anchor = \<lparr>an_sequence = 0, an_security_floor = 1, an_record_digest = replicate 32 1\<rparr>"

definition demo_store :: boot_store where
  "demo_store = \<lparr>bst_first = bc_record demo_control, bst_second = bc_record demo_control,
     bst_anchor = VariableSet anchor_attributes (anchor_bytes demo_anchor),
     bst_read_fault = None, bst_write_fault = (\<lambda>_. None), bst_variable_fault = False\<rparr>"

lemma demo_refresh:
  "\<exists>r. refresh_boot_control demo_digest demo_store = Inr r \<and> rb_control r = demo_control \<and> rb_anchor r = demo_anchor"
proof -
  have "anchor_wf demo_anchor" by (simp add: anchor_wf_def demo_anchor_def is_zero_def list_all_iff)
  then have a: "read_protected_anchor demo_store = Inr (Some demo_anchor)"
    by (simp add: read_protected_anchor_def demo_store_def anchor_codec.decode_encode)
  have ne: "bc_record demo_control \<noteq> []" using bc_decode_crc [OF demo_control_decode] by auto
  have anch: "anchored demo_digest demo_anchor (bst_copy demo_store k) demo_control" for k
    by (cases k) (simp_all add: anchored_def demo_store_def demo_control_decode demo_digest_def ne,
        simp_all add: demo_anchor_def demo_control_def bc_factory_def)
  have "bst_read_fault demo_store = None" by (simp add: demo_store_def)
  with refresh_control [OF a anch] anch obtain r where
    r: "refresh_boot_control demo_digest demo_store = Inr r" "rb_control r = demo_control"
    by (metis anchored_unique)
  with a resolve_Inr [of demo_digest demo_store demo_anchor r] show ?thesis by (auto simp: refresh_iff)
qed

lemma demo_plan:
  assumes "rb_control r = demo_control"
  shows "\<exists>tx. tx_plan demo_digest r demo_attempt = Inr tx \<and> an_record_digest (tx_anchor tx) = replicate 32 1"
proof -
  have e: "bc_encode demo_attempt = Inr (bc_record demo_attempt)"
    by (intro bc_encode_valid demo_attempt_ok)
  then have "bc_record demo_attempt \<noteq> []"
    using bc_decode_crc [OF bc_decode_encode [OF demo_attempt_ok(1) e]] by auto
  moreover have "checked_add (bc_sequence demo_control) 1 = Some (bc_sequence demo_attempt)"
    "\<not> bc_security_floor demo_attempt < bc_security_floor demo_control"
    by (simp_all add: demo_attempt_def demo_control_def bc_factory_def checked_add_def)
  ultimately show ?thesis
    using e assms by (simp add: tx_plan_def anchor_new_def ok_or_def demo_attempt_ok demo_digest_def)
qed

theorem boot_persist_atomic_witness:
  "\<exists>cur tx r. refresh_boot_control demo_digest demo_store = Inr cur \<and>
     tx_plan demo_digest cur demo_attempt = Inr tx \<and>
     persist_cut demo_store tx [] (store_copy demo_store (tx_target tx) []) \<and>
     refresh_boot_control demo_digest (store_copy demo_store (tx_target tx) []) = Inr r \<and>
     (rb_control r = demo_control \<or> rb_control r = demo_attempt)"
proof -
  obtain cur where cur: "refresh_boot_control demo_digest demo_store = Inr cur"
    "rb_control cur = demo_control" "rb_anchor cur = demo_anchor" using demo_refresh by blast
  obtain tx where tx: "tx_plan demo_digest cur demo_attempt = Inr tx"
    "an_record_digest (tx_anchor tx) = replicate 32 1" using demo_plan [OF cur(2)] by blast
  have "replicate 32 (2 :: u8) \<noteq> replicate 32 1" by (simp add: replicate_eq_replicate)
  with boot_persist_atomic [OF cur(1) tx(1) demo_attempt_ok(1) persist_cut_target_torn [of demo_store tx "[]"]] cur tx persist_cut_target_torn
  show ?thesis by (simp add: demo_digest_def demo_anchor_def)
qed

text \<open>C35. The boot loop ends: after at most three iterations it returns, whatever the slots verify to; when it boots, the slot has verified, its security version is at least the floor, the floor has not moved, and the store holds the control block it booted with.\<close>

theorem boot_loop_terminates:
  assumes "refresh_boot_control digest st = Inr r"
  shows "\<exists>out. boot_loop 3 digest verify st r = Some out \<and>
     (\<forall>sel r' st'. out = Inr (sel, r', st') \<longrightarrow>
        bc_security_floor (rb_control r) \<le> sel_security_version sel \<and>
        bc_security_floor (rb_control r') = bc_security_floor (rb_control r) \<and>
        verify sel (rb_control r') = None \<and> refresh_boot_control digest st' = Inr r')"
  using live_le [of "rb_control r"] by (intro boot_loop_returns [OF assms refresh_wf [OF assms]]) simp

theorem boot_loop_terminates_witness:
  "\<exists>r out. refresh_boot_control demo_digest demo_store = Inr r \<and>
     boot_loop 3 demo_digest (\<lambda>sel c. Some PartitionRead) demo_store r = Some out"
  using demo_refresh boot_loop_terminates [of demo_digest demo_store] by metis

end
