(* ===== verification/Virtual_Plant.thy ===== *)
theory Virtual_Plant
  imports Profile
begin

text \<open>
  The virtual plant (\<open>control-gateway/src/virtual_plant.rs\<close>): the device model behind the
  control chain, with fault injection. The derived \<open>PartialEq\<close> of the plant state compares the
  state of charge as a float, so a state holding a NaN differs from itself.
\<close>

section \<open>Data\<close>

record plant_state =
  pst_pcc_closed :: bool
  pst_inverter_blocked :: bool
  pst_soc_pct :: f64
  pst_grid_up :: bool
  pst_last_feedback_epoch :: u64
  pst_powered_down :: bool

definition plant_state_default :: plant_state where
  "plant_state_default =
     \<lparr>pst_pcc_closed = False, pst_inverter_blocked = True, pst_soc_pct = f64_50,
      pst_grid_up = True, pst_last_feedback_epoch = 0, pst_powered_down = False\<rparr>"

definition plant_state_eq :: "plant_state \<Rightarrow> plant_state \<Rightarrow> bool" where
  "plant_state_eq a b =
     (pst_pcc_closed a = pst_pcc_closed b \<and> pst_inverter_blocked a = pst_inverter_blocked b \<and>
      f64_eq (pst_soc_pct a) (pst_soc_pct b) \<and> pst_grid_up a = pst_grid_up b \<and>
      pst_last_feedback_epoch a = pst_last_feedback_epoch b \<and>
      pst_powered_down a = pst_powered_down b)"

datatype apply_outcome = PlantApplied | PoweredDown | ActuatorStuck | PlantUnsafe string

datatype fault = StuckFault u32 | CommLoss | PowerLoss

record virtual_plant =
  vp_state :: plant_state
  vp_stuck_points :: "(u32, bool) btree"
  vp_comm_loss :: bool
  vp_validator :: safety_validator

section \<open>Operations\<close>

definition plant_new :: virtual_plant where
  "plant_new =
     \<lparr>vp_state = plant_state_default, vp_stuck_points = bt_empty, vp_comm_loss = False,
      vp_validator = sv_new\<rparr>"

definition fail_safe :: "plant_state \<Rightarrow> plant_state" where
  "fail_safe s = s\<lparr>pst_pcc_closed := False, pst_inverter_blocked := True\<rparr>"

fun plant_inject :: "virtual_plant \<Rightarrow> fault \<Rightarrow> virtual_plant" where
  "plant_inject v (StuckFault point_id) =
     v\<lparr>vp_stuck_points := bt_insert (vp_stuck_points v) point_id True\<rparr>"
| "plant_inject v CommLoss = v\<lparr>vp_comm_loss := True\<rparr>"
| "plant_inject v PowerLoss =
     v\<lparr>vp_state := fail_safe ((vp_state v)\<lparr>pst_powered_down := True\<rparr>)\<rparr>"

definition recover_power :: "virtual_plant \<Rightarrow> u64 \<Rightarrow> virtual_plant" where
  "recover_power v now =
     v\<lparr>vp_state := fail_safe ((vp_state v)\<lparr>pst_powered_down := False,
         pst_last_feedback_epoch := now\<rparr>)\<rparr>"

definition restore_comm :: "virtual_plant \<Rightarrow> u64 \<Rightarrow> virtual_plant" where
  "restore_comm v now =
     v\<lparr>vp_comm_loss := False, vp_state := (vp_state v)\<lparr>pst_last_feedback_epoch := now\<rparr>\<rparr>"

definition plant_context_of :: "virtual_plant \<Rightarrow> plant_context" where
  "plant_context_of v =
     \<lparr>pc_grid_up = pst_grid_up (vp_state v), pc_soc_pct = pst_soc_pct (vp_state v),
      pc_dc_bus_v = f64_0, pc_overcurrent = False, pc_overtemp = False,
      pc_maintenance_lockout = False\<rparr>"

definition mutate_for :: "virtual_plant \<Rightarrow> authorized_command \<Rightarrow> virtual_plant" where
  "mutate_for v cmd =
     (case role_of (vp_validator v) (ucast (ac_device_id cmd)) (ac_point_id cmd) of
        Some PccBreaker \<Rightarrow>
          (case ac_command cmd of
             Single SOn \<Rightarrow> v\<lparr>vp_state := (vp_state v)\<lparr>pst_pcc_closed := True\<rparr>\<rparr>
           | Double DOn \<Rightarrow> v\<lparr>vp_state := (vp_state v)\<lparr>pst_pcc_closed := True\<rparr>\<rparr>
           | Single SOff \<Rightarrow> v\<lparr>vp_state := (vp_state v)\<lparr>pst_pcc_closed := False\<rparr>\<rparr>
           | Double DOff \<Rightarrow> v\<lparr>vp_state := (vp_state v)\<lparr>pst_pcc_closed := False\<rparr>\<rparr>
           | _ \<Rightarrow> v)
      | Some InverterBlock \<Rightarrow>
          (case ac_command cmd of
             Single SOn \<Rightarrow> v\<lparr>vp_state := (vp_state v)\<lparr>pst_inverter_blocked := True\<rparr>\<rparr>
           | Double DOn \<Rightarrow> v\<lparr>vp_state := (vp_state v)\<lparr>pst_inverter_blocked := True\<rparr>\<rparr>
           | Single SOff \<Rightarrow> v\<lparr>vp_state := (vp_state v)\<lparr>pst_inverter_blocked := False\<rparr>\<rparr>
           | Double DOff \<Rightarrow> v\<lparr>vp_state := (vp_state v)\<lparr>pst_inverter_blocked := False\<rparr>\<rparr>
           | _ \<Rightarrow> v)
      | _ \<Rightarrow> v)"

definition plant_apply :: "virtual_plant \<Rightarrow> authorized_command \<Rightarrow> u64 \<Rightarrow> virtual_plant \<times> apply_outcome" where
  "plant_apply v cmd now =
     (if pst_powered_down (vp_state v) then (v, PoweredDown)
      else case validate (vp_validator v) cmd (plant_context_of v) of
        Unsafe reason \<Rightarrow> (v, PlantUnsafe reason)
      | Safe \<Rightarrow>
        (let stuck = (case bt_get (vp_stuck_points v) (ac_point_id cmd) of None \<Rightarrow> False | Some b \<Rightarrow> b);
             prev = vp_state v;
             v = (if \<not> stuck
                  then let v = mutate_for v cmd
                       in v\<lparr>vp_state := (vp_state v)\<lparr>pst_last_feedback_epoch :=
                              (if vp_comm_loss v then pst_last_feedback_epoch (vp_state v) else now)\<rparr>\<rparr>
                  else v)
         in (v, if stuck \<and> plant_state_eq (vp_state v) prev then ActuatorStuck else PlantApplied)))"

section \<open>Runs of the plant\<close>

text \<open>The public state fields the environment moves, the grid and the state of charge, may change
  at any time.\<close>

inductive plant_step :: "virtual_plant \<Rightarrow> virtual_plant \<Rightarrow> bool" where
  apply_cmd: "plant_step v (fst (plant_apply v cmd now))"
| inject: "plant_step v (plant_inject v f)"
| recover: "plant_step v (recover_power v now)"
| comm: "plant_step v (restore_comm v now)"
| grid: "plant_step v (v\<lparr>vp_state := (vp_state v)\<lparr>pst_grid_up := b\<rparr>\<rparr>)"
| soc: "plant_step v (v\<lparr>vp_state := (vp_state v)\<lparr>pst_soc_pct := x\<rparr>\<rparr>)"
| register_point: "plant_step v (v\<lparr>vp_validator := sv_register (vp_validator v) d p sp\<rparr>)"

text \<open>The fail-safe posture: while auxiliary power is lost, the breaker is open and the inverter
  is blocked; stuck points are never marked as free.\<close>

definition plant_inv :: "virtual_plant \<Rightarrow> bool" where
  "plant_inv v \<longleftrightarrow>
     (pst_powered_down (vp_state v) \<longrightarrow>
        \<not> pst_pcc_closed (vp_state v) \<and> pst_inverter_blocked (vp_state v)) \<and>
     (\<forall>p b. bt_get (vp_stuck_points v) p = Some b \<longrightarrow> b)"

section \<open>Lemmas\<close>

text \<open>The cases of a command on a plant, by what it does to the state.\<close>

lemma mutate_for_frame [simp]:
  "vp_stuck_points (mutate_for v cmd) = vp_stuck_points v"
  "vp_comm_loss (mutate_for v cmd) = vp_comm_loss v"
  "vp_validator (mutate_for v cmd) = vp_validator v"
  "pst_soc_pct (vp_state (mutate_for v cmd)) = pst_soc_pct (vp_state v)"
  "pst_grid_up (vp_state (mutate_for v cmd)) = pst_grid_up (vp_state v)"
  "pst_powered_down (vp_state (mutate_for v cmd)) = pst_powered_down (vp_state v)"
  "pst_last_feedback_epoch (vp_state (mutate_for v cmd)) = pst_last_feedback_epoch (vp_state v)"
  by (simp_all add: mutate_for_def split: option.splits safety_role.splits control_command.splits
      single_command.splits double_command.splits)

lemma mutate_for_pcc:
  "pst_pcc_closed (vp_state (mutate_for v cmd)) =
     (if role_of (vp_validator v) (ucast (ac_device_id cmd)) (ac_point_id cmd) = Some PccBreaker \<and>
         (is_on (ac_command cmd) \<or> is_off (ac_command cmd))
      then is_on (ac_command cmd) else pst_pcc_closed (vp_state v))"
  by (auto simp: mutate_for_def is_on_def is_off_def split: option.splits safety_role.splits
      control_command.splits single_command.splits double_command.splits)

lemma mutate_for_inverter:
  "pst_inverter_blocked (vp_state (mutate_for v cmd)) =
     (if role_of (vp_validator v) (ucast (ac_device_id cmd)) (ac_point_id cmd) = Some InverterBlock \<and>
         (is_on (ac_command cmd) \<or> is_off (ac_command cmd))
      then is_on (ac_command cmd) else pst_inverter_blocked (vp_state v))"
  by (auto simp: mutate_for_def is_on_def is_off_def split: option.splits safety_role.splits
      control_command.splits single_command.splits double_command.splits)

lemma plant_apply_powered_down:
  "pst_powered_down (vp_state v) \<Longrightarrow> plant_apply v cmd now = (v, PoweredDown)"
  by (simp add: plant_apply_def)

lemma plant_apply_powered [simp]:
  "pst_powered_down (vp_state (fst (plant_apply v cmd now))) = pst_powered_down (vp_state v)"
  "vp_stuck_points (fst (plant_apply v cmd now)) = vp_stuck_points v"
  by (auto simp: plant_apply_def Let_def split: safety_verdict.splits)

lemma plant_step_inv: "plant_step v w \<Longrightarrow> plant_inv v \<Longrightarrow> plant_inv w"
proof (induction rule: plant_step.induct)
  case (apply_cmd v cmd now)
  then show ?case
    by (cases "pst_powered_down (vp_state v)") (auto simp: plant_inv_def plant_apply_powered_down)
next
  case (inject v f)
  then show ?case by (cases f) (auto simp: plant_inv_def fail_safe_def split: if_splits)
qed (auto simp: plant_inv_def fail_safe_def recover_power_def restore_comm_def)

lemma plant_inv_new: "plant_inv plant_new"
  by (simp add: plant_inv_def plant_new_def plant_state_default_def)

interpretation plant_ts: transition_system "\<lambda>v. v = plant_new" plant_step plant_inv
  by unfold_locales (auto simp: plant_inv_new intro: plant_step_inv)

text \<open>A command to a stuck point leaves the plant as it is, and is reported as stuck as long as the
  state of charge is a number.\<close>

lemma plant_apply_stuck:
  assumes "bt_get (vp_stuck_points v) (ac_point_id cmd) = Some True"
  shows "fst (plant_apply v cmd now) = v"
    and "\<not> f64_is_nan (pst_soc_pct (vp_state v)) \<Longrightarrow> snd (plant_apply v cmd now) \<noteq> PlantApplied"
  using assms
  by (auto simp: plant_apply_def plant_state_eq_def f64_eq_def Let_def split: safety_verdict.splits)

text \<open>The breaker closes only by a command, on a powered plant whose grid is up, addressed to a
  point registered as the breaker and not stuck.\<close>

lemma plant_closes_only:
  assumes "plant_step v w" and "\<not> pst_pcc_closed (vp_state v)" and "pst_pcc_closed (vp_state w)"
  shows "\<exists>cmd now. w = fst (plant_apply v cmd now) \<and> snd (plant_apply v cmd now) = PlantApplied \<and>
     is_on (ac_command cmd) \<and> pst_grid_up (vp_state v) \<and> \<not> pst_powered_down (vp_state v) \<and>
     role_of (vp_validator v) (ucast (ac_device_id cmd)) (ac_point_id cmd) = Some PccBreaker \<and>
     bt_get (vp_stuck_points v) (ac_point_id cmd) \<noteq> Some True"
  using assms
proof (induction rule: plant_step.induct)
  case (apply_cmd v cmd now)
  from apply_cmd have on: "\<not> pst_powered_down (vp_state v)" by (auto simp: plant_apply_def)
  from apply_cmd on have safe: "validate (vp_validator v) cmd (plant_context_of v) = Safe"
    by (auto simp: plant_apply_def split: safety_verdict.splits)
  from apply_cmd on safe have stuck: "bt_get (vp_stuck_points v) (ac_point_id cmd) \<noteq> Some True"
    by (auto simp: plant_apply_def Let_def)
  then have "fst (plant_apply v cmd now) = (mutate_for v cmd)\<lparr>vp_state :=
      (vp_state (mutate_for v cmd))\<lparr>pst_last_feedback_epoch :=
         (if vp_comm_loss v then pst_last_feedback_epoch (vp_state v) else now)\<rparr>\<rparr>"
    and res: "snd (plant_apply v cmd now) = PlantApplied"
    using on safe by (auto simp: plant_apply_def Let_def split: option.splits)
  with apply_cmd have "pst_pcc_closed (vp_state (mutate_for v cmd))" by simp
  with apply_cmd have role: "role_of (vp_validator v) (ucast (ac_device_id cmd)) (ac_point_id cmd) = Some PccBreaker"
    and close: "is_on (ac_command cmd)"
    by (auto simp: mutate_for_pcc split: if_splits)
  from safe role close have "pst_grid_up (vp_state v)"
    by (auto simp: validate_Safe_iff unsafe_action_def role_of_def plant_context_of_def)
  with on role close stuck res show ?case by blast
next
  case (inject v f)
  then show ?case by (cases f) (auto simp: fail_safe_def)
qed (auto simp: fail_safe_def recover_power_def restore_comm_def)

section \<open>Properties\<close>

text \<open>The breaker of the plant closes only by an applied close command, on a powered plant whose grid is up, addressed to a point registered as the breaker whose actuator is not stuck; no fault, recovery or environment step closes it.\<close>

theorem plant_breaker_closes_only_by_command:
  assumes "plant_step v w" and "\<not> pst_pcc_closed (vp_state v)" and "pst_pcc_closed (vp_state w)"
  shows "\<exists>cmd now. w = fst (plant_apply v cmd now) \<and> snd (plant_apply v cmd now) = PlantApplied \<and>
     is_on (ac_command cmd) \<and> pst_grid_up (vp_state v) \<and> \<not> pst_powered_down (vp_state v) \<and>
     role_of (vp_validator v) (ucast (ac_device_id cmd)) (ac_point_id cmd) = Some PccBreaker \<and>
     bt_get (vp_stuck_points v) (ac_point_id cmd) \<noteq> Some True"
  by (rule plant_closes_only [OF assms])

definition demo_plant :: virtual_plant where
  "demo_plant = plant_new\<lparr>vp_validator := sv_register sv_new 7 3
     (profile_safety_point (ai_pcc_single 7 3 5 (replicate 16 1) 41))\<rparr>"

definition demo_close :: authorized_command where
  "demo_close = authorized_of (eb_build (eb_new (replicate 16 2) 7 3 (Single SOn) 100 200 (replicate 16 3)) []) 7"

lemma demo_plant_closes: "pst_pcc_closed (vp_state (fst (plant_apply demo_plant demo_close 100)))"
  by (simp add: plant_apply_def demo_plant_def demo_close_def plant_new_def plant_state_default_def
      validate_def validate_pcc_def sv_register_def sv_new_def profile_safety_point_def ai_pcc_single_def
      authorized_of_def builder_defs plant_context_of_def mutate_for_def role_of_def Let_def)

theorem plant_breaker_witness:
  "\<exists>cmd now. fst (plant_apply demo_plant demo_close 100) = fst (plant_apply demo_plant cmd now) \<and>
     is_on (ac_command cmd) \<and> pst_grid_up (vp_state demo_plant)"
  using plant_breaker_closes_only_by_command [OF apply_cmd _ demo_plant_closes]
  by (auto simp: demo_plant_def plant_new_def plant_state_default_def)

text \<open>Whatever happened before, a plant without auxiliary power has its breaker open and its inverter blocked, and refuses every command without changing.\<close>

theorem plant_fail_safe_when_powered_down:
  assumes "plant_step\<^sup>*\<^sup>* plant_new v" and "pst_powered_down (vp_state v)"
  shows "\<not> pst_pcc_closed (vp_state v) \<and> pst_inverter_blocked (vp_state v) \<and>
    plant_apply v cmd now = (v, PoweredDown)"
  using plant_ts.inv_reachable [OF refl assms(1)] assms(2)
  by (simp add: plant_inv_def plant_apply_powered_down)

theorem plant_fail_safe_witness:
  "\<not> pst_pcc_closed (vp_state (plant_inject plant_new PowerLoss)) \<and>
   plant_apply (plant_inject plant_new PowerLoss) demo_close 100 = (plant_inject plant_new PowerLoss, PoweredDown)"
  using plant_fail_safe_when_powered_down [OF r_into_rtranclp [of plant_step, OF inject [of plant_new PowerLoss]], of demo_close 100]
  by (simp add: fail_safe_def)

end
