(* ===== verification/Block_Device.thy ===== *)
theory Block_Device
  imports EnerOS_Prelude
begin

text \<open>
  Block storage (\<open>crates/drivers/storage/src\<close>): the error type, the bad-block table with its
  replacement pool and its byte format (\<open>bad_block.rs\<close>), the RAM-backed device
  (\<open>driver/mock.rs\<close>), and the \<open>BlockDevice\<close> trait as an interface: a record of the two operations
  its clients call, and a locale with the laws they rely on.
\<close>

section \<open>Errors\<close>

datatype storage_error =
  UnsupportedBlockSize | NotInitialized | Timeout string u32 | BadBlock u64 | DmaError u32
  | CrcMismatch u32 u32 | OutOfRange u64 u64 | HardwareFault string | Unsupported string
  | WriteProtected

definition is_recoverable :: "storage_error \<Rightarrow> bool" where
  "is_recoverable e = (case e of Timeout _ _ \<Rightarrow> True | DmaError _ \<Rightarrow> True | _ \<Rightarrow> False)"

section \<open>The bad-block table\<close>

record bad_block_table =
  bb_bad_blocks :: "u64 list"
  bb_reserved_start :: u64
  bb_next_reserved :: u64
  bb_total_blocks :: u64
  bb_last_check_time :: u64

text \<open>\<open>None\<close> is the panic of the assertion.\<close>

definition bb_new :: "u64 \<Rightarrow> u64 \<Rightarrow> bad_block_table option" where
  "bb_new total_blocks reserved_count =
     (if \<not> reserved_count \<le> total_blocks then None
      else let reserved_start = total_blocks - reserved_count
           in Some \<lparr>bb_bad_blocks = [], bb_reserved_start = reserved_start,
                bb_next_reserved = reserved_start, bb_total_blocks = total_blocks,
                bb_last_check_time = 0\<rparr>)"

definition bb_is_bad :: "bad_block_table \<Rightarrow> u64 \<Rightarrow> bool" where
  "bb_is_bad t block_idx = (block_idx \<in> set (bb_bad_blocks t))"

definition bb_mark_bad :: "bad_block_table \<Rightarrow> u64 \<Rightarrow> bad_block_table" where
  "bb_mark_bad t block_idx =
     (if bb_reserved_start t \<le> block_idx then t
      else if \<not> bb_is_bad t block_idx
      then t\<lparr>bb_bad_blocks := bb_bad_blocks t @ [block_idx]\<rparr>
      else t)"

definition bb_get_replacement ::
  "bad_block_table \<Rightarrow> u64 \<Rightarrow> bad_block_table \<times> (storage_error + u64)" where
  "bb_get_replacement t block_idx =
     (if bb_reserved_start t \<le> block_idx
      then (t, Inl (HardwareFault ''bad-block index is not a user block (>= reserved_start)''))
      else let t = bb_mark_bad t block_idx
           in if bb_total_blocks t \<le> bb_next_reserved t
              then (t, Inl (HardwareFault ''reserved block pool exhausted''))
              else (t\<lparr>bb_next_reserved := bb_next_reserved t + 1\<rparr>, Inr (bb_next_reserved t)))"

definition bb_count :: "bad_block_table \<Rightarrow> nat" where
  "bb_count t = length (bb_bad_blocks t)"

definition bb_wear_level :: "bad_block_table \<Rightarrow> u8" where
  "bb_wear_level t =
     (if bb_total_blocks t = 0 then 0
      else let bad = (of_nat (length (bb_bad_blocks t)) :: u64);
               wear = (bad * 100) div bb_total_blocks t
           in ucast (min wear 100))"

definition bb_remaining_life :: "bad_block_table \<Rightarrow> u8" where
  "bb_remaining_life t = saturating_sub 100 (bb_wear_level t)"

definition bb_set_check_time :: "bad_block_table \<Rightarrow> u64 \<Rightarrow> bad_block_table" where
  "bb_set_check_time t time = t\<lparr>bb_last_check_time := time\<rparr>"

definition bb_remaining_reserved :: "bad_block_table \<Rightarrow> u64" where
  "bb_remaining_reserved t = saturating_sub (bb_total_blocks t) (bb_next_reserved t)"

definition bb_magic :: bytes where
  "bb_magic = [0x45, 0x42, 0x42, 0x54]"

definition bb_to_bytes :: "bad_block_table \<Rightarrow> bytes" where
  "bb_to_bytes t =
     bb_magic @ [1] @ zeros 3 @ le_bytes 8 (bb_next_reserved t) @
     le_bytes 8 (bb_last_check_time t) @ le_bytes 4 (of_nat (length (bb_bad_blocks t)) :: u32) @
     concat (map (le_bytes 8) (bb_bad_blocks t))"

text \<open>The loop that reads the entries: it stops at the first one outside the user area.\<close>

fun bb_read_entries ::
  "bytes \<Rightarrow> nat list \<Rightarrow> bad_block_table \<Rightarrow> storage_error + bad_block_table" where
  "bb_read_entries bs [] t = Inr t"
| "bb_read_entries bs (i # is) t =
     (let b = from_le (slice (28 + i * 8) (36 + i * 8) bs)
      in if bb_reserved_start t \<le> b then Inl (OutOfRange b (bb_reserved_start t))
         else bb_read_entries bs is (t\<lparr>bb_bad_blocks := bb_bad_blocks t @ [b]\<rparr>))"

text \<open>The outer option is the panic of the constructor.\<close>

definition bb_from_bytes ::
  "bytes \<Rightarrow> u64 \<Rightarrow> u64 \<Rightarrow> (storage_error + bad_block_table) option" where
  "bb_from_bytes bs total_blocks reserved_count =
     (if length bs < 28 \<or> slice 0 4 bs \<noteq> bb_magic \<or> bs ! 4 \<noteq> 1
      then Some (Inl (HardwareFault ''bad-block table restore: bad magic/version''))
      else let next_reserved = from_le (slice 8 16 bs);
               last_check_time = from_le (slice 16 24 bs);
               count = unat (from_le (slice 24 28 bs) :: u32)
           in if length bs \<noteq> 28 + count * 8
              then Some (Inl (HardwareFault ''bad-block table restore: length mismatch''))
              else map_option (\<lambda>t0.
                and_then (bb_read_entries bs [0..<count]
                    (t0\<lparr>bb_next_reserved := next_reserved, bb_last_check_time := last_check_time\<rparr>)) (\<lambda>t.
                  if \<not> (bb_reserved_start t \<le> bb_next_reserved t \<and> bb_next_reserved t \<le> bb_total_blocks t)
                  then Inl (HardwareFault ''bad-block table restore: next_reserved out of pool'')
                  else Inr t)) (bb_new total_blocks reserved_count))"

section \<open>The RAM-backed device\<close>

record mock_device =
  md_blocks :: "bytes list"
  md_bad_block_table :: bad_block_table
  md_block_size :: nat
  md_crc_error_blocks :: "u64 list"

definition md_new :: "u64 \<Rightarrow> nat \<Rightarrow> mock_device option" where
  "md_new block_count block_size =
     (let reserved = (if block_count = 0 then 0 else max (block_count div 20) 1)
      in map_option (\<lambda>t. \<lparr>md_blocks = replicate (unat block_count) (zeros block_size),
           md_bad_block_table = t, md_block_size = block_size, md_crc_error_blocks = []\<rparr>)
         (bb_new block_count reserved))"

definition md_mark_bad :: "mock_device \<Rightarrow> u64 \<Rightarrow> mock_device" where
  "md_mark_bad d block_idx = d\<lparr>md_bad_block_table := bb_mark_bad (md_bad_block_table d) block_idx\<rparr>"

definition md_has_crc_error :: "mock_device \<Rightarrow> u64 \<Rightarrow> bool" where
  "md_has_crc_error d block_idx = (block_idx \<in> set (md_crc_error_blocks d))"

definition md_inject_crc_error :: "mock_device \<Rightarrow> u64 \<Rightarrow> mock_device" where
  "md_inject_crc_error d block_idx =
     (if \<not> md_has_crc_error d block_idx
      then d\<lparr>md_crc_error_blocks := md_crc_error_blocks d @ [block_idx]\<rparr> else d)"

text \<open>A read fills the buffer it is given; a write copies as much of the buffer as fits.\<close>

definition md_read_block :: "mock_device \<Rightarrow> u64 \<Rightarrow> bytes \<Rightarrow> storage_error + bytes" where
  "md_read_block d block_idx buf =
     (let max = of_nat (length (md_blocks d))
      in if max \<le> block_idx then Inl (OutOfRange block_idx max)
         else if bb_is_bad (md_bad_block_table d) block_idx then Inl (BadBlock block_idx)
         else if md_has_crc_error d block_idx then Inl (CrcMismatch 0xDEADBEEF 0x12345678)
         else let src = md_blocks d ! unat block_idx;
                  n = min (length buf) (length src)
              in Inr (put buf 0 (take n src)))"

definition md_write_block ::
  "mock_device \<Rightarrow> u64 \<Rightarrow> bytes \<Rightarrow> mock_device \<times> (storage_error + unit)" where
  "md_write_block d block_idx buf =
     (let max = of_nat (length (md_blocks d))
      in if max \<le> block_idx then (d, Inl (OutOfRange block_idx max))
         else let (t, r) =
                (if bb_is_bad (md_bad_block_table d) block_idx
                 then bb_get_replacement (md_bad_block_table d) block_idx
                 else (md_bad_block_table d, Inr block_idx));
                d = d\<lparr>md_bad_block_table := t\<rparr>
              in case r of
                   Inl e \<Rightarrow> (d, Inl e)
                 | Inr target \<Rightarrow>
                   if max \<le> target then (d, Inl (OutOfRange target max))
                   else let dst = md_blocks d ! unat target;
                            n = min (length buf) (length dst)
                        in (d\<lparr>md_blocks := (md_blocks d)[unat target := put dst 0 (take n buf)]\<rparr>, Inr ()))"

definition md_erase_block :: "mock_device \<Rightarrow> u64 \<Rightarrow> mock_device \<times> (storage_error + unit)" where
  "md_erase_block d block_idx =
     (let max = of_nat (length (md_blocks d))
      in if max \<le> block_idx then (d, Inl (OutOfRange block_idx max))
         else (d\<lparr>md_blocks := (md_blocks d)[unat block_idx := zeros (length (md_blocks d ! unat block_idx))]\<rparr>,
               Inr ()))"

definition md_block_count :: "mock_device \<Rightarrow> u64" where
  "md_block_count d = of_nat (length (md_blocks d))"

section \<open>The interface\<close>

text \<open>What the storage clients use of a \<open>BlockDevice\<close>.\<close>

record 'd block_ops =
  bo_read :: "'d \<Rightarrow> u64 \<Rightarrow> bytes \<Rightarrow> storage_error + bytes"
  bo_write :: "'d \<Rightarrow> u64 \<Rightarrow> bytes \<Rightarrow> 'd \<times> (storage_error + unit)"
  bo_count :: "'d \<Rightarrow> u64"

definition mock_ops :: "mock_device block_ops" where
  "mock_ops = \<lparr>bo_read = md_read_block, bo_write = md_write_block, bo_count = md_block_count\<rparr>"

text \<open>A device in working order: writes inside the device succeed and are read back, other blocks
  keep their contents; writes outside it fail and change nothing.\<close>

locale block_device =
  fixes ops :: "'d block_ops" and healthy :: "nat \<Rightarrow> 'd \<Rightarrow> bool"
  assumes write_ok: "healthy bs d \<Longrightarrow> b < bo_count ops d \<Longrightarrow> length buf \<le> bs \<Longrightarrow>
      snd (bo_write ops d b buf) = Inr ()"
    and write_healthy: "healthy bs d \<Longrightarrow> healthy bs (fst (bo_write ops d b buf))"
    and write_count: "bo_count ops (fst (bo_write ops d b buf)) = bo_count ops d"
    and read_back: "healthy bs d \<Longrightarrow> b < bo_count ops d \<Longrightarrow> length buf \<le> bs \<Longrightarrow> length buf' = length buf \<Longrightarrow>
      bo_read ops (fst (bo_write ops d b buf)) b buf' = Inr buf"
    and read_other: "healthy bs d \<Longrightarrow> b' \<noteq> b \<Longrightarrow>
      bo_read ops (fst (bo_write ops d b buf)) b' buf' = bo_read ops d b' buf'"
    and write_full: "\<not> b < bo_count ops d \<Longrightarrow>
      \<exists>e. bo_write ops d b buf = (d, Inl e)"
    and read_ok: "healthy bs d \<Longrightarrow> b < bo_count ops d \<Longrightarrow> length buf \<le> bs \<Longrightarrow>
      \<exists>buf'. bo_read ops d b buf = Inr buf' \<and> length buf' = length buf"
begin

lemma write_cases:
  assumes "healthy bs d" and "length buf \<le> bs"
  obtains (written) d' where "bo_write ops d b buf = (d', Inr ())" "b < bo_count ops d"
  | (refused) e where "bo_write ops d b buf = (d, Inl e)" "\<not> b < bo_count ops d"
  using assms write_ok [of bs d b buf] write_full [of b d buf] by (metis prod.collapse)

end

definition md_healthy :: "nat \<Rightarrow> mock_device \<Rightarrow> bool" where
  "md_healthy bs d \<longleftrightarrow>
     bb_bad_blocks (md_bad_block_table d) = [] \<and> md_crc_error_blocks d = [] \<and>
     length (md_blocks d) < 2 ^ 64 \<and> list_all (\<lambda>b. length b = bs) (md_blocks d)"

lemma of_nat_le_unat: "n < 2 ^ 64 \<Longrightarrow> of_nat n \<le> (b :: u64) \<longleftrightarrow> n \<le> unat b"
  by (simp add: word_le_nat_alt take_bit_nat_eq_self unsigned_of_nat)

lemma mock_ops_simps [simp]:
  "bo_read mock_ops = md_read_block" "bo_write mock_ops = md_write_block"
  "bo_count mock_ops = md_block_count"
  by (simp_all add: mock_ops_def)

interpretation mock_dev: block_device mock_ops md_healthy
proof unfold_locales
  fix bs and d :: mock_device and b :: u64 and buf buf' :: bytes
  assume h: "md_healthy bs d"
  note hd = h [unfolded md_healthy_def]
  have len: "length (md_blocks d ! unat b) = bs" if "unat b < length (md_blocks d)"
    using hd that by (simp add: list_all_length)
  have in_range: "b < bo_count mock_ops d \<longleftrightarrow> unat b < length (md_blocks d)"
    using hd of_nat_le_unat [of "length (md_blocks d)" b]
    by (simp add: md_block_count_def flip: not_le)
  have w: "md_write_block d b buf =
      (if unat b < length (md_blocks d)
       then (d\<lparr>md_blocks := (md_blocks d)[unat b := put (md_blocks d ! unat b) 0
          (take (min (length buf) bs) buf)]\<rparr>, Inr ())
       else (d, Inl (OutOfRange b (of_nat (length (md_blocks d))))))"
    using hd len of_nat_le_unat [of "length (md_blocks d)" b]
    by (auto simp: md_write_block_def bb_is_bad_def Let_def)
  show "snd (bo_write mock_ops d b buf) = Inr ()" if "b < bo_count mock_ops d" "length buf \<le> bs"
    using that in_range by (simp add: w)
  show "md_healthy bs (fst (bo_write mock_ops d b buf))"
    using hd len by (auto simp: w md_healthy_def list_all_length nth_list_update put_def)
  show "bo_read mock_ops (fst (bo_write mock_ops d b buf)) b buf' = Inr buf"
    if "b < bo_count mock_ops d" "length buf \<le> bs" "length buf' = length buf"
    using that in_range hd len of_nat_le_unat [of "length (md_blocks d)" b]
    by (auto simp: w md_read_block_def bb_is_bad_def md_has_crc_error_def Let_def put_def)
  show "\<exists>buf'. bo_read mock_ops d b buf = Inr buf' \<and> length buf' = length buf"
    if "b < bo_count mock_ops d" "length buf \<le> bs"
    using that in_range hd len of_nat_le_unat [of "length (md_blocks d)" b]
    by (auto simp: md_read_block_def bb_is_bad_def md_has_crc_error_def Let_def put_def)
  show "bo_read mock_ops (fst (bo_write mock_ops d b buf)) b' buf' = bo_read mock_ops d b' buf'"
    if "b' \<noteq> b" for b'
  proof -
    have "unat b' \<noteq> unat b" using that by (simp add: word_unat_eq_iff)
    then show ?thesis
      by (auto simp: w md_read_block_def md_has_crc_error_def Let_def)
  qed
next
  fix d :: mock_device and b :: u64 and buf :: bytes
  show "bo_count mock_ops (fst (bo_write mock_ops d b buf)) = bo_count mock_ops d"
    by (auto simp: md_block_count_def md_write_block_def Let_def split: prod.splits sum.splits if_splits)
  show "\<exists>e. bo_write mock_ops d b buf = (d, Inl e)" if "\<not> b < bo_count mock_ops d"
    using that by (auto simp: md_block_count_def md_write_block_def Let_def not_less)
qed

section \<open>Lemmas on the bad-block table\<close>

definition bb_wf :: "bad_block_table \<Rightarrow> bool" where
  "bb_wf t \<longleftrightarrow>
     bb_reserved_start t \<le> bb_next_reserved t \<and> bb_next_reserved t \<le> bb_total_blocks t \<and>
     distinct (bb_bad_blocks t) \<and> list_all (\<lambda>b. b < bb_reserved_start t) (bb_bad_blocks t)"

lemma bb_wf_new: "bb_new n reserved = Some t \<Longrightarrow> bb_wf t"
proof -
  assume "bb_new n reserved = Some t"
  moreover have "n - reserved \<le> n" if "reserved \<le> n"
    using that by (simp add: word_sub_le)
  ultimately show ?thesis by (auto simp: bb_new_def bb_wf_def Let_def split: if_splits)
qed

lemma bb_wf_mark_bad: "bb_wf t \<Longrightarrow> bb_wf (bb_mark_bad t b)"
  by (auto simp: bb_wf_def bb_mark_bad_def bb_is_bad_def)

lemma bb_mark_bad_frame [simp]:
  "bb_reserved_start (bb_mark_bad t b) = bb_reserved_start t"
  "bb_next_reserved (bb_mark_bad t b) = bb_next_reserved t"
  "bb_total_blocks (bb_mark_bad t b) = bb_total_blocks t"
  by (simp_all add: bb_mark_bad_def)

lemma bb_get_replacement_cases:
  assumes "bb_wf t"
  shows "bb_wf (fst (bb_get_replacement t b))"
    and "snd (bb_get_replacement t b) = Inr r \<Longrightarrow>
      r = bb_next_reserved t \<and> r < bb_total_blocks t \<and> r < bb_next_reserved (fst (bb_get_replacement t b))"
    and "snd (bb_get_replacement t b) = Inl e \<Longrightarrow>
      bb_next_reserved (fst (bb_get_replacement t b)) = bb_next_reserved t"
    and "bb_reserved_start (fst (bb_get_replacement t b)) = bb_reserved_start t"
    and "bb_total_blocks (fst (bb_get_replacement t b)) = bb_total_blocks t"
proof -
  have wf: "bb_wf (bb_mark_bad t b)" using assms by (rule bb_wf_mark_bad)
  have step: "bb_next_reserved t + 1 \<le> bb_total_blocks t \<and> bb_next_reserved t < bb_next_reserved t + 1"
    if "\<not> bb_total_blocks t \<le> bb_next_reserved t"
    using that word_Suc_le by (simp add: not_le)
  show "bb_wf (fst (bb_get_replacement t b))"
    using assms wf step by (auto simp: bb_get_replacement_def bb_wf_def Let_def)
  show "r = bb_next_reserved t \<and> r < bb_total_blocks t \<and> r < bb_next_reserved (fst (bb_get_replacement t b))"
    if "snd (bb_get_replacement t b) = Inr r"
    using that step by (auto simp: bb_get_replacement_def Let_def not_le split: if_splits)
  show "bb_next_reserved (fst (bb_get_replacement t b)) = bb_next_reserved t"
    if "snd (bb_get_replacement t b) = Inl e"
    using that by (auto simp: bb_get_replacement_def Let_def split: if_splits)
  show "bb_reserved_start (fst (bb_get_replacement t b)) = bb_reserved_start t"
    "bb_total_blocks (fst (bb_get_replacement t b)) = bb_total_blocks t"
    by (auto simp: bb_get_replacement_def Let_def)
qed

text \<open>The replacements handed out by a sequence of requests.\<close>

fun bb_replacements :: "bad_block_table \<Rightarrow> u64 list \<Rightarrow> u64 list" where
  "bb_replacements t [] = []"
| "bb_replacements t (b # bs) =
     (case bb_get_replacement t b of
        (t', Inl _) \<Rightarrow> bb_replacements t' bs
      | (t', Inr r) \<Rightarrow> r # bb_replacements t' bs)"

lemma bb_replacements_pool:
  "bb_wf t \<Longrightarrow>
     sorted_wrt (<) (bb_replacements t bs) \<and>
     list_all (\<lambda>r. bb_next_reserved t \<le> r \<and> r < bb_total_blocks t) (bb_replacements t bs)"
proof (induction bs arbitrary: t)
  case (Cons b bs)
  note c = bb_get_replacement_cases [OF Cons.prems, of b]
  obtain t' r where g: "bb_get_replacement t b = (t', r)" by force
  with c(1) Cons.IH [of t'] have ih: "sorted_wrt (<) (bb_replacements t' bs)"
    "list_all (\<lambda>r. bb_next_reserved t' \<le> r \<and> r < bb_total_blocks t') (bb_replacements t' bs)" by auto
  show ?case
  proof (cases r)
    case (Inl e)
    with ih c(3,5) g show ?thesis by (auto simp: list_all_iff)
  next
    case (Inr x)
    with c(2,5) g have "x = bb_next_reserved t" "x < bb_total_blocks t" "x < bb_next_reserved t'"
      "bb_total_blocks t' = bb_total_blocks t" by auto
    with ih g Inr show ?thesis by (fastforce simp: list_all_iff)
  qed
qed simp

lemma slice_concat_le_bytes:
  "i < length xs \<Longrightarrow> slice (i * 8) (8 + i * 8) (concat (map (le_bytes 8) (xs :: u64 list))) = le_bytes 8 (xs ! i)"
proof (induction xs arbitrary: i)
  case (Cons x xs)
  show ?case
  proof (cases i)
    case 0
    then show ?thesis by (simp add: slice_def)
  next
    case (Suc j)
    then have "slice (i * 8) (8 + i * 8) (concat (map (le_bytes 8) (x # xs))) =
        slice (j * 8) (8 + j * 8) (concat (map (le_bytes 8) xs))"
      by (simp add: slice_append_right)
    with Cons Suc show ?thesis by simp
  qed
qed simp

lemma length_concat_le_bytes: "length (concat (map (le_bytes 8) (xs :: u64 list))) = 8 * length xs"
  by (induction xs) simp_all

lemma bb_read_entries_all:
  assumes "\<And>i. i \<in> set is \<Longrightarrow> from_le (slice (28 + i * 8) (36 + i * 8) bs) = xs ! i"
    and "\<And>i. i \<in> set is \<Longrightarrow> xs ! i < bb_reserved_start t"
  shows "bb_read_entries bs is t = Inr (t\<lparr>bb_bad_blocks := bb_bad_blocks t @ map (\<lambda>i. xs ! i) is\<rparr>)"
  using assms
proof (induction "is" arbitrary: t)
  case (Cons i "is")
  then show ?case by (simp add: Let_def not_le)
qed simp

lemma bb_from_to_bytes:
  assumes "bb_wf t" and "length (bb_bad_blocks t) < 2 ^ 32"
    and "reserved \<le> bb_total_blocks t" and "bb_reserved_start t = bb_total_blocks t - reserved"
  shows "bb_from_bytes (bb_to_bytes t) (bb_total_blocks t) reserved = Some (Inr t)"
proof -
  let ?bs = "bb_to_bytes t" and ?n = "length (bb_bad_blocks t)"
  have hd: "slice 0 4 ?bs = bb_magic" "?bs ! 4 = 1" "slice 8 16 ?bs = le_bytes 8 (bb_next_reserved t)"
    "slice 16 24 ?bs = le_bytes 8 (bb_last_check_time t)"
    "slice 24 28 ?bs = le_bytes 4 (of_nat ?n :: u32)" "length ?bs = 28 + ?n * 8"
    "drop 28 ?bs = concat (map (le_bytes 8) (bb_bad_blocks t))"
    by (simp_all add: bb_to_bytes_def slice_def bb_magic_def length_concat_le_bytes)
  have cnt: "unat (of_nat ?n :: u32) = ?n"
    using assms(2) by (simp add: unsigned_of_nat take_bit_nat_eq_self)
  have ent: "from_le (slice (28 + i * 8) (36 + i * 8) ?bs) = bb_bad_blocks t ! i" if "i < ?n" for i
  proof -
    have "slice (28 + i * 8) (36 + i * 8) ?bs = slice (i * 8) (8 + i * 8) (drop 28 ?bs)"
      by (simp add: slice_def add.commute)
    with slice_concat_le_bytes [OF that] show ?thesis by (simp add: hd(7))
  qed
  let ?t0 = "\<lparr>bb_bad_blocks = [], bb_reserved_start = bb_reserved_start t,
      bb_next_reserved = bb_next_reserved t, bb_total_blocks = bb_total_blocks t,
      bb_last_check_time = bb_last_check_time t\<rparr>"
  have "bb_read_entries ?bs [0..<?n] ?t0 = Inr (?t0\<lparr>bb_bad_blocks := map (\<lambda>i. bb_bad_blocks t ! i) [0..<?n]\<rparr>)"
    using assms(1) by (subst bb_read_entries_all [where xs = "bb_bad_blocks t"]) 
      (auto simp: ent bb_wf_def list_all_length)
  then show ?thesis
    using assms by (simp add: bb_from_bytes_def hd cnt bb_new_def Let_def map_nth bb_wf_def)
qed

text \<open>Replacement is not redirection: after a write to a bad block, reading that block still fails with
  the bad-block error, so data written through the replacement cannot be read back.\<close>

lemma md_bad_write_unreadable:
  assumes "bb_is_bad (md_bad_block_table d) b" and "b < md_block_count d"
  shows "md_read_block (fst (md_write_block d b buf)) b buf' = Inl (BadBlock b)"
  using assms
  by (auto simp: md_write_block_def md_read_block_def md_block_count_def bb_get_replacement_def
      bb_mark_bad_def bb_is_bad_def Let_def split: prod.splits sum.splits if_splits)

lemma bb_pool_new:
  assumes "bb_new n reserved = Some t"
  shows "bb_next_reserved t = n - reserved" and "bb_total_blocks t = n" and "reserved \<le> n"
  using assms by (auto simp: bb_new_def Let_def split: if_splits)

lemma distinct_between_words:
  assumes "distinct xs" and "list_all (\<lambda>r. a \<le> r \<and> r < b) (xs :: 'a::len word list)"
  shows "length xs \<le> unat b - unat a"
proof -
  have "unat ` set xs \<subseteq> {unat a..<unat b}"
    using assms(2) by (auto simp: list_all_iff word_le_nat_alt word_less_nat_alt)
  then have "card (unat ` set xs) \<le> unat b - unat a"
    using card_mono [of "{unat a..<unat b}"] by simp
  moreover have "card (unat ` set xs) = length xs"
    using assms(1) by (subst card_image) (auto simp: inj_on_def distinct_card word_unat_eq_iff)
  ultimately show ?thesis by simp
qed

section \<open>Properties\<close>

text \<open>The replacement pool: whatever blocks a table is asked to replace after its creation, the
  replacements it hands out are pairwise different blocks of the reserved area, at most as many as
  the area has.\<close>

theorem bad_block_pool_never_reused:
  assumes "bb_new n reserved = Some t"
  shows "distinct (bb_replacements t bs) \<and>
     list_all (\<lambda>r. n - reserved \<le> r \<and> r < n) (bb_replacements t bs) \<and>
     length (bb_replacements t bs) \<le> unat reserved"
proof -
  note pool = bb_replacements_pool [OF bb_wf_new [OF assms], of bs] and new = bb_pool_new [OF assms]
  from pool have d: "distinct (bb_replacements t bs)" by (simp add: strict_sorted_iff)
  moreover from pool new have r: "list_all (\<lambda>r. n - reserved \<le> r \<and> r < n) (bb_replacements t bs)" by simp
  moreover have "unat n - unat (n - reserved) = unat reserved"
    using new(3) by (simp add: unat_sub word_le_nat_alt)
  ultimately show ?thesis using distinct_between_words [OF d r] by simp
qed

theorem bad_block_pool_witness:
  "\<exists>t. bb_new 100 5 = Some t \<and> length (bb_replacements t [3, 9, 3, 99, 1, 2, 4, 5]) \<le> 5"
proof -
  obtain t where t: "bb_new 100 5 = Some t" by (auto simp: bb_new_def)
  have "unat (5 :: u64) = 5" by simp
  with t bad_block_pool_never_reused [OF t, of "[3, 9, 3, 99, 1, 2, 4, 5]"] show ?thesis
    by (metis (no_types))
qed

text \<open>Persistence of the bad-block table: restoring the bytes of a well-formed table over the same
  geometry gives the table back.\<close>

theorem bad_block_table_roundtrip:
  assumes "bb_wf t" and "length (bb_bad_blocks t) < 2 ^ 32"
    and "reserved \<le> bb_total_blocks t" and "bb_reserved_start t = bb_total_blocks t - reserved"
  shows "bb_from_bytes (bb_to_bytes t) (bb_total_blocks t) reserved = Some (Inr t)"
  using assms by (rule bb_from_to_bytes)

theorem bad_block_table_roundtrip_witness:
  "\<exists>t. bb_new 100 5 = Some t \<and>
     bb_from_bytes (bb_to_bytes (bb_mark_bad t 3)) 100 5 = Some (Inr (bb_mark_bad t 3))"
proof -
  obtain t where t: "bb_new 100 5 = Some t" by (auto simp: bb_new_def)
  have "bb_total_blocks t = 100" "bb_reserved_start t = 95" "bb_bad_blocks t = []"
    using t by (auto simp: bb_new_def Let_def)
  then show ?thesis
    using t bad_block_table_roundtrip [OF bb_wf_mark_bad [OF bb_wf_new [OF t]], of 3 5]
    by (simp add: bb_mark_bad_def bb_is_bad_def)
qed

end
