(* ===== verification/Durable_Log.thy ===== *)
theory Durable_Log
  imports Block_Device Crc32
begin

text \<open>
  The durable log (\<open>crates/runtime/durable-log/src/lib.rs\<close>): a header block and one record per
  block, appended by writing the record first and the header second. The block device is the
  record of operations \<open>ops\<close>; a device that fails or is full is one whose operations return
  errors. Fixed-size buffers are the arrays of the source, zero-filled.
\<close>

section \<open>Data\<close>

datatype open_error = OpenIo | Uninitialized | ForeignFormat | OpenCorrupt

datatype store_error = Io | BadHeader | Corrupt | Full | SeqGap | ProvisionDenied

definition LOG_MAGIC :: bytes where
  "LOG_MAGIC = [0x45, 0x44, 0x4C, 0x4F, 0x47, 0x31]"
definition LOG_VERSION :: u16 where "LOG_VERSION = 1"

record 'd durable_log =
  dl_dev :: 'd
  dl_block_size :: nat
  dl_data_start :: u64
  dl_tail_seq :: u64
  dl_committed_seq :: u64

definition dl_fresh :: "'d \<Rightarrow> nat \<Rightarrow> 'd durable_log" where
  "dl_fresh dev block_size =
     \<lparr>dl_dev = dev, dl_block_size = block_size, dl_data_start = 1, dl_tail_seq = 1,
      dl_committed_seq = 0\<rparr>"

section \<open>Header\<close>

text \<open>\<open>read_block(idx, &mut buf[..n])\<close> into a zeroed array of \<open>cap\<close> bytes.\<close>

definition dl_read_into ::
  "'d block_ops \<Rightarrow> 'd durable_log \<Rightarrow> u64 \<Rightarrow> nat \<Rightarrow> storage_error + bytes" where
  "dl_read_into ops log block cap =
     and_then (bo_read ops (dl_dev log) block (zeros (min (dl_block_size log) cap)))
       (\<lambda>bs. Inr (put (zeros cap) 0 bs))"

definition dl_read_header :: "'d block_ops \<Rightarrow> 'd durable_log \<Rightarrow> store_error + (u64 \<times> u64)" where
  "dl_read_header ops log =
     and_then (map_err (dl_read_into ops log 0 512) (\<lambda>_. Io)) (\<lambda>header.
       if slice 0 6 header \<noteq> LOG_MAGIC then Inl BadHeader
       else if from_le (slice 6 8 header) \<noteq> LOG_VERSION then Inl BadHeader
       else if crc32 (take 28 header) \<noteq> from_le (slice 28 32 header) then Inl BadHeader
       else Inr (from_le (slice 8 16 header), from_le (slice 16 24 header)))"

definition dl_header_bytes :: "u64 \<Rightarrow> bytes" where
  "dl_header_bytes tail_seq =
     (let header = zeros 512;
          header = put header 0 LOG_MAGIC;
          header = put header 6 (le_bytes 2 LOG_VERSION);
          header = put header 8 (le_bytes 8 (0 :: u64));
          header = put header 16 (le_bytes 8 tail_seq);
          crc = crc32 (take 28 header)
      in put header 28 (le_bytes 4 crc))"

definition dl_write_header ::
  "'d block_ops \<Rightarrow> 'd durable_log \<Rightarrow> 'd durable_log \<times> (store_error + unit)" where
  "dl_write_header ops log =
     (let (dev, r) = bo_write ops (dl_dev log) 0
            (take (min (dl_block_size log) 512) (dl_header_bytes (dl_tail_seq log)))
      in (log\<lparr>dl_dev := dev\<rparr>, map_err r (\<lambda>_. Io)))"

definition record_capacity :: "nat \<Rightarrow> nat" where
  "record_capacity block_size = min (block_size - 16) (4096 - 16)"

section \<open>Records\<close>

definition dl_record_bytes :: "u64 \<Rightarrow> bytes \<Rightarrow> bytes" where
  "dl_record_bytes seq rec =
     le_bytes 8 seq @ le_bytes 4 (of_nat (length rec) :: u32) @ le_bytes 4 (crc32 rec) @ rec"

text \<open>The test every reader applies to the block of sequence number \<open>s\<close>; the payload it holds.\<close>

definition dl_record_valid :: "nat \<Rightarrow> u64 \<Rightarrow> bytes \<Rightarrow> bool" where
  "dl_record_valid cap s buf =
     (from_le (slice 0 8 buf) = s \<and>
      (let len = unat (from_le (slice 8 12 buf) :: u32)
       in len \<le> cap \<and> crc32 (slice 16 (16 + len) buf) = from_le (slice 12 16 buf)))"

definition dl_payload :: "bytes \<Rightarrow> bytes" where
  "dl_payload buf = slice 16 (16 + unat (from_le (slice 8 12 buf) :: u32)) buf"

definition dl_append ::
  "'d block_ops \<Rightarrow> 'd durable_log \<Rightarrow> bytes \<Rightarrow> 'd durable_log \<times> (store_error + u64)" where
  "dl_append ops log rec =
     (if record_capacity (dl_block_size log) < length rec then (log, Inl Full)
      else let seq = dl_tail_seq log;
               block = dl_data_start log + (seq - 1);
               buf = put (zeros 4096) 0 (dl_record_bytes seq rec);
               (dev, r) = bo_write ops (dl_dev log) block (take (min (dl_block_size log) 4096) buf);
               log = log\<lparr>dl_dev := dev\<rparr>
           in case r of
                Inl _ \<Rightarrow> (log, Inl Io)
              | Inr _ \<Rightarrow>
                let log = log\<lparr>dl_committed_seq := seq, dl_tail_seq := seq + 1\<rparr>
                in case dl_write_header ops log of
                     (log, Inl e) \<Rightarrow> (log, Inl e)
                   | (log, Inr _) \<Rightarrow> (log, Inr seq))"

section \<open>Scans\<close>

text \<open>The scan of \<open>recover\<close> and \<open>open_existing\<close>: from \<open>s\<close> on, up to the first block that does not
  hold a valid record, at most to \<open>tail\<close>.\<close>

function dl_scan ::
  "'d block_ops \<Rightarrow> 'd durable_log \<Rightarrow> u64 \<Rightarrow> u64 \<Rightarrow> store_error + u64" where
  "dl_scan ops log s tail =
     (if s < tail
      then case dl_read_into ops log (dl_data_start log + (s - 1)) 4096 of
             Inl _ \<Rightarrow> Inl Io
           | Inr buf \<Rightarrow>
             if \<not> dl_record_valid (record_capacity (dl_block_size log)) s buf then Inr s
             else dl_scan ops log (s + 1) tail
      else Inr s)"
  by pat_completeness auto
termination
proof (relation "measure (\<lambda>(ops, log, s, tail). unat tail - unat s)")
  show "((ops, log, s + 1, tail), (ops, log, s, tail))
      \<in> measure (\<lambda>(ops, log, s, tail). unat tail - unat s)" if "s < tail"
    for ops :: "'d block_ops" and log :: "'d durable_log" and s tail :: u64
    using that unat_inc [OF that] by (simp add: word_less_nat_alt)
qed simp

text \<open>\<open>read_from\<close> with the calls of its callback as a list: those made before an error are made.\<close>

function dl_read_loop ::
  "'d block_ops \<Rightarrow> 'd durable_log \<Rightarrow> u64 \<Rightarrow> u64 \<Rightarrow> (u64 \<times> bytes) list \<times> (store_error + unit)" where
  "dl_read_loop ops log s tail =
     (if s < tail
      then case dl_read_into ops log (dl_data_start log + (s - 1)) 4096 of
             Inl _ \<Rightarrow> ([], Inl Io)
           | Inr buf \<Rightarrow>
             if \<not> dl_record_valid (record_capacity (dl_block_size log)) s buf then ([], Inl Corrupt)
             else let (calls, r) = dl_read_loop ops log (s + 1) tail in ((s, dl_payload buf) # calls, r)
      else ([], Inr ()))"
  by pat_completeness auto
termination
proof (relation "measure (\<lambda>(ops, log, s, tail). unat tail - unat s)")
  show "((ops, log, s + 1, tail), (ops, log, s, tail))
      \<in> measure (\<lambda>(ops, log, s, tail). unat tail - unat s)" if "s < tail"
    for ops :: "'d block_ops" and log :: "'d durable_log" and s tail :: u64
    using that unat_inc [OF that] by (simp add: word_less_nat_alt)
qed simp

declare dl_scan.simps [simp del] dl_read_loop.simps [simp del]

definition dl_read_from ::
  "'d block_ops \<Rightarrow> 'd durable_log \<Rightarrow> u64 \<Rightarrow> (u64 \<times> bytes) list \<times> (store_error + unit)" where
  "dl_read_from ops log seq =
     (case dl_read_header ops log of
        Inl e \<Rightarrow> ([], Inl e)
      | Inr (_, tail) \<Rightarrow> dl_read_loop ops log seq tail)"

definition dl_recover :: "'d block_ops \<Rightarrow> 'd durable_log \<Rightarrow> 'd durable_log \<times> (store_error + u64)" where
  "dl_recover ops log =
     (case dl_read_header ops log of
        Inl e \<Rightarrow> (log, Inl e)
      | Inr (_, tail) \<Rightarrow>
        (case dl_scan ops log 1 tail of
           Inl e \<Rightarrow> (log, Inl e)
         | Inr s \<Rightarrow>
           let log = log\<lparr>dl_committed_seq := s - 1, dl_tail_seq := s\<rparr>
           in case dl_write_header ops log of
                (log, Inl e) \<Rightarrow> (log, Inl e)
              | (log, Inr _) \<Rightarrow> (log, Inr (dl_committed_seq log))))"

definition dl_open_existing :: "'d block_ops \<Rightarrow> 'd \<Rightarrow> nat \<Rightarrow> open_error + 'd durable_log" where
  "dl_open_existing ops dev block_size =
     (let log = dl_fresh dev block_size
      in case dl_read_into ops log 0 512 of
           Inl _ \<Rightarrow> Inl OpenIo
         | Inr header \<Rightarrow>
           if slice 0 6 header \<noteq> LOG_MAGIC
           then (if is_zero (take (min block_size 512) header) then Inl Uninitialized else Inl ForeignFormat)
           else (case dl_read_header ops log of
               Inl BadHeader \<Rightarrow> Inl OpenCorrupt
             | Inl Io \<Rightarrow> Inl OpenIo
             | Inl _ \<Rightarrow> Inl OpenCorrupt
             | Inr (_, tail) \<Rightarrow>
               (case dl_scan ops log 1 tail of
                  Inl _ \<Rightarrow> Inl OpenIo
                | Inr s \<Rightarrow> Inr (log\<lparr>dl_tail_seq := tail, dl_committed_seq := s - 1\<rparr>))))"

definition dl_format :: "'d block_ops \<Rightarrow> 'd \<Rightarrow> nat \<Rightarrow> 'd durable_log \<times> (store_error + unit)" where
  "dl_format ops dev block_size =
     (let log = dl_fresh dev block_size
      in case dl_read_into ops log 0 512 of
           Inl _ \<Rightarrow> (log, Inl Io)
         | Inr header \<Rightarrow>
           if slice 0 6 header \<noteq> LOG_MAGIC then dl_write_header ops log
           else (case dl_read_header ops log of
               Inl e \<Rightarrow> (log, Inl e)
             | Inr (_, tail) \<Rightarrow>
               (log\<lparr>dl_tail_seq := tail, dl_committed_seq := saturating_sub tail 1\<rparr>, Inr ())))"

section \<open>Provisioning\<close>

datatype block_role =
  RoleBoot | RoleSystemA | RoleSystemB | RoleRecovery | RoleData | RoleAudit | RoleModelA
  | RoleModelB | RoleEvidence

datatype profile_class = Factory | RecoveryProfile | NormalProfile

definition allows_provisioning :: "profile_class \<Rightarrow> bool" where
  "allows_provisioning c = (c \<noteq> NormalProfile)"

record provision_request =
  prq_target_stable_path :: bytes
  prq_target_stable_path_len :: u8
  prq_role :: block_role
  prq_min_capacity_bytes :: u64
  prq_nonce :: bytes
  prq_expires_at_unix_s :: u64

record provision_authorization =
  pa_request :: provision_request
  pa_profile_class :: profile_class
  pa_granted_at_unix_s :: u64
  pa_manifest_digest :: bytes

definition saturating_mul :: "u64 \<Rightarrow> u64 \<Rightarrow> u64" where
  "saturating_mul a b = (if unat a * unat b < 2 ^ 64 then a * b else - 1)"

definition dl_provision_new ::
  "'d block_ops \<Rightarrow> ('d \<Rightarrow> block_role) \<Rightarrow> 'd \<Rightarrow> nat \<Rightarrow> provision_authorization \<Rightarrow>
     'd durable_log \<times> (store_error + unit)" where
  "dl_provision_new ops scope_role dev block_size auth =
     (if \<not> allows_provisioning (pa_profile_class auth) then (dl_fresh dev block_size, Inl ProvisionDenied)
      else if scope_role dev \<noteq> prq_role (pa_request auth)
      then (dl_fresh dev block_size, Inl ProvisionDenied)
      else if saturating_mul (bo_count ops dev) (of_nat block_size) < prq_min_capacity_bytes (pa_request auth)
      then (dl_fresh dev block_size, Inl ProvisionDenied)
      else case dl_format ops dev block_size of
             (log, Inl e) \<Rightarrow> (log, Inl e)
           | (log, Inr _) \<Rightarrow>
             (case dl_read_header ops log of
                Inl BadHeader \<Rightarrow> (log, Inl Corrupt)
              | Inl other \<Rightarrow> (log, Inl other)
              | Inr _ \<Rightarrow> (log, Inr ())))"

section \<open>Abstraction\<close>

text \<open>The device holds the log \<open>recs\<close>: a header whose tail is one past the last record, and record
  \<open>i\<close> in block \<open>i + 1\<close>. A log value represents \<open>recs\<close> when its device holds them and its counters
  agree.\<close>

definition dl_image :: "nat \<Rightarrow> bytes \<Rightarrow> bytes" where
  "dl_image cap xs = xs @ zeros (cap - length xs)"

definition dl_block_of :: "bytes list \<Rightarrow> nat \<Rightarrow> bytes" where
  "dl_block_of recs i = dl_image 4096 (dl_record_bytes (of_nat i + 1) (recs ! i))"

definition dl_holds ::
  "'d block_ops \<Rightarrow> (nat \<Rightarrow> 'd \<Rightarrow> bool) \<Rightarrow> 'd durable_log \<Rightarrow> bytes list \<Rightarrow> bool" where
  "dl_holds ops healthy log recs \<longleftrightarrow>
     healthy (dl_block_size log) (dl_dev log) \<and> 32 \<le> dl_block_size log \<and> dl_data_start log = 1 \<and>
     length recs < unat (bo_count ops (dl_dev log)) \<and>
     dl_read_into ops log 0 512 = Inr (dl_header_bytes (of_nat (length recs) + 1)) \<and>
     (\<forall>i < length recs. length (recs ! i) \<le> record_capacity (dl_block_size log) \<and>
        dl_read_into ops log (of_nat i + 1) 4096 = Inr (dl_block_of recs i))"

definition dl_rep ::
  "'d block_ops \<Rightarrow> (nat \<Rightarrow> 'd \<Rightarrow> bool) \<Rightarrow> 'd durable_log \<Rightarrow> bytes list \<Rightarrow> bool" where
  "dl_rep ops healthy log recs \<longleftrightarrow>
     dl_holds ops healthy log recs \<and> dl_tail_seq log = of_nat (length recs) + 1 \<and>
     dl_committed_seq log = of_nat (length recs)"

section \<open>Power cuts\<close>

text \<open>A device whose power lasts for a number of further writes. The write during which it fails leaves
  arbitrary bytes \<open>junk\<close> in its block, except the header block, whose 32 bytes lie in one sector and
  are either written or not; later writes do nothing.\<close>

record 'd powered =
  pw_dev :: 'd
  pw_left :: "nat option"

definition cut_write ::
  "'d block_ops \<Rightarrow> bytes \<Rightarrow> 'd powered \<Rightarrow> u64 \<Rightarrow> bytes \<Rightarrow> 'd powered \<times> (storage_error + unit)" where
  "cut_write ops junk p b buf =
     (case pw_left p of
        None \<Rightarrow> (p, Inl (HardwareFault ''power''))
      | Some 0 \<Rightarrow>
        (\<lparr>pw_dev = (if b = 0 then pw_dev p else fst (bo_write ops (pw_dev p) b junk)), pw_left = None\<rparr>,
         Inl (HardwareFault ''power''))
      | Some (Suc n) \<Rightarrow>
        let (d, r) = bo_write ops (pw_dev p) b buf in (\<lparr>pw_dev = d, pw_left = Some n\<rparr>, r))"

definition cut_ops :: "'d block_ops \<Rightarrow> bytes \<Rightarrow> 'd powered block_ops" where
  "cut_ops ops junk =
     \<lparr>bo_read = (\<lambda>p. bo_read ops (pw_dev p)), bo_write = cut_write ops junk,
      bo_count = (\<lambda>p. bo_count ops (pw_dev p))\<rparr>"

definition dl_powered :: "'d durable_log \<Rightarrow> nat \<Rightarrow> 'd powered durable_log" where
  "dl_powered log n =
     \<lparr>dl_dev = \<lparr>pw_dev = dl_dev log, pw_left = Some n\<rparr>, dl_block_size = dl_block_size log,
      dl_data_start = dl_data_start log, dl_tail_seq = dl_tail_seq log,
      dl_committed_seq = dl_committed_seq log\<rparr>"

text \<open>What an append leaves on the device when the power lasts for \<open>n\<close> writes.\<close>

definition dl_append_cut :: "'d block_ops \<Rightarrow> bytes \<Rightarrow> nat \<Rightarrow> 'd durable_log \<Rightarrow> bytes \<Rightarrow> 'd" where
  "dl_append_cut ops junk n log rec =
     pw_dev (dl_dev (fst (dl_append (cut_ops ops junk) (dl_powered log n) rec)))"

section \<open>Lemmas on the formats\<close>

lemma put_zeros_image: "put (zeros cap) 0 xs = dl_image cap xs"
  by (simp add: put_def dl_image_def)

lemma dl_image_take:
  "length xs \<le> n \<Longrightarrow> n \<le> cap \<Longrightarrow> dl_image cap (take n (dl_image cap xs)) = dl_image cap xs"
  by (simp add: dl_image_def min_def flip: replicate_add)

lemma length_dl_image: "length xs \<le> cap \<Longrightarrow> length (dl_image cap xs) = cap"
  by (simp add: dl_image_def)

definition dl_header_fields :: "u64 \<Rightarrow> bytes" where
  "dl_header_fields tail_seq =
     LOG_MAGIC @ le_bytes 2 LOG_VERSION @ le_bytes 8 (0 :: u64) @ le_bytes 8 tail_seq @ zeros 4"

lemma length_LOG_MAGIC [simp]: "length LOG_MAGIC = 6"
  by (simp add: LOG_MAGIC_def)

lemma length_dl_header_fields [simp]: "length (dl_header_fields t) = 28"
  by (simp add: dl_header_fields_def)

lemma dl_header_bytes_image:
  "dl_header_bytes t = dl_image 512 (dl_header_fields t @ le_bytes 4 (crc32 (dl_header_fields t)))"
  by (simp add: dl_header_bytes_def dl_header_fields_def Let_def put_def dl_image_def)

lemma dl_header_slices:
  "slice 0 6 (dl_header_bytes t) = LOG_MAGIC" "slice 6 8 (dl_header_bytes t) = le_bytes 2 LOG_VERSION"
  "slice 8 16 (dl_header_bytes t) = le_bytes 8 (0 :: u64)" "slice 16 24 (dl_header_bytes t) = le_bytes 8 t"
  "take 28 (dl_header_bytes t) = dl_header_fields t"
  "slice 28 32 (dl_header_bytes t) = le_bytes 4 (crc32 (dl_header_fields t))"
proof -
  show "take 28 (dl_header_bytes t) = dl_header_fields t"
    "slice 28 32 (dl_header_bytes t) = le_bytes 4 (crc32 (dl_header_fields t))"
    by (simp_all add: dl_header_bytes_image dl_image_def slice_def)
  have sub: "slice a b (dl_header_bytes t) = slice a b (dl_header_fields t)" if "b \<le> 28" for a b
    using that by (simp add: dl_header_bytes_image dl_image_def slice_append_left)
  show "slice 0 6 (dl_header_bytes t) = LOG_MAGIC"
    "slice 6 8 (dl_header_bytes t) = le_bytes 2 LOG_VERSION"
    "slice 8 16 (dl_header_bytes t) = le_bytes 8 (0 :: u64)" "slice 16 24 (dl_header_bytes t) = le_bytes 8 t"
    by (subst sub, simp, simp add: dl_header_fields_def slice_def)+
qed

lemma dl_read_header_image:
  "dl_read_into ops log 0 512 = Inr (dl_header_bytes t) \<Longrightarrow> dl_read_header ops log = Inr (0, t)"
  by (simp add: dl_read_header_def dl_header_slices)

lemma dl_record_slices:
  assumes "length rec \<le> 4080"
  shows "dl_record_valid cap s (dl_image 4096 (dl_record_bytes s rec)) \<longleftrightarrow> length rec \<le> cap"
    and "dl_payload (dl_image 4096 (dl_record_bytes s rec)) = rec"
proof -
  let ?buf = "dl_image 4096 (dl_record_bytes s rec)"
  have len: "unat (of_nat (length rec) :: u32) = length rec"
    using assms by (simp add: unsigned_of_nat take_bit_nat_eq_self)
  have sl: "slice 0 8 ?buf = le_bytes 8 s" "slice 8 12 ?buf = le_bytes 4 (of_nat (length rec) :: u32)"
    "slice 12 16 ?buf = le_bytes 4 (crc32 rec)" "slice 16 (16 + length rec) ?buf = rec"
    by (simp_all add: dl_image_def dl_record_bytes_def slice_def)
  then show "dl_record_valid cap s ?buf \<longleftrightarrow> length rec \<le> cap" "dl_payload ?buf = rec"
    by (simp_all add: dl_record_valid_def dl_payload_def len Let_def)
qed

lemma dl_read_into_cong:
  "dl_dev log = dl_dev log' \<Longrightarrow> dl_block_size log = dl_block_size log' \<Longrightarrow>
     dl_read_into ops log b cap = dl_read_into ops log' b cap"
  by (simp add: dl_read_into_def)

lemma dl_holds_cong:
  "dl_dev log = dl_dev log' \<Longrightarrow> dl_block_size log = dl_block_size log' \<Longrightarrow>
     dl_data_start log = dl_data_start log' \<Longrightarrow>
     dl_holds ops healthy log recs = dl_holds ops healthy log' recs"
  by (simp add: dl_holds_def dl_read_into_def)

lemma of_nat_less_u64:
  "n < unat (c :: u64) \<Longrightarrow> i \<le> n \<Longrightarrow> unat (of_nat i + (1 :: u64)) = Suc i"
proof -
  assume "n < unat c" "i \<le> n"
  moreover have "unat c < 2 ^ LENGTH(64)" by (rule unsigned_less)
  ultimately have "Suc i < 2 ^ LENGTH(64)" by linarith
  then have "unat (of_nat (Suc i) :: u64) = Suc i"
    by (simp only: unsigned_of_nat take_bit_nat_eq_self of_nat_id)
  then show ?thesis by (simp add: add.commute)
qed

section \<open>The log on a device in working order\<close>

context block_device
begin

lemma read_into_write:
  assumes "healthy (dl_block_size log) (dl_dev log)" and "b < bo_count ops (dl_dev log)"
    and "length xs \<le> min (dl_block_size log) cap"
  shows "dl_read_into ops (log\<lparr>dl_dev := fst (bo_write ops (dl_dev log) b
      (take (min (dl_block_size log) cap) (dl_image cap xs)))\<rparr>) b cap = Inr (dl_image cap xs)"
proof -
  have "length (take (min (dl_block_size log) cap) (dl_image cap xs)) = min (dl_block_size log) cap"
    using assms(3) by (simp add: dl_image_def)
  with assms read_back [OF assms(1,2)] show ?thesis
    by (simp add: dl_read_into_def put_zeros_image dl_image_take)
qed

lemma read_into_other:
  assumes "healthy (dl_block_size log) (dl_dev log)" and "b' \<noteq> b"
  shows "dl_read_into ops (log\<lparr>dl_dev := fst (bo_write ops (dl_dev log) b buf)\<rparr>) b' cap =
     dl_read_into ops log b' cap"
  using assms by (simp add: dl_read_into_def read_other)

text \<open>A write beyond the committed records is invisible.\<close>

lemma holds_write_beyond:
  assumes "dl_holds ops healthy log recs" and "length recs < unat b"
  shows "dl_holds ops healthy (log\<lparr>dl_dev := fst (bo_write ops (dl_dev log) b buf)\<rparr>) recs"
proof -
  note h = assms(1) [unfolded dl_holds_def]
  have "(0 :: u64) \<noteq> b" using assms(2) by auto
  moreover have "of_nat i + 1 \<noteq> b" if "i < length recs" for i
    using of_nat_less_u64 [OF _ less_imp_le [OF that]] h assms(2) that by auto
  ultimately show ?thesis
    using h by (simp add: dl_holds_def read_into_other write_healthy write_count)
qed

lemma holds_header: "dl_holds ops healthy log recs \<Longrightarrow> dl_read_header ops log = Inr (0, of_nat (length recs) + 1)"
  by (intro dl_read_header_image) (simp add: dl_holds_def)

lemma holds_record:
  assumes "dl_holds ops healthy log recs" and "i < length recs"
  shows "dl_read_into ops log (dl_data_start log + (of_nat i + 1 - 1)) 4096 = Inr (dl_block_of recs i)"
    and "dl_record_valid (record_capacity (dl_block_size log)) (of_nat i + 1) (dl_block_of recs i)"
    and "dl_payload (dl_block_of recs i) = recs ! i"
proof -
  from assms have r: "dl_read_into ops log (of_nat i + 1) 4096 = Inr (dl_block_of recs i)"
    and len: "length (recs ! i) \<le> record_capacity (dl_block_size log)" and "dl_data_start log = 1"
    by (auto simp: dl_holds_def)
  then show "dl_read_into ops log (dl_data_start log + (of_nat i + 1 - 1)) 4096 = Inr (dl_block_of recs i)"
    by (simp add: add.commute)
  have "length (recs ! i) \<le> 4080" using len by (simp add: record_capacity_def)
  from dl_record_slices [OF this] len
  show "dl_record_valid (record_capacity (dl_block_size log)) (of_nat i + 1) (dl_block_of recs i)"
    "dl_payload (dl_block_of recs i) = recs ! i"
    by (simp_all add: dl_block_of_def)
qed

lemma holds_less_tail:
  assumes "dl_holds ops healthy log recs" and "i \<le> length recs"
  shows "of_nat i + 1 < (of_nat (length recs) + 1 :: u64) \<longleftrightarrow> i < length recs"
  using assms of_nat_less_u64 [of "length recs" "bo_count ops (dl_dev log)" i]
    of_nat_less_u64 [of "length recs" "bo_count ops (dl_dev log)" "length recs"]
  by (simp add: dl_holds_def word_less_nat_alt)

lemma holds_scan:
  assumes "dl_holds ops healthy log recs"
  shows "k \<le> length recs \<Longrightarrow>
    dl_scan ops log (of_nat k + 1) (of_nat (length recs) + 1) = Inr (of_nat (length recs) + 1)"
proof (induction "length recs - k" arbitrary: k)
  case 0
  then show ?case by (subst dl_scan.simps) simp
next
  case (Suc n)
  then have "k < length recs" "n = length recs - Suc k" "Suc k \<le> length recs" by auto
  with Suc.hyps(1) [of "Suc k"] holds_record [OF assms, of k] holds_less_tail [OF assms, of k]
  show ?case by (subst dl_scan.simps) (simp add: add.commute)
qed

lemma holds_read_loop:
  assumes "dl_holds ops healthy log recs"
  shows "k \<le> length recs \<Longrightarrow>
    dl_read_loop ops log (of_nat k + 1) (of_nat (length recs) + 1) =
      (map (\<lambda>i. (of_nat i + 1, recs ! i)) [k..<length recs], Inr ())"
proof (induction "length recs - k" arbitrary: k)
  case 0
  then show ?case by (subst dl_read_loop.simps) simp
next
  case (Suc n)
  then have k: "k < length recs" "n = length recs - Suc k" "Suc k \<le> length recs" by auto
  then have "[k..<length recs] = k # [Suc k..<length recs]" by (simp add: upt_rec)
  with k Suc.hyps(1) [of "Suc k"] holds_record [OF assms, of k] holds_less_tail [OF assms, of k]
  show ?case by (subst dl_read_loop.simps) (simp add: add.commute)
qed

lemma read_from_rep:
  "dl_rep ops healthy log recs \<Longrightarrow>
     dl_read_from ops log 1 = (map (\<lambda>i. (of_nat i + 1, recs ! i)) [0..<length recs], Inr ())"
  using holds_read_loop [of log recs 0] holds_header [of log recs]
  by (simp add: dl_rep_def dl_read_from_def)

lemma write_header_holds:
  assumes "dl_holds ops healthy log recs0" and "dl_tail_seq log = of_nat (length recs) + 1"
    and "length recs < unat (bo_count ops (dl_dev log))"
    and "\<And>i. i < length recs \<Longrightarrow> length (recs ! i) \<le> record_capacity (dl_block_size log) \<and>
        dl_read_into ops log (of_nat i + 1) 4096 = Inr (dl_block_of recs i)"
  shows "\<exists>log'. dl_write_header ops log = (log', Inr ()) \<and> dl_holds ops healthy log' recs \<and>
     dl_tail_seq log' = dl_tail_seq log \<and> dl_committed_seq log' = dl_committed_seq log"
proof -
  note h = assms(1) [unfolded dl_holds_def]
  let ?hdr = "dl_header_fields (dl_tail_seq log) @ le_bytes 4 (crc32 (dl_header_fields (dl_tail_seq log)))"
  let ?buf = "take (min (dl_block_size log) 512) (dl_image 512 ?hdr)"
  let ?log' = "log\<lparr>dl_dev := fst (bo_write ops (dl_dev log) 0 ?buf)\<rparr>"
  have in_dev: "0 < bo_count ops (dl_dev log)"
    using assms(3) by (auto simp: word_gt_0)
  have w: "dl_write_header ops log = (?log', Inr ())"
    using write_ok [of "dl_block_size log" "dl_dev log" 0 ?buf] h in_dev
    by (simp add: dl_write_header_def dl_header_bytes_image case_prod_beta)
  have "dl_read_into ops ?log' 0 512 = Inr (dl_image 512 ?hdr)"
    using h in_dev by (intro read_into_write) auto
  then have "dl_read_into ops ?log' 0 512 = Inr (dl_header_bytes (of_nat (length recs) + 1))"
    using assms(2) by (simp add: dl_header_bytes_image)
  moreover have "dl_read_into ops ?log' (of_nat i + 1) 4096 = Inr (dl_block_of recs i)"
    if "i < length recs" for i
  proof -
    have "unat (of_nat i + 1 :: u64) = Suc i" using of_nat_less_u64 [OF assms(3), of i] that by simp
    then have "of_nat i + 1 \<noteq> (0 :: u64)" by auto
    with assms(4) [OF that] h show ?thesis by (simp add: read_into_other)
  qed
  ultimately have "dl_holds ops healthy ?log' recs"
    using h assms(3,4) by (simp add: dl_holds_def write_healthy write_count)
  with w show ?thesis by simp
qed

lemma append_rep:
  assumes "dl_rep ops healthy log recs" and "length rec \<le> record_capacity (dl_block_size log)"
    and "length recs + 1 < unat (bo_count ops (dl_dev log))"
  shows "\<exists>log'. dl_append ops log rec = (log', Inr (of_nat (length recs) + 1)) \<and>
     dl_rep ops healthy log' (recs @ [rec])"
proof -
  from assms(1) have hold: "dl_holds ops healthy log recs" and tail: "dl_tail_seq log = of_nat (length recs) + 1"
    by (auto simp: dl_rep_def)
  note h = hold [unfolded dl_holds_def]
  let ?b = "of_nat (length recs) + 1 :: u64"
  let ?buf = "take (min (dl_block_size log) 4096) (dl_image 4096 (dl_record_bytes ?b rec))"
  let ?log1 = "log\<lparr>dl_dev := fst (bo_write ops (dl_dev log) ?b ?buf)\<rparr>"
  have ub: "unat ?b = Suc (length recs)"
    using of_nat_less_u64 [of "length recs" "bo_count ops (dl_dev log)" "length recs"] h by simp
  then have in_dev: "?b < bo_count ops (dl_dev log)" using assms(3) by (simp add: word_less_nat_alt)
  have len: "length (dl_record_bytes ?b rec) \<le> min (dl_block_size log) 4096"
    using assms(2) h by (auto simp: dl_record_bytes_def record_capacity_def)
  have w: "snd (bo_write ops (dl_dev log) ?b ?buf) = Inr ()"
    using h in_dev by (intro write_ok [of "dl_block_size log"]) auto
  have hold1: "dl_holds ops healthy ?log1 recs"
    using hold ub by (intro holds_write_beyond) simp_all
  have new: "dl_read_into ops ?log1 ?b 4096 = Inr (dl_image 4096 (dl_record_bytes ?b rec))"
    using h in_dev len by (intro read_into_write) auto
  let ?log2 = "?log1\<lparr>dl_committed_seq := ?b, dl_tail_seq := ?b + 1\<rparr>"
  have hold2: "dl_holds ops healthy ?log2 recs" using hold1 by (subst dl_holds_cong [where log' = ?log1]) auto
  have "\<exists>log'. dl_write_header ops ?log2 = (log', Inr ()) \<and> dl_holds ops healthy log' (recs @ [rec]) \<and>
     dl_tail_seq log' = dl_tail_seq ?log2 \<and> dl_committed_seq log' = dl_committed_seq ?log2"
  proof (rule write_header_holds [OF hold2])
    show "dl_tail_seq ?log2 = of_nat (length (recs @ [rec])) + 1" by (simp add: add.commute)
    show "length (recs @ [rec]) < unat (bo_count ops (dl_dev ?log2))" using assms(3) by (simp add: write_count)
    fix i assume i: "i < length (recs @ [rec])"
    have cong: "dl_read_into ops ?log2 b cap = dl_read_into ops ?log1 b cap" for b cap
      by (rule dl_read_into_cong) auto
    show "length ((recs @ [rec]) ! i) \<le> record_capacity (dl_block_size ?log2) \<and>
        dl_read_into ops ?log2 (of_nat i + 1) 4096 = Inr (dl_block_of (recs @ [rec]) i)"
    proof (cases "i < length recs")
      case True
      with hold1 show ?thesis unfolding cong by (simp add: dl_holds_def dl_block_of_def nth_append)
    next
      case False
      with i have "i = length recs" by simp
      with new assms(2) show ?thesis unfolding cong by (simp add: dl_block_of_def)
    qed
  qed
  then obtain log' where "dl_write_header ops ?log2 = (log', Inr ())" "dl_holds ops healthy log' (recs @ [rec])"
    "dl_tail_seq log' = ?b + 1" "dl_committed_seq log' = ?b" by auto
  moreover have "dl_append ops log rec = (log', Inr ?b)"
    using w tail h assms(2) calculation(1)
    by (simp add: dl_append_def put_zeros_image Let_def case_prod_beta add.commute not_less)
  ultimately show ?thesis by (auto simp: dl_rep_def add.commute)
qed

lemma recover_rep:
  assumes "dl_holds ops healthy log recs"
  shows "\<exists>log'. dl_recover ops log = (log', Inr (of_nat (length recs))) \<and> dl_rep ops healthy log' recs"
proof -
  let ?log1 = "log\<lparr>dl_committed_seq := of_nat (length recs), dl_tail_seq := of_nat (length recs) + 1\<rparr>"
  have hold1: "dl_holds ops healthy ?log1 recs" using assms by (subst dl_holds_cong [where log' = log]) auto
  have "\<exists>log'. dl_write_header ops ?log1 = (log', Inr ()) \<and> dl_holds ops healthy log' recs \<and>
     dl_tail_seq log' = dl_tail_seq ?log1 \<and> dl_committed_seq log' = dl_committed_seq ?log1"
    using hold1 by (intro write_header_holds [OF hold1]) (auto simp: dl_holds_def)
  then obtain log' where "dl_write_header ops ?log1 = (log', Inr ())" "dl_holds ops healthy log' recs"
    "dl_tail_seq log' = of_nat (length recs) + 1" "dl_committed_seq log' = of_nat (length recs)" by auto
  moreover have "dl_scan ops log 1 (of_nat (length recs) + 1) = Inr (of_nat (length recs) + 1)"
    using holds_scan [OF assms, of 0] by simp
  ultimately show ?thesis
    by (auto simp: dl_recover_def holds_header [OF assms] dl_rep_def Let_def)
qed

lemma open_rep:
  assumes "dl_holds ops healthy log recs"
  shows "\<exists>log'. dl_open_existing ops (dl_dev log) (dl_block_size log) = Inr log' \<and> dl_rep ops healthy log' recs"
proof -
  let ?log0 = "dl_fresh (dl_dev log) (dl_block_size log)"
  have hold0: "dl_holds ops healthy ?log0 recs"
    using assms by (subst dl_holds_cong [where log' = log]) (auto simp: dl_fresh_def dl_holds_def)
  have "dl_scan ops ?log0 1 (of_nat (length recs) + 1) = Inr (of_nat (length recs) + 1)"
    using holds_scan [OF hold0, of 0] by simp
  moreover have "dl_read_into ops ?log0 0 512 = Inr (dl_header_bytes (of_nat (length recs) + 1))"
    using hold0 by (simp add: dl_holds_def)
  ultimately have "dl_open_existing ops (dl_dev log) (dl_block_size log) =
      Inr (?log0\<lparr>dl_tail_seq := of_nat (length recs) + 1, dl_committed_seq := of_nat (length recs)\<rparr>)"
    using holds_header [OF hold0] by (simp add: dl_open_existing_def dl_header_slices Let_def)
  moreover have "dl_holds ops healthy (?log0\<lparr>dl_tail_seq := of_nat (length recs) + 1,
      dl_committed_seq := of_nat (length recs)\<rparr>) recs"
    using hold0 by (subst dl_holds_cong [where log' = ?log0]) auto
  ultimately show ?thesis by (simp add: dl_rep_def)
qed

lemma append_block_size: "dl_block_size (fst (dl_append ops log rec)) = dl_block_size log"
  by (auto simp: dl_append_def dl_write_header_def Let_def case_prod_beta split: sum.splits)

lemma append_cut_states:
  assumes "dl_rep ops healthy log recs" and "length rec \<le> record_capacity (dl_block_size log)"
    and "length recs + 1 < unat (bo_count ops (dl_dev log))"
  shows "(\<exists>buf. dl_append_cut ops junk n log rec = fst (bo_write ops (dl_dev log) (dl_tail_seq log) buf)) \<or>
     dl_append_cut ops junk n log rec = dl_dev (fst (dl_append ops log rec))"
proof -
  from assms(1) have h: "dl_holds ops healthy log recs" and t: "dl_tail_seq log = of_nat (length recs) + 1"
    and start: "dl_data_start log = 1" by (auto simp: dl_rep_def dl_holds_def)
  have "length recs < unat (dl_tail_seq log)"
    using h t of_nat_less_u64 [of "length recs" "bo_count ops (dl_dev log)" "length recs"]
    by (simp add: dl_holds_def)
  then have nz: "dl_tail_seq log \<noteq> 0" by auto
  consider "n = 0" | "n = 1" | m where "n = Suc (Suc m)" by (metis One_nat_def not0_implies_Suc)
  then show ?thesis
  proof cases
    case 1
    then show ?thesis using assms(2) nz start
      by (auto simp: dl_append_cut_def dl_append_def dl_powered_def cut_ops_def cut_write_def Let_def)
  next
    case 2
    then show ?thesis using assms(2) nz start
      by (auto simp: dl_append_cut_def dl_append_def dl_powered_def cut_ops_def cut_write_def
          dl_write_header_def Let_def case_prod_beta split: sum.splits)
  next
    case (3 m)
    then show ?thesis using assms(2)
      by (auto simp: dl_append_cut_def dl_append_def dl_powered_def cut_ops_def cut_write_def
          dl_write_header_def Let_def case_prod_beta split: sum.splits)
  qed
qed

lemma append_cut_reopens:
  assumes "dl_rep ops healthy log recs" and "length rec \<le> record_capacity (dl_block_size log)"
    and "length recs + 1 < unat (bo_count ops (dl_dev log))"
  shows "\<exists>log'. dl_open_existing ops (dl_append_cut ops junk n log rec) (dl_block_size log) = Inr log' \<and>
     (dl_rep ops healthy log' recs \<or> dl_rep ops healthy log' (recs @ [rec]))"
  using append_cut_states [OF assms, of junk n]
proof (elim disjE exE)
  fix buf
  assume dev: "dl_append_cut ops junk n log rec = fst (bo_write ops (dl_dev log) (dl_tail_seq log) buf)"
  from assms(1) have h: "dl_holds ops healthy log recs" and t: "dl_tail_seq log = of_nat (length recs) + 1"
    by (auto simp: dl_rep_def)
  then have "length recs < unat (dl_tail_seq log)"
    using of_nat_less_u64 [of "length recs" "bo_count ops (dl_dev log)" "length recs"]
    by (simp add: dl_holds_def)
  with holds_write_beyond [OF h] have
    "dl_holds ops healthy (log\<lparr>dl_dev := fst (bo_write ops (dl_dev log) (dl_tail_seq log) buf)\<rparr>) recs" .
  from open_rep [OF this] dev show ?thesis by auto
next
  assume dev: "dl_append_cut ops junk n log rec = dl_dev (fst (dl_append ops log rec))"
  from append_rep [OF assms] obtain log1 where "dl_append ops log rec = (log1, Inr (of_nat (length recs) + 1))"
    "dl_rep ops healthy log1 (recs @ [rec])" by blast
  with open_rep [of log1 "recs @ [rec]"] dev append_block_size [of log rec] show ?thesis
    by (auto simp: dl_rep_def)
qed

lemma format_rep:
  assumes "healthy bs dev" and "32 \<le> bs" and "0 < bo_count ops dev"
    and "dl_read_into ops (dl_fresh dev bs) 0 512 = Inr hdr" and "slice 0 6 hdr \<noteq> LOG_MAGIC"
  shows "\<exists>log. dl_format ops dev bs = (log, Inr ()) \<and> dl_rep ops healthy log []"
proof -
  let ?log = "dl_fresh dev bs"
  let ?hdr = "dl_header_fields 1 @ le_bytes 4 (crc32 (dl_header_fields 1))"
  let ?log' = "?log\<lparr>dl_dev := fst (bo_write ops dev 0 (take (min bs 512) (dl_image 512 ?hdr)))\<rparr>"
  have "dl_format ops dev bs = (?log', Inr ())"
    using write_ok [of bs dev 0 "take (min bs 512) (dl_image 512 ?hdr)"] assms
    by (simp add: dl_format_def dl_write_header_def dl_header_bytes_image dl_fresh_def case_prod_beta Let_def)
  moreover have "dl_read_into ops ?log' 0 512 = Inr (dl_image 512 ?hdr)"
    using assms read_into_write [of ?log 0 ?hdr 512] by (simp add: dl_fresh_def)
  then have "dl_rep ops healthy ?log' []"
    using assms by (simp add: dl_rep_def dl_holds_def dl_fresh_def write_healthy write_count
        dl_header_bytes_image word_less_nat_alt)
  ultimately show ?thesis by blast
qed

end

text \<open>Without any law of the device: a scan only passes blocks whose records are valid.\<close>

lemma dl_scan_valid:
  "dl_scan ops log s tail = Inr e \<Longrightarrow> s \<le> t \<Longrightarrow> t < e \<Longrightarrow>
     t < tail \<and> (\<exists>buf. dl_read_into ops log (dl_data_start log + (t - 1)) 4096 = Inr buf \<and>
       dl_record_valid (record_capacity (dl_block_size log)) t buf)"
proof (induction ops log s tail rule: dl_scan.induct)
  case (1 ops log s tail)
  show ?case
  proof (cases "s < tail")
    case False
    with 1 show ?thesis by (simp add: dl_scan.simps [of ops log s tail])
  next
    case True
    show ?thesis
    proof (cases "dl_read_into ops log (dl_data_start log + (s - 1)) 4096")
      case (Inl e')
      with True 1 show ?thesis by (simp add: dl_scan.simps [of ops log s tail])
    next
      case (Inr buf)
      show ?thesis
      proof (cases "dl_record_valid (record_capacity (dl_block_size log)) s buf")
        case False
        with True Inr 1 show ?thesis by (simp add: dl_scan.simps [of ops log s tail])
      next
        case valid: True
        from True Inr valid 1(2) have "dl_scan ops log (s + 1) tail = Inr e"
          by (simp add: dl_scan.simps [of ops log s tail])
        moreover have "t = s \<or> s + 1 \<le> t"
          using 1(3) word_Suc_le [of s t] by (cases "s = t") auto
        ultimately show ?thesis using 1(1) [OF True Inr] valid True Inr 1(4) by auto
      qed
    qed
  qed
qed

lemma dl_scan_ge: "dl_scan ops log s tail = Inr e \<Longrightarrow> s \<le> e"
proof (induction ops log s tail rule: dl_scan.induct)
  case (1 ops log s tail)
  show ?case
  proof (cases "s < tail \<and> dl_scan ops log (s + 1) tail = Inr e")
    case True
    then have "s < s + 1" by (metis word_less_nat_alt unat_inc lessI)
    moreover have "s + 1 \<le> e" if "dl_read_into ops log (dl_data_start log + (s - 1)) 4096 = Inr buf"
      and "dl_record_valid (record_capacity (dl_block_size log)) s buf" for buf
      using 1(1) True that by blast
    ultimately show ?thesis using 1(2) True
      by (auto simp: dl_scan.simps [of ops log s tail] split: sum.splits if_splits)
  next
    case False
    with 1(2) show ?thesis
      by (auto simp: dl_scan.simps [of ops log s tail] split: sum.splits if_splits)
  qed
qed

section \<open>Properties\<close>

text \<open>A log the witnesses use: a formatted device of eight blocks of 64 bytes.\<close>

definition small_dev :: mock_device where
  "small_dev = \<lparr>md_blocks = replicate 8 (zeros 64),
     md_bad_block_table = \<lparr>bb_bad_blocks = [], bb_reserved_start = 7, bb_next_reserved = 7,
       bb_total_blocks = 8, bb_last_check_time = 0\<rparr>,
     md_block_size = 64, md_crc_error_blocks = []\<rparr>"

lemma small_dev_new: "md_new 8 64 = Some small_dev"
  by (simp add: md_new_def bb_new_def Let_def max_def small_dev_def)

lemma small_log: "\<exists>log. dl_format mock_ops small_dev 64 = (log, Inr ()) \<and> dl_rep mock_ops md_healthy log [] \<and>
    dl_block_size log = 64 \<and> md_block_count (dl_dev log) = 8"
proof -
  have m: "slice 0 6 (zeros 512) \<noteq> LOG_MAGIC"
  proof
    assume "slice 0 6 (zeros 512) = LOG_MAGIC"
    then have "slice 0 6 (zeros 512) ! 0 = LOG_MAGIC ! 0" by simp
    then show False by (simp add: slice_def LOG_MAGIC_def)
  qed
  have h: "md_healthy 64 small_dev" by (simp add: md_healthy_def small_dev_def list_all_iff)
  have r: "dl_read_into mock_ops (dl_fresh small_dev 64) 0 512 = Inr (zeros 512)"
    by (simp add: dl_read_into_def dl_fresh_def md_read_block_def small_dev_def bb_is_bad_def
        md_has_crc_error_def put_def Let_def flip: replicate_add)
  then have f: "dl_format mock_ops small_dev 64 = dl_write_header mock_ops (dl_fresh small_dev 64)"
    using m by (simp add: dl_format_def Let_def)
  obtain log where l: "dl_format mock_ops small_dev 64 = (log, Inr ())" "dl_rep mock_ops md_healthy log []"
    using mock_dev.format_rep [OF h _ _ r m] by (auto simp: small_dev_def md_block_count_def)
  have "md_block_count small_dev = 8" by (simp add: small_dev_def md_block_count_def)
  then have "dl_block_size log = 64" "md_block_count (dl_dev log) = 8"
    using l(1) mock_dev.write_count [of small_dev]
    by (auto simp: f dl_write_header_def dl_fresh_def Let_def case_prod_beta)
  with l show ?thesis by blast
qed

text \<open>C22. A record appended to a log that has room gets the next sequence number, and the log then
  represents the old records followed by the new one, which is what reading from the start
  delivers, in order and unchanged.\<close>

theorem log_append_then_read:
  assumes "dl_rep mock_ops md_healthy log recs"
    and "length rec \<le> record_capacity (dl_block_size log)"
    and "length recs + 1 < unat (md_block_count (dl_dev log))"
  shows "\<exists>log'. dl_append mock_ops log rec = (log', Inr (of_nat (length recs) + 1)) \<and>
     dl_rep mock_ops md_healthy log' (recs @ [rec]) \<and>
     dl_read_from mock_ops log' 1 =
       (map (\<lambda>i. (of_nat i + 1, (recs @ [rec]) ! i)) [0..<length recs + 1], Inr ())"
  using mock_dev.append_rep [OF assms(1,2)] assms(3) mock_dev.read_from_rep by fastforce

theorem log_append_then_read_witness:
  "\<exists>log log'. dl_append mock_ops log [7, 8, 9] = (log', Inr 1) \<and>
     dl_read_from mock_ops log' 1 = ([(1, [7, 8, 9])], Inr ())"
proof -
  obtain log where "dl_rep mock_ops md_healthy log []" "dl_block_size log = 64"
    "md_block_count (dl_dev log) = 8" using small_log by blast
  with log_append_then_read [of log "[]" "[7, 8, 9]"] show ?thesis by (auto simp: record_capacity_def)
qed

text \<open>C23. Power cuts: however many of its writes an append completes before the power fails, and whatever
  bytes the interrupted record write leaves, opening the device again succeeds and gives either
  exactly the records committed before or those and the new one.\<close>

theorem log_append_survives_power_cut:
  assumes "dl_rep mock_ops md_healthy log recs"
    and "length rec \<le> record_capacity (dl_block_size log)"
    and "length recs + 1 < unat (md_block_count (dl_dev log))"
  shows "\<exists>log' recs'. dl_open_existing mock_ops (dl_append_cut mock_ops junk n log rec) (dl_block_size log) = Inr log' \<and>
     recs' \<in> {recs, recs @ [rec]} \<and> dl_rep mock_ops md_healthy log' recs' \<and>
     dl_read_from mock_ops log' 1 = (map (\<lambda>i. (of_nat i + 1, recs' ! i)) [0..<length recs'], Inr ())"
proof -
  from mock_dev.append_cut_reopens [OF assms(1,2), of junk n] assms(3) obtain log' recs' where
    "dl_open_existing mock_ops (dl_append_cut mock_ops junk n log rec) (dl_block_size log) = Inr log'"
    "recs' \<in> {recs, recs @ [rec]}" "dl_rep mock_ops md_healthy log' recs'" by auto
  with mock_dev.read_from_rep show ?thesis by blast
qed

theorem log_append_survives_power_cut_witness:
  "\<exists>log log'. dl_format mock_ops small_dev 64 = (log, Inr ()) \<and>
     dl_open_existing mock_ops (dl_append_cut mock_ops [255, 255] 0 log [7, 8, 9]) 64 = Inr log'"
proof -
  obtain log where "dl_format mock_ops small_dev 64 = (log, Inr ())" "dl_rep mock_ops md_healthy log []"
    "dl_block_size log = 64" "md_block_count (dl_dev log) = 8" using small_log by blast
  with log_append_survives_power_cut [of log "[]" "[7, 8, 9]" "[255, 255]" 0] show ?thesis
    by (auto simp: record_capacity_def)
qed

text \<open>Recovery is fail-closed on any device: every sequence number it reports as committed is
  held by a block whose sequence number, length and checksum are valid.\<close>

theorem log_recover_only_valid:
  assumes "dl_recover ops log = (log', Inr n)" and "1 \<le> t" and "t \<le> n"
  shows "\<exists>buf. dl_read_into ops log (dl_data_start log + (t - 1)) 4096 = Inr buf \<and>
     dl_record_valid (record_capacity (dl_block_size log)) t buf"
proof -
  obtain h tail s where "dl_read_header ops log = Inr (h, tail)" and s: "dl_scan ops log 1 tail = Inr s"
    and n: "n = s - 1"
    using assms(1)
    by (auto simp: dl_recover_def dl_write_header_def Let_def split: sum.splits prod.splits)
  have "s \<noteq> 0" using dl_scan_ge [OF s] by auto
  then have "unat n < unat s" using n by (simp add: unat_minus_one unat_gt_0)
  then have "t < s" using assms(3) by (simp add: word_less_nat_alt word_le_nat_alt)
  from dl_scan_valid [OF s assms(2) this] show ?thesis by blast
qed

theorem log_recover_only_valid_witness:
  "\<exists>log log' n buf. dl_recover mock_ops log = (log', Inr n) \<and> 1 \<le> n \<and>
     dl_read_into mock_ops log (dl_data_start log + (1 - 1)) 4096 = Inr buf \<and>
     dl_record_valid (record_capacity (dl_block_size log)) 1 buf"
proof -
  obtain log where "dl_rep mock_ops md_healthy log []" "dl_block_size log = 64"
    "md_block_count (dl_dev log) = 8" using small_log by blast
  with mock_dev.append_rep [of log "[]" "[7]"] obtain log1 where
    "dl_holds mock_ops md_healthy log1 [[7]]" by (auto simp: record_capacity_def dl_rep_def)
  from mock_dev.recover_rep [OF this] obtain log2 where r: "dl_recover mock_ops log1 = (log2, Inr 1)" by auto
  from log_recover_only_valid [OF r, of 1] r show ?thesis by blast
qed

end
