(* ===== verification/Supervisor.thy ===== *)
theory Supervisor
  imports EnerOS_Prelude
begin

text \<open>
  The service supervisor of the root task (\<open>crates/runtime/root-task/src/supervisor.rs\<close>): the
  lifecycle state machine, the fault-recovery state machine with backoff and circuit breaker, the
  restart epochs that revoke old fencing tokens, the table of services, and the hang monitor.
  Ticks of the hang monitor are Rust's \<open>i64\<close>, kept as signed 64-bit words; the set of capability
  grants is a set of byte strings.
\<close>

section \<open>Lifecycle\<close>

datatype service_state = Running | Suspended | Faulted

datatype lifecycle_state =
  Declared | Verified | Created | Mapped | Configured | Started | Ready | Degraded | Failed
  | Restarting | Stopped

record lifecycle_error =
  le_from :: lifecycle_state
  le_to :: lifecycle_state

record service_lifecycle =
  sl_state :: lifecycle_state

definition lifecycle_new :: service_lifecycle where
  "lifecycle_new = \<lparr>sl_state = Declared\<rparr>"

definition lifecycle_allowed :: "lifecycle_state \<Rightarrow> lifecycle_state \<Rightarrow> bool" where
  "lifecycle_allowed from to =
     ((from, to) \<in> {(Declared, Verified), (Verified, Created), (Created, Mapped), (Mapped, Configured),
        (Configured, Started), (Started, Ready), (Started, Degraded), (Started, Failed),
        (Started, Stopped), (Ready, Degraded), (Ready, Failed), (Ready, Stopped), (Degraded, Ready),
        (Degraded, Failed), (Degraded, Stopped), (Failed, Restarting), (Failed, Stopped),
        (Restarting, Started), (Restarting, Failed)})"

definition lifecycle_try ::
  "service_lifecycle \<Rightarrow> lifecycle_state \<Rightarrow> service_lifecycle \<times> (lifecycle_error + unit)" where
  "lifecycle_try lc to =
     (if lifecycle_allowed (sl_state lc) to then (lc\<lparr>sl_state := to\<rparr>, Inr ())
      else (lc, Inl \<lparr>le_from = sl_state lc, le_to = to\<rparr>))"

section \<open>Capability grants\<close>

record capability_grant_set =
  cg_grants :: "bytes set"

definition grants_new :: capability_grant_set where
  "grants_new = \<lparr>cg_grants = {}\<rparr>"

definition grants_grant :: "capability_grant_set \<Rightarrow> bytes \<Rightarrow> capability_grant_set" where
  "grants_grant g capability = g\<lparr>cg_grants := insert capability (cg_grants g)\<rparr>"

definition grants_is_granted :: "capability_grant_set \<Rightarrow> bytes \<Rightarrow> bool" where
  "grants_is_granted g capability = (capability \<in> cg_grants g)"

definition grants_len :: "capability_grant_set \<Rightarrow> nat" where
  "grants_len g = card (cg_grants g)"

definition grants_is_empty :: "capability_grant_set \<Rightarrow> bool" where
  "grants_is_empty g = (cg_grants g = {})"

section \<open>Fault recovery of one service\<close>

datatype action = Restart u64 | MarkFaulted

definition BACKOFF_MS :: "u64 list" where
  "BACKOFF_MS = [1000, 2000, 4000, 8000, 16000, 32000, 60000]"
definition FAULT_THRESHOLD_PER_HOUR :: u64 where "FAULT_THRESHOLD_PER_HOUR = 5"
definition WINDOW_MS :: u64 where "WINDOW_MS = 3600000"

record service_supervisor =
  sv_name :: bytes
  sv_state :: service_state
  sv_lifecycle :: service_lifecycle
  sv_epoch :: u64
  sv_grants :: capability_grant_set
  sv_fault_count :: u64
  sv_window_start_ms :: u64
  sv_last_fault_ms :: u64
  sv_backoff_idx :: nat
  sv_restart_count :: u64

definition service_new :: "bytes \<Rightarrow> u64 \<Rightarrow> service_supervisor" where
  "service_new name now_ms =
     \<lparr>sv_name = name, sv_state = Running, sv_lifecycle = lifecycle_new, sv_epoch = 1,
      sv_grants = grants_new, sv_fault_count = 0, sv_window_start_ms = now_ms,
      sv_last_fault_ms = now_ms, sv_backoff_idx = 0, sv_restart_count = 0\<rparr>"

definition lifecycle_transition ::
  "service_supervisor \<Rightarrow> lifecycle_state \<Rightarrow> service_supervisor \<times> (lifecycle_error + unit)" where
  "lifecycle_transition s to =
     (let (lc, r) = lifecycle_try (sv_lifecycle s) to in (s\<lparr>sv_lifecycle := lc\<rparr>, r))"

text \<open>The loop over the targets, left at the first refused transition.\<close>

fun lifecycle_advance :: "service_supervisor \<Rightarrow> lifecycle_state list \<Rightarrow> service_supervisor" where
  "lifecycle_advance s [] = s"
| "lifecycle_advance s (target # rest) =
     (case lifecycle_transition s target of
        (s', Inl _) \<Rightarrow> s'
      | (s', Inr _) \<Rightarrow> lifecycle_advance s' rest)"

definition advance_lifecycle_to_started :: "service_supervisor \<Rightarrow> service_supervisor" where
  "advance_lifecycle_to_started s = lifecycle_advance s [Verified, Created, Mapped, Configured, Started]"

definition lifecycle_state_of :: "service_supervisor \<Rightarrow> lifecycle_state" where
  "lifecycle_state_of s = sl_state (sv_lifecycle s)"

definition fencing_token_valid :: "service_supervisor \<Rightarrow> u64 \<Rightarrow> bool" where
  "fencing_token_valid s token_epoch = (sv_epoch s \<le> token_epoch)"

definition capability_granted :: "service_supervisor \<Rightarrow> bytes \<Rightarrow> bool" where
  "capability_granted s capability = grants_is_granted (sv_grants s) capability"

definition on_fault :: "service_supervisor \<Rightarrow> u64 \<Rightarrow> service_supervisor \<times> action" where
  "on_fault s now_ms =
     (if sv_state s = Faulted then (s, MarkFaulted)
      else let s = (if WINDOW_MS < saturating_sub now_ms (sv_window_start_ms s)
                    then s\<lparr>sv_fault_count := 0, sv_backoff_idx := 0, sv_window_start_ms := now_ms\<rparr>
                    else s);
               s = s\<lparr>sv_fault_count := sv_fault_count s + 1, sv_last_fault_ms := now_ms\<rparr>
           in if FAULT_THRESHOLD_PER_HOUR < sv_fault_count s
              then (s\<lparr>sv_state := Faulted\<rparr>, MarkFaulted)
              else let delay_ms = BACKOFF_MS ! min (sv_backoff_idx s) (length BACKOFF_MS - 1);
                       s = (if sv_backoff_idx s < length BACKOFF_MS - 1
                            then s\<lparr>sv_backoff_idx := sv_backoff_idx s + 1\<rparr> else s)
                   in (s\<lparr>sv_state := Suspended\<rparr>, Restart delay_ms))"

definition restart_done :: "service_supervisor \<Rightarrow> service_supervisor" where
  "restart_done s =
     (if sv_state s = Suspended
      then s\<lparr>sv_state := Running, sv_restart_count := sv_restart_count s + 1,
             sv_epoch := saturating_add (sv_epoch s) 1\<rparr>
      else s)"

definition service_recover :: "service_supervisor \<Rightarrow> u64 \<Rightarrow> service_supervisor" where
  "service_recover s now_ms =
     s\<lparr>sv_state := Running, sv_fault_count := 0, sv_backoff_idx := 0, sv_window_start_ms := now_ms\<rparr>"

section \<open>The table of services\<close>

record supervisor =
  su_services :: "service_supervisor list"
  su_now_ms :: u64

definition supervisor_new :: "bytes list \<Rightarrow> u64 \<Rightarrow> supervisor" where
  "supervisor_new names now_ms =
     \<lparr>su_services = map (\<lambda>n. service_new n now_ms) names, su_now_ms = now_ms\<rparr>"

definition supervisor_advance :: "supervisor \<Rightarrow> u64 \<Rightarrow> supervisor" where
  "supervisor_advance s now_ms = s\<lparr>su_now_ms := now_ms\<rparr>"

definition on_service_fault :: "supervisor \<Rightarrow> nat \<Rightarrow> supervisor \<times> action option" where
  "on_service_fault s index =
     (if index < length (su_services s)
      then let (svc, a) = on_fault (su_services s ! index) (su_now_ms s)
           in (s\<lparr>su_services := (su_services s)[index := svc]\<rparr>, Some a)
      else (s, None))"

definition on_restart_done :: "supervisor \<Rightarrow> nat \<Rightarrow> supervisor" where
  "on_restart_done s index =
     (if index < length (su_services s)
      then s\<lparr>su_services := (su_services s)[index := restart_done (su_services s ! index)]\<rparr> else s)"

definition state_of :: "supervisor \<Rightarrow> nat \<Rightarrow> service_state option" where
  "state_of s index =
     (if index < length (su_services s) then Some (sv_state (su_services s ! index)) else None)"

section \<open>The hang monitor\<close>

datatype hang_verdict = TimedOut i64

record hang_monitor =
  hm_miss_limit :: i64
  hm_last_beat :: "i64 list"
  hm_probe_sent :: "i64 list"

definition hang_new :: "nat \<Rightarrow> i64 \<Rightarrow> hang_monitor" where
  "hang_new count miss_limit =
     \<lparr>hm_miss_limit = miss_limit, hm_last_beat = replicate count (- 1),
      hm_probe_sent = replicate count (- 1)\<rparr>"

definition note_request :: "hang_monitor \<Rightarrow> nat \<Rightarrow> i64 \<Rightarrow> hang_monitor" where
  "note_request h index tick =
     (if index < length (hm_probe_sent h)
      then h\<lparr>hm_probe_sent := (hm_probe_sent h)[index := tick]\<rparr> else h)"

text \<open>\<open>Vec::get\<close>.\<close>

definition vec_get :: "'a list \<Rightarrow> nat \<Rightarrow> 'a option" where
  "vec_get xs i = (if i < length xs then Some (xs ! i) else None)"

definition observe_beat :: "hang_monitor \<Rightarrow> nat \<Rightarrow> i64 \<Rightarrow> hang_monitor" where
  "observe_beat h index tick =
     (let h = (if index < length (hm_last_beat h)
               then h\<lparr>hm_last_beat := (hm_last_beat h)[index := tick]\<rparr> else h)
      in if vec_get (hm_probe_sent h) index = Some (- 1) then h
         else let cleared = (case (vec_get (hm_probe_sent h) index, vec_get (hm_last_beat h) index) of
                  (Some p, Some b) \<Rightarrow> 0 \<le> sint p \<and> sint p \<le> sint b
                | _ \<Rightarrow> False)
              in if cleared \<and> index < length (hm_probe_sent h)
                 then h\<lparr>hm_probe_sent := (hm_probe_sent h)[index := - 1]\<rparr> else h)"

definition hang_verdict_of :: "hang_monitor \<Rightarrow> nat \<Rightarrow> i64 \<Rightarrow> hang_verdict option" where
  "hang_verdict_of h index tick =
     (case vec_get (hm_probe_sent h) index of
        None \<Rightarrow> None
      | Some sent \<Rightarrow>
        if sint sent < 0 then None
        else let beat = (case vec_get (hm_last_beat h) index of Some b \<Rightarrow> b | None \<Rightarrow> - 1)
             in if sint (hm_miss_limit h) < sint (tick - beat) then Some (TimedOut (tick - sent))
                else None)"

definition clear_after_kill :: "hang_monitor \<Rightarrow> nat \<Rightarrow> i64 \<Rightarrow> hang_monitor" where
  "clear_after_kill h index tick =
     (let h = (if index < length (hm_probe_sent h)
               then h\<lparr>hm_probe_sent := (hm_probe_sent h)[index := - 1]\<rparr> else h)
      in if index < length (hm_last_beat h)
         then h\<lparr>hm_last_beat := (hm_last_beat h)[index := tick]\<rparr> else h)"

definition pending_since :: "hang_monitor \<Rightarrow> nat \<Rightarrow> i64 option" where
  "pending_since h index =
     (case vec_get (hm_probe_sent h) index of
        None \<Rightarrow> None
      | Some p \<Rightarrow> if 0 \<le> sint p then Some p else None)"

definition last_beat :: "hang_monitor \<Rightarrow> nat \<Rightarrow> i64" where
  "last_beat h index = (case vec_get (hm_last_beat h) index of Some b \<Rightarrow> b | None \<Rightarrow> - 1)"

section \<open>Runs of one service\<close>

text \<open>Everything that happens to one service: faults, finished restarts, lifecycle transitions, grants
  and the operator's recovery. \<open>service_run\<close> collects the supervisor's decisions.\<close>

datatype service_event =
  FaultAt u64 | RestartDone | LifecycleTo lifecycle_state | GrantCap bytes | RecoverAt u64

fun service_event_step :: "service_supervisor \<Rightarrow> service_event \<Rightarrow> service_supervisor \<times> action list" where
  "service_event_step s (FaultAt t) = (let (s', a) = on_fault s t in (s', [a]))"
| "service_event_step s RestartDone = (restart_done s, [])"
| "service_event_step s (LifecycleTo l) = (fst (lifecycle_transition s l), [])"
| "service_event_step s (GrantCap cap) = (s\<lparr>sv_grants := grants_grant (sv_grants s) cap\<rparr>, [])"
| "service_event_step s (RecoverAt t) = (service_recover s t, [])"

fun service_run :: "service_supervisor \<Rightarrow> service_event list \<Rightarrow> service_supervisor \<times> action list" where
  "service_run s [] = (s, [])"
| "service_run s (e # es) =
     (let (s', as) = service_event_step s e; (s'', bs) = service_run s' es in (s'', as @ bs))"

fun is_restart :: "action \<Rightarrow> bool" where
  "is_restart (Restart _) = True"
| "is_restart MarkFaulted = False"

definition restarts :: "action list \<Rightarrow> nat" where
  "restarts as = length (filter is_restart as)"

lemma restarts_simps [simp]:
  "restarts [] = 0" "restarts (a # as) = (if is_restart a then 1 else 0) + restarts as"
  "restarts (as @ bs) = restarts as + restarts bs"
  by (simp_all add: restarts_def)

lemma service_run_append:
  "service_run s (es @ fs) =
     (fst (service_run (fst (service_run s es)) fs),
      snd (service_run s es) @ snd (service_run (fst (service_run s es)) fs))"
  by (induction es arbitrary: s) (simp_all add: case_prod_beta Let_def)

text \<open>Of a service that is not faulted: the count is at most the threshold, and the backoff index is the
  count, so that the last two backoff steps are never reached.\<close>

definition service_inv :: "service_supervisor \<Rightarrow> bool" where
  "service_inv s \<longleftrightarrow>
     (sv_state s \<noteq> Faulted \<longrightarrow> sv_fault_count s \<le> 5 \<and> sv_backoff_idx s = unat (sv_fault_count s)) \<and>
     1 \<le> sv_epoch s"

lemma le5_cases: "(x :: u64) \<le> 5 \<Longrightarrow> x = 0 \<or> x = 1 \<or> x = 2 \<or> x = 3 \<or> x = 4 \<or> x = 5"
proof -
  assume "x \<le> 5"
  then have "unat x \<le> 5" by (simp add: word_le_nat_alt)
  then have "unat x \<in> {0, 1, 2, 3, 4, 5}" by auto
  then show ?thesis by (auto simp: word_unat_eq_iff)
qed

text \<open>One fault, as a case distinction: absorbed, refused with the breaker opening, or a restart.\<close>

definition window_expired :: "service_supervisor \<Rightarrow> u64 \<Rightarrow> bool" where
  "window_expired s t = (WINDOW_MS < saturating_sub t (sv_window_start_ms s))"

definition effective_count :: "service_supervisor \<Rightarrow> u64 \<Rightarrow> nat" where
  "effective_count s t = (if window_expired s t then 0 else unat (sv_fault_count s))"

lemma on_fault_absorbed: "sv_state s = Faulted \<Longrightarrow> on_fault s t = (s, MarkFaulted)"
  by (simp add: on_fault_def)

lemma on_fault_restart:
  assumes "service_inv s" and "sv_state s \<noteq> Faulted" and "effective_count s t < 5"
  shows "snd (on_fault s t) = Restart (1000 * 2 ^ effective_count s t)"
    and "sv_state (fst (on_fault s t)) = Suspended"
    and "unat (sv_fault_count (fst (on_fault s t))) = Suc (effective_count s t)"
    and "sv_window_start_ms (fst (on_fault s t)) = (if window_expired s t then t else sv_window_start_ms s)"
    and "service_inv (fst (on_fault s t))"
proof -
  have "sv_fault_count s \<le> 5" "sv_backoff_idx s = unat (sv_fault_count s)"
    using assms(1,2) by (auto simp: service_inv_def)
  with le5_cases [of "sv_fault_count s"] assms
  show "snd (on_fault s t) = Restart (1000 * 2 ^ effective_count s t)"
    "sv_state (fst (on_fault s t)) = Suspended"
    "unat (sv_fault_count (fst (on_fault s t))) = Suc (effective_count s t)"
    "sv_window_start_ms (fst (on_fault s t)) = (if window_expired s t then t else sv_window_start_ms s)"
    "service_inv (fst (on_fault s t))"
    by (auto simp: on_fault_def effective_count_def window_expired_def service_inv_def
        FAULT_THRESHOLD_PER_HOUR_def BACKOFF_MS_def Let_def nth_Cons_numeral)
qed

lemma on_fault_trips:
  assumes "service_inv s" and "sv_state s \<noteq> Faulted" and "\<not> effective_count s t < 5"
  shows "snd (on_fault s t) = MarkFaulted" and "sv_state (fst (on_fault s t)) = Faulted"
    and "service_inv (fst (on_fault s t))"
proof -
  have "sv_fault_count s \<le> 5" using assms(1,2) by (auto simp: service_inv_def)
  with le5_cases [of "sv_fault_count s"] assms
  show "snd (on_fault s t) = MarkFaulted" "sv_state (fst (on_fault s t)) = Faulted"
    "service_inv (fst (on_fault s t))"
    by (auto simp: on_fault_def effective_count_def window_expired_def service_inv_def
        FAULT_THRESHOLD_PER_HOUR_def Let_def split: if_splits)
qed

lemma on_fault_frame [simp]:
  "sv_epoch (fst (on_fault s t)) = sv_epoch s" "sv_lifecycle (fst (on_fault s t)) = sv_lifecycle s"
  "sv_grants (fst (on_fault s t)) = sv_grants s" "sv_restart_count (fst (on_fault s t)) = sv_restart_count s"
  by (auto simp: on_fault_def Let_def)

lemma on_fault_inv: "service_inv s \<Longrightarrow> service_inv (fst (on_fault s t))"
  using on_fault_restart(5) on_fault_trips(3) on_fault_absorbed by (metis fst_conv)

lemma lifecycle_transition_frame [simp]:
  "fst (lifecycle_transition s l) = s\<lparr>sv_lifecycle := fst (lifecycle_try (sv_lifecycle s) l)\<rparr>"
  by (simp add: lifecycle_transition_def case_prod_beta)

lemma service_event_inv: "service_inv s \<Longrightarrow> service_inv (fst (service_event_step s e))"
proof (cases e)
  case (FaultAt t)
  moreover assume "service_inv s"
  ultimately show ?thesis by (simp add: on_fault_inv case_prod_beta)
next
  case RestartDone
  moreover assume "service_inv s"
  moreover have "1 \<le> sv_epoch s \<Longrightarrow> 1 \<le> saturating_add (sv_epoch s) 1"
    using saturating_add_ge [of "sv_epoch s" 1] by (meson order_trans)
  ultimately show ?thesis by (auto simp: restart_done_def service_inv_def)
qed (auto simp: service_inv_def service_recover_def)

lemma service_run_inv: "service_inv s \<Longrightarrow> service_inv (fst (service_run s es))"
  by (induction es arbitrary: s) (auto simp: service_event_inv case_prod_beta Let_def)

lemma service_new_inv: "service_inv (service_new n t)"
  by (simp add: service_inv_def service_new_def)

section \<open>The restart rate\<close>

text \<open>Events whose faults lie in the window-long span from \<open>a\<close>, without operator recovery.\<close>

fun in_span :: "u64 \<Rightarrow> service_event \<Rightarrow> bool" where
  "in_span a (FaultAt t) = (a \<le> t \<and> t - a \<le> WINDOW_MS)"
| "in_span a (RecoverAt t) = False"
| "in_span a e = True"

definition restart_budget :: "u64 \<Rightarrow> service_supervisor \<Rightarrow> nat" where
  "restart_budget a s =
     (if sv_state s = Faulted then 0
      else 5 - unat (sv_fault_count s) + (if sv_window_start_ms s < a then 5 else 0))"

lemma window_expired_before:
  assumes "a \<le> t" and "t - a \<le> WINDOW_MS" and "window_expired s t"
  shows "sv_window_start_ms s < a"
  using assms
  by (auto simp: window_expired_def saturating_sub_def WINDOW_MS_def word_less_nat_alt word_le_nat_alt
      unat_sub split: if_splits)

lemma fault_spends_budget:
  assumes "service_inv s" and "a \<le> t" and "t - a \<le> WINDOW_MS"
  shows "restarts [snd (on_fault s t)] + restart_budget a (fst (on_fault s t)) \<le> restart_budget a s"
proof (cases "sv_state s = Faulted")
  case True
  then show ?thesis by (simp add: on_fault_absorbed)
next
  case False
  show ?thesis
  proof (cases "effective_count s t < 5")
    case True
    have "sv_fault_count s \<le> 5" using assms(1) False by (simp add: service_inv_def)
    then have "unat (sv_fault_count s) \<le> 5" by (simp add: word_le_nat_alt)
    with on_fault_restart(1-4) [OF assms(1) False True] False True window_expired_before [OF assms(2,3), of s] assms(2)
    show ?thesis by (auto simp: restart_budget_def effective_count_def)
  next
    case False2: False
    from on_fault_trips(1,2) [OF assms(1) False False2] show ?thesis by (simp add: restart_budget_def)
  qed
qed

lemma event_spends_budget:
  "service_inv s \<Longrightarrow> in_span a e \<Longrightarrow>
     restarts (snd (service_event_step s e)) + restart_budget a (fst (service_event_step s e)) \<le> restart_budget a s"
  using fault_spends_budget [of s a]
  by (cases e) (auto simp: case_prod_beta Let_def restart_budget_def restart_done_def)

lemma run_within_budget:
  "service_inv s \<Longrightarrow> list_all (in_span a) es \<Longrightarrow> restarts (snd (service_run s es)) \<le> restart_budget a s"
proof (induction es arbitrary: s)
  case (Cons e es)
  then have "restarts (snd (service_run (fst (service_event_step s e)) es)) \<le> restart_budget a (fst (service_event_step s e))"
    using service_event_inv by simp
  with event_spends_budget [of s a e] Cons.prems show ?case by (auto simp: case_prod_beta Let_def)
qed simp

lemma restart_budget_le: "restart_budget a s \<le> 10"
  by (auto simp: restart_budget_def)

section \<open>Epochs\<close>

lemma event_epoch: "sv_epoch s \<le> sv_epoch (fst (service_event_step s e))"
  by (cases e)
    (auto simp: case_prod_beta Let_def restart_done_def service_recover_def saturating_add_ge)

lemma run_epoch: "sv_epoch s \<le> sv_epoch (fst (service_run s es))"
proof (induction es arbitrary: s)
  case (Cons e es)
  from event_epoch [of s e] Cons [of "fst (service_event_step s e)"] show ?case
    by (auto simp: case_prod_beta Let_def)
qed simp

lemma restart_epoch:
  assumes "sv_state s = Suspended" and "sv_epoch s \<noteq> - 1"
  shows "sv_epoch s < sv_epoch (restart_done s)"
proof -
  have "sv_epoch s < - 1" using assms(2) by (simp add: order.strict_iff_order)
  then have "unat (sv_epoch s + 1) = Suc (unat (sv_epoch s))" by (rule unat_inc)
  moreover have "unat (sv_epoch s) + 1 < 2 ^ 64"
    using calculation unsigned_less [of "sv_epoch s + 1", where 'a = nat] by simp
  ultimately show ?thesis using assms(1)
    by (simp add: restart_done_def saturating_add_def word_less_nat_alt)
qed

section \<open>Lifecycle paths\<close>

text \<open>The states a lifecycle has accepted, in order.\<close>

fun lifecycle_path :: "lifecycle_state \<Rightarrow> lifecycle_state list \<Rightarrow> bool" where
  "lifecycle_path l [] = True"
| "lifecycle_path l (t # ts) = (lifecycle_allowed l t \<and> lifecycle_path t ts)"

lemma lifecycle_accepts:
  "snd (lifecycle_try lc l) = Inr () \<longleftrightarrow> lifecycle_allowed (sl_state lc) l"
  "sl_state (fst (lifecycle_try lc l)) = (if lifecycle_allowed (sl_state lc) l then l else sl_state lc)"
  by (auto simp: lifecycle_try_def)

lemma lifecycle_stopped_terminal: "\<not> lifecycle_allowed Stopped l"
  by (simp add: lifecycle_allowed_def)

lemma lifecycle_no_shortcut:
  assumes "lifecycle_path Declared ts" and "5 \<le> length ts"
  shows "take 5 ts = [Verified, Created, Mapped, Configured, Started]"
proof -
  obtain a b c d e us where "ts = a # b # c # d # e # us"
    using assms(2) by (auto simp: numeral_eq_Suc Suc_le_length_iff)
  with assms(1) show ?thesis by (auto simp: lifecycle_allowed_def)
qed

lemma advance_to_started: "lifecycle_state_of (advance_lifecycle_to_started (service_new n t)) = Started"
  by (simp add: advance_lifecycle_to_started_def lifecycle_state_of_def lifecycle_transition_def
      lifecycle_try_def lifecycle_allowed_def service_new_def lifecycle_new_def)

section \<open>Isolation\<close>

lemma service_fault_isolated:
  "j \<noteq> i \<Longrightarrow> vec_get (su_services (fst (on_service_fault s i))) j = vec_get (su_services s) j"
  "j \<noteq> i \<Longrightarrow> vec_get (su_services (on_restart_done s i)) j = vec_get (su_services s) j"
  by (auto simp: on_service_fault_def on_restart_done_def vec_get_def case_prod_beta)

section \<open>Runs of the hang monitor\<close>

datatype hang_event = Request nat i64 | Beat nat i64 | Killed nat i64

fun hang_step :: "hang_monitor \<Rightarrow> hang_event \<Rightarrow> hang_monitor" where
  "hang_step h (Request i t) = note_request h i t"
| "hang_step h (Beat i t) = observe_beat h i t"
| "hang_step h (Killed i t) = clear_after_kill h i t"

definition hang_run :: "hang_monitor \<Rightarrow> hang_event list \<Rightarrow> hang_monitor" where
  "hang_run h es = foldl hang_step h es"

fun hang_service :: "hang_event \<Rightarrow> nat" where
  "hang_service (Request i _) = i"
| "hang_service (Beat i _) = i"
| "hang_service (Killed i _) = i"

fun is_request_of :: "nat \<Rightarrow> hang_event \<Rightarrow> bool" where
  "is_request_of i (Request j _) = (j = i)"
| "is_request_of i _ = False"

text \<open>What the monitor knows of one service.\<close>

definition hang_view :: "hang_monitor \<Rightarrow> nat \<Rightarrow> i64 option \<times> i64 option" where
  "hang_view h i = (vec_get (hm_probe_sent h) i, vec_get (hm_last_beat h) i)"

lemma hang_verdict_view:
  "hang_verdict_of h i tick =
     (case hang_view h i of
        (Some sent, beat) \<Rightarrow>
          if \<not> sint sent < 0 \<and> sint (hm_miss_limit h) < sint (tick - case_option (- 1) id beat)
          then Some (TimedOut (tick - sent)) else None
      | _ \<Rightarrow> None)"
  by (auto simp: hang_verdict_of_def hang_view_def Let_def split: option.splits)

lemma hang_step_limit [simp]: "hm_miss_limit (hang_step h e) = hm_miss_limit h"
  by (cases e) (auto simp: note_request_def observe_beat_def clear_after_kill_def Let_def split: option.splits)

lemma hang_run_limit [simp]: "hm_miss_limit (hang_run h es) = hm_miss_limit h"
  by (induction es arbitrary: h) (simp_all add: hang_run_def)

lemma hang_step_other: "hang_service e \<noteq> i \<Longrightarrow> hang_view (hang_step h e) i = hang_view h i"
  by (cases e) (auto simp: note_request_def observe_beat_def clear_after_kill_def hang_view_def vec_get_def
      Let_def split: option.splits if_splits)

lemma hang_run_other: "list_all (\<lambda>e. hang_service e \<noteq> i) es \<Longrightarrow> hang_view (hang_run h es) i = hang_view h i"
proof (induction es arbitrary: h)
  case (Cons e es)
  then show ?case using hang_step_other [of e i h] by (simp add: hang_run_def)
qed (simp add: hang_run_def)

text \<open>A service with no request in flight.\<close>

definition hang_idle :: "hang_monitor \<Rightarrow> nat \<Rightarrow> bool" where
  "hang_idle h i \<longleftrightarrow> (case vec_get (hm_probe_sent h) i of None \<Rightarrow> True | Some p \<Rightarrow> sint p < 0)"

lemma sint_m1 [simp]: "sint (- 1 :: i64) = - 1"
  by simp

lemma hang_idle_step: "hang_idle h i \<Longrightarrow> \<not> is_request_of i e \<Longrightarrow> hang_idle (hang_step h e) i"
  by (cases e) (auto simp: note_request_def observe_beat_def clear_after_kill_def hang_idle_def vec_get_def
      nth_list_update Let_def split: option.splits if_splits)

lemma hang_idle_run: "hang_idle h i \<Longrightarrow> list_all (\<lambda>e. \<not> is_request_of i e) es \<Longrightarrow> hang_idle (hang_run h es) i"
proof (induction es arbitrary: h)
  case (Cons e es)
  then show ?case using hang_idle_step [of h i e] by (simp add: hang_run_def)
qed (simp add: hang_run_def)

lemma hang_idle_verdict: "hang_idle h i \<Longrightarrow> hang_verdict_of h i tick = None"
  by (auto simp: hang_idle_def hang_verdict_of_def split: option.splits)

lemma hang_answered:
  assumes "vec_get (hm_probe_sent h) i = Some p" and "0 \<le> sint p \<longrightarrow> sint p \<le> sint b"
    and "length (hm_last_beat h) = length (hm_probe_sent h)"
  shows "hang_idle (observe_beat h i b) i"
  using assms by (auto simp: hang_idle_def observe_beat_def vec_get_def Let_def split: if_splits)

lemma hang_noted:
  "i < length (hm_probe_sent h) \<Longrightarrow>
     hang_view (note_request h i p) i = (Some p, vec_get (hm_last_beat h) i)"
  by (simp add: hang_view_def note_request_def vec_get_def)

lemma hang_run_lengths:
  "length (hm_last_beat (hang_run h es)) = length (hm_last_beat h) \<and>
   length (hm_probe_sent (hang_run h es)) = length (hm_probe_sent h)"
proof (induction es arbitrary: h)
  case (Cons e es)
  have "length (hm_last_beat (hang_step h e)) = length (hm_last_beat h) \<and>
      length (hm_probe_sent (hang_step h e)) = length (hm_probe_sent h)"
    by (cases e) (auto simp: note_request_def observe_beat_def clear_after_kill_def Let_def)
  with Cons [of "hang_step h e"] show ?case by (simp add: hang_run_def)
qed (simp add: hang_run_def)

section \<open>Properties\<close>

text \<open>C27. The restart rate: whatever happens to a service, and in whatever order, in any hour-long span
  without operator recovery the supervisor orders at most ten restarts of it (five per fault
  window, and a span can meet two windows), and at most five when the service's window opened
  inside the span.\<close>

theorem supervisor_restart_rate:
  assumes "s = fst (service_run (service_new name t0) before)" and "list_all (in_span a) es"
  shows "restarts (snd (service_run s es)) \<le> 10 \<and>
     (a \<le> sv_window_start_ms s \<longrightarrow> restarts (snd (service_run s es)) \<le> 5)"
proof -
  have "service_inv s" using assms(1) service_run_inv service_new_inv by simp
  from run_within_budget [OF this assms(2)] restart_budget_le [of a s] show ?thesis
    by (auto simp: restart_budget_def not_less [symmetric] split: if_splits)
qed

text \<open>The bound of ten is met: five restarts at the end of the first window, with their backoff delays,
  and five more as soon as it has passed.\<close>

definition burst :: "u64 list \<Rightarrow> service_event list" where
  "burst ts = concat (map (\<lambda>t. [FaultAt t, RestartDone]) ts)"

lemma burst_restarts:
  "restarts (snd (service_run (service_new [] 0)
     (burst [3560000, 3561100, 3563200, 3567300, 3575400, 3600001, 3601100, 3603200, 3607300, 3615400]))) = 10"
  by (simp add: burst_def service_new_def on_fault_def restart_done_def WINDOW_MS_def saturating_sub_def
      FAULT_THRESHOLD_PER_HOUR_def BACKOFF_MS_def Let_def)

theorem supervisor_restart_rate_witness:
  "restarts (snd (service_run (service_new [] 0)
     (burst [3560000, 3561100, 3563200, 3567300, 3575400, 3600001, 3601100, 3603200, 3607300, 3615400]))) = 10 \<and>
   restarts (snd (service_run (service_new [] 0) (burst [1, 2, 3, 4, 5, 6, 7]))) \<le> 5"
  using supervisor_restart_rate [of "service_new [] 0" "[]" 0 "[]" 0 "burst [1, 2, 3, 4, 5, 6, 7]"] burst_restarts
  by (simp add: burst_def WINDOW_MS_def)

text \<open>A restart revokes: once a restart of a suspended service is done, a fencing token of its earlier
  epochs is invalid in every later state, until the epoch counter is exhausted.\<close>

theorem restart_revokes_tokens:
  assumes "sv_state s = Suspended" and "sv_epoch s \<noteq> - 1" and "token \<le> sv_epoch s"
  shows "\<not> fencing_token_valid (fst (service_run (restart_done s) es)) token"
  using restart_epoch [OF assms(1,2)] run_epoch [of "restart_done s" es] assms(3)
  by (auto simp: fencing_token_valid_def)

theorem restart_revokes_tokens_witness:
  "\<not> fencing_token_valid (fst (service_run (restart_done (fst (on_fault (service_new [] 0) 10)))
      [FaultAt 20, RestartDone, RecoverAt 30])) 1"
  by (rule restart_revokes_tokens)
    (simp_all add: on_fault_def service_new_def WINDOW_MS_def saturating_sub_def FAULT_THRESHOLD_PER_HOUR_def Let_def)

text \<open>The hang monitor: while a request to a service is unanswered the service is judged hung exactly
  when its last beat is more than the limit ago, whatever the other services do; and once it has
  answered with a beat not earlier than the request it is never judged hung before the next request.\<close>

theorem hang_monitor_judges:
  assumes "h = hang_run (hang_new count limit) before" and "i < count" and "0 \<le> sint p"
    and "list_all (\<lambda>e. hang_service e \<noteq> i) es"
    and "sint p \<le> sint b" and "list_all (\<lambda>e. \<not> is_request_of i e) es'"
  shows "hang_verdict_of (hang_run (note_request h i p) es) i tick =
       (if sint limit < sint (tick - last_beat h i) then Some (TimedOut (tick - p)) else None) \<and>
     hang_verdict_of (hang_run (observe_beat (hang_run (note_request h i p) es) i b) es') i tick = None"
proof -
  let ?h = "hang_run (note_request h i p) es"
  have len: "length (hm_last_beat h) = count" "length (hm_probe_sent h) = count" "hm_miss_limit h = limit"
    using assms(1) hang_run_lengths [of "hang_new count limit" before] by (simp_all add: hang_new_def)
  have limit: "hm_miss_limit ?h = limit" using len by (simp add: note_request_def)
  have view: "hang_view ?h i = (Some p, Some (last_beat h i))"
    using hang_run_other [OF assms(4)] hang_noted [of i h p] assms(2) len
    by (simp add: last_beat_def vec_get_def)
  then have "hang_idle (observe_beat ?h i b) i"
    using assms(5) len hang_run_lengths [of "note_request h i p" es]
    by (intro hang_answered) (auto simp: hang_view_def note_request_def)
  with hang_idle_run [OF _ assms(6)] hang_idle_verdict view limit assms(3) show ?thesis
    by (auto simp: hang_verdict_view)
qed

theorem hang_monitor_judges_witness:
  "hang_verdict_of (hang_run (note_request (hang_run (hang_new 2 150) [Beat 0 50]) 0 100) [Beat 1 120]) 0 201 =
     Some (TimedOut 101)"
  using hang_monitor_judges [of "hang_run (hang_new 2 150) [Beat 0 50]" 2 150 "[Beat 0 50]" 0 100
      "[Beat 1 120]" 100 "[]" 201]
  by (simp add: last_beat_def hang_run_def observe_beat_def hang_new_def vec_get_def numeral_2_eq_2 Let_def)

text \<open>A request to a service that has been idle for longer than the limit is judged hung in the very
  tick that sends it.\<close>

lemma hang_idle_request_times_out:
  "i < length (hm_probe_sent h) \<Longrightarrow> 0 \<le> sint tick \<Longrightarrow> sint (hm_miss_limit h) < sint (tick - last_beat h i) \<Longrightarrow>
     hang_verdict_of (note_request h i tick) i tick = Some (TimedOut 0)"
  using hang_noted [of i h tick]
  by (auto simp: hang_verdict_view last_beat_def note_request_def id_def split: option.splits)

end
