(* ===== verification/Durable_State.thy ===== *)
theory Durable_State
  imports Crc32
begin

text \<open>
  Durable state (\<open>crates/runtime/durable-state/src/lib.rs\<close>): the record format with length and
  checksum, the persistence interface \<open>PersistIo\<close> as a record of operations with the laws its
  clients rely on in a locale, the in-memory back end, and the two-slot state store with
  compare-and-swap. The store's state type comes with its \<open>Encode\<close> and \<open>Decode\<close> implementations,
  the record \<open>msg_codec\<close>. Offsets and lengths are added as natural numbers: regions lie far below
  the end of the 64-bit address range.
\<close>

section \<open>Basic types\<close>

type_synonym generation = u64

record 's versioned =
  vs_generation :: generation
  vs_state :: 's

datatype ds_error =
  DsUnavailable | DsWriteFailed | DsCorrupt | DsStaleGeneration generation generation
  | DsEncode string | DsOutOfSpace | DsOther string

text \<open>\<open>Encode\<close> and \<open>Decode\<close> of the stored type.\<close>

record 's msg_codec =
  mc_encode :: "'s \<Rightarrow> ds_error + bytes"
  mc_decode :: "bytes \<Rightarrow> ds_error + (generation \<times> 's)"

section \<open>The persistence interface\<close>

record 'io persist_ops =
  po_read :: "'io \<Rightarrow> u64 \<Rightarrow> nat \<Rightarrow> 'io \<times> (ds_error + bytes)"
  po_write :: "'io \<Rightarrow> u64 \<Rightarrow> bytes \<Rightarrow> 'io \<times> (ds_error + unit)"
  po_flush :: "'io \<Rightarrow> 'io \<times> (ds_error + unit)"

record mem_io =
  mi_bytes :: bytes
  mi_fail_writes :: bool
  mi_flush_ok :: bool
  mi_capacity :: u64

definition mi_new :: "u64 \<Rightarrow> mem_io" where
  "mi_new capacity =
     \<lparr>mi_bytes = zeros (unat capacity), mi_fail_writes = False, mi_flush_ok = True,
      mi_capacity = capacity\<rparr>"

definition mi_power_loss_tear :: "mem_io \<Rightarrow> u64 \<Rightarrow> mem_io" where
  "mi_power_loss_tear io truncate_at =
     io\<lparr>mi_bytes := take (unat truncate_at) (mi_bytes io) @
        replicate (length (mi_bytes io) - unat truncate_at) 0xFF\<rparr>"

definition mi_read :: "mem_io \<Rightarrow> u64 \<Rightarrow> nat \<Rightarrow> mem_io \<times> (ds_error + bytes)" where
  "mi_read io offset len =
     (let start = unat offset
      in if length (mi_bytes io) < start + len then (io, Inl DsOutOfSpace)
         else (io, Inr (slice start (start + len) (mi_bytes io))))"

definition mi_write :: "mem_io \<Rightarrow> u64 \<Rightarrow> bytes \<Rightarrow> mem_io \<times> (ds_error + unit)" where
  "mi_write io offset data =
     (if mi_fail_writes io then (io, Inl DsWriteFailed)
      else let start = unat offset
           in if length (mi_bytes io) < start + length data then (io, Inl DsOutOfSpace)
              else (io\<lparr>mi_bytes := put (mi_bytes io) start data\<rparr>, Inr ()))"

definition mi_flush :: "mem_io \<Rightarrow> mem_io \<times> (ds_error + unit)" where
  "mi_flush io = (if \<not> mi_flush_ok io then (io, Inl DsWriteFailed) else (io, Inr ()))"

definition mem_ops :: "mem_io persist_ops" where
  "mem_ops = \<lparr>po_read = mi_read, po_write = mi_write, po_flush = mi_flush\<rparr>"

text \<open>A back end in working order is an array of bytes.\<close>

locale persist_io =
  fixes ops :: "'io persist_ops" and contents :: "'io \<Rightarrow> bytes" and ready :: "'io \<Rightarrow> bool"
  assumes read_range: "ready io \<Longrightarrow> unat off + n \<le> length (contents io) \<Longrightarrow>
      po_read ops io off n = (io, Inr (slice (unat off) (unat off + n) (contents io)))"
    and write_range: "ready io \<Longrightarrow> unat off + length data \<le> length (contents io) \<Longrightarrow>
      \<exists>io'. po_write ops io off data = (io', Inr ()) \<and> ready io' \<and>
        contents io' = put (contents io) (unat off) data"
    and flush_ok: "ready io \<Longrightarrow> po_flush ops io = (io, Inr ())"
begin

lemma write_flush:
  assumes "ready io" and "unat off + length data \<le> length (contents io)"
  obtains io' where "po_write ops io off data = (io', Inr ())" "po_flush ops io' = (io', Inr ())"
    "ready io'" "contents io' = put (contents io) (unat off) data"
    "length (contents io') = length (contents io)"
  using write_range [OF assms] flush_ok assms(2) by (auto simp: length_put)

end

definition mem_ready :: "mem_io \<Rightarrow> bool" where
  "mem_ready io \<longleftrightarrow> \<not> mi_fail_writes io \<and> mi_flush_ok io"

interpretation mem_io: persist_io mem_ops mi_bytes mem_ready
  by unfold_locales (auto simp: mem_ops_def mi_read_def mi_write_def mi_flush_def mem_ready_def Let_def)

section \<open>The record format\<close>

definition MAGIC_STATE :: bytes where "MAGIC_STATE = [0x44, 0x53, 0x54, 0x41]"
definition MAGIC_SLOT :: bytes where "MAGIC_SLOT = [0x44, 0x4F, 0x42, 0x58]"
definition MAGIC_TAIL :: bytes where "MAGIC_TAIL = [0x44, 0x4F, 0x42, 0x54]"
definition RECORD_SCHEMA :: u8 where "RECORD_SCHEMA = 1"

definition encode_record :: "bytes \<Rightarrow> u8 \<Rightarrow> bytes \<Rightarrow> bytes" where
  "encode_record magic schema payload =
     (let out = magic @ [schema] @ le_bytes 4 (of_nat (length payload) :: u32) @ payload;
          crc = crc32 out
      in out @ le_bytes 4 crc)"

definition decode_record :: "bytes \<Rightarrow> ds_error + (bytes \<times> bytes)" where
  "decode_record bs =
     (if length bs < 13 then Inl DsCorrupt
      else let magic = slice 0 4 bs;
               schema = bs ! 4
           in if schema \<noteq> RECORD_SCHEMA then Inl DsCorrupt
              else let len = unat (from_le (slice 5 9 bs) :: u32)
                   in if length bs < len + 13 then Inl DsCorrupt
                      else let payload = slice 9 (9 + len) bs;
                               expected = from_le (slice (9 + len) (13 + len) bs)
                           in if crc32 (take (9 + len) bs) \<noteq> expected then Inl DsCorrupt
                              else Inr (magic, payload))"

lemma length_encode_record [simp]:
  "length magic = 4 \<Longrightarrow> length (encode_record magic schema payload) = 13 + length payload"
  by (simp add: encode_record_def Let_def)

text \<open>A record is read back whatever follows it in its slot.\<close>

lemma decode_encode_record:
  assumes "length magic = 4" and "length payload < 2 ^ 32"
  shows "decode_record (encode_record magic RECORD_SCHEMA payload @ rest) = Inr (magic, payload)"
proof -
  define h where "h = magic @ [RECORD_SCHEMA] @ le_bytes 4 (of_nat (length payload) :: u32)"
  define c where "c = le_bytes 4 (crc32 (h @ payload))"
  let ?bs = "h @ payload @ c @ rest"
  have e: "encode_record magic RECORD_SCHEMA payload @ rest = ?bs"
    by (simp add: encode_record_def Let_def h_def c_def)
  have n: "unat (of_nat (length payload) :: u32) = length payload"
    using assms(2) by (simp add: unsigned_of_nat take_bit_nat_eq_self)
  have len: "length h = 9" "length c = 4" using assms(1) by (simp_all add: h_def c_def)
  have s: "slice 0 4 ?bs = magic" "?bs ! 4 = RECORD_SCHEMA"
    "slice 5 9 ?bs = le_bytes 4 (of_nat (length payload) :: u32)"
    using assms(1) by (simp_all add: h_def slice_def nth_append)
  have t: "slice 9 (9 + length payload) ?bs = payload" "take (9 + length payload) ?bs = h @ payload"
    "slice (9 + length payload) (13 + length payload) ?bs = c"
    using len by (simp_all add: slice_def)
  have "from_le c = crc32 (h @ payload)" by (simp add: c_def)
  moreover have "13 \<le> length ?bs" "length payload + 13 \<le> length ?bs" using len by simp_all
  ultimately show ?thesis unfolding e decode_record_def by (simp add: s t n len Let_def)
qed

text \<open>Only records are read: what decodes starts with an encoded record.\<close>

lemma decode_record_sound:
  assumes "decode_record bs = Inr (magic, payload)"
  shows "take (13 + length payload) bs = encode_record magic RECORD_SCHEMA payload \<and> length magic = 4"
proof -
  define len where "len = unat (from_le (slice 5 9 bs) :: u32)"
  from assms have l: "13 \<le> length bs" "len + 13 \<le> length bs" "magic = slice 0 4 bs"
    "payload = slice 9 (9 + len) bs" "bs ! 4 = RECORD_SCHEMA"
    "crc32 (take (9 + len) bs) = from_le (slice (9 + len) (13 + len) bs)"
    by (auto simp: decode_record_def Let_def len_def split: if_splits)
  have pl: "length payload = len" using l by simp
  have "le_bytes 4 (of_nat len :: u32) = slice 5 9 bs"
    using l(1) by (simp add: len_def)
  moreover have "le_bytes 4 (crc32 (take (9 + len) bs)) = slice (9 + len) (13 + len) bs"
    using l(2,6) by simp
  moreover have "[RECORD_SCHEMA] = slice 4 5 bs" using l(1,5) slice_singleton [of 4 bs] by simp
  moreover have "take (9 + len) bs = slice 0 4 bs @ slice 4 5 bs @ slice 5 9 bs @ slice 9 (9 + len) bs"
    by (simp add: slice_join slice_join_left) (simp add: slice_def)
  moreover have "take (13 + len) bs = take (9 + len) bs @ slice (9 + len) (13 + len) bs"
    using slice_join [of 0 "9 + len" "13 + len" bs] by (simp add: slice_def)
  ultimately show ?thesis using l(1,3,4) pl by (simp add: encode_record_def Let_def)
qed

section \<open>The two-slot state store\<close>

record ('s, 'io) region_store =
  rs_io :: 'io
  rs_offset :: u64
  rs_len :: u64
  rs_current :: "'s versioned option"
  rs_latest_slot :: "nat option"

definition rs_new :: "'io \<Rightarrow> u64 \<Rightarrow> u64 \<Rightarrow> ('s, 'io) region_store" where
  "rs_new io region_offset region_len =
     \<lparr>rs_io = io, rs_offset = region_offset, rs_len = region_len, rs_current = None,
      rs_latest_slot = None\<rparr>"

definition slot_blank :: "bytes \<Rightarrow> bool" where
  "slot_blank s = (list_all (\<lambda>b. b = 0) s \<or> list_all (\<lambda>b. b = 0xFF) s)"

text \<open>What the scan makes of one slot: a snapshot, or nothing.\<close>

definition slot_snapshot :: "'s msg_codec \<Rightarrow> bytes \<Rightarrow> (generation \<times> 's) option" where
  "slot_snapshot cd s =
     (if slot_blank s then None
      else case decode_record s of
             Inl _ \<Rightarrow> None
           | Inr (magic, payload) \<Rightarrow>
             if magic \<noteq> MAGIC_STATE then None
             else (case mc_decode cd payload of Inl _ \<Rightarrow> None | Inr x \<Rightarrow> Some x))"

text \<open>One round of the scan: the best snapshot so far with its slot, and whether any slot has bytes.\<close>

definition rs_scan_slot ::
  "'s msg_codec \<Rightarrow> nat \<Rightarrow> bytes \<Rightarrow> (generation \<times> 's \<times> nat) option \<times> bool \<Rightarrow>
     (generation \<times> 's \<times> nat) option \<times> bool" where
  "rs_scan_slot cd slot s acc =
     (let (best, any_bytes) = acc
      in if slot_blank s then (best, any_bytes)
         else case slot_snapshot cd s of
                None \<Rightarrow> (best, True)
              | Some (g, state) \<Rightarrow>
                (if (case best of None \<Rightarrow> True | Some (g', _, _) \<Rightarrow> g' < g)
                 then Some (g, state, slot) else best, True))"

definition rs_open ::
  "'io persist_ops \<Rightarrow> 's msg_codec \<Rightarrow> ('s, 'io) region_store \<Rightarrow>
     ('s, 'io) region_store \<times> (ds_error + unit)" where
  "rs_open ops cd st =
     (if rs_len st < 128 then (st, Inl (DsOther ''region-too-small''))
      else let slot_len = unat (rs_len st div 2);
               (io, r) = po_read ops (rs_io st) (rs_offset st) (unat (rs_len st));
               st = st\<lparr>rs_io := io\<rparr>
           in case r of
                Inl _ \<Rightarrow> (st, Inl DsUnavailable)
              | Inr buf \<Rightarrow>
                (case rs_scan_slot cd 1 (slice slot_len (2 * slot_len) buf)
                        (rs_scan_slot cd 0 (slice 0 slot_len buf) (None, False)) of
                   (Some (g, state, slot), _) \<Rightarrow>
                     (st\<lparr>rs_current := Some \<lparr>vs_generation = g, vs_state = state\<rparr>,
                         rs_latest_slot := Some slot\<rparr>, Inr ())
                 | (None, True) \<Rightarrow> (st, Inl DsCorrupt)
                 | (None, False) \<Rightarrow> (st\<lparr>rs_current := None\<rparr>, Inr ())))"

definition rs_write_snapshot ::
  "'io persist_ops \<Rightarrow> 's msg_codec \<Rightarrow> ('s, 'io) region_store \<Rightarrow> generation \<Rightarrow> 's \<Rightarrow>
     ('s, 'io) region_store \<times> (ds_error + unit)" where
  "rs_write_snapshot ops cd st generation state =
     (let slot_len = unat (rs_len st div 2);
          slot = (case rs_latest_slot st of Some l \<Rightarrow> 1 - l | None \<Rightarrow> 0)
      in case mc_encode cd state of
           Inl e \<Rightarrow> (st, Inl e)
         | Inr body \<Rightarrow>
           let record = encode_record MAGIC_STATE RECORD_SCHEMA (le_bytes 8 generation @ body)
           in if slot_len < length record then (st, Inl DsOutOfSpace)
              else let off = rs_offset st + of_nat slot * of_nat slot_len;
                       (io, r) = po_write ops (rs_io st) off record;
                       st = st\<lparr>rs_io := io\<rparr>
                   in case r of
                        Inl _ \<Rightarrow> (st, Inl DsWriteFailed)
                      | Inr _ \<Rightarrow>
                        let (io, r) = po_flush ops (rs_io st);
                            st = st\<lparr>rs_io := io\<rparr>
                        in case r of
                             Inl _ \<Rightarrow> (st, Inl DsWriteFailed)
                           | Inr _ \<Rightarrow> (st\<lparr>rs_latest_slot := Some slot\<rparr>, Inr ()))"

definition rs_load ::
  "'io persist_ops \<Rightarrow> 's msg_codec \<Rightarrow> ('s, 'io) region_store \<Rightarrow>
     ('s, 'io) region_store \<times> (ds_error + 's versioned option)" where
  "rs_load ops cd st =
     (if rs_current st = None
      then case rs_open ops cd st of
             (st, Inl e) \<Rightarrow> (st, Inl e)
           | (st, Inr _) \<Rightarrow> (st, Inr (rs_current st))
      else (st, Inr (rs_current st)))"

definition current_generation :: "'s versioned option \<Rightarrow> generation" where
  "current_generation v = (case v of None \<Rightarrow> 0 | Some v \<Rightarrow> vs_generation v)"

definition rs_compare_and_swap ::
  "'io persist_ops \<Rightarrow> 's msg_codec \<Rightarrow> ('s, 'io) region_store \<Rightarrow> generation option \<Rightarrow> 's \<Rightarrow>
     ('s, 'io) region_store \<times> (ds_error + generation)" where
  "rs_compare_and_swap ops cd st expected next =
     (let current_gen = current_generation (rs_current st);
          expected_gen = (case expected of None \<Rightarrow> 0 | Some g \<Rightarrow> g)
      in if expected_gen \<noteq> current_gen then (st, Inl (DsStaleGeneration current_gen expected_gen))
         else let next_gen = current_gen + 1
              in case rs_write_snapshot ops cd st next_gen next of
                   (st, Inl e) \<Rightarrow> (st, Inl e)
                 | (st, Inr _) \<Rightarrow>
                   (st\<lparr>rs_current := Some \<lparr>vs_generation = next_gen, vs_state = next\<rparr>\<rparr>, Inr next_gen))"

text \<open>The in-memory store, which is also the specification.\<close>

definition mem_compare_and_swap ::
  "'s versioned option \<Rightarrow> generation option \<Rightarrow> 's \<Rightarrow> 's versioned option \<times> (ds_error + generation)" where
  "mem_compare_and_swap current expected next =
     (let current_gen = current_generation current;
          expected_gen = (case expected of None \<Rightarrow> 0 | Some g \<Rightarrow> g)
      in if expected_gen \<noteq> current_gen then (current, Inl (DsStaleGeneration current_gen expected_gen))
         else let next_gen = current_gen + 1
              in (Some \<lparr>vs_generation = next_gen, vs_state = next\<rparr>, Inr next_gen))"

section \<open>What the region holds\<close>

definition region_slot :: "bytes \<Rightarrow> u64 \<Rightarrow> u64 \<Rightarrow> nat \<Rightarrow> bytes" where
  "region_slot bs off len k =
     (let n = unat len div 2 in slice (unat off + k * n) (unat off + k * n + n) bs)"

fun snapshot_older :: "(generation \<times> 's) option \<Rightarrow> generation \<Rightarrow> bool" where
  "snapshot_older None g = True"
| "snapshot_older (Some (g', _)) g = (g' < g)"

text \<open>The region holds the value \<open>v\<close>, its latest record in slot \<open>l\<close>; the other slot holds an older
  snapshot or nothing readable. An empty region is blank.\<close>

definition rs_holds ::
  "'s msg_codec \<Rightarrow> bytes \<Rightarrow> u64 \<Rightarrow> u64 \<Rightarrow> 's versioned option \<Rightarrow> nat option \<Rightarrow> bool" where
  "rs_holds cd bs off len v l \<longleftrightarrow>
     128 \<le> len \<and> unat off + unat len \<le> length bs \<and> length bs < 2 ^ 64 \<and>
     (case v of
        None \<Rightarrow> l = None \<and> slot_blank (region_slot bs off len 0) \<and> slot_blank (region_slot bs off len 1)
      | Some v \<Rightarrow> \<exists>k < 2. l = Some k \<and>
          slot_snapshot cd (region_slot bs off len k) = Some (vs_generation v, vs_state v) \<and>
          snapshot_older (slot_snapshot cd (region_slot bs off len (1 - k))) (vs_generation v))"

text \<open>A codec that reads back what it writes, behind the generation the store puts in front.\<close>

definition codec_ok :: "'s msg_codec \<Rightarrow> 's \<Rightarrow> bytes \<Rightarrow> bool" where
  "codec_ok cd s body \<longleftrightarrow>
     mc_encode cd s = Inr body \<and> (\<forall>g. mc_decode cd (le_bytes 8 g @ body) = Inr (g, s))"

lemma slot_snapshot_blank: "slot_blank s \<Longrightarrow> slot_snapshot cd s = None"
  by (simp add: slot_snapshot_def)

lemma snapshot_not_blank: "slot_snapshot cd s = Some x \<Longrightarrow> \<not> slot_blank s"
  by (auto simp: slot_snapshot_def)

lemma snapshot_of_record:
  assumes "codec_ok cd s body" and "length body + 8 < 2 ^ 32"
  shows "slot_snapshot cd (encode_record MAGIC_STATE RECORD_SCHEMA (le_bytes 8 g @ body) @ rest) = Some (g, s)"
proof -
  let ?r = "encode_record MAGIC_STATE RECORD_SCHEMA (le_bytes 8 g @ body)"
  have "\<not> slot_blank (?r @ rest)"
    by (simp add: slot_blank_def encode_record_def MAGIC_STATE_def Let_def)
  moreover have "decode_record (?r @ rest) = Inr (MAGIC_STATE, le_bytes 8 g @ body)"
    using assms(2) by (intro decode_encode_record) (simp_all add: MAGIC_STATE_def)
  ultimately show ?thesis using assms(1) by (simp add: slot_snapshot_def codec_ok_def)
qed

lemma half_word: "unat (len div 2) = unat (len :: u64) div 2"
  by (simp add: unat_div)

lemma scan_pair:
  "rs_scan_slot cd (Suc 0) s1 (rs_scan_slot cd 0 s0 (None, False)) =
     (case (slot_snapshot cd s0, slot_snapshot cd s1) of
        (Some (g0, x0), Some (g1, x1)) \<Rightarrow> (if g0 < g1 then Some (g1, x1, 1) else Some (g0, x0, 0), True)
      | (Some (g0, x0), None) \<Rightarrow> (Some (g0, x0, 0), True)
      | (None, Some (g1, x1)) \<Rightarrow> (Some (g1, x1, 1), True)
      | (None, None) \<Rightarrow> (None, \<not> (slot_blank s0 \<and> slot_blank s1)))"
  by (auto simp: rs_scan_slot_def Let_def slot_snapshot_blank split: option.splits prod.splits)

context persist_io
begin

lemma open_slots:
  assumes "ready io" and "128 \<le> len" and "unat off + unat len \<le> length (contents io)"
  shows "rs_open ops cd (rs_new io off len) =
     (case rs_scan_slot cd 1 (region_slot (contents io) off len 1)
             (rs_scan_slot cd 0 (region_slot (contents io) off len 0) (None, False)) of
        (Some (g, state, slot), _) \<Rightarrow>
          ((rs_new io off len)\<lparr>rs_current := Some \<lparr>vs_generation = g, vs_state = state\<rparr>,
              rs_latest_slot := Some slot\<rparr>, Inr ())
      | (None, True) \<Rightarrow> (rs_new io off len, Inl DsCorrupt)
      | (None, False) \<Rightarrow> (rs_new io off len, Inr ()))"
proof -
  have "slice 0 (unat len div 2) (slice (unat off) (unat off + unat len) (contents io)) =
      region_slot (contents io) off len 0"
    "slice (unat len div 2) (2 * (unat len div 2)) (slice (unat off) (unat off + unat len) (contents io)) =
      region_slot (contents io) off len 1"
    by (simp_all add: slice_slice region_slot_def Let_def mult_2 add.assoc)
  moreover have "\<not> len < 128" using assms(2) by auto
  ultimately show ?thesis
    using read_range [OF assms(1,3)]
    by (simp add: rs_open_def rs_new_def half_word Let_def split: prod.splits option.splits bool.splits)
qed

lemma open_holds:
  assumes "ready io" and "rs_holds cd (contents io) off len v l"
  shows "rs_open ops cd (rs_new io off len) =
     (\<lparr>rs_io = io, rs_offset = off, rs_len = len, rs_current = v, rs_latest_slot = l\<rparr>, Inr ())"
proof -
  note h = assms(2) [unfolded rs_holds_def]
  note o = open_slots [OF assms(1), of len off cd]
  show ?thesis
  proof (cases v)
    case None
    with h o show ?thesis by (simp add: scan_pair slot_snapshot_blank rs_new_def)
  next
    case (Some w)
    with h obtain k where k: "k < 2" "l = Some k"
      "slot_snapshot cd (region_slot (contents io) off len k) = Some (vs_generation w, vs_state w)"
      "snapshot_older (slot_snapshot cd (region_slot (contents io) off len (1 - k))) (vs_generation w)"
      by auto
    from k(1) consider "k = 0" | "k = 1" by linarith
    then show ?thesis
    proof cases
      case 1
      with k h o Some show ?thesis
        by (cases "slot_snapshot cd (region_slot (contents io) off len 1)") (auto simp: scan_pair rs_new_def)
    next
      case 2
      with k h o Some show ?thesis
        by (cases "slot_snapshot cd (region_slot (contents io) off len 0)") (auto simp: scan_pair rs_new_def)
    qed
  qed
qed

end

text \<open>Writing one slot leaves the other alone.\<close>

lemma region_slot_put:
  assumes "unat off + unat len \<le> length bs" and "k < 2" and "length r \<le> unat len div 2"
  shows "region_slot (put bs (unat off + k * (unat len div 2)) r) off len k =
      r @ slice (unat off + k * (unat len div 2) + length r)
        (unat off + k * (unat len div 2) + unat len div 2) bs"
    and "region_slot (put bs (unat off + k * (unat len div 2)) r) off len (1 - k) = region_slot bs off len (1 - k)"
proof -
  let ?n = "unat len div 2"
  have le: "unat off + k * ?n \<le> length bs" using assms by (cases k) auto
  then show "region_slot (put bs (unat off + k * ?n) r) off len k =
      r @ slice (unat off + k * ?n + length r) (unat off + k * ?n + ?n) bs"
    using assms(3) by (simp add: region_slot_def slice_put_prefix Let_def)
  from assms(2) consider "k = 0" | "k = 1" by linarith
  then show "region_slot (put bs (unat off + k * ?n) r) off len (1 - k) = region_slot bs off len (1 - k)"
    using le assms(3)
    by cases (simp_all add: region_slot_def slice_put_after slice_put_before Let_def)
qed

text \<open>Where a snapshot goes, and the bytes it writes there.\<close>

definition snapshot_slot :: "nat option \<Rightarrow> nat" where
  "snapshot_slot l = (case l of Some l \<Rightarrow> 1 - l | None \<Rightarrow> 0)"

definition snapshot_record :: "generation \<Rightarrow> bytes \<Rightarrow> bytes" where
  "snapshot_record g body = encode_record MAGIC_STATE RECORD_SCHEMA (le_bytes 8 g @ body)"

lemma length_snapshot_record [simp]: "length (snapshot_record g body) = 21 + length body"
  by (simp add: snapshot_record_def MAGIC_STATE_def)

text \<open>The slot after a write of \<open>r\<close>: the old bytes remain behind it.\<close>

definition written_slot :: "bytes \<Rightarrow> u64 \<Rightarrow> u64 \<Rightarrow> nat \<Rightarrow> bytes \<Rightarrow> bytes" where
  "written_slot bs off len k r = region_slot (put bs (unat off + k * (unat len div 2)) r) off len k"

lemma rs_holds_put:
  assumes "rs_holds cd bs off len (Some v) l" and "length r \<le> unat len div 2"
    and "slot_snapshot cd (written_slot bs off len (snapshot_slot l) r) = w"
  shows "w = None \<Longrightarrow>
      rs_holds cd (put bs (unat off + snapshot_slot l * (unat len div 2)) r) off len (Some v) l"
    and "w = Some (g, s) \<Longrightarrow> vs_generation v < g \<Longrightarrow>
      rs_holds cd (put bs (unat off + snapshot_slot l * (unat len div 2)) r) off len
        (Some \<lparr>vs_generation = g, vs_state = s\<rparr>) (Some (snapshot_slot l))"
proof -
  note h = assms(1) [unfolded rs_holds_def]
  from h obtain k where k: "k < 2" "l = Some k"
    "slot_snapshot cd (region_slot bs off len k) = Some (vs_generation v, vs_state v)" by auto
  have sl: "snapshot_slot l = 1 - k" "1 - k < 2" "1 - (1 - k) = k" using k by (auto simp: snapshot_slot_def)
  have le: "unat off + snapshot_slot l * (unat len div 2) + length r \<le> length bs"
    using h assms(2) k(1) sl(1) by (cases k) auto
  have other: "region_slot (put bs (unat off + snapshot_slot l * (unat len div 2)) r) off len k =
      region_slot bs off len k"
    using region_slot_put(2) [of off len bs "1 - k" r] h sl assms(2) by simp
  show "rs_holds cd (put bs (unat off + snapshot_slot l * (unat len div 2)) r) off len (Some v) l" if "w = None"
    using that assms(3) h k other sl le by (auto simp: rs_holds_def written_slot_def length_put)
  show "rs_holds cd (put bs (unat off + snapshot_slot l * (unat len div 2)) r) off len
      (Some \<lparr>vs_generation = g, vs_state = s\<rparr>) (Some (snapshot_slot l))"
    if "w = Some (g, s)" "vs_generation v < g"
    using that assms(3) h k other sl le
    by (auto simp: rs_holds_def written_slot_def length_put intro!: exI [of _ "1 - k"])
qed

lemma rs_holds_put_first:
  assumes "rs_holds cd bs off len None l" and "length r \<le> unat len div 2"
    and "slot_snapshot cd (written_slot bs off len (snapshot_slot l) r) = Some (g, s)" 
  shows "rs_holds cd (put bs (unat off + snapshot_slot l * (unat len div 2)) r) off len
      (Some \<lparr>vs_generation = g, vs_state = s\<rparr>) (Some (snapshot_slot l))"
proof -
  note h = assms(1) [unfolded rs_holds_def]
  then have "snapshot_slot l = 0" by (simp add: snapshot_slot_def)
  moreover have "region_slot (put bs (unat off) r) off len 1 = region_slot bs off len 1"
    using region_slot_put(2) [of off len bs 0 r] h assms(2) by simp
  moreover have "unat off + length r \<le> length bs" using h assms(2) by auto
  ultimately show ?thesis using h assms(3)
    by (auto simp: rs_holds_def written_slot_def length_put slot_snapshot_blank intro!: exI [of _ 0])
qed

text \<open>The offset of a slot, computed in machine arithmetic, is the offset of the slot.\<close>

lemma slot_offset_unat:
  assumes "rs_holds cd bs off len v l"
  shows "unat (off + of_nat (snapshot_slot l) * of_nat (unat (len div 2))) =
    unat off + snapshot_slot l * (unat len div 2)"
proof -
  have "snapshot_slot l < 2"
    using assms by (auto simp: rs_holds_def snapshot_slot_def split: option.splits)
  then have "snapshot_slot l * (unat len div 2) \<le> unat len" by (cases "snapshot_slot l") auto
  then have "unat off + snapshot_slot l * (unat len div 2) < 2 ^ 64"
    using assms by (auto simp: rs_holds_def)
  moreover have "off + of_nat (snapshot_slot l) * of_nat (unat (len div 2)) =
      of_nat (unat off + snapshot_slot l * (unat len div 2))" by (simp add: half_word)
  ultimately show ?thesis by (simp add: unsigned_of_nat take_bit_nat_eq_self del: of_nat_add of_nat_mult)
qed

context persist_io
begin

text \<open>A swap whose snapshot fits is the swap of the specification, and the region then holds the new
  value.\<close>

lemma cas_rep:
  assumes "ready io" and "rs_holds cd (contents io) off len v l"
    and "codec_ok cd next body" and "21 + length body \<le> unat len div 2" and "length body + 8 < 2 ^ 32"
    and "current_generation v \<noteq> - 1"
  shows "\<exists>io' v' l'. ready io' \<and> rs_holds cd (contents io') off len v' l' \<and>
     rs_compare_and_swap ops cd \<lparr>rs_io = io, rs_offset = off, rs_len = len, rs_current = v, rs_latest_slot = l\<rparr>
       expected next =
     (\<lparr>rs_io = io', rs_offset = off, rs_len = len, rs_current = v', rs_latest_slot = l'\<rparr>,
      snd (mem_compare_and_swap v expected next)) \<and>
     v' = fst (mem_compare_and_swap v expected next)"
proof (cases "case_option 0 (\<lambda>g. g) expected = current_generation v")
  case False
  then have "mem_compare_and_swap v expected next =
      (v, Inl (DsStaleGeneration (current_generation v) (case_option 0 (\<lambda>g. g) expected)))"
    by (simp add: mem_compare_and_swap_def Let_def)
  with False assms(1,2) show ?thesis
    by (intro exI [of _ io] exI [of _ v] exI [of _ l]) (auto simp: rs_compare_and_swap_def Let_def)
next
  case True
  let ?g = "current_generation v + 1" and ?r = "snapshot_record (current_generation v + 1) body"
  let ?off = "off + of_nat (snapshot_slot l) * of_nat (unat (len div 2))"
  let ?v' = "\<lparr>vs_generation = current_generation v + 1, vs_state = next\<rparr>"
  have off: "unat ?off = unat off + snapshot_slot l * (unat len div 2)"
    by (rule slot_offset_unat [OF assms(2)])
  have "snapshot_slot l < 2"
    using assms(2) by (auto simp: rs_holds_def snapshot_slot_def split: option.splits)
  then have fits: "unat ?off + length ?r \<le> length (contents io)"
    using assms(2,4) unfolding off by (cases "snapshot_slot l") (auto simp: rs_holds_def)
  obtain io' where io': "po_write ops io ?off ?r = (io', Inr ())" "po_flush ops io' = (io', Inr ())"
    "ready io'" "contents io' = put (contents io) (unat ?off) ?r"
    by (rule write_flush [OF assms(1) fits])
  have inc: "current_generation v < ?g"
  proof -
    have "current_generation v < - 1" using assms(6) by (simp add: order.strict_iff_order)
    from word_Suc_le [OF this] show ?thesis by simp
  qed
  have "slot_snapshot cd (written_slot (contents io) off len (snapshot_slot l) ?r) = Some (?g, next)"
    using region_slot_put(1) [of off len "contents io" "snapshot_slot l" ?r] assms(2,4) \<open>snapshot_slot l < 2\<close>
      snapshot_of_record [OF assms(3,5), of ?g]
    by (simp add: written_slot_def snapshot_record_def [symmetric] rs_holds_def)
  then have "rs_holds cd (contents io') off len (Some ?v') (Some (snapshot_slot l))"
    using assms(2,4) inc rs_holds_put(2) [of cd "contents io" off len _ l ?r] rs_holds_put_first [of cd "contents io" off len l ?r]
    unfolding io'(4) off by (cases v) (auto simp: current_generation_def)
  moreover have "rs_write_snapshot ops cd \<lparr>rs_io = io, rs_offset = off, rs_len = len, rs_current = v,
      rs_latest_slot = l\<rparr> ?g next =
      (\<lparr>rs_io = io', rs_offset = off, rs_len = len, rs_current = v,
        rs_latest_slot = Some (snapshot_slot l)\<rparr>, Inr ())"
    using assms(3,4) io'(1,2)
    by (simp add: rs_write_snapshot_def codec_ok_def snapshot_record_def [symmetric] snapshot_slot_def [symmetric]
        half_word [symmetric] Let_def)
  ultimately show ?thesis using True io'(3)
    by (auto simp: rs_compare_and_swap_def mem_compare_and_swap_def Let_def)
qed

end

section \<open>Power cuts\<close>

text \<open>A back end whose power lasts for a number of further writes. The write during which it fails
  leaves any bytes \<open>junk\<close> in the place of those it was writing; later writes do nothing.\<close>

record 'io powered_io =
  pi_io :: 'io
  pi_left :: "nat option"

definition torn_bytes :: "bytes \<Rightarrow> bytes \<Rightarrow> bytes" where
  "torn_bytes junk data = take (length data) junk @ drop (length junk) data"

lemma length_torn_bytes [simp]: "length (torn_bytes junk data) = length data"
  by (simp add: torn_bytes_def)

definition pio_write ::
  "'io persist_ops \<Rightarrow> bytes \<Rightarrow> 'io powered_io \<Rightarrow> u64 \<Rightarrow> bytes \<Rightarrow> 'io powered_io \<times> (ds_error + unit)" where
  "pio_write ops junk p off data =
     (case pi_left p of
        None \<Rightarrow> (p, Inl DsUnavailable)
      | Some 0 \<Rightarrow>
        (\<lparr>pi_io = fst (po_write ops (pi_io p) off (torn_bytes junk data)), pi_left = None\<rparr>, Inl DsUnavailable)
      | Some (Suc n) \<Rightarrow>
        let (io, r) = po_write ops (pi_io p) off data in (\<lparr>pi_io = io, pi_left = Some n\<rparr>, r))"

definition pio_ops :: "'io persist_ops \<Rightarrow> bytes \<Rightarrow> 'io powered_io persist_ops" where
  "pio_ops ops junk =
     \<lparr>po_read = (\<lambda>p off n. let (io, r) = po_read ops (pi_io p) off n in (p\<lparr>pi_io := io\<rparr>, r)),
      po_write = pio_write ops junk,
      po_flush = (\<lambda>p. let (io, r) = po_flush ops (pi_io p) in (p\<lparr>pi_io := io\<rparr>, r))\<rparr>"

text \<open>What a swap leaves on the medium when the power lasts for \<open>n\<close> writes.\<close>

definition rs_cas_cut ::
  "'io persist_ops \<Rightarrow> 's msg_codec \<Rightarrow> bytes \<Rightarrow> nat \<Rightarrow> ('s, 'io) region_store \<Rightarrow> generation option \<Rightarrow> 's \<Rightarrow> 'io" where
  "rs_cas_cut ops cd junk n st expected next =
     pi_io (rs_io (fst (rs_compare_and_swap (pio_ops ops junk) cd
       \<lparr>rs_io = \<lparr>pi_io = rs_io st, pi_left = Some n\<rparr>, rs_offset = rs_offset st, rs_len = rs_len st,
        rs_current = rs_current st, rs_latest_slot = rs_latest_slot st\<rparr> expected next)))"

text \<open>The checksum sees the tear: the slot being written, torn, is either unreadable or already the
  complete new snapshot.\<close>

definition tear_detected ::
  "'s msg_codec \<Rightarrow> bytes \<Rightarrow> u64 \<Rightarrow> u64 \<Rightarrow> nat option \<Rightarrow> generation \<Rightarrow> 's \<Rightarrow> bytes \<Rightarrow> bytes \<Rightarrow> bool" where
  "tear_detected cd bs off len l g next body junk \<longleftrightarrow>
     slot_snapshot cd (written_slot bs off len (snapshot_slot l) (torn_bytes junk (snapshot_record g body)))
       \<in> {None, Some (g, next)}"

context persist_io
begin

lemma cas_cut_exact:
  assumes "ready io" and "rs_holds cd (contents io) off len v l"
    and "codec_ok cd next body" and "21 + length body \<le> unat len div 2"
    and "case_option 0 (\<lambda>g. g) expected = current_generation v"
  shows "\<exists>io'. ready io' \<and>
     rs_cas_cut ops cd junk n \<lparr>rs_io = io, rs_offset = off, rs_len = len, rs_current = v, rs_latest_slot = l\<rparr>
       expected next = io' \<and>
     contents io' = put (contents io) (unat off + snapshot_slot l * (unat len div 2))
       (if n = 0 then torn_bytes junk (snapshot_record (current_generation v + 1) body)
        else snapshot_record (current_generation v + 1) body)"
proof -
  let ?r = "snapshot_record (current_generation v + 1) body"
  let ?off = "off + of_nat (snapshot_slot l) * of_nat (unat (len div 2))"
  let ?data = "if n = 0 then torn_bytes junk ?r else ?r"
  have off: "unat ?off = unat off + snapshot_slot l * (unat len div 2)"
    by (rule slot_offset_unat [OF assms(2)])
  have "snapshot_slot l < 2"
    using assms(2) by (auto simp: rs_holds_def snapshot_slot_def split: option.splits)
  then have fits: "unat ?off + length ?data \<le> length (contents io)"
    using assms(2,4) unfolding off by (cases "snapshot_slot l") (auto simp: rs_holds_def)
  obtain io' where io': "po_write ops io ?off ?data = (io', Inr ())" "po_flush ops io' = (io', Inr ())"
    "ready io'" "contents io' = put (contents io) (unat ?off) ?data"
    by (rule write_flush [OF assms(1) fits])
  have "rs_cas_cut ops cd junk n \<lparr>rs_io = io, rs_offset = off, rs_len = len, rs_current = v,
      rs_latest_slot = l\<rparr> expected next = io'"
    using assms(3-5) io'(1,2)
    by (cases n) (simp_all add: rs_cas_cut_def rs_compare_and_swap_def rs_write_snapshot_def codec_ok_def
        snapshot_record_def [symmetric] snapshot_slot_def [symmetric] half_word [symmetric] pio_ops_def
        pio_write_def Let_def)
  with io'(3,4) show ?thesis unfolding off by blast
qed

lemma cas_cut_states:
  assumes "ready io" and "rs_holds cd (contents io) off len v l"
    and "codec_ok cd next body" and "21 + length body \<le> unat len div 2"
  shows "\<exists>io'. ready io' \<and>
     rs_cas_cut ops cd junk n \<lparr>rs_io = io, rs_offset = off, rs_len = len, rs_current = v, rs_latest_slot = l\<rparr>
       expected next = io' \<and>
     (io' = io \<or> 
      (\<exists>data. contents io' = put (contents io) (unat off + snapshot_slot l * (unat len div 2)) data \<and>
        (data = snapshot_record (current_generation v + 1) body \<or>
         data = torn_bytes junk (snapshot_record (current_generation v + 1) body))))"
proof (cases "case_option 0 (\<lambda>g. g) expected = current_generation v")
  case False
  with assms(1) show ?thesis by (auto simp: rs_cas_cut_def rs_compare_and_swap_def Let_def)
next
  case True
  from cas_cut_exact [OF assms True, of junk n] show ?thesis by (cases "n = 0") auto
qed

text \<open>The very first write has no older snapshot to fall back on.\<close>

lemma first_write_tear_corrupt:
  assumes "ready io" and "rs_holds cd (contents io) off len None None"
    and "codec_ok cd next body" and "21 + length body \<le> unat len div 2"
    and "slot_snapshot cd (written_slot (contents io) off len 0 (torn_bytes junk (snapshot_record 1 body))) = None"
    and "\<not> slot_blank (written_slot (contents io) off len 0 (torn_bytes junk (snapshot_record 1 body)))"
  shows "snd (rs_open ops cd (rs_new (rs_cas_cut ops cd junk 0 \<lparr>rs_io = io, rs_offset = off, rs_len = len,
       rs_current = None, rs_latest_slot = None\<rparr> None next) off len)) = Inl DsCorrupt"
proof -
  note h = assms(2) [unfolded rs_holds_def]
  let ?r = "torn_bytes junk (snapshot_record 1 body)"
  obtain io' where io': "ready io'"
    "rs_cas_cut ops cd junk 0 \<lparr>rs_io = io, rs_offset = off, rs_len = len, rs_current = None,
       rs_latest_slot = None\<rparr> None next = io'"
    "contents io' = put (contents io) (unat off) ?r"
    using cas_cut_exact [OF assms(1-4), of None junk 0] by (auto simp: current_generation_def snapshot_slot_def)
  have "region_slot (put (contents io) (unat off) ?r) off len 1 = region_slot (contents io) off len 1"
    using region_slot_put(2) [of off len "contents io" 0 ?r] h assms(4) by simp
  then have "slot_snapshot cd (region_slot (contents io') off len (Suc 0)) = None"
    using h by (simp add: io'(3) slot_snapshot_blank)
  moreover have "unat off + length ?r \<le> length (contents io)" using h assms(4) by auto
  then have "unat off + unat len \<le> length (contents io')" using h by (simp add: io'(3) length_put)
  ultimately show ?thesis
    using open_slots [OF io'(1), of len off cd] h assms(5,6)
    by (simp add: io'(2) scan_pair io'(3) written_slot_def)
qed

lemma cas_cut_reopens:
  assumes "ready io" and "rs_holds cd (contents io) off len (Some v) l"
    and "codec_ok cd next body" and "21 + length body \<le> unat len div 2" and "length body + 8 < 2 ^ 32"
    and "vs_generation v \<noteq> - 1"
    and "tear_detected cd (contents io) off len l (vs_generation v + 1) next body junk"
  shows "\<exists>st. rs_open ops cd (rs_new (rs_cas_cut ops cd junk n \<lparr>rs_io = io, rs_offset = off, rs_len = len,
       rs_current = Some v, rs_latest_slot = l\<rparr> expected next) off len) = (st, Inr ()) \<and>
     rs_current st \<in> {Some v, Some \<lparr>vs_generation = vs_generation v + 1, vs_state = next\<rparr>}"
proof -
  let ?g = "vs_generation v + 1"
  have inc: "vs_generation v < ?g"
  proof -
    have "vs_generation v < - 1" using assms(6) by (simp add: order.strict_iff_order)
    from word_Suc_le [OF this] show ?thesis by simp
  qed
  have sl: "snapshot_slot l < 2"
    using assms(2) by (auto simp: rs_holds_def snapshot_slot_def)
  have full: "slot_snapshot cd (written_slot (contents io) off len (snapshot_slot l) (snapshot_record ?g body)) =
      Some (?g, next)"
    using region_slot_put(1) [of off len "contents io" "snapshot_slot l" "snapshot_record ?g body"] assms(2,4) sl
      snapshot_of_record [OF assms(3,5), of ?g]
    by (simp add: written_slot_def snapshot_record_def [symmetric] rs_holds_def)
  obtain io' where io': "ready io'"
    "rs_cas_cut ops cd junk n \<lparr>rs_io = io, rs_offset = off, rs_len = len, rs_current = Some v,
       rs_latest_slot = l\<rparr> expected next = io'"
    "io' = io \<or> (\<exists>data. contents io' = put (contents io) (unat off + snapshot_slot l * (unat len div 2)) data \<and>
        (data = snapshot_record ?g body \<or> data = torn_bytes junk (snapshot_record ?g body)))"
    using cas_cut_states [OF assms(1-4), of junk n expected] by (auto simp: current_generation_def)
  have "\<exists>w l'. rs_holds cd (contents io') off len w l' \<and>
      w \<in> {Some v, Some \<lparr>vs_generation = ?g, vs_state = next\<rparr>}"
    using io'(3)
  proof (elim disjE exE conjE)
    fix data
    assume data: "contents io' = put (contents io) (unat off + snapshot_slot l * (unat len div 2)) data"
      "data = snapshot_record ?g body"
    with rs_holds_put(2) [OF assms(2) _ full _ inc] assms(4) show ?thesis by auto
  next
    fix data
    assume data: "contents io' = put (contents io) (unat off + snapshot_slot l * (unat len div 2)) data"
      "data = torn_bytes junk (snapshot_record ?g body)"
    from assms(7) consider
      "slot_snapshot cd (written_slot (contents io) off len (snapshot_slot l) data) = None"
      | "slot_snapshot cd (written_slot (contents io) off len (snapshot_slot l) data) = Some (?g, next)"
      unfolding tear_detected_def data(2) by auto
    then show ?thesis
    proof cases
      case 1
      from rs_holds_put(1) [OF assms(2) _ 1 refl] assms(4) data show ?thesis by auto
    next
      case 2
      have "length data \<le> unat len div 2" using data(2) assms(4) by simp
      from rs_holds_put(2) [OF assms(2) this 2 refl inc] data(1) show ?thesis by auto
    qed
  qed (use assms(2) in auto)
  with open_holds [OF io'(1)] io'(2) show ?thesis by fastforce
qed

end

section \<open>Properties\<close>

text \<open>The state store refines its specification: on a region that holds a value, a compare-and-swap
  whose snapshot fits returns what the in-memory store returns, the stale-generation error
  included, and opening the region again gives the value the in-memory store then has.\<close>

theorem state_swap_refines:
  assumes "mem_ready io" and "rs_holds cd (mi_bytes io) off len v l"
    and "codec_ok cd next body" and "21 + length body \<le> unat len div 2" and "length body + 8 < 2 ^ 32"
    and "current_generation v \<noteq> - 1"
    and "rs_compare_and_swap mem_ops cd \<lparr>rs_io = io, rs_offset = off, rs_len = len, rs_current = v,
      rs_latest_slot = l\<rparr> expected next = (st, r)"
  shows "r = snd (mem_compare_and_swap v expected next) \<and>
     rs_current st = fst (mem_compare_and_swap v expected next) \<and>
     rs_open mem_ops cd (rs_new (rs_io st) off len) = (st, Inr ())"
proof -
  from mem_io.cas_rep [OF assms(1-6), of expected] assms(7) obtain io' v' l' where
    s: "mem_ready io'" "rs_holds cd (mi_bytes io') off len v' l'"
    "st = \<lparr>rs_io = io', rs_offset = off, rs_len = len, rs_current = v', rs_latest_slot = l'\<rparr>"
    "r = snd (mem_compare_and_swap v expected next)" "v' = fst (mem_compare_and_swap v expected next)"
    by auto
  with mem_io.open_holds [OF s(1,2)] show ?thesis by simp
qed

text \<open>Byte strings as stored values, and a blank medium of 256 bytes.\<close>

definition bytes_codec :: "bytes msg_codec" where
  "bytes_codec = \<lparr>mc_encode = Inr, mc_decode = (\<lambda>bs. Inr (from_le (take 8 bs), drop 8 bs))\<rparr>"

lemma bytes_codec_ok: "codec_ok bytes_codec s s"
  by (simp add: codec_ok_def bytes_codec_def)

lemma blank_holds: "rs_holds cd (mi_bytes (mi_new 256)) 0 256 None None"
  by (simp add: rs_holds_def mi_new_def region_slot_def slot_blank_def slice_def list_all_iff Let_def)

lemma mem_ready_new: "mem_ready (mi_new n)"
  by (simp add: mem_ready_def mi_new_def)

lemma first_snapshot:
  obtains io l where "mem_ready io"
    "rs_holds bytes_codec (mi_bytes io) 0 256 (Some \<lparr>vs_generation = 1, vs_state = [7]\<rparr>) l"
  using mem_io.cas_rep [OF mem_ready_new blank_holds bytes_codec_ok, of "[7]" None]
  by (auto simp: current_generation_def mem_compare_and_swap_def)

theorem state_swap_refines_witness:
  "\<exists>st r. rs_compare_and_swap mem_ops bytes_codec \<lparr>rs_io = mi_new 256, rs_offset = 0, rs_len = 256,
      rs_current = None, rs_latest_slot = None\<rparr> None [7] = (st, r) \<and> r = Inr 1 \<and>
     rs_open mem_ops bytes_codec (rs_new (rs_io st) 0 256) = (st, Inr ())"
proof -
  obtain st r where c: "rs_compare_and_swap mem_ops bytes_codec \<lparr>rs_io = mi_new 256, rs_offset = 0, rs_len = 256,
      rs_current = None, rs_latest_slot = None\<rparr> None [7] = (st, r)" by force
  from state_swap_refines [OF mem_ready_new blank_holds bytes_codec_ok _ _ _ c] c show ?thesis
    by (auto simp: current_generation_def mem_compare_and_swap_def)
qed

text \<open>C24. Power cuts: when a swap on a region that holds a value is cut off during its write, and the
  checksum sees the tear, opening the region again gives the old value or the complete new one.\<close>

theorem state_swap_survives_power_cut:
  assumes "mem_ready io" and "rs_holds cd (mi_bytes io) off len (Some v) l"
    and "codec_ok cd next body" and "21 + length body \<le> unat len div 2" and "length body + 8 < 2 ^ 32"
    and "vs_generation v \<noteq> - 1"
    and "tear_detected cd (mi_bytes io) off len l (vs_generation v + 1) next body junk"
  shows "\<exists>st. rs_open mem_ops cd (rs_new (rs_cas_cut mem_ops cd junk n \<lparr>rs_io = io, rs_offset = off, rs_len = len,
       rs_current = Some v, rs_latest_slot = l\<rparr> expected next) off len) = (st, Inr ()) \<and>
     rs_current st \<in> {Some v, Some \<lparr>vs_generation = vs_generation v + 1, vs_state = next\<rparr>}"
  using assms by (rule mem_io.cas_cut_reopens)

text \<open>A tear that spoils the first byte is seen.\<close>

lemma spoiled_magic_detected:
  assumes "rs_holds cd bs off len v l" and "21 + length body \<le> unat len div 2"
  shows "tear_detected cd bs off len l g next body [0]"
proof -
  have "snapshot_slot l < 2"
    using assms(1) by (auto simp: rs_holds_def snapshot_slot_def split: option.splits)
  then obtain rest where "written_slot bs off len (snapshot_slot l) (torn_bytes [0] (snapshot_record g body)) = 0 # rest"
    using region_slot_put(1) [of off len bs "snapshot_slot l" "torn_bytes [0] (snapshot_record g body)"] assms
    by (simp add: written_slot_def rs_holds_def torn_bytes_def)
  moreover have "slot_snapshot cd (0 # rest) = None"
    by (auto simp: slot_snapshot_def decode_record_def MAGIC_STATE_def slice_def Let_def split: if_splits)
  ultimately show ?thesis by (simp add: tear_detected_def)
qed

theorem state_swap_survives_power_cut_witness:
  "\<exists>io l st. rs_open mem_ops bytes_codec (rs_new (rs_cas_cut mem_ops bytes_codec [0] 0 \<lparr>rs_io = io, rs_offset = 0,
       rs_len = 256, rs_current = Some \<lparr>vs_generation = 1, vs_state = [7]\<rparr>, rs_latest_slot = l\<rparr> (Some 1) [8]) 0 256) =
     (st, Inr ())"
proof -
  obtain io l where s: "mem_ready io"
    "rs_holds bytes_codec (mi_bytes io) 0 256 (Some \<lparr>vs_generation = 1, vs_state = [7]\<rparr>) l"
    by (rule first_snapshot)
  from state_swap_survives_power_cut [OF s bytes_codec_ok, of "[8]" "[0]" 0 "Some 1"]
    spoiled_magic_detected [OF s(2), of "[8]"] show ?thesis by auto
qed

end
