(* ===== verification/Durable_Outbox.thy ===== *)
theory Durable_Outbox
  imports Durable_State Ordered_Map
begin

text \<open>
  The durable outbox (\<open>crates/runtime/durable-state/src/lib.rs\<close>): \<open>AppendOutbox\<close>, a tail record and
  fixed-length slots, each rewritten in place as its message is queued, sent and acknowledged, and
  \<open>MemOutbox\<close>, its in-memory counterpart.
\<close>

section \<open>Data\<close>

datatype message_state = Queued | Sent | PeerAcked

record 'm pending =
  pe_id :: u64
  pe_idempotency :: bytes
  pe_message :: 'm
  pe_attempts :: u32
  pe_last_sent_at_ms :: u64
  pe_state :: message_state

record peer_receipt =
  pr_peer :: bytes
  pr_receipt_id :: u64
  pr_at_ms :: u64

record ('m, 'io) outbox =
  ob_io :: 'io
  ob_base :: u64
  ob_slot_len :: nat
  ob_max_slots :: nat
  ob_next_id :: u64
  ob_slots :: "(u64, u32) btree"
  ob_pending :: "(u64, 'm pending) btree"

definition ob_new :: "'io \<Rightarrow> u64 \<Rightarrow> nat \<Rightarrow> nat \<Rightarrow> ('m, 'io) outbox" where
  "ob_new io base slot_len max_slots =
     \<lparr>ob_io = io, ob_base = base, ob_slot_len = max slot_len 64, ob_max_slots = max max_slots 1,
      ob_next_id = 0, ob_slots = bt_empty, ob_pending = bt_empty\<rparr>"

definition TAIL_LEN :: u64 where "TAIL_LEN = 64"

definition slot_offset :: "('m, 'io) outbox \<Rightarrow> u32 \<Rightarrow> u64" where
  "slot_offset ob index = ob_base ob + TAIL_LEN + ucast index * of_nat (ob_slot_len ob)"

section \<open>Slot payloads\<close>

fun message_state_code :: "message_state \<Rightarrow> u8" where
  "message_state_code Queued = 0"
| "message_state_code Sent = 1"
| "message_state_code PeerAcked = 2"

definition encode_slot_payload :: "'m msg_codec \<Rightarrow> 'm pending \<Rightarrow> ds_error + bytes" where
  "encode_slot_payload cd p =
     and_then (mc_encode cd (pe_message p)) (\<lambda>msg.
       Inr (le_bytes 8 (pe_id p) @ pe_idempotency p @ le_bytes 4 (pe_attempts p) @
            le_bytes 8 (pe_last_sent_at_ms p) @ [message_state_code (pe_state p)] @ msg))"

definition decode_slot_payload :: "'m msg_codec \<Rightarrow> bytes \<Rightarrow> ds_error + 'm pending" where
  "decode_slot_payload cd bs =
     (if length bs < 37 then Inl DsCorrupt
      else let c = bs ! 36
           in if c \<noteq> 0 \<and> c \<noteq> 1 \<and> c \<noteq> 2 then Inl DsCorrupt
              else and_then (mc_decode cd (drop 37 bs)) (\<lambda>(g, message).
                Inr \<lparr>pe_id = from_le (slice 0 8 bs), pe_idempotency = slice 8 24 bs,
                     pe_message = message, pe_attempts = from_le (slice 24 28 bs),
                     pe_last_sent_at_ms = from_le (slice 28 36 bs),
                     pe_state = (if c = 0 then Queued else if c = 1 then Sent else PeerAcked)\<rparr>))"

section \<open>Opening\<close>

text \<open>What the scan makes of the bytes of one slot.\<close>

definition slot_pending :: "'m msg_codec \<Rightarrow> bytes \<Rightarrow> 'm pending option" where
  "slot_pending cd bs =
     (case decode_record bs of
        Inl _ \<Rightarrow> None
      | Inr (magic, payload) \<Rightarrow>
        if magic \<noteq> MAGIC_SLOT then None
        else (case decode_slot_payload cd payload of Inl _ \<Rightarrow> None | Inr p \<Rightarrow> Some p))"

text \<open>The scan over the slots \<open>is\<close>, with the greatest message id seen so far. A read that fails ends
  it.\<close>

fun ob_scan ::
  "'io persist_ops \<Rightarrow> 'm msg_codec \<Rightarrow> nat list \<Rightarrow> ('m, 'io) outbox \<Rightarrow> u64 option \<Rightarrow>
     ('m, 'io) outbox \<times> (ds_error + u64 option)" where
  "ob_scan ops cd [] ob seen = (ob, Inr seen)"
| "ob_scan ops cd (i # is) ob seen =
     (let (io, r) = po_read ops (ob_io ob) (slot_offset ob (of_nat i)) (ob_slot_len ob);
          ob = ob\<lparr>ob_io := io\<rparr>
      in case r of
           Inl _ \<Rightarrow> (ob, Inl DsUnavailable)
         | Inr slot \<Rightarrow>
           (case slot_pending cd slot of
              None \<Rightarrow> ob_scan ops cd is ob seen
            | Some p \<Rightarrow>
              let seen = Some (case seen of None \<Rightarrow> pe_id p | Some m \<Rightarrow> max m (pe_id p))
              in if pe_state p = PeerAcked then ob_scan ops cd is ob seen
                 else ob_scan ops cd is
                   (ob\<lparr>ob_slots := bt_insert (ob_slots ob) (pe_id p) (of_nat i),
                       ob_pending := bt_insert (ob_pending ob) (pe_id p) p\<rparr>) seen))"

definition ob_open ::
  "'io persist_ops \<Rightarrow> 'm msg_codec \<Rightarrow> ('m, 'io) outbox \<Rightarrow> ('m, 'io) outbox \<times> (ds_error + unit)" where
  "ob_open ops cd ob =
     (let (io, r) = po_read ops (ob_io ob) (ob_base ob) 64;
          ob = ob\<lparr>ob_io := io\<rparr>
      in case r of
           Inl _ \<Rightarrow> (ob, Inl DsUnavailable)
         | Inr buf \<Rightarrow>
           (case (case decode_record buf of
                    Inr (magic, payload) \<Rightarrow>
                      if magic \<noteq> MAGIC_TAIL then Inl DsCorrupt
                      else if length payload < 8 then Inl DsCorrupt
                      else Inr (from_le (slice 0 8 payload))
                  | Inl DsCorrupt \<Rightarrow> Inr 0
                  | Inl e \<Rightarrow> Inl e) of
              Inl e \<Rightarrow> (ob, Inl e)
            | Inr tail_next \<Rightarrow>
              let ob = ob\<lparr>ob_next_id := tail_next\<rparr>
              in case ob_scan ops cd [0..<ob_max_slots ob] ob None of
                   (ob, Inl e) \<Rightarrow> (ob, Inl e)
                 | (ob, Inr None) \<Rightarrow> (ob, Inr ())
                 | (ob, Inr (Some max_id)) \<Rightarrow>
                   (if ob_next_id ob \<le> max_id then ob\<lparr>ob_next_id := max_id + 1\<rparr> else ob, Inr ())))"

section \<open>Writing\<close>

definition ob_write_flush ::
  "'io persist_ops \<Rightarrow> ('m, 'io) outbox \<Rightarrow> u64 \<Rightarrow> bytes \<Rightarrow> ('m, 'io) outbox \<times> (ds_error + unit)" where
  "ob_write_flush ops ob off buf =
     (let (io, r) = po_write ops (ob_io ob) off buf;
          ob = ob\<lparr>ob_io := io\<rparr>
      in case r of
           Inl _ \<Rightarrow> (ob, Inl DsWriteFailed)
         | Inr _ \<Rightarrow>
           let (io, r) = po_flush ops (ob_io ob)
           in (ob\<lparr>ob_io := io\<rparr>, map_err r (\<lambda>_. DsWriteFailed)))"

definition ob_write_tail ::
  "'io persist_ops \<Rightarrow> ('m, 'io) outbox \<Rightarrow> ('m, 'io) outbox \<times> (ds_error + unit)" where
  "ob_write_tail ops ob =
     ob_write_flush ops ob (ob_base ob)
       (put (zeros 64) 0 (encode_record MAGIC_TAIL RECORD_SCHEMA (le_bytes 8 (ob_next_id ob))))"

fun first_free :: "u32 list \<Rightarrow> nat list \<Rightarrow> u32 option" where
  "first_free used [] = None"
| "first_free used (i # is) = (if of_nat i \<notin> set used then Some (of_nat i) else first_free used is)"

definition ob_alloc_slot :: "('m, 'io) outbox \<Rightarrow> ds_error + u32" where
  "ob_alloc_slot ob = ok_or (first_free (map snd (ob_slots ob)) [0..<ob_max_slots ob]) DsOutOfSpace"

definition ob_write_slot ::
  "'io persist_ops \<Rightarrow> 'm msg_codec \<Rightarrow> ('m, 'io) outbox \<Rightarrow> u32 \<Rightarrow> 'm pending \<Rightarrow>
     ('m, 'io) outbox \<times> (ds_error + unit)" where
  "ob_write_slot ops cd ob index p =
     (case encode_slot_payload cd p of
        Inl e \<Rightarrow> (ob, Inl e)
      | Inr payload \<Rightarrow>
        let record = encode_record MAGIC_SLOT RECORD_SCHEMA payload
        in if ob_slot_len ob < length record then (ob, Inl DsOutOfSpace)
           else ob_write_flush ops ob (slot_offset ob index) (put (zeros (ob_slot_len ob)) 0 record))"

section \<open>Operations\<close>

definition ob_enqueue ::
  "'io persist_ops \<Rightarrow> 'm msg_codec \<Rightarrow> ('m, 'io) outbox \<Rightarrow> 'm \<Rightarrow> bytes \<Rightarrow>
     ('m, 'io) outbox \<times> (ds_error + u64)" where
  "ob_enqueue ops cd ob msg idempotency =
     (case find (\<lambda>(oid, p). pe_idempotency p = idempotency) (ob_pending ob) of
        Some (oid, _) \<Rightarrow> (ob, Inr oid)
      | None \<Rightarrow>
        if ob_max_slots ob \<le> length (ob_slots ob) then (ob, Inl DsOutOfSpace)
        else let oid = ob_next_id ob;
                 p = \<lparr>pe_id = oid, pe_idempotency = idempotency, pe_message = msg, pe_attempts = 0,
                      pe_last_sent_at_ms = 0, pe_state = Queued\<rparr>
             in case ob_alloc_slot ob of
                  Inl e \<Rightarrow> (ob, Inl e)
                | Inr slot_index \<Rightarrow>
                  (case ob_write_slot ops cd ob slot_index p of
                     (ob, Inl e) \<Rightarrow> (ob, Inl e)
                   | (ob, Inr _) \<Rightarrow>
                     let ob = ob\<lparr>ob_slots := bt_insert (ob_slots ob) oid slot_index,
                                ob_pending := bt_insert (ob_pending ob) oid p,
                                ob_next_id := ob_next_id ob + 1\<rparr>
                     in case ob_write_tail ops ob of
                          (ob, Inl e) \<Rightarrow> (ob, Inl e)
                        | (ob, Inr _) \<Rightarrow> (ob, Inr oid)))"

definition ob_mark_sent ::
  "'io persist_ops \<Rightarrow> 'm msg_codec \<Rightarrow> ('m, 'io) outbox \<Rightarrow> u64 \<Rightarrow> u64 \<Rightarrow>
     ('m, 'io) outbox \<times> (ds_error + unit)" where
  "ob_mark_sent ops cd ob oid at_ms =
     (case bt_get (ob_slots ob) oid of
        None \<Rightarrow> (ob, Inl (DsOther ''unknown-outbox-id''))
      | Some index \<Rightarrow>
        (case bt_get (ob_pending ob) oid of
           None \<Rightarrow> (ob, Inl (DsOther ''unknown-outbox-id''))
         | Some p \<Rightarrow>
           let p = p\<lparr>pe_attempts := pe_attempts p + 1, pe_last_sent_at_ms := at_ms, pe_state := Sent\<rparr>
           in ob_write_slot ops cd (ob\<lparr>ob_pending := bt_insert (ob_pending ob) oid p\<rparr>) index p))"

text \<open>The index into the slot map panics for a pending message without a slot: the outer option.\<close>

definition ob_mark_acked ::
  "'io persist_ops \<Rightarrow> 'm msg_codec \<Rightarrow> ('m, 'io) outbox \<Rightarrow> u64 \<Rightarrow> peer_receipt \<Rightarrow>
     (('m, 'io) outbox \<times> (ds_error + unit)) option" where
  "ob_mark_acked ops cd ob oid receipt =
     (case bt_get (ob_pending ob) oid of
        None \<Rightarrow> Some (ob, Inr ())
      | Some p \<Rightarrow>
        let ob = ob\<lparr>ob_pending := bt_remove (ob_pending ob) oid\<rparr>;
            p = p\<lparr>pe_state := PeerAcked\<rparr>
        in case bt_get (ob_slots ob) oid of
             None \<Rightarrow> None
           | Some index \<Rightarrow>
             Some (case ob_write_slot ops cd ob index p of
                     (ob, Inl e) \<Rightarrow> (ob, Inl e)
                   | (ob, Inr _) \<Rightarrow> ob_write_tail ops (ob\<lparr>ob_slots := bt_remove (ob_slots ob) oid\<rparr>)))"

definition ob_recover_pending :: "('m, 'io) outbox \<Rightarrow> 'm pending list" where
  "ob_recover_pending ob = map snd (ob_pending ob)"

section \<open>The in-memory outbox\<close>

record 'm mem_outbox =
  mo_pending :: "(u64, 'm pending) btree"
  mo_next_id :: u64

definition mo_enqueue :: "'m mem_outbox \<Rightarrow> 'm \<Rightarrow> bytes \<Rightarrow> 'm mem_outbox \<times> (ds_error + u64)" where
  "mo_enqueue mo msg idempotency =
     (case find (\<lambda>(oid, p). pe_idempotency p = idempotency) (mo_pending mo) of
        Some (oid, _) \<Rightarrow> (mo, Inr oid)
      | None \<Rightarrow>
        let oid = mo_next_id mo
        in (mo\<lparr>mo_next_id := mo_next_id mo + 1,
               mo_pending := bt_insert (mo_pending mo) oid
                 \<lparr>pe_id = oid, pe_idempotency = idempotency, pe_message = msg, pe_attempts = 0,
                  pe_last_sent_at_ms = 0, pe_state = Queued\<rparr>\<rparr>, Inr oid))"

definition mo_mark_acked :: "'m mem_outbox \<Rightarrow> u64 \<Rightarrow> peer_receipt \<Rightarrow> 'm mem_outbox \<times> (ds_error + unit)" where
  "mo_mark_acked mo oid receipt = (mo\<lparr>mo_pending := bt_remove (mo_pending mo) oid\<rparr>, Inr ())"

definition mo_mark_sent :: "'m mem_outbox \<Rightarrow> u64 \<Rightarrow> u64 \<Rightarrow> 'm mem_outbox \<times> (ds_error + unit)" where
  "mo_mark_sent mo oid at_ms =
     (case bt_get (mo_pending mo) oid of
        None \<Rightarrow> (mo, Inl (DsOther ''unknown-outbox-id''))
      | Some p \<Rightarrow>
        (mo\<lparr>mo_pending := bt_insert (mo_pending mo) oid
             (p\<lparr>pe_attempts := pe_attempts p + 1, pe_last_sent_at_ms := at_ms\<rparr>)\<rparr>, Inr ()))"

section \<open>What the medium holds\<close>

definition ob_slot_at :: "('m, 'io) outbox \<Rightarrow> nat \<Rightarrow> nat" where
  "ob_slot_at ob i = unat (ob_base ob) + 64 + i * ob_slot_len ob"

definition ob_slot_bytes :: "bytes \<Rightarrow> ('m, 'io) outbox \<Rightarrow> nat \<Rightarrow> bytes" where
  "ob_slot_bytes bs ob i = slice (ob_slot_at ob i) (ob_slot_at ob i + ob_slot_len ob) bs"

definition ob_tail_bytes :: "bytes \<Rightarrow> ('m, 'io) outbox \<Rightarrow> bytes" where
  "ob_tail_bytes bs ob = slice (unat (ob_base ob)) (unat (ob_base ob) + 64) bs"

definition ob_geom :: "bytes \<Rightarrow> ('m, 'io) outbox \<Rightarrow> bool" where
  "ob_geom bs ob \<longleftrightarrow>
     ob_slot_at ob (ob_max_slots ob) \<le> length bs \<and> length bs < 2 ^ 64 \<and>
     64 \<le> ob_slot_len ob \<and> 1 \<le> ob_max_slots ob \<and> ob_max_slots ob < 2 ^ 32"

text \<open>The next id the tail record gives: zero when it is torn or was never written.\<close>

definition tail_next :: "bytes \<Rightarrow> u64 option" where
  "tail_next buf =
     (case decode_record buf of
        Inr (magic, payload) \<Rightarrow>
          if magic = MAGIC_TAIL \<and> 8 \<le> length payload then Some (from_le (slice 0 8 payload)) else None
      | Inl e \<Rightarrow> if e = DsCorrupt then Some 0 else None)"

text \<open>The medium, as the next id \<open>t\<close> of its tail and the entries \<open>D\<close> of its slots, agrees with the
  outbox: every message is in its slot, every other slot holds nothing pending, and ids grow.\<close>

definition ob_agrees :: "u64 option \<Rightarrow> (nat \<Rightarrow> 'm pending option) \<Rightarrow> ('m, 'io) outbox \<Rightarrow> bool" where
  "ob_agrees t D ob \<longleftrightarrow>
     bt_inv (ob_slots ob) \<and> bt_inv (ob_pending ob) \<and>
     (\<forall>oid. bt_get (ob_slots ob) oid = None \<longleftrightarrow> bt_get (ob_pending ob) oid = None) \<and>
     (\<forall>oid i. bt_get (ob_slots ob) oid = Some i \<longrightarrow>
        unat i < ob_max_slots ob \<and> D (unat i) = bt_get (ob_pending ob) oid) \<and>
     (\<forall>oid p. bt_get (ob_pending ob) oid = Some p \<longrightarrow> pe_id p = oid \<and> pe_state p \<noteq> PeerAcked) \<and>
     (\<forall>i p. i < ob_max_slots ob \<longrightarrow> D i = Some p \<longrightarrow>
        pe_id p < ob_next_id ob \<and>
        (pe_state p = PeerAcked \<or> bt_get (ob_slots ob) (pe_id p) = Some (of_nat i))) \<and>
     (\<exists>n. t = Some n \<and> n \<le> ob_next_id ob \<and>
        (n = ob_next_id ob \<or>
         (\<exists>i p. i < ob_max_slots ob \<and> D i = Some p \<and> ob_next_id ob = pe_id p + 1)))"

definition ob_rep :: "'m msg_codec \<Rightarrow> bytes \<Rightarrow> ('m, 'io) outbox \<Rightarrow> bool" where
  "ob_rep cd bs ob \<longleftrightarrow>
     ob_geom bs ob \<and>
     ob_agrees (tail_next (ob_tail_bytes bs ob)) (\<lambda>i. slot_pending cd (ob_slot_bytes bs ob i)) ob"

lemma ob_slot_offset_unat:
  assumes "ob_geom bs ob" and "i < ob_max_slots ob"
  shows "unat (slot_offset ob (of_nat i)) = ob_slot_at ob i"
    and "ob_slot_at ob i + ob_slot_len ob \<le> length bs"
proof -
  have "Suc i * ob_slot_len ob \<le> ob_max_slots ob * ob_slot_len ob"
    using assms(2) by (intro mult_le_mono1) simp
  then show le: "ob_slot_at ob i + ob_slot_len ob \<le> length bs"
    using assms(1) by (simp add: ob_geom_def ob_slot_at_def)
  then have lt: "ob_slot_at ob i < 2 ^ 64" using assms(1) by (simp add: ob_geom_def)
  have "unat (of_nat i :: u32) = i"
    using assms by (simp add: ob_geom_def unsigned_of_nat take_bit_nat_eq_self)
  then have "(ucast (of_nat i :: u32) :: u64) = of_nat i"
    by (metis of_nat_unat)
  then have "slot_offset ob (of_nat i) = of_nat (ob_slot_at ob i)"
    by (simp add: slot_offset_def ob_slot_at_def TAIL_LEN_def)
  with lt show "unat (slot_offset ob (of_nat i)) = ob_slot_at ob i"
    by (simp add: unsigned_of_nat take_bit_nat_eq_self del: of_nat_add of_nat_mult)
qed

text \<open>The scan as a function of what the slots hold.\<close>

fun scan_entries ::
  "(nat \<Rightarrow> 'm pending option) \<Rightarrow> nat list \<Rightarrow> (u64, u32) btree \<times> (u64, 'm pending) btree \<times> u64 option \<Rightarrow>
     (u64, u32) btree \<times> (u64, 'm pending) btree \<times> u64 option" where
  "scan_entries d [] acc = acc"
| "scan_entries d (i # is) (slots, ps, seen) =
     (case d i of
        None \<Rightarrow> scan_entries d is (slots, ps, seen)
      | Some p \<Rightarrow>
        let seen = Some (case seen of None \<Rightarrow> pe_id p | Some m \<Rightarrow> max m (pe_id p))
        in if pe_state p = PeerAcked then scan_entries d is (slots, ps, seen)
           else scan_entries d is (bt_insert slots (pe_id p) (of_nat i), bt_insert ps (pe_id p) p, seen))"

definition slot_hit :: "(nat \<Rightarrow> 'm pending option) \<Rightarrow> nat list \<Rightarrow> u64 \<Rightarrow> bool" where
  "slot_hit d is oid \<longleftrightarrow> list_ex (\<lambda>i. case d i of None \<Rightarrow> False | Some p \<Rightarrow> pe_state p \<noteq> PeerAcked \<and> pe_id p = oid) is"

lemma slot_hit_simps [simp]:
  "\<not> slot_hit d [] oid"
  "slot_hit d (i # is) oid \<longleftrightarrow>
     (case d i of None \<Rightarrow> False | Some p \<Rightarrow> pe_state p \<noteq> PeerAcked \<and> pe_id p = oid) \<or> slot_hit d is oid"
  by (simp_all add: slot_hit_def)

lemma scan_entries_maps:
  assumes "scan_entries d is (slots, ps, seen) = (slots', ps', seen')"
    and "list_all (\<lambda>i. case d i of None \<Rightarrow> True | Some p \<Rightarrow> pe_state p = PeerAcked \<or>
      bt_get slots0 (pe_id p) = Some (of_nat i) \<and> bt_get ps0 (pe_id p) = Some p) is"
    and "bt_inv slots" and "bt_inv ps"
  shows "bt_inv slots' \<and> bt_inv ps' \<and>
     bt_get slots' oid = (if slot_hit d is oid then bt_get slots0 oid else bt_get slots oid) \<and>
     bt_get ps' oid = (if slot_hit d is oid then bt_get ps0 oid else bt_get ps oid)"
  using assms
proof (induction "is" arbitrary: slots ps seen)
  case (Cons i "is")
  show ?case
  proof (cases "d i")
    case None
    with Cons show ?thesis by simp
  next
    case (Some p)
    let ?seen = "Some (case seen of None \<Rightarrow> pe_id p | Some m \<Rightarrow> max m (pe_id p))"
    show ?thesis
    proof (cases "pe_state p = PeerAcked")
      case True
      with Some Cons.prems have "scan_entries d is (slots, ps, ?seen) = (slots', ps', seen')" by simp
      from Cons.IH [OF this] Cons.prems True Some show ?thesis by simp
    next
      case False
      with Some Cons.prems have s: "scan_entries d is (bt_insert slots (pe_id p) (of_nat i),
          bt_insert ps (pe_id p) p, ?seen) = (slots', ps', seen')" by simp
      from Cons.prems(2) Some False
      have "bt_get slots0 (pe_id p) = Some (of_nat i)" "bt_get ps0 (pe_id p) = Some p" by simp_all
      with Cons.IH [OF s] Cons.prems(2-4) Some False show ?thesis by (auto simp: bt_inv_insert)
    qed
  qed
qed simp

lemma scan_entries_seen:
  assumes "scan_entries d is (slots, ps, seen) = (slots', ps', seen')"
  shows "(seen' = None \<longleftrightarrow> seen = None \<and> (\<forall>i \<in> set is. d i = None)) \<and>
     (\<forall>m. seen' = Some m \<longrightarrow>
        (seen = Some m \<or> (\<exists>i \<in> set is. \<exists>p. d i = Some p \<and> pe_id p = m)) \<and>
        (\<forall>k. seen = Some k \<longrightarrow> k \<le> m) \<and> (\<forall>i \<in> set is. \<forall>p. d i = Some p \<longrightarrow> pe_id p \<le> m))"
  using assms
proof (induction "is" arbitrary: slots ps seen)
  case (Cons i "is")
  show ?case
  proof (cases "d i")
    case None
    with Cons show ?thesis by auto
  next
    case (Some p)
    let ?seen = "Some (case seen of None \<Rightarrow> pe_id p | Some m \<Rightarrow> max m (pe_id p))"
    from Cons.prems Some obtain sl pp where "scan_entries d is (sl, pp, ?seen) = (slots', ps', seen')"
      by (auto simp: Let_def split: if_splits)
    from Cons.IH [OF this] Some show ?thesis
      by (cases seen) (auto simp: max_def split: if_splits)
  qed
qed auto

lemma seen_max:
  assumes "scan_entries d [0..<n] (slots, ps, None) = (slots', ps', seen)"
    and "\<And>i p. i < n \<Longrightarrow> d i = Some p \<Longrightarrow> pe_id p < nxt"
    and "t \<le> nxt" and "t = nxt \<or> (\<exists>i p. i < n \<and> d i = Some p \<and> nxt = pe_id p + 1)"
  shows "(case seen of None \<Rightarrow> t | Some m \<Rightarrow> if t \<le> m then m + 1 else t) = (nxt :: u64)"
proof (cases seen)
  case None
  with scan_entries_seen [OF assms(1)] have "\<forall>i < n. d i = None" by auto
  with assms(4) None show ?thesis by auto
next
  case (Some m)
  with scan_entries_seen [OF assms(1)] obtain j q where
    j: "j < n" "d j = Some q" "pe_id q = m" and max: "\<And>i p. i < n \<Longrightarrow> d i = Some p \<Longrightarrow> pe_id p \<le> m" by auto
  have m: "m < nxt" using assms(2) [OF j(1,2)] j(3) by simp
  show ?thesis
  proof (cases "t = nxt")
    case True
    with m Some show ?thesis by auto
  next
    case False
    with assms(4) obtain i p where i: "i < n" "d i = Some p" "nxt = pe_id p + 1" by blast
    have "pe_id p < nxt" using assms(2) i by blast
    then have "unat nxt = Suc (unat (pe_id p))" using unat_inc [of "pe_id p" nxt] i(3) by simp
    then have "m \<le> pe_id p" using m by (simp add: word_le_nat_alt word_less_nat_alt)
    with max [OF i(1,2)] have "pe_id p = m" by simp
    moreover have "t \<le> m" using False assms(3) \<open>unat nxt = Suc (unat (pe_id p))\<close> calculation
      by (auto simp: word_le_nat_alt word_less_nat_alt dest!: le_neq_implies_less simp: word_unat_eq_iff)
    ultimately show ?thesis using Some i(3) by simp
  qed
qed

context persist_io
begin

lemma scan_exec:
  assumes "ready (ob_io ob)" and "ob_geom (contents (ob_io ob)) ob" and "list_all (\<lambda>i. i < ob_max_slots ob) is"
    and "scan_entries (\<lambda>i. slot_pending cd (ob_slot_bytes (contents (ob_io ob)) ob i)) is
      (ob_slots ob, ob_pending ob, seen) = (slots', ps', seen')"
  shows "ob_scan ops cd is ob seen = (ob\<lparr>ob_slots := slots', ob_pending := ps'\<rparr>, Inr seen')"
  using assms
proof (induction "is" arbitrary: ob seen)
  case (Cons i "is")
  let ?bs = "contents (ob_io ob)"
  have i: "i < ob_max_slots ob" using Cons.prems(3) by simp
  note off = ob_slot_offset_unat [OF Cons.prems(2) i]
  have r: "po_read ops (ob_io ob) (slot_offset ob (of_nat i)) (ob_slot_len ob) = (ob_io ob, Inr (ob_slot_bytes ?bs ob i))"
    using read_range [OF Cons.prems(1), of "slot_offset ob (of_nat i)" "ob_slot_len ob"] off
    by (simp add: ob_slot_bytes_def)
  show ?case
  proof (cases "slot_pending cd (ob_slot_bytes ?bs ob i)")
    case None
    with Cons r show ?thesis by simp
  next
    case (Some p)
    let ?seen = "Some (case seen of None \<Rightarrow> pe_id p | Some m \<Rightarrow> max m (pe_id p))"
    let ?ob = "ob\<lparr>ob_slots := bt_insert (ob_slots ob) (pe_id p) (of_nat i),
        ob_pending := bt_insert (ob_pending ob) (pe_id p) p\<rparr>"
    have same: "ob_geom ?bs ?ob" "ob_slot_bytes ?bs ?ob = ob_slot_bytes ?bs ob"
      using Cons.prems(2) by (auto simp: ob_geom_def ob_slot_bytes_def ob_slot_at_def)
    show ?thesis
    proof (cases "pe_state p = PeerAcked")
      case True
      with Cons.IH [OF Cons.prems(1,2)] Cons.prems(3,4) Some r show ?thesis by simp
    next
      case False
      with Cons.IH [of ?ob ?seen] Cons.prems same Some r show ?thesis by simp
    qed
  qed
qed simp

text \<open>Opening a medium that holds an outbox gives the outbox back, the next id included.\<close>

lemma open_rep:
  fixes ob :: "('m, 'io) outbox"
  assumes "ready (ob_io ob)" and "ob_rep cd (contents (ob_io ob)) ob"
  shows "ob_open ops cd (ob_new (ob_io ob) (ob_base ob) (ob_slot_len ob) (ob_max_slots ob)) = (ob, Inr ())"
proof -
  let ?bs = "contents (ob_io ob)" and ?n = "ob_max_slots ob"
  let ?new = "ob_new (ob_io ob) (ob_base ob) (ob_slot_len ob) ?n :: ('m, 'io) outbox"
  let ?d = "\<lambda>i. slot_pending cd (ob_slot_bytes ?bs ob i)"
  note rep = assms(2) [unfolded ob_rep_def ob_agrees_def]
  from rep obtain t where t: "tail_next (ob_tail_bytes ?bs ob) = Some t" "t \<le> ob_next_id ob"
    "t = ob_next_id ob \<or> (\<exists>i p. i < ?n \<and> ?d i = Some p \<and> ob_next_id ob = pe_id p + 1)" by blast
  have geom: "ob_geom ?bs ob" using rep by blast
  have new: "ob_slot_len ?new = ob_slot_len ob" "ob_max_slots ?new = ?n" "ob_base ?new = ob_base ob"
    "ob_io ?new = ob_io ob" "ob_slots ?new = []" "ob_pending ?new = []"
    using geom by (auto simp: ob_new_def ob_geom_def)
  have tail: "po_read ops (ob_io ob) (ob_base ob) 64 = (ob_io ob, Inr (ob_tail_bytes ?bs ob))"
    using read_range [OF assms(1), of "ob_base ob" 64] geom by (simp add: ob_geom_def ob_slot_at_def ob_tail_bytes_def)
  obtain slots' ps' seen where sc: "scan_entries ?d [0..<?n] ([], [], None) = (slots', ps', seen)"
    by (metis prod_cases3)
  let ?new1 = "?new\<lparr>ob_next_id := t\<rparr>"
  have slots_eq: "ob_slot_bytes ?bs ?new1 = ob_slot_bytes ?bs ob"
    using new by (simp add: fun_eq_iff ob_slot_bytes_def ob_slot_at_def)
  have ok: "pe_state p = PeerAcked \<or>
      bt_get (ob_slots ob) (pe_id p) = Some (of_nat i) \<and> bt_get (ob_pending ob) (pe_id p) = Some p"
    if i: "i < ?n" and p: "?d i = Some p" for i p
  proof (cases "pe_state p = PeerAcked")
    case False
    with rep i p have "bt_get (ob_slots ob) (pe_id p) = Some (of_nat i)" by blast
    moreover have "unat (of_nat i :: u32) = i"
      using geom i by (simp add: ob_geom_def unsigned_of_nat take_bit_nat_eq_self)
    ultimately show ?thesis using rep p by metis
  qed simp
  have "list_all (\<lambda>i. case ?d i of None \<Rightarrow> True | Some p \<Rightarrow> pe_state p = PeerAcked \<or>
      bt_get (ob_slots ob) (pe_id p) = Some (of_nat i) \<and> bt_get (ob_pending ob) (pe_id p) = Some p) [0..<?n]"
    using ok by (fastforce simp: list_all_iff split: option.splits)
  note maps = scan_entries_maps [OF sc this]
  have hit: "slot_hit ?d [0..<?n] oid" if "bt_get (ob_slots ob) oid = Some i" for oid i
  proof -
    from that rep obtain p where "unat i < ?n" "?d (unat i) = Some p" "bt_get (ob_pending ob) oid = Some p"
      by (metis not_None_eq)
    with rep show ?thesis by (auto simp: slot_hit_def list_ex_iff intro!: bexI [of _ "unat i"])
  qed
  have nohit: "bt_get (ob_slots ob) oid = None \<and> bt_get (ob_pending ob) oid = None"
    if "\<not> slot_hit ?d [0..<?n] oid" for oid
  proof -
    from that hit have "bt_get (ob_slots ob) oid = None" by (metis not_None_eq)
    with rep show ?thesis by blast
  qed
  have empty: "bt_inv ([] :: (u64, u32) btree)" "bt_inv ([] :: (u64, 'm pending) btree)"
    by (simp_all add: bt_inv_def)
  have invs: "bt_inv (ob_slots ob)" "bt_inv (ob_pending ob)" using rep by blast+
  note maps' = maps [OF empty]
  have "slots' = ob_slots ob"
  proof (rule bt_ext)
    show "bt_get slots' oid = bt_get (ob_slots ob) oid" for oid
      using maps' [of oid] nohit [of oid] by (cases "slot_hit ?d [0..<?n] oid") (simp_all add: bt_get_def)
  qed (use maps' invs in blast)+
  moreover have "ps' = ob_pending ob"
  proof (rule bt_ext)
    show "bt_get ps' oid = bt_get (ob_pending ob) oid" for oid
      using maps' [of oid] nohit [of oid] by (cases "slot_hit ?d [0..<?n] oid") (simp_all add: bt_get_def)
  qed (use maps' invs in blast)+
  moreover have "ob_scan ops cd [0..<?n] ?new1 None = (?new1\<lparr>ob_slots := slots', ob_pending := ps'\<rparr>, Inr seen)"
    using assms(1) geom sc new slots_eq
    by (intro scan_exec) (auto simp: ob_geom_def ob_slot_at_def list_all_iff)
  moreover have "(case seen of None \<Rightarrow> t | Some m \<Rightarrow> if t \<le> m then m + 1 else t) = ob_next_id ob"
    by (rule seen_max [OF sc]) (use rep t in auto)
  ultimately show ?thesis
    using tail t(1) new
    by (auto simp: ob_open_def tail_next_def ob_new_def Let_def split: option.splits sum.splits prod.splits if_splits ds_error.splits)
qed

end

section \<open>Writing keeps the medium and the outbox in agreement\<close>

text \<open>A message that can be stored: it encodes, and decodes to itself.\<close>

definition storable :: "'m msg_codec \<Rightarrow> nat \<Rightarrow> 'm \<Rightarrow> bool" where
  "storable cd slot_len m \<longleftrightarrow>
     (\<exists>body g. mc_encode cd m = Inr body \<and> mc_decode cd body = Inr (g, m) \<and>
        length body + 50 \<le> slot_len \<and> length body + 37 < 2 ^ 32)"

definition storable_pending :: "'m msg_codec \<Rightarrow> nat \<Rightarrow> 'm pending \<Rightarrow> bool" where
  "storable_pending cd slot_len p \<longleftrightarrow> storable cd slot_len (pe_message p) \<and> length (pe_idempotency p) = 16"

lemma message_state_code_cases:
  "message_state_code s = 0 \<longleftrightarrow> s = Queued" "message_state_code s = 1 \<longleftrightarrow> s = Sent"
  "message_state_code s = 2 \<longleftrightarrow> s = PeerAcked"
  by (cases s; simp)+

lemma decode_slot_payload_encoded:
  assumes "length key = 16" and "mc_decode cd body = Inr (g, m)"
  shows "decode_slot_payload cd (le_bytes 8 i @ key @ le_bytes 4 a @ le_bytes 8 at @ [message_state_code st] @ body) =
    Inr \<lparr>pe_id = i, pe_idempotency = key, pe_message = m, pe_attempts = a, pe_last_sent_at_ms = at, pe_state = st\<rparr>"
  using assms
  by (cases st) (simp_all add: decode_slot_payload_def Let_def slice_def nth_append)

lemma slot_pending_record:
  assumes "storable_pending cd n p"
  obtains payload where "encode_slot_payload cd p = Inr payload" "length payload + 13 \<le> n"
    "\<And>rest. slot_pending cd (encode_record MAGIC_SLOT RECORD_SCHEMA payload @ rest) = Some p"
proof -
  from assms obtain body g where b: "mc_encode cd (pe_message p) = Inr body"
    "mc_decode cd body = Inr (g, pe_message p)" "length body + 50 \<le> n" "length body + 37 < 2 ^ 32"
    and key: "length (pe_idempotency p) = 16"
    by (auto simp: storable_pending_def storable_def)
  let ?pl = "le_bytes 8 (pe_id p) @ pe_idempotency p @ le_bytes 4 (pe_attempts p) @
            le_bytes 8 (pe_last_sent_at_ms p) @ [message_state_code (pe_state p)] @ body"
  have "encode_slot_payload cd p = Inr ?pl" using b by (simp add: encode_slot_payload_def)
  moreover have "length ?pl + 13 \<le> n" using b key by simp
  moreover have "slot_pending cd (encode_record MAGIC_SLOT RECORD_SCHEMA ?pl @ rest) = Some p" for rest
    using decode_slot_payload_encoded [OF key b(2)] b(4) key
    by (simp add: slot_pending_def decode_encode_record MAGIC_SLOT_def del: append.simps append_assoc)
  ultimately show thesis using that by blast
qed

lemma ob_slot_at_disjoint:
  "i < j \<Longrightarrow> ob_slot_at ob i + ob_slot_len ob \<le> ob_slot_at ob j"
proof -
  assume "i < j"
  then have "Suc i * ob_slot_len ob \<le> j * ob_slot_len ob" by (intro mult_le_mono1) simp
  then show ?thesis by (simp add: ob_slot_at_def)
qed

text \<open>Writing slot \<open>i\<close> changes that slot and nothing else.\<close>

lemma slot_bytes_put:
  assumes "ob_geom bs ob" and "i < ob_max_slots ob" and "length data = ob_slot_len ob"
  shows "ob_geom (put bs (ob_slot_at ob i) data) ob"
    and "ob_tail_bytes (put bs (ob_slot_at ob i) data) ob = ob_tail_bytes bs ob"
    and "ob_slot_bytes (put bs (ob_slot_at ob i) data) ob = (ob_slot_bytes bs ob) (i := data)"
proof -
  note le = ob_slot_offset_unat(2) [OF assms(1,2)]
  show "ob_geom (put bs (ob_slot_at ob i) data) ob"
    using assms le by (simp add: ob_geom_def length_put)
  show "ob_tail_bytes (put bs (ob_slot_at ob i) data) ob = ob_tail_bytes bs ob"
    using le by (simp add: ob_tail_bytes_def slice_put_before ob_slot_at_def)
  show "ob_slot_bytes (put bs (ob_slot_at ob i) data) ob = (ob_slot_bytes bs ob) (i := data)"
  proof
    fix j
    show "ob_slot_bytes (put bs (ob_slot_at ob i) data) ob j = ((ob_slot_bytes bs ob) (i := data)) j"
      using ob_slot_at_disjoint [of i j ob] ob_slot_at_disjoint [of j i ob] le assms(3)
      by (cases i j rule: linorder_cases)
        (simp_all add: ob_slot_bytes_def slice_put_before slice_put_after slice_put_same)
  qed
qed

lemma tail_bytes_put:
  assumes "ob_geom bs ob" and "length data = 64"
  shows "ob_geom (put bs (unat (ob_base ob)) data) ob"
    and "ob_tail_bytes (put bs (unat (ob_base ob)) data) ob = data"
    and "ob_slot_bytes (put bs (unat (ob_base ob)) data) ob = ob_slot_bytes bs ob"
proof -
  have le: "unat (ob_base ob) + 64 \<le> length bs"
    using assms(1) by (simp add: ob_geom_def ob_slot_at_def)
  show "ob_geom (put bs (unat (ob_base ob)) data) ob"
    using assms le by (simp add: ob_geom_def length_put)
  show "ob_tail_bytes (put bs (unat (ob_base ob)) data) ob = data"
    using assms le by (simp add: ob_tail_bytes_def slice_put_same)
  show "ob_slot_bytes (put bs (unat (ob_base ob)) data) ob = ob_slot_bytes bs ob"
    using assms le by (simp add: fun_eq_iff ob_slot_bytes_def slice_put_after ob_slot_at_def)
qed

lemma tail_next_record: "tail_next (put (zeros 64) 0 (encode_record MAGIC_TAIL RECORD_SCHEMA (le_bytes 8 n))) = Some n"
proof -
  have "put (zeros 64) 0 (encode_record MAGIC_TAIL RECORD_SCHEMA (le_bytes 8 n)) =
      encode_record MAGIC_TAIL RECORD_SCHEMA (le_bytes 8 n) @ zeros 43"
    by (simp add: put_def MAGIC_TAIL_def)
  then show ?thesis
    by (simp add: tail_next_def decode_encode_record MAGIC_TAIL_def slice_whole)
qed

subsection \<open>Agreement\<close>

lemma ob_agreesI:
  assumes "bt_inv (ob_slots ob)" and "bt_inv (ob_pending ob)"
    and "\<And>oid. bt_get (ob_slots ob) oid = None \<longleftrightarrow> bt_get (ob_pending ob) oid = None"
    and "\<And>oid i. bt_get (ob_slots ob) oid = Some i \<Longrightarrow>
      unat i < ob_max_slots ob \<and> D (unat i) = bt_get (ob_pending ob) oid"
    and "\<And>oid p. bt_get (ob_pending ob) oid = Some p \<Longrightarrow> pe_id p = oid \<and> pe_state p \<noteq> PeerAcked"
    and "\<And>i p. i < ob_max_slots ob \<Longrightarrow> D i = Some p \<Longrightarrow> pe_id p < ob_next_id ob \<and>
        (pe_state p = PeerAcked \<or> bt_get (ob_slots ob) (pe_id p) = Some (of_nat i))"
    and "\<exists>n. t = Some n \<and> n \<le> ob_next_id ob \<and>
        (n = ob_next_id ob \<or>
         (\<exists>i p. i < ob_max_slots ob \<and> D i = Some p \<and> ob_next_id ob = pe_id p + 1))"
  shows "ob_agrees t D ob"
  using assms unfolding ob_agrees_def by blast

lemma ob_agreesD:
  assumes "ob_agrees t D ob"
  shows "bt_inv (ob_slots ob)" and "bt_inv (ob_pending ob)"
    and "bt_get (ob_slots ob) oid = None \<longleftrightarrow> bt_get (ob_pending ob) oid = None"
    and "bt_get (ob_slots ob) oid = Some i \<Longrightarrow>
      unat i < ob_max_slots ob \<and> D (unat i) = bt_get (ob_pending ob) oid"
    and "bt_get (ob_pending ob) oid = Some p \<Longrightarrow> pe_id p = oid \<and> pe_state p \<noteq> PeerAcked"
    and "j < ob_max_slots ob \<Longrightarrow> D j = Some p \<Longrightarrow> pe_id p < ob_next_id ob \<and>
        (pe_state p = PeerAcked \<or> bt_get (ob_slots ob) (pe_id p) = Some (of_nat j))"
    and "\<exists>n. t = Some n \<and> n \<le> ob_next_id ob \<and>
        (n = ob_next_id ob \<or>
         (\<exists>i p. i < ob_max_slots ob \<and> D i = Some p \<and> ob_next_id ob = pe_id p + 1))"
  using assms unfolding ob_agrees_def by blast+

lemma ob_agrees_io [simp]: "ob_agrees t D (ob\<lparr>ob_io := io\<rparr>) = ob_agrees t D ob"
  by (simp add: ob_agrees_def)

text \<open>No two messages share a slot.\<close>

lemma agrees_slot_inj:
  assumes "ob_agrees t D ob" and "bt_get (ob_slots ob) oid = Some i" and "bt_get (ob_slots ob) oid' = Some i"
  shows "oid = oid'"
proof -
  note d = ob_agreesD [OF assms(1)]
  from d(3) [of oid] assms(2) obtain p where p: "bt_get (ob_pending ob) oid = Some p" by fastforce
  with d(4) [OF assms(2)] d(4) [OF assms(3)] have "bt_get (ob_pending ob) oid' = Some p" by simp
  from d(5) [OF p] d(5) [OF this] show ?thesis by simp
qed

lemma agrees_slot_inj_iff:
  assumes "ob_agrees t D ob" and "bt_get (ob_slots ob) oid0 = Some i" and "bt_get (ob_slots ob) oid = Some j"
  shows "j = i \<longleftrightarrow> oid = oid0"
  using agrees_slot_inj [OF assms(1,2), of oid] assms(2,3) by auto

lemma agrees_slot_entry:
  assumes "ob_agrees t D ob" and "bt_get (ob_slots ob) oid = Some i"
  obtains q where "D (unat i) = Some q" "pe_id q = oid" "unat i < ob_max_slots ob"
    "bt_get (ob_pending ob) oid = Some q" "pe_state q \<noteq> PeerAcked"
proof -
  note d = ob_agreesD [OF assms(1)]
  from d(3) [of oid] assms(2) obtain q where q: "bt_get (ob_pending ob) oid = Some q" by fastforce
  from d(4) [OF assms(2)] d(5) [OF q] q that show thesis by simp
qed

lemma agrees_fresh:
  assumes "ob_agrees t D ob"
  shows "bt_get (ob_slots ob) (ob_next_id ob) = None" and "bt_get (ob_pending ob) (ob_next_id ob) = None"
proof -
  show "bt_get (ob_slots ob) (ob_next_id ob) = None"
  proof (rule ccontr)
    assume "bt_get (ob_slots ob) (ob_next_id ob) \<noteq> None"
    then obtain i where "bt_get (ob_slots ob) (ob_next_id ob) = Some i" by blast
    then obtain q where "D (unat i) = Some q" "pe_id q = ob_next_id ob" "unat i < ob_max_slots ob"
      by (rule agrees_slot_entry [OF assms])
    with ob_agreesD(6) [OF assms] show False by fastforce
  qed
  with ob_agreesD(3) [OF assms] show "bt_get (ob_pending ob) (ob_next_id ob) = None" by simp
qed

lemma agrees_enqueue:
  assumes "ob_agrees t D ob" and "ob_next_id ob \<noteq> - 1" and "\<And>oid. bt_get (ob_slots ob) oid \<noteq> Some i"
    and "unat i < ob_max_slots ob" and "pe_id p = ob_next_id ob" and "pe_state p \<noteq> PeerAcked"
    and "t' = Some n" and "n \<le> ob_next_id ob + 1"
  shows "ob_agrees t' (D(unat i := Some p))
    (ob\<lparr>ob_slots := bt_insert (ob_slots ob) (pe_id p) i, ob_pending := bt_insert (ob_pending ob) (pe_id p) p,
        ob_next_id := ob_next_id ob + 1\<rparr>)"
proof -
  note a = assms(1) [unfolded ob_agrees_def] and d = ob_agreesD [OF assms(1)]
  have lt: "x < ob_next_id ob + 1" if "x \<le> ob_next_id ob" for x
    using unat_Suc_less_iff [of "ob_next_id ob"] assms(2) that
    by (simp add: word_less_nat_alt word_le_nat_alt unat_word_ariths)
  note fresh = agrees_fresh [OF assms(1)]
  have ids: "pe_id q < ob_next_id ob + 1 \<and> (pe_state q = PeerAcked \<or>
      bt_get (bt_insert (ob_slots ob) (pe_id p) i) (pe_id q) = Some (of_nat j))"
    if "j < ob_max_slots ob" "(D(unat i := Some p)) j = Some q" for j q
  proof (cases "j = unat i")
    case True
    with that assms(5) lt show ?thesis by simp
  next
    case False
    with that a have q: "pe_id q < ob_next_id ob" "pe_state q = PeerAcked \<or> bt_get (ob_slots ob) (pe_id q) = Some (of_nat j)"
      by auto
    then show ?thesis using lt [of "pe_id q"] assms(5) by auto
  qed
  have tl: "\<exists>n. t' = Some n \<and> n \<le> ob_next_id ob + 1 \<and> (n = ob_next_id ob + 1 \<or>
      (\<exists>j q. j < ob_max_slots ob \<and> (D(unat i := Some p)) j = Some q \<and> ob_next_id ob + 1 = pe_id q + 1))"
    using assms(4,5,7,8) by auto
  show ?thesis
  proof (rule ob_agreesI)
    let ?ob = "ob\<lparr>ob_slots := bt_insert (ob_slots ob) (pe_id p) i, ob_pending := bt_insert (ob_pending ob) (pe_id p) p,
        ob_next_id := ob_next_id ob + 1\<rparr>"
    show "unat j < ob_max_slots ?ob \<and> (D(unat i := Some p)) (unat j) = bt_get (ob_pending ?ob) oid"
      if "bt_get (ob_slots ?ob) oid = Some j" for oid j
      using that d(4) [of oid j] assms(3) [of oid] assms(4)
      by (cases "j = i") (auto simp: word_unat_eq_iff [of j i] split: if_splits)
    show "pe_id q = oid \<and> pe_state q \<noteq> PeerAcked" if "bt_get (ob_pending ?ob) oid = Some q" for oid q
      using that d(5) [of oid q] assms(5,6) by (auto split: if_splits)
  qed (use d(1,2,3) ids tl in \<open>simp_all add: bt_inv_insert\<close>)
qed

lemma agrees_tail_entry:
  assumes "ob_agrees t D ob" and "D k = Some q" and "pe_id q = pe_id p"
  shows "\<exists>n. t = Some n \<and> n \<le> ob_next_id ob \<and> (n = ob_next_id ob \<or>
    (\<exists>j r. j < ob_max_slots ob \<and> (D(k := Some p)) j = Some r \<and> ob_next_id ob = pe_id r + 1))"
proof -
  from ob_agreesD(7) [OF assms(1)] obtain n where n: "t = Some n" "n \<le> ob_next_id ob"
    and "n = ob_next_id ob \<or> (\<exists>i r. i < ob_max_slots ob \<and> D i = Some r \<and> ob_next_id ob = pe_id r + 1)" by blast
  moreover have "\<exists>r'. (D(k := Some p)) i = Some r' \<and> pe_id r' = pe_id r" if "D i = Some r" for i r
    using that assms(2,3) by (cases "i = k") simp_all
  ultimately show ?thesis by metis
qed

text \<open>Rewriting the slot of a message that is still pending.\<close>

lemma agrees_rewrite:
  assumes "ob_agrees t D ob" and "bt_get (ob_slots ob) (pe_id p) = Some i" and "pe_state p \<noteq> PeerAcked"
  shows "ob_agrees t (D(unat i := Some p)) (ob\<lparr>ob_pending := bt_insert (ob_pending ob) (pe_id p) p\<rparr>)"
proof -
  note d = ob_agreesD [OF assms(1)] and inj = agrees_slot_inj_iff [OF assms(1,2)]
  obtain q where q: "D (unat i) = Some q" "pe_id q = pe_id p" "unat i < ob_max_slots ob"
    by (rule agrees_slot_entry [OF assms(1,2)])
  show ?thesis
  proof (rule ob_agreesI)
    let ?ob = "ob\<lparr>ob_pending := bt_insert (ob_pending ob) (pe_id p) p\<rparr>"
    show "unat j < ob_max_slots ?ob \<and> (D(unat i := Some p)) (unat j) = bt_get (ob_pending ?ob) oid"
      if "bt_get (ob_slots ?ob) oid = Some j" for oid j
      using that d(4) [of oid j] inj [of oid j] by (cases "j = i") (auto simp: word_unat_eq_iff [of j i])
    show "pe_id r = oid \<and> pe_state r \<noteq> PeerAcked" if "bt_get (ob_pending ?ob) oid = Some r" for oid r
      using that d(5) [of oid r] assms(3) by (auto split: if_splits)
    show "pe_id r < ob_next_id ?ob \<and> (pe_state r = PeerAcked \<or> bt_get (ob_slots ?ob) (pe_id r) = Some (of_nat j))"
      if "j < ob_max_slots ?ob" "(D(unat i := Some p)) j = Some r" for j r
      using that d(6) [of j r] d(6) [OF q(3,1)] q(2) assms(2) by (cases "j = unat i") auto
    show "\<exists>n. t = Some n \<and> n \<le> ob_next_id ?ob \<and> (n = ob_next_id ?ob \<or>
        (\<exists>j r. j < ob_max_slots ?ob \<and> (D(unat i := Some p)) j = Some r \<and> ob_next_id ?ob = pe_id r + 1))"
      using agrees_tail_entry [OF assms(1) q(1,2)] by simp
    show "bt_get (ob_slots ?ob) oid = None \<longleftrightarrow> bt_get (ob_pending ?ob) oid = None" for oid
      using d(3) [of oid] assms(2) by (cases "oid = pe_id p") auto
  qed (use d(1,2) in \<open>simp_all add: bt_inv_insert\<close>)
qed

text \<open>Acknowledging a message: its slot holds nothing pending any more.\<close>

lemma agrees_ack:
  assumes "ob_agrees t D ob" and "bt_get (ob_slots ob) (pe_id p) = Some i" and "pe_state p = PeerAcked"
    and "t' = t \<or> t' = Some (ob_next_id ob)" and "ob_max_slots ob < 2 ^ 32"
  shows "ob_agrees t' (D(unat i := Some p))
    (ob\<lparr>ob_pending := bt_remove (ob_pending ob) (pe_id p), ob_slots := bt_remove (ob_slots ob) (pe_id p)\<rparr>)"
proof -
  note d = ob_agreesD [OF assms(1)] and inj = agrees_slot_inj_iff [OF assms(1,2)]
  obtain q where q: "D (unat i) = Some q" "pe_id q = pe_id p" "unat i < ob_max_slots ob"
    by (rule agrees_slot_entry [OF assms(1,2)])
  have small: "unat (of_nat j :: u32) = j" if "j < ob_max_slots ob" for j
    using that assms(5) by (simp add: unsigned_of_nat take_bit_nat_eq_self)
  show ?thesis
  proof (rule ob_agreesI)
    let ?ob = "ob\<lparr>ob_pending := bt_remove (ob_pending ob) (pe_id p), ob_slots := bt_remove (ob_slots ob) (pe_id p)\<rparr>"
    show "unat j < ob_max_slots ?ob \<and> (D(unat i := Some p)) (unat j) = bt_get (ob_pending ?ob) oid"
      if "bt_get (ob_slots ?ob) oid = Some j" for oid j
      using that d(4) [of oid j] inj [of oid j] by (auto simp: word_unat_eq_iff [of j i] split: if_splits)
    show "pe_id r = oid \<and> pe_state r \<noteq> PeerAcked" if "bt_get (ob_pending ?ob) oid = Some r" for oid r
      using that d(5) [of oid r] by (auto split: if_splits)
    show "pe_id r < ob_next_id ?ob \<and> (pe_state r = PeerAcked \<or> bt_get (ob_slots ?ob) (pe_id r) = Some (of_nat j))"
      if "j < ob_max_slots ?ob" "(D(unat i := Some p)) j = Some r" for j r
    proof (cases "j = unat i")
      case True
      with that d(6) [OF q(3,1)] q(2) assms(3) show ?thesis by auto
    next
      case False
      with that d(6) [of j r] have r: "pe_id r < ob_next_id ob"
        "pe_state r = PeerAcked \<or> bt_get (ob_slots ob) (pe_id r) = Some (of_nat j)" by auto
      have "pe_id r \<noteq> pe_id p" if "bt_get (ob_slots ob) (pe_id r) = Some (of_nat j)"
        using inj [OF that] False \<open>j < ob_max_slots ?ob\<close> small by auto
      with r show ?thesis by auto
    qed
    show "\<exists>n. t' = Some n \<and> n \<le> ob_next_id ?ob \<and> (n = ob_next_id ?ob \<or>
        (\<exists>j r. j < ob_max_slots ?ob \<and> (D(unat i := Some p)) j = Some r \<and> ob_next_id ?ob = pe_id r + 1))"
      using assms(4)
    proof
      assume "t' = t"
      then show ?thesis using agrees_tail_entry [OF assms(1) q(1,2)] by simp
    qed simp
  qed (use d(1,2,3) assms(2) in \<open>auto simp: bt_inv_remove\<close>)
qed

text \<open>A slot that becomes unreadable: nothing changes when it was free, its message is gone when it
  was not.\<close>

lemma agrees_spoil_free:
  assumes "ob_agrees (Some (ob_next_id ob)) D ob" and "\<And>oid. bt_get (ob_slots ob) oid \<noteq> Some i"
  shows "ob_agrees (Some (ob_next_id ob)) (D(unat i := None)) ob"
proof (rule ob_agreesI)
  note d = ob_agreesD [OF assms(1)]
  show "unat j < ob_max_slots ob \<and> (D(unat i := None)) (unat j) = bt_get (ob_pending ob) oid"
    if "bt_get (ob_slots ob) oid = Some j" for oid j
    using that d(4) [OF that] assms(2) [of oid] by (cases "j = i") (auto simp: word_unat_eq_iff [of j i])
  show "pe_id p < ob_next_id ob \<and> (pe_state p = PeerAcked \<or> bt_get (ob_slots ob) (pe_id p) = Some (of_nat j))"
    if "j < ob_max_slots ob" "(D(unat i := None)) j = Some p" for j p
    using that d(6) [of j p] by (auto split: if_splits)
qed (use ob_agreesD [OF assms(1)] in simp_all)

lemma agrees_drop:
  assumes "ob_agrees (Some (ob_next_id ob)) D ob" and "bt_get (ob_slots ob) oid = Some i"
    and "ob_max_slots ob < 2 ^ 32"
  shows "ob_agrees (Some (ob_next_id ob)) (D(unat i := None))
    (ob\<lparr>ob_pending := bt_remove (ob_pending ob) oid, ob_slots := bt_remove (ob_slots ob) oid\<rparr>)"
proof -
  obtain q where q: "D (unat i) = Some q" "pe_id q = oid" "unat i < ob_max_slots ob"
    by (rule agrees_slot_entry [OF assms(1,2)])
  let ?p = "q\<lparr>pe_state := PeerAcked\<rparr>"
  let ?ob = "ob\<lparr>ob_pending := bt_remove (ob_pending ob) oid, ob_slots := bt_remove (ob_slots ob) oid\<rparr>"
  have "ob_agrees (Some (ob_next_id ob)) (D(unat i := Some ?p)) ?ob"
    using agrees_ack [OF assms(1), of ?p i "Some (ob_next_id ob)"] assms(2,3) q(2) by simp
  moreover have "bt_get (ob_slots ?ob) k \<noteq> Some i" for k
    using agrees_slot_inj [OF assms(1,2), of k] by auto
  ultimately have "ob_agrees (Some (ob_next_id ?ob)) ((D(unat i := Some ?p)) (unat i := None)) ?ob"
    by (intro agrees_spoil_free) simp_all
  then show ?thesis by simp
qed

subsection \<open>The operations\<close>

lemma first_free_Some:
  "first_free used is = Some i \<Longrightarrow> i \<notin> set used \<and> i \<in> of_nat ` set is"
  by (induction used "is" rule: first_free.induct) (auto split: if_splits)

lemma first_free_None: "first_free used is = None \<Longrightarrow> of_nat ` set is \<subseteq> set used"
  by (induction used "is" rule: first_free.induct) (auto split: if_splits)

lemma alloc_slot:
  assumes "ob_geom bs ob" and "bt_inv (ob_slots ob)" and "length (ob_slots ob) < ob_max_slots ob"
  obtains i where "ob_alloc_slot ob = Inr i" "unat i < ob_max_slots ob" "\<And>oid. bt_get (ob_slots ob) oid \<noteq> Some i"
proof -
  have small: "unat (of_nat j :: u32) = j" if "j < ob_max_slots ob" for j
    using that assms(1) by (simp add: ob_geom_def unsigned_of_nat take_bit_nat_eq_self)
  have "inj_on (of_nat :: nat \<Rightarrow> u32) {0..<ob_max_slots ob}"
    by (rule inj_on_inverseI [of _ unat]) (simp add: small)
  then have "card (of_nat ` {0..<ob_max_slots ob} :: u32 set) = ob_max_slots ob" by (simp add: card_image)
  moreover have "card (set (map snd (ob_slots ob))) \<le> length (ob_slots ob)"
    using card_length [of "map snd (ob_slots ob)"] by simp
  ultimately have "\<not> (of_nat ` {0..<ob_max_slots ob} \<subseteq> set (map snd (ob_slots ob)))"
    using card_mono [of "set (map snd (ob_slots ob))" "of_nat ` {0..<ob_max_slots ob} :: u32 set"] assms(3) by auto
  then obtain i where i: "first_free (map snd (ob_slots ob)) [0..<ob_max_slots ob] = Some i"
    using first_free_None [of "map snd (ob_slots ob)" "[0..<ob_max_slots ob]"] by fastforce
  with first_free_Some [OF i] have "i \<notin> set (map snd (ob_slots ob))" "unat i < ob_max_slots ob"
    using small by auto
  moreover have "bt_get (ob_slots ob) oid \<noteq> Some i" for oid
    using calculation(1) bt_get_in_set [OF assms(2), of oid i] by force
  ultimately show thesis using that i by (simp add: ob_alloc_slot_def)
qed

definition ob_shape :: "('m, 'io) outbox \<Rightarrow> u64 \<times> nat \<times> nat" where
  "ob_shape ob = (ob_base ob, ob_slot_len ob, ob_max_slots ob)"

text \<open>Between operations the tail record is up to date and every pending message can be written
  again.\<close>

definition ob_ok :: "'m msg_codec \<Rightarrow> bytes \<Rightarrow> ('m, 'io) outbox \<Rightarrow> bool" where
  "ob_ok cd bs ob \<longleftrightarrow>
     ob_rep cd bs ob \<and> tail_next (ob_tail_bytes bs ob) = Some (ob_next_id ob) \<and> (\<forall>oid p. bt_get (ob_pending ob) oid = Some p \<longrightarrow> storable_pending cd (ob_slot_len ob) p)"

lemma ob_okD:
  assumes "ob_ok cd bs ob"
  shows "ob_geom bs ob"
    and "ob_agrees (tail_next (ob_tail_bytes bs ob)) (\<lambda>i. slot_pending cd (ob_slot_bytes bs ob i)) ob"
    and "ob_agrees (Some (ob_next_id ob)) (\<lambda>i. slot_pending cd (ob_slot_bytes bs ob i)) ob"
  using assms by (auto simp: ob_ok_def ob_rep_def)

text \<open>The outbox as the in-memory one.\<close>

definition ob_abs :: "('m, 'io) outbox \<Rightarrow> 'm mem_outbox" where
  "ob_abs ob = \<lparr>mo_pending = ob_pending ob, mo_next_id = ob_next_id ob\<rparr>"

text \<open>What the medium holds is a function of its bytes and of where the outbox lies.\<close>

lemma ob_shape_cong:
  assumes "ob_shape ob' = ob_shape ob"
  shows "ob_geom bs ob' = ob_geom bs ob" "ob_tail_bytes bs ob' = ob_tail_bytes bs ob"
    "ob_slot_bytes bs ob' = ob_slot_bytes bs ob" "ob_slot_len ob' = ob_slot_len ob"
  using assms by (auto simp: ob_shape_def ob_geom_def ob_tail_bytes_def ob_slot_bytes_def ob_slot_at_def fun_eq_iff)

text \<open>The bytes an outbox writes for a message and for its tail.\<close>

definition slot_image :: "'m msg_codec \<Rightarrow> nat \<Rightarrow> 'm pending \<Rightarrow> bytes" where
  "slot_image cd slot_len p =
     (case encode_slot_payload cd p of
        Inl _ \<Rightarrow> []
      | Inr payload \<Rightarrow> put (zeros slot_len) 0 (encode_record MAGIC_SLOT RECORD_SCHEMA payload))"

definition tail_image :: "u64 \<Rightarrow> bytes" where
  "tail_image next_id = put (zeros 64) 0 (encode_record MAGIC_TAIL RECORD_SCHEMA (le_bytes 8 next_id))"

lemma slot_image_storable:
  assumes "storable_pending cd n p"
  shows "length (slot_image cd n p) = n" and "slot_pending cd (slot_image cd n p) = Some p"
    and "ob_slot_len ob = n \<Longrightarrow> ob_write_slot ops cd ob i p = ob_write_flush ops ob (slot_offset ob i) (slot_image cd n p)"
proof -
  obtain payload where pl: "encode_slot_payload cd p = Inr payload" "length payload + 13 \<le> n"
    "\<And>rest. slot_pending cd (encode_record MAGIC_SLOT RECORD_SCHEMA payload @ rest) = Some p"
    using slot_pending_record [OF assms] by metis
  let ?r = "encode_record MAGIC_SLOT RECORD_SCHEMA payload"
  have r: "length ?r \<le> n" using pl(2) by (simp add: MAGIC_SLOT_def)
  then have im: "slot_image cd n p = ?r @ zeros (n - length ?r)"
    using pl(1) by (simp add: slot_image_def put_def)
  show "length (slot_image cd n p) = n" using im r by simp
  show "slot_pending cd (slot_image cd n p) = Some p" using im pl(3) by simp
  show "ob_write_slot ops cd ob i p = ob_write_flush ops ob (slot_offset ob i) (slot_image cd n p)"
    if "ob_slot_len ob = n" for ob :: "('a, 'b) outbox" and ops
    using that pl(1) r by (simp add: ob_write_slot_def slot_image_def)
qed

context persist_io
begin

lemma write_flush_exec:
  assumes "ready (ob_io ob)" and "unat off + length data \<le> length (contents (ob_io ob))"
  obtains io' where "ob_write_flush ops ob off data = (ob\<lparr>ob_io := io'\<rparr>, Inr ())" "ready io'"
    "contents io' = put (contents (ob_io ob)) (unat off) data"
proof -
  obtain io' where io': "po_write ops (ob_io ob) off data = (io', Inr ())" "po_flush ops io' = (io', Inr ())"
    "ready io'" "contents io' = put (contents (ob_io ob)) (unat off) data"
    using write_flush [OF assms] by metis
  then have "ob_write_flush ops ob off data = (ob\<lparr>ob_io := io'\<rparr>, Inr ())" by (simp add: ob_write_flush_def)
  with io'(3,4) show thesis by (intro that)
qed

lemma write_slot_exec:
  assumes "ready (ob_io ob)" and "ob_geom (contents (ob_io ob)) ob" and "unat i < ob_max_slots ob"
    and "storable_pending cd (ob_slot_len ob) p"
  obtains io' where "ob_write_slot ops cd ob i p = (ob\<lparr>ob_io := io'\<rparr>, Inr ())" "ready io'"
    "ob_geom (contents io') ob" "ob_tail_bytes (contents io') ob = ob_tail_bytes (contents (ob_io ob)) ob"
    "(\<lambda>j. slot_pending cd (ob_slot_bytes (contents io') ob j)) =
       (\<lambda>j. slot_pending cd (ob_slot_bytes (contents (ob_io ob)) ob j)) (unat i := Some p)"
proof -
  let ?data = "slot_image cd (ob_slot_len ob) p"
  note image = slot_image_storable [OF assms(4)]
  note off = ob_slot_offset_unat [OF assms(2,3), simplified] and put = slot_bytes_put [OF assms(2,3) image(1)]
  obtain io' where io': "ob_write_flush ops ob (slot_offset ob i) ?data = (ob\<lparr>ob_io := io'\<rparr>, Inr ())" "ready io'"
    "contents io' = put (contents (ob_io ob)) (ob_slot_at ob (unat i)) ?data"
    using write_flush_exec [OF assms(1), of "slot_offset ob i" ?data] off image(1) by metis
  then show thesis
    by (intro that [of io']) (simp_all add: image put fun_eq_iff)
qed

lemma write_tail_exec:
  assumes "ready (ob_io ob)" and "ob_geom (contents (ob_io ob)) ob"
  obtains io' where "ob_write_tail ops ob = (ob\<lparr>ob_io := io'\<rparr>, Inr ())" "ready io'"
    "ob_geom (contents io') ob" "tail_next (ob_tail_bytes (contents io') ob) = Some (ob_next_id ob)"
    "ob_slot_bytes (contents io') ob = ob_slot_bytes (contents (ob_io ob)) ob"
proof -
  let ?data = "put (zeros 64) 0 (encode_record MAGIC_TAIL RECORD_SCHEMA (le_bytes 8 (ob_next_id ob)))"
  have len: "length ?data = 64" by (simp add: put_def MAGIC_TAIL_def)
  have le: "unat (ob_base ob) + length ?data \<le> length (contents (ob_io ob))"
    using assms(2) len by (simp add: ob_geom_def ob_slot_at_def)
  show thesis
    using write_flush_exec [OF assms(1) le] tail_bytes_put [OF assms(2) len] that
    by (metis ob_write_tail_def tail_next_record)
qed

lemma enqueue_ok:
  assumes "ready (ob_io ob)" and "ob_ok cd (contents (ob_io ob)) ob" and "ob_next_id ob \<noteq> - 1"
    and "storable cd (ob_slot_len ob) m" and "length key = 16"
    and "ob_enqueue ops cd ob m key = (ob', r)"
  shows "ready (ob_io ob') \<and> ob_ok cd (contents (ob_io ob')) ob' \<and> ob_shape ob' = ob_shape ob \<and>
    (if find (\<lambda>(oid, p). pe_idempotency p = key) (ob_pending ob) = None \<and> ob_max_slots ob \<le> length (ob_slots ob)
     then r = Inl DsOutOfSpace \<and> ob' = ob else (ob_abs ob', r) = mo_enqueue (ob_abs ob) m key)"
proof (cases "find (\<lambda>(oid, p). pe_idempotency p = key) (ob_pending ob)")
  case (Some x)
  with assms(1,2,6) show ?thesis
    by (cases x) (auto simp: ob_enqueue_def mo_enqueue_def ob_abs_def)
next
  case None
  show ?thesis
  proof (cases "ob_max_slots ob \<le> length (ob_slots ob)")
    case True
    with None assms(1,2,6) show ?thesis by (simp add: ob_enqueue_def)
  next
    case False
    let ?p = "\<lparr>pe_id = ob_next_id ob, pe_idempotency = key, pe_message = m, pe_attempts = 0,
        pe_last_sent_at_ms = 0, pe_state = Queued\<rparr>"
    note geom = ob_okD(1) [OF assms(2)] and ag = ob_okD(2) [OF assms(2)]
    obtain i where i: "ob_alloc_slot ob = Inr i" "unat i < ob_max_slots ob" "\<And>oid. bt_get (ob_slots ob) oid \<noteq> Some i"
      using alloc_slot [OF geom ob_agreesD(1) [OF ag]] False by (metis not_le)
    have st: "storable_pending cd (ob_slot_len ob) ?p" using assms(4,5) by (simp add: storable_pending_def)
    obtain io1 where w: "ob_write_slot ops cd ob i ?p = (ob\<lparr>ob_io := io1\<rparr>, Inr ())" "ready io1"
      "ob_geom (contents io1) ob"
      "(\<lambda>j. slot_pending cd (ob_slot_bytes (contents io1) ob j)) =
         (\<lambda>j. slot_pending cd (ob_slot_bytes (contents (ob_io ob)) ob j)) (unat i := Some ?p)"
      using write_slot_exec [OF assms(1) geom i(2) st] by metis
    let ?ob1 = "ob\<lparr>ob_io := io1, ob_slots := bt_insert (ob_slots ob) (ob_next_id ob) i,
        ob_pending := bt_insert (ob_pending ob) (ob_next_id ob) ?p, ob_next_id := ob_next_id ob + 1\<rparr>"
    have sh: "ob_shape ?ob1 = ob_shape ob" by (simp add: ob_shape_def)
    obtain io2 where t: "ob_write_tail ops ?ob1 = (?ob1\<lparr>ob_io := io2\<rparr>, Inr ())" "ready io2"
      "ob_geom (contents io2) ?ob1" "tail_next (ob_tail_bytes (contents io2) ?ob1) = Some (ob_next_id ob + 1)"
      "ob_slot_bytes (contents io2) ?ob1 = ob_slot_bytes (contents io1) ?ob1"
      using write_tail_exec [of ?ob1] w(2,3) ob_shape_cong(1) [OF sh] by auto
    have r: "ob' = ?ob1\<lparr>ob_io := io2\<rparr>" "r = Inr (ob_next_id ob)"
      using None False i(1) w(1) t(1) assms(6) by (simp_all add: ob_enqueue_def Let_def)
    have sh': "ob_shape ob' = ob_shape ob" using r by (simp add: ob_shape_def)
    note cong = ob_shape_cong [OF sh'] ob_shape_cong [OF sh]
    have io: "ob_io ob' = io2" using r by simp
    have "ob_rep cd (contents (ob_io ob')) ob'"
      using agrees_enqueue [OF ag assms(3) i(3,2), of ?p "Some (ob_next_id ob + 1)" "ob_next_id ob + 1"] t(3,4,5) w(4)
      unfolding ob_rep_def cong io by (simp add: r)
    moreover have "storable_pending cd (ob_slot_len ob) q" if "bt_get (ob_pending ob') oid = Some q" for oid q
      using that st assms(2) r by (auto simp: ob_ok_def split: if_splits)
    moreover have "tail_next (ob_tail_bytes (contents (ob_io ob')) ob') = Some (ob_next_id ob')"
      using t(4) unfolding io cong by (simp add: r)
    ultimately have "ob_ok cd (contents (ob_io ob')) ob'" unfolding ob_ok_def cong(4) by blast
    then show ?thesis
      using None False r t(2) sh' by (simp add: mo_enqueue_def ob_abs_def Let_def)
  qed
qed

lemma mark_sent_ok:
  assumes "ready (ob_io ob)" and "ob_ok cd (contents (ob_io ob)) ob"
    and "ob_mark_sent ops cd ob oid at = (ob', r)"
  shows "ready (ob_io ob') \<and> ob_ok cd (contents (ob_io ob')) ob' \<and> ob_shape ob' = ob_shape ob \<and>
    ob_next_id ob' = ob_next_id ob \<and> 
    (case bt_get (ob_pending ob) oid of
       None \<Rightarrow> r = Inl (DsOther ''unknown-outbox-id'') \<and> ob' = ob
     | Some p \<Rightarrow> r = Inr () \<and> ob_pending ob' = bt_insert (ob_pending ob) oid
         (p\<lparr>pe_attempts := pe_attempts p + 1, pe_last_sent_at_ms := at, pe_state := Sent\<rparr>))"
proof -
  note geom = ob_okD(1) [OF assms(2)] and ag = ob_okD(2) [OF assms(2)]
  show ?thesis
  proof (cases "bt_get (ob_slots ob) oid")
    case None
    with ob_agreesD(3) [OF ag, of oid] assms show ?thesis by (simp add: ob_mark_sent_def)
  next
    case (Some i)
    obtain q where q: "pe_id q = oid" "unat i < ob_max_slots ob" "bt_get (ob_pending ob) oid = Some q"
      using agrees_slot_entry [OF ag Some] by metis
    let ?p = "q\<lparr>pe_attempts := pe_attempts q + 1, pe_last_sent_at_ms := at, pe_state := Sent\<rparr>"
    let ?ob1 = "ob\<lparr>ob_pending := bt_insert (ob_pending ob) oid ?p\<rparr>"
    have sh: "ob_shape ?ob1 = ob_shape ob" by (simp add: ob_shape_def)
    note cong = ob_shape_cong [OF sh]
    have st: "storable_pending cd (ob_slot_len ob) ?p"
      using assms(2) q(3) by (auto simp: ob_ok_def storable_pending_def)
    obtain io1 where w: "ob_write_slot ops cd ?ob1 i ?p = (?ob1\<lparr>ob_io := io1\<rparr>, Inr ())" "ready io1"
      "ob_geom (contents io1) ob" "ob_tail_bytes (contents io1) ob = ob_tail_bytes (contents (ob_io ob)) ob"
      "(\<lambda>j. slot_pending cd (ob_slot_bytes (contents io1) ob j)) =
         (\<lambda>j. slot_pending cd (ob_slot_bytes (contents (ob_io ob)) ob j)) (unat i := Some ?p)"
      using write_slot_exec [of ?ob1 i cd ?p] assms(1) geom q(2) st unfolding cong by auto
    have r: "ob' = ?ob1\<lparr>ob_io := io1\<rparr>" "r = Inr ()"
      using assms(3) Some q(3) w(1) by (simp_all add: ob_mark_sent_def Let_def)
    have sh': "ob_shape ob' = ob_shape ob" and io: "ob_io ob' = io1" using r by (simp_all add: ob_shape_def)
    note cong' = ob_shape_cong [OF sh']
    have "ob_rep cd (contents (ob_io ob')) ob'"
      using agrees_rewrite [OF ag, of ?p i] Some q(1) w(3,4,5)
      unfolding ob_rep_def cong' io by (simp add: r)
    moreover have "storable_pending cd (ob_slot_len ob) x" if "bt_get (ob_pending ob') k = Some x" for k x
      using that st assms(2) r by (auto simp: ob_ok_def split: if_splits)
    moreover have "tail_next (ob_tail_bytes (contents (ob_io ob')) ob) = Some (ob_next_id ob')"
      using assms(2) w(4) unfolding io by (simp add: r ob_ok_def)
    ultimately have "ob_ok cd (contents (ob_io ob')) ob'" unfolding ob_ok_def cong' by blast
    then show ?thesis using r w(2) sh' q(3) by simp
  qed
qed

lemma mark_acked_ok:
  assumes "ready (ob_io ob)" and "ob_ok cd (contents (ob_io ob)) ob"
  obtains ob' r where "ob_mark_acked ops cd ob oid receipt = Some (ob', r)" "ready (ob_io ob')"
    "ob_ok cd (contents (ob_io ob')) ob'" "ob_shape ob' = ob_shape ob"
    "(ob_abs ob', r) = mo_mark_acked (ob_abs ob) oid receipt"
proof -
  note geom = ob_okD(1) [OF assms(2)] and ag = ob_okD(2) [OF assms(2)]
  show thesis
  proof (cases "bt_get (ob_slots ob) oid")
    case None
    with ob_agreesD(3) [OF ag, of oid] have "bt_get (ob_pending ob) oid = None" by simp
    moreover from this have "bt_remove (ob_pending ob) oid = ob_pending ob"
      by (intro bt_ext bt_inv_remove ob_agreesD(2) [OF ag]) simp
    ultimately show thesis using assms
      by (intro that [of ob "Inr ()"]) (simp_all add: ob_mark_acked_def mo_mark_acked_def ob_abs_def)
  next
    case (Some i)
    obtain q where q: "pe_id q = oid" "unat i < ob_max_slots ob" "bt_get (ob_pending ob) oid = Some q"
      using agrees_slot_entry [OF ag Some] by metis
    let ?p = "q\<lparr>pe_state := PeerAcked\<rparr>"
    let ?ob1 = "ob\<lparr>ob_pending := bt_remove (ob_pending ob) oid\<rparr>"
    have sh: "ob_shape ?ob1 = ob_shape ob" by (simp add: ob_shape_def)
    note cong = ob_shape_cong [OF sh]
    have st: "storable_pending cd (ob_slot_len ob) ?p"
      using assms(2) q(3) by (auto simp: ob_ok_def storable_pending_def)
    obtain io1 where w: "ob_write_slot ops cd ?ob1 i ?p = (?ob1\<lparr>ob_io := io1\<rparr>, Inr ())" "ready io1"
      "ob_geom (contents io1) ob"
      "(\<lambda>j. slot_pending cd (ob_slot_bytes (contents io1) ob j)) =
         (\<lambda>j. slot_pending cd (ob_slot_bytes (contents (ob_io ob)) ob j)) (unat i := Some ?p)"
      using write_slot_exec [of ?ob1 i cd ?p] assms(1) geom q(2) st unfolding cong by auto
    let ?ob2 = "?ob1\<lparr>ob_io := io1, ob_slots := bt_remove (ob_slots ob) oid\<rparr>"
    have sh2: "ob_shape ?ob2 = ob_shape ob" by (simp add: ob_shape_def)
    obtain io2 where t: "ob_write_tail ops ?ob2 = (?ob2\<lparr>ob_io := io2\<rparr>, Inr ())" "ready io2"
      "ob_geom (contents io2) ob" "tail_next (ob_tail_bytes (contents io2) ob) = Some (ob_next_id ob)"
      "ob_slot_bytes (contents io2) ob = ob_slot_bytes (contents io1) ob"
      using write_tail_exec [of ?ob2] w(2,3) unfolding ob_shape_cong [OF sh2] by auto
    define ob' where "ob' = ?ob2\<lparr>ob_io := io2\<rparr>"
    have sh': "ob_shape ob' = ob_shape ob" and io: "ob_io ob' = io2" by (simp_all add: ob_shape_def ob'_def)
    note cong' = ob_shape_cong [OF sh']
    have "ob_rep cd (contents (ob_io ob')) ob'"
      using agrees_ack [OF ag, of ?p i "Some (ob_next_id ob)"] Some q(1) w(4) t(3,4,5) geom
      unfolding ob_rep_def cong' io by (simp add: ob'_def ob_geom_def)
    moreover have "storable_pending cd (ob_slot_len ob) x" if "bt_get (ob_pending ob') k = Some x" for k x
      using that assms(2) by (auto simp: ob_ok_def ob'_def split: if_splits)
    moreover have "tail_next (ob_tail_bytes (contents (ob_io ob')) ob) = Some (ob_next_id ob')"
      using t(4) unfolding io by (simp add: ob'_def)
    ultimately have "ob_ok cd (contents (ob_io ob')) ob'" unfolding ob_ok_def cong' by blast
    moreover have "ob_mark_acked ops cd ob oid receipt = Some (ob', Inr ())"
      using Some q(3) w(1) t(1) by (simp add: ob_mark_acked_def ob'_def Let_def)
    ultimately show thesis
      by (intro that [of ob' "Inr ()"]) (simp_all add: io t(2) sh' mo_mark_acked_def ob_abs_def, simp_all add: ob'_def)
  qed
qed

end

section \<open>Sequences of operations\<close>

datatype 'm outbox_op = OpEnqueue 'm bytes | OpSent u64 u64 | OpAcked u64 peer_receipt

fun ob_step ::
  "'io persist_ops \<Rightarrow> 'm msg_codec \<Rightarrow> 'm outbox_op \<Rightarrow> ('m, 'io) outbox \<Rightarrow> ('m, 'io) outbox option" where
  "ob_step ops cd (OpEnqueue m key) ob = Some (fst (ob_enqueue ops cd ob m key))"
| "ob_step ops cd (OpSent oid at) ob = Some (fst (ob_mark_sent ops cd ob oid at))"
| "ob_step ops cd (OpAcked oid receipt) ob = map_option fst (ob_mark_acked ops cd ob oid receipt)"

fun ob_run ::
  "'io persist_ops \<Rightarrow> 'm msg_codec \<Rightarrow> 'm outbox_op list \<Rightarrow> ('m, 'io) outbox \<Rightarrow> ('m, 'io) outbox option" where
  "ob_run ops cd [] ob = Some ob"
| "ob_run ops cd (op # rest) ob =
     (case ob_step ops cd op ob of None \<Rightarrow> None | Some ob \<Rightarrow> ob_run ops cd rest ob)"

fun op_storable :: "'m msg_codec \<Rightarrow> nat \<Rightarrow> 'm outbox_op \<Rightarrow> bool" where
  "op_storable cd n (OpEnqueue m key) = (storable cd n m \<and> length key = 16)"
| "op_storable cd n _ = True"

lemma mo_enqueue_next:
  "mo_enqueue mo m key = (mo', r) \<Longrightarrow> mo_next_id mo' = mo_next_id mo \<or> mo_next_id mo' = mo_next_id mo + 1"
  by (auto simp: mo_enqueue_def Let_def split: option.splits)

context persist_io
begin

lemma step_ok:
  assumes "ready (ob_io ob)" and "ob_ok cd (contents (ob_io ob)) ob" and "ob_next_id ob \<noteq> - 1"
    and "op_storable cd (ob_slot_len ob) op"
  obtains ob' where "ob_step ops cd op ob = Some ob'" "ready (ob_io ob')" "ob_ok cd (contents (ob_io ob')) ob'"
    "ob_shape ob' = ob_shape ob" "ob_next_id ob' = ob_next_id ob \<or> ob_next_id ob' = ob_next_id ob + 1"
proof (cases op)
  case (OpEnqueue m key)
  obtain ob' r where e: "ob_enqueue ops cd ob m key = (ob', r)" by fastforce
  with enqueue_ok [OF assms(1,2,3) _ _ e] mo_enqueue_next [of "ob_abs ob" m key "ob_abs ob'" r] OpEnqueue assms(4) that
  show ?thesis by (auto simp: ob_abs_def split: if_splits)
next
  case (OpSent oid at)
  obtain ob' r where e: "ob_mark_sent ops cd ob oid at = (ob', r)" by fastforce
  with mark_sent_ok [OF assms(1,2) e] OpSent that show ?thesis by simp
next
  case (OpAcked oid receipt)
  obtain ob' r where "ob_mark_acked ops cd ob oid receipt = Some (ob', r)" "ready (ob_io ob')"
    "ob_ok cd (contents (ob_io ob')) ob'" "ob_shape ob' = ob_shape ob"
    "(ob_abs ob', r) = mo_mark_acked (ob_abs ob) oid receipt"
    by (rule mark_acked_ok [OF assms(1,2)])
  with OpAcked that show ?thesis by (simp add: mo_mark_acked_def ob_abs_def)
qed

lemma run_ok:
  assumes "ready (ob_io ob)" and "ob_ok cd (contents (ob_io ob)) ob"
    and "unat (ob_next_id ob) + length acts < 2 ^ 64" and "list_all (op_storable cd (ob_slot_len ob)) acts"
  shows "\<exists>ob'. ob_run ops cd acts ob = Some ob' \<and> ready (ob_io ob') \<and> ob_ok cd (contents (ob_io ob')) ob' \<and>
    ob_shape ob' = ob_shape ob"
  using assms
proof (induction acts arbitrary: ob)
  case (Cons op acts)
  have nm: "ob_next_id ob \<noteq> - 1" using Cons.prems(3) unat_Suc_less_iff [of "ob_next_id ob"] by simp
  obtain ob1 where s: "ob_step ops cd op ob = Some ob1" "ready (ob_io ob1)" "ob_ok cd (contents (ob_io ob1)) ob1"
    "ob_shape ob1 = ob_shape ob" "ob_next_id ob1 = ob_next_id ob \<or> ob_next_id ob1 = ob_next_id ob + 1"
    using step_ok [OF Cons.prems(1,2) nm] Cons.prems(4) by auto
  have "unat (ob_next_id ob1) \<le> Suc (unat (ob_next_id ob))"
    using s(5) nm unat_Suc_less_iff [of "ob_next_id ob"] by (auto simp: unat_word_ariths)
  then have "unat (ob_next_id ob1) + length acts < 2 ^ 64" using Cons.prems(3) by simp
  from Cons.IH [OF s(2,3) this] Cons.prems(4) s(1,4) ob_shape_cong(4) [OF s(4)] show ?case by simp
qed simp

lemma blank_ok:
  assumes "ready io" and "contents io = zeros n" and "n < 2 ^ 64" and "64 \<le> slot_len"
    and "0 < max_slots" and "max_slots < 2 ^ 32" and "unat base + 64 + max_slots * slot_len \<le> n"
  shows "ob_ok cd (contents io) (ob_new io base slot_len max_slots)"
proof -
  let ?ob = "ob_new io base slot_len max_slots"
  have geom: "ob_geom (zeros n) ?ob" using assms by (simp add: ob_geom_def ob_new_def ob_slot_at_def)
  have z: "slice a b (zeros n) = zeros (min (b - a) (n - a))" for a b by (simp add: slice_def min.commute)
  have dz: "decode_record (zeros k) = Inl DsCorrupt" for k
    by (simp add: decode_record_def RECORD_SCHEMA_def Let_def)
  have "ob_agrees (tail_next (ob_tail_bytes (zeros n) ?ob)) (\<lambda>i. slot_pending cd (ob_slot_bytes (zeros n) ?ob i)) ?ob"
    by (rule ob_agreesI)
      (simp_all add: ob_new_def bt_inv_def ob_tail_bytes_def ob_slot_bytes_def z dz tail_next_def slot_pending_def)
  moreover have "tail_next (ob_tail_bytes (zeros n) ?ob) = Some (ob_next_id ?ob)"
    by (simp add: ob_new_def ob_tail_bytes_def z dz tail_next_def)
  ultimately show ?thesis using geom assms(2) by (simp add: ob_ok_def ob_rep_def ob_new_def)
qed

end

section \<open>Power cuts\<close>

definition ob_powered :: "nat \<Rightarrow> ('m, 'io) outbox \<Rightarrow> ('m, 'io powered_io) outbox" where
  "ob_powered n ob =
     \<lparr>ob_io = \<lparr>pi_io = ob_io ob, pi_left = Some n\<rparr>, ob_base = ob_base ob, ob_slot_len = ob_slot_len ob,
      ob_max_slots = ob_max_slots ob, ob_next_id = ob_next_id ob, ob_slots = ob_slots ob,
      ob_pending = ob_pending ob\<rparr>"

text \<open>What an operation leaves on the medium when the power lasts for \<open>n\<close> writes.\<close>

definition ob_enqueue_cut ::
  "'io persist_ops \<Rightarrow> 'm msg_codec \<Rightarrow> bytes \<Rightarrow> nat \<Rightarrow> ('m, 'io) outbox \<Rightarrow> 'm \<Rightarrow> bytes \<Rightarrow> 'io" where
  "ob_enqueue_cut ops cd junk n ob m key =
     pi_io (ob_io (fst (ob_enqueue (pio_ops ops junk) cd (ob_powered n ob) m key)))"

definition ob_mark_sent_cut ::
  "'io persist_ops \<Rightarrow> 'm msg_codec \<Rightarrow> bytes \<Rightarrow> nat \<Rightarrow> ('m, 'io) outbox \<Rightarrow> u64 \<Rightarrow> u64 \<Rightarrow> 'io" where
  "ob_mark_sent_cut ops cd junk n ob oid at =
     pi_io (ob_io (fst (ob_mark_sent (pio_ops ops junk) cd (ob_powered n ob) oid at)))"

context persist_io
begin

lemma write_flush_powered:
  assumes "ready io" and "ob_io ob = \<lparr>pi_io = io, pi_left = Some n\<rparr>" and "unat off + length data \<le> length (contents io)"
  obtains io' where "ready io'"
    "contents io' = put (contents io) (unat off) (if n = 0 then torn_bytes junk data else data)"
    "ob_write_flush (pio_ops ops junk) ob off data =
       (if n = 0 then (ob\<lparr>ob_io := \<lparr>pi_io = io', pi_left = None\<rparr>\<rparr>, Inl DsWriteFailed)
        else (ob\<lparr>ob_io := \<lparr>pi_io = io', pi_left = Some (n - 1)\<rparr>\<rparr>, Inr ()))"
proof -
  have le: "unat off + length (if n = 0 then torn_bytes junk data else data) \<le> length (contents io)"
    using assms(3) by simp
  obtain io' where io': "po_write ops io off (if n = 0 then torn_bytes junk data else data) = (io', Inr ())"
    "po_flush ops io' = (io', Inr ())" "ready io'"
    "contents io' = put (contents io) (unat off) (if n = 0 then torn_bytes junk data else data)"
    using write_flush [OF assms(1) le] by metis
  show thesis
    by (rule that [OF io'(3,4)])
      (use io'(1,2) assms(2) in \<open>cases n; simp add: ob_write_flush_def pio_ops_def pio_write_def\<close>)
qed

lemma reopen:
  assumes "ready io" and "ob_geom (contents io) ob"
    and "ob_agrees (tail_next (ob_tail_bytes (contents io) ob)) (\<lambda>j. slot_pending cd (ob_slot_bytes (contents io) ob j)) ob"
  shows "ob_open ops cd (ob_new io (ob_base ob) (ob_slot_len ob) (ob_max_slots ob)) = (ob\<lparr>ob_io := io\<rparr>, Inr ())"
  using open_rep [of "ob\<lparr>ob_io := io\<rparr>" cd] assms ob_shape_cong [of "ob\<lparr>ob_io := io\<rparr>" ob]
  by (simp add: ob_rep_def ob_shape_def)

text \<open>A slot write with power for \<open>n\<close> writes: \<open>w\<close> is what the slot holds afterwards.\<close>

lemma powered_slot_write:
  assumes "ready (ob_io ob)" and "ob_ok cd (contents (ob_io ob)) ob" and "unat i < ob_max_slots ob"
    and "storable_pending cd (ob_slot_len ob) p"
    and "w = (if n = 0 then slot_pending cd (torn_bytes junk (slot_image cd (ob_slot_len ob) p)) else Some p)"
    and "ob_io pob = \<lparr>pi_io = ob_io ob, pi_left = Some n\<rparr>" and "ob_shape pob = ob_shape ob"
  obtains io' where "ready io'" "ob_geom (contents io') ob"
    "ob_write_slot (pio_ops ops junk) cd pob i p =
       (if n = 0 then (pob\<lparr>ob_io := \<lparr>pi_io = io', pi_left = None\<rparr>\<rparr>, Inl DsWriteFailed)
        else (pob\<lparr>ob_io := \<lparr>pi_io = io', pi_left = Some (n - 1)\<rparr>\<rparr>, Inr ()))"
    "tail_next (ob_tail_bytes (contents io') ob) = Some (ob_next_id ob)"
    "(\<lambda>j. slot_pending cd (ob_slot_bytes (contents io') ob j)) =
       (\<lambda>j. slot_pending cd (ob_slot_bytes (contents (ob_io ob)) ob j)) (unat i := w)"
proof -
  let ?data = "slot_image cd (ob_slot_len ob) p"
  let ?put = "if n = 0 then torn_bytes junk ?data else ?data"
  note geom = ob_okD(1) [OF assms(2)] and image = slot_image_storable [OF assms(4)]
  have len: "length ?put = ob_slot_len ob" using image(1) by simp
  note off = ob_slot_offset_unat [OF geom assms(3), simplified] and put = slot_bytes_put [OF geom assms(3) len]
  have same: "ob_slot_len pob = ob_slot_len ob" "slot_offset pob i = slot_offset ob i"
    using assms(7) by (simp_all add: ob_shape_def slot_offset_def)
  have le: "unat (slot_offset ob i) + length ?data \<le> length (contents (ob_io ob))" using off image(1) by simp
  show thesis
  proof (rule write_flush_powered [OF assms(1,6) le, of junk])
    fix io'
    assume io': "ready io'" "contents io' = put (contents (ob_io ob)) (unat (slot_offset ob i)) ?put"
      "ob_write_flush (pio_ops ops junk) pob (slot_offset ob i) ?data =
        (if n = 0 then (pob\<lparr>ob_io := \<lparr>pi_io = io', pi_left = None\<rparr>\<rparr>, Inl DsWriteFailed)
         else (pob\<lparr>ob_io := \<lparr>pi_io = io', pi_left = Some (n - 1)\<rparr>\<rparr>, Inr ()))"
    note bytes = io'(2) [unfolded off(1)]
    show thesis
    proof (rule that [OF io'(1)])
      show "ob_geom (contents io') ob" using put(1) bytes by simp
      show "tail_next (ob_tail_bytes (contents io') ob) = Some (ob_next_id ob)"
        using put(2) bytes assms(2) by (simp add: ob_ok_def)
      show "(\<lambda>j. slot_pending cd (ob_slot_bytes (contents io') ob j)) =
         (\<lambda>j. slot_pending cd (ob_slot_bytes (contents (ob_io ob)) ob j)) (unat i := w)"
        using put(3) bytes assms(5) image(2) by (simp add: fun_eq_iff)
    qed (use io'(3) image(3) [OF same(1)] same(2) in simp)
  qed
qed

text \<open>The same of a tail write.\<close>

lemma powered_tail_write:
  assumes "ready io" and "ob_geom (contents io) ob" and "ob_io pob = \<lparr>pi_io = io, pi_left = Some n\<rparr>"
    and "ob_base pob = ob_base ob"
  obtains io' where "ready io'" "ob_geom (contents io') ob" "pi_io (ob_io (fst (ob_write_tail (pio_ops ops junk) pob))) = io'"
    "tail_next (ob_tail_bytes (contents io') ob) =
       (if n = 0 then tail_next (torn_bytes junk (tail_image (ob_next_id pob))) else Some (ob_next_id pob))"
    "ob_slot_bytes (contents io') ob = ob_slot_bytes (contents io) ob"
proof -
  let ?data = "tail_image (ob_next_id pob)"
  let ?put = "if n = 0 then torn_bytes junk ?data else ?data"
  have len: "length ?put = 64" by (simp add: tail_image_def put_def MAGIC_TAIL_def)
  have le: "unat (ob_base pob) + length ?data \<le> length (contents io)"
    using assms(2,4) len by (simp add: ob_geom_def ob_slot_at_def split: if_splits)
  note put = tail_bytes_put [OF assms(2) len]
  have tn: "tail_next ?data = Some (ob_next_id pob)" by (simp add: tail_image_def tail_next_record)
  show thesis
  proof (rule write_flush_powered [OF assms(1,3) le, of junk])
    fix io'
    assume io': "ready io'" "contents io' = put (contents io) (unat (ob_base pob)) ?put"
      "ob_write_flush (pio_ops ops junk) pob (ob_base pob) ?data =
        (if n = 0 then (pob\<lparr>ob_io := \<lparr>pi_io = io', pi_left = None\<rparr>\<rparr>, Inl DsWriteFailed)
         else (pob\<lparr>ob_io := \<lparr>pi_io = io', pi_left = Some (n - 1)\<rparr>\<rparr>, Inr ()))"
    note bytes = io'(2) [unfolded assms(4)]
    show thesis
    proof (rule that [OF io'(1)])
      show "pi_io (ob_io (fst (ob_write_tail (pio_ops ops junk) pob))) = io'"
        using io'(3) by (simp add: ob_write_tail_def flip: tail_image_def)
    qed (use put tn in \<open>simp_all add: bytes\<close>)
  qed
qed

lemma mark_sent_cut:
  assumes "ready (ob_io ob)" and "ob_ok cd (contents (ob_io ob)) ob" and "bt_get (ob_pending ob) oid = Some q"
    and "slot_pending cd (torn_bytes junk (slot_image cd (ob_slot_len ob)
      (q\<lparr>pe_attempts := pe_attempts q + 1, pe_last_sent_at_ms := at, pe_state := Sent\<rparr>))) = None"
  shows "\<exists>ob'. ob_open ops cd (ob_new (ob_mark_sent_cut ops cd junk 0 ob oid at) (ob_base ob) (ob_slot_len ob)
      (ob_max_slots ob)) = (ob', Inr ()) \<and> ob_pending ob' = bt_remove (ob_pending ob) oid"
proof -
  let ?p = "q\<lparr>pe_attempts := pe_attempts q + 1, pe_last_sent_at_ms := at, pe_state := Sent\<rparr>"
  note ag = ob_okD(3) [OF assms(2)]
  obtain i where i: "bt_get (ob_slots ob) oid = Some i" using ob_agreesD(3) [OF ag, of oid] assms(3) by fastforce
  have iu: "unat i < ob_max_slots ob" using ob_agreesD(4) [OF ag i] by simp
  have st: "storable_pending cd (ob_slot_len ob) ?p" using assms(2,3) by (auto simp: ob_ok_def storable_pending_def)
  let ?pob = "(ob_powered 0 ob)\<lparr>ob_pending := bt_insert (ob_pending ob) oid ?p\<rparr>"
  obtain io' where io': "ready io'" "ob_geom (contents io') ob"
    "ob_write_slot (pio_ops ops junk) cd ?pob i ?p = (?pob\<lparr>ob_io := \<lparr>pi_io = io', pi_left = None\<rparr>\<rparr>, Inl DsWriteFailed)"
    "tail_next (ob_tail_bytes (contents io') ob) = Some (ob_next_id ob)"
    "(\<lambda>j. slot_pending cd (ob_slot_bytes (contents io') ob j)) =
       (\<lambda>j. slot_pending cd (ob_slot_bytes (contents (ob_io ob)) ob j)) (unat i := None)"
    using powered_slot_write [OF assms(1,2) iu st, of None 0 junk ?pob] assms(4)
    by (auto simp: ob_powered_def ob_shape_def)
  have cut: "ob_mark_sent_cut ops cd junk 0 ob oid at = io'"
    using io'(3) i assms(3) by (simp add: ob_mark_sent_cut_def ob_mark_sent_def ob_powered_def Let_def)
  let ?ob = "ob\<lparr>ob_pending := bt_remove (ob_pending ob) oid, ob_slots := bt_remove (ob_slots ob) oid\<rparr>"
  have sh: "ob_shape ?ob = ob_shape ob" by (simp add: ob_shape_def)
  have "ob_max_slots ob < 2 ^ 32" using ob_okD(1) [OF assms(2)] by (simp add: ob_geom_def)
  from reopen [OF io'(1), of ?ob cd] agrees_drop [OF ag i this] io'(2,4,5)
  show ?thesis unfolding cut ob_shape_cong [OF sh] by simp
qed

lemma enqueue_cut_fresh:
  assumes "ready (ob_io ob)" and "ob_ok cd (contents (ob_io ob)) ob" and "ob_next_id ob \<noteq> - 1"
    and p: "p = \<lparr>pe_id = ob_next_id ob, pe_idempotency = key, pe_message = m, pe_attempts = 0,
        pe_last_sent_at_ms = 0, pe_state = Queued\<rparr>"
    and st: "storable_pending cd (ob_slot_len ob) p"
    and none: "find (\<lambda>(oid, p). pe_idempotency p = key) (ob_pending ob) = None"
    and room: "length (ob_slots ob) < ob_max_slots ob"
    and torn: "slot_pending cd (torn_bytes junk (slot_image cd (ob_slot_len ob) p)) \<in> {None, Some p}"
      "tail_next (torn_bytes junk (tail_image (ob_next_id ob + 1))) = Some k" "k \<le> ob_next_id ob + 1"
  shows "\<exists>ob'. ob_open ops cd (ob_new (ob_enqueue_cut ops cd junk n ob m key) (ob_base ob) (ob_slot_len ob)
      (ob_max_slots ob)) = (ob', Inr ()) \<and> ob_abs ob' \<in> {ob_abs ob, fst (mo_enqueue (ob_abs ob) m key)}"
proof -
  note geom = ob_okD(1) [OF assms(2)] and ag = ob_okD(3) [OF assms(2)]
  obtain i where i: "ob_alloc_slot ob = Inr i" "unat i < ob_max_slots ob" "\<And>oid. bt_get (ob_slots ob) oid \<noteq> Some i"
    using alloc_slot [OF geom ob_agreesD(1) [OF ag] room] by metis
  let ?ob1 = "ob\<lparr>ob_slots := bt_insert (ob_slots ob) (pe_id p) i, ob_pending := bt_insert (ob_pending ob) (pe_id p) p,
      ob_next_id := ob_next_id ob + 1\<rparr>"
  have sh: "ob_shape ?ob1 = ob_shape ob" by (simp add: ob_shape_def)
  have abs1: "ob_abs (?ob1\<lparr>ob_io := io\<rparr>) = fst (mo_enqueue (ob_abs ob) m key)" for io
    using none by (simp add: ob_abs_def mo_enqueue_def Let_def p)
  have pw: "ob_alloc_slot (ob_powered n ob) = Inr i" "find (\<lambda>(oid, p). pe_idempotency p = key) (ob_pending (ob_powered n ob)) = None"
    "\<not> ob_max_slots (ob_powered n ob) \<le> length (ob_slots (ob_powered n ob))" "ob_next_id (ob_powered n ob) = ob_next_id ob"
    "ob_slot_len (ob_powered n ob) = ob_slot_len ob" "ob_base (ob_powered n ob) = ob_base ob"
    "ob_io (ob_powered n ob) = \<lparr>pi_io = ob_io ob, pi_left = Some n\<rparr>" "ob_shape (ob_powered n ob) = ob_shape ob"
    using i(1) none room by (simp_all add: ob_powered_def ob_alloc_slot_def ob_shape_def)
  have new: "ob_agrees (Some k') (\<lambda>j. slot_pending cd (ob_slot_bytes (contents io') ob j)) ?ob1"
    if "k' \<le> ob_next_id ob + 1" "(\<lambda>j. slot_pending cd (ob_slot_bytes (contents io') ob j)) =
       (\<lambda>j. slot_pending cd (ob_slot_bytes (contents (ob_io ob)) ob j)) (unat i := Some p)" for k' io'
    using agrees_enqueue [OF ag assms(3) i(3,2), of p "Some k'" k'] that by (simp add: p)
  obtain io' where io': "ready io'" "ob_geom (contents io') ob"
    "ob_write_slot (pio_ops ops junk) cd (ob_powered n ob) i p =
       (if n = 0 then ((ob_powered n ob)\<lparr>ob_io := \<lparr>pi_io = io', pi_left = None\<rparr>\<rparr>, Inl DsWriteFailed)
        else ((ob_powered n ob)\<lparr>ob_io := \<lparr>pi_io = io', pi_left = Some (n - 1)\<rparr>\<rparr>, Inr ()))"
    "tail_next (ob_tail_bytes (contents io') ob) = Some (ob_next_id ob)"
    "(\<lambda>j. slot_pending cd (ob_slot_bytes (contents io') ob j)) =
       (\<lambda>j. slot_pending cd (ob_slot_bytes (contents (ob_io ob)) ob j))
         (unat i := if n = 0 then slot_pending cd (torn_bytes junk (slot_image cd (ob_slot_len ob) p)) else Some p)"
    by (rule powered_slot_write [OF assms(1,2) i(2) st refl pw(7,8)])
  show ?thesis
  proof (cases "n = 0")
    case True
    have cut: "ob_enqueue_cut ops cd junk n ob m key = io'"
      using io'(3) pw True by (simp add: ob_enqueue_cut_def ob_enqueue_def p)
    have "ob_next_id ob \<le> ob_next_id ob + 1"
      using unat_Suc_less_iff [of "ob_next_id ob"] assms(3) by (simp add: word_le_nat_alt unat_word_ariths)
    with torn(1) reopen [OF io'(1,2), of cd] agrees_spoil_free [OF ag i(3)] io'(2,4,5) True
      reopen [OF io'(1), of ?ob1 cd] new [of "ob_next_id ob" io'] abs1
    show ?thesis unfolding cut ob_shape_cong [OF sh] by (auto simp: ob_abs_def)
  next
    case False
    let ?pob = "(ob_powered n ob)\<lparr>ob_io := \<lparr>pi_io = io', pi_left = Some (n - 1)\<rparr>,
      ob_slots := bt_insert (ob_slots (ob_powered n ob)) (pe_id p) i,
      ob_pending := bt_insert (ob_pending (ob_powered n ob)) (pe_id p) p, ob_next_id := ob_next_id ob + 1\<rparr>"
    obtain io2 where io2: "ready io2" "ob_geom (contents io2) ob"
      "pi_io (ob_io (fst (ob_write_tail (pio_ops ops junk) ?pob))) = io2"
      "tail_next (ob_tail_bytes (contents io2) ob) =
         (if n - 1 = 0 then tail_next (torn_bytes junk (tail_image (ob_next_id ?pob))) else Some (ob_next_id ?pob))"
      "ob_slot_bytes (contents io2) ob = ob_slot_bytes (contents io') ob"
      by (rule powered_tail_write [OF io'(1,2), of ?pob "n - 1"]) (simp_all add: pw)
    have "ob_enqueue_cut ops cd junk n ob m key = pi_io (ob_io (fst (ob_write_tail (pio_ops ops junk) ?pob)))"
      using io'(3) pw False
      by (simp add: ob_enqueue_cut_def ob_enqueue_def p Let_def split: prod.splits sum.splits)
    then have cut: "ob_enqueue_cut ops cd junk n ob m key = io2" using io2(3) by simp
    obtain k' where "tail_next (ob_tail_bytes (contents io2) ob) = Some k'" "k' \<le> ob_next_id ob + 1"
      using io2(4) torn(2,3) by (cases "n - 1 = 0") auto
    with reopen [OF io2(1), of ?ob1 cd] new [of k' io2] io2(2,5) io'(5) False abs1
    show ?thesis unfolding cut ob_shape_cong [OF sh] by simp
  qed
qed

text \<open>Whatever the case of the call, its key already queued or no slot left included.\<close>

lemma enqueue_cut:
  assumes "ready (ob_io ob)" and "ob_ok cd (contents (ob_io ob)) ob" and "ob_next_id ob \<noteq> - 1"
    and "p = \<lparr>pe_id = ob_next_id ob, pe_idempotency = key, pe_message = m, pe_attempts = 0,
        pe_last_sent_at_ms = 0, pe_state = Queued\<rparr>"
    and "storable_pending cd (ob_slot_len ob) p"
    and "slot_pending cd (torn_bytes junk (slot_image cd (ob_slot_len ob) p)) \<in> {None, Some p}"
    and "tail_next (torn_bytes junk (tail_image (ob_next_id ob + 1))) = Some k" and "k \<le> ob_next_id ob + 1"
  shows "\<exists>ob'. ob_open ops cd (ob_new (ob_enqueue_cut ops cd junk n ob m key) (ob_base ob) (ob_slot_len ob)
      (ob_max_slots ob)) = (ob', Inr ()) \<and> ob_abs ob' \<in> {ob_abs ob, fst (mo_enqueue (ob_abs ob) m key)}"
proof (cases "find (\<lambda>(oid, p). pe_idempotency p = key) (ob_pending ob) = None \<and> length (ob_slots ob) < ob_max_slots ob")
  case True
  with enqueue_cut_fresh [OF assms(1-5) _ _ assms(6-8)] show ?thesis by blast
next
  case False
  then have "ob_enqueue_cut ops cd junk n ob m key = ob_io ob"
    by (auto simp: ob_enqueue_cut_def ob_enqueue_def ob_powered_def split: option.splits)
  with open_rep [OF assms(1)] assms(2) show ?thesis by (auto simp: ob_ok_def)
qed

end

section \<open>Properties\<close>

lemma blank_run:
  fixes cd :: "'m msg_codec"
  assumes "unat base + 64 + max_slots * slot_len \<le> unat capacity" and "64 \<le> slot_len" and "0 < max_slots"
    and "max_slots < 2 ^ 32" and "length acts < 2 ^ 64" and "list_all (op_storable cd slot_len) acts"
  shows "\<exists>ob. ob_run mem_ops cd acts (ob_new (mi_new capacity) base slot_len max_slots) = Some ob \<and>
    mem_ready (ob_io ob) \<and> ob_ok cd (mi_bytes (ob_io ob)) ob \<and> ob_base ob = base \<and> ob_slot_len ob = slot_len \<and>
    ob_max_slots ob = max_slots"
proof -
  let ?new = "ob_new (mi_new capacity) base slot_len max_slots :: ('m, mem_io) outbox"
  have "unat capacity < 2 ^ 64" by (rule order_less_le_trans [OF unsigned_less]) simp
  then have "ob_ok cd (mi_bytes (mi_new capacity)) ?new"
    using mem_io.blank_ok [OF mem_ready_new, of capacity "unat capacity" slot_len max_slots base cd] assms(1-4)
    by (simp add: mi_new_def)
  moreover have new: "ob_io ?new = mi_new capacity" "ob_slot_len ?new = slot_len" "ob_next_id ?new = 0"
    "ob_shape ?new = (base, slot_len, max_slots)"
    using assms(2,3) by (simp_all add: ob_new_def ob_shape_def)
  ultimately have "\<exists>ob. ob_run mem_ops cd acts ?new = Some ob \<and> mem_ready (ob_io ob) \<and>
      ob_ok cd (mi_bytes (ob_io ob)) ob \<and> ob_shape ob = ob_shape ?new"
    using assms(5,6) mem_ready_new by (intro mem_io.run_ok) simp_all
  then show ?thesis unfolding new(4) by (auto simp: ob_shape_def)
qed

text \<open>C19. The outbox is durable: from a blank medium, any sequence of enqueue, mark-sent and mark-acked calls
  whose messages fit their slot runs without a panic, and an outbox opened on the resulting medium after a
  restart is the outbox that was lost: the same pending messages with their attempts and states, the same slots
  and the same next id.\<close>

theorem outbox_survives_restart:
  assumes "unat base + 64 + max_slots * slot_len \<le> unat capacity" and "64 \<le> slot_len" and "0 < max_slots"
    and "max_slots < 2 ^ 32" and "length acts < 2 ^ 64" and "list_all (op_storable cd slot_len) acts"
  shows "\<exists>ob. ob_run mem_ops cd acts (ob_new (mi_new capacity) base slot_len max_slots) = Some ob \<and>
    ob_open mem_ops cd (ob_new (ob_io ob) base slot_len max_slots) = (ob, Inr ())"
  using blank_run [OF assms] mem_io.open_rep by (fastforce simp: ob_ok_def)

definition raw_codec :: "bytes msg_codec" where
  "raw_codec = \<lparr>mc_encode = Inr, mc_decode = (\<lambda>bs. Inr (0, bs))\<rparr>"

lemma raw_storable: "length m + 50 \<le> n \<Longrightarrow> n < 2 ^ 32 \<Longrightarrow> storable raw_codec n m"
  by (simp add: storable_def raw_codec_def)

theorem outbox_survives_restart_witness:
  "\<exists>ob. ob_run mem_ops raw_codec [OpEnqueue [1, 2] (zeros 16), OpSent 0 5, OpAcked 0 \<lparr>pr_peer = [], pr_receipt_id = 1,
      pr_at_ms = 6\<rparr>] (ob_new (mi_new 512) 0 128 3) = Some ob \<and>
    ob_open mem_ops raw_codec (ob_new (ob_io ob) 0 128 3) = (ob, Inr ())"
  by (rule outbox_survives_restart) (simp_all add: raw_storable)

text \<open>C18. Enqueue is atomic: after any such sequence, a power cut at any write of an enqueue, whose torn bytes
  the record checksum detects, leaves a medium on which the outbox opens either as it was before the call or
  with the new message queued; no other message is lost, changed or duplicated, and no id is reused.\<close>

theorem outbox_enqueue_survives_power_cut:
  assumes "unat base + 64 + max_slots * slot_len \<le> unat capacity" and "64 \<le> slot_len" and "0 < max_slots"
    and "max_slots < 2 ^ 32" and "length acts < 2 ^ 64" and "list_all (op_storable cd slot_len) acts"
    and "ob_run mem_ops cd acts (ob_new (mi_new capacity) base slot_len max_slots) = Some ob"
    and "ob_next_id ob \<noteq> - 1"
    and "p = \<lparr>pe_id = ob_next_id ob, pe_idempotency = key, pe_message = m, pe_attempts = 0,
        pe_last_sent_at_ms = 0, pe_state = Queued\<rparr>"
    and "storable cd slot_len m" and "length key = 16"
    and "slot_pending cd (torn_bytes junk (slot_image cd slot_len p)) \<in> {None, Some p}"
    and "tail_next (torn_bytes junk (tail_image (ob_next_id ob + 1))) = Some k" and "k \<le> ob_next_id ob + 1"
  shows "\<exists>ob'. ob_open mem_ops cd (ob_new (ob_enqueue_cut mem_ops cd junk n ob m key) base slot_len max_slots) =
      (ob', Inr ()) \<and> ob_abs ob' \<in> {ob_abs ob, fst (mo_enqueue (ob_abs ob) m key)}"
proof -
  from blank_run [OF assms(1-6)] assms(7) have ob: "mem_ready (ob_io ob)" "ob_ok cd (mi_bytes (ob_io ob)) ob"
    and sh: "ob_base ob = base" "ob_slot_len ob = slot_len" "ob_max_slots ob = max_slots" by auto
  from assms(9-11) have "storable_pending cd (ob_slot_len ob) p" by (simp add: storable_pending_def sh)
  from mem_io.enqueue_cut [OF ob assms(8,9) this, of junk k n] assms(12-14) sh show ?thesis by simp
qed

lemma schema_spoiled: "5 \<le> length bs \<Longrightarrow> decode_record (torn_bytes [0, 0, 0, 0, 0] bs) = Inl DsCorrupt"
  by (simp add: decode_record_def torn_bytes_def RECORD_SCHEMA_def Let_def nth_append)

lemma slot_spoiled: "5 \<le> length bs \<Longrightarrow> slot_pending cd (torn_bytes [0, 0, 0, 0, 0] bs) = None"
  by (simp add: slot_pending_def schema_spoiled)

lemma tail_spoiled: "tail_next (torn_bytes [0, 0, 0, 0, 0] (tail_image n)) = Some 0"
  by (simp add: tail_next_def schema_spoiled tail_image_def put_def MAGIC_TAIL_def)

theorem outbox_enqueue_survives_power_cut_witness:
  "\<exists>ob'. ob_open mem_ops raw_codec (ob_new (ob_enqueue_cut mem_ops raw_codec [0, 0, 0, 0, 0] 0
      (ob_new (mi_new 512) 0 128 3) [1, 2] (zeros 16)) 0 128 3) = (ob', Inr ())"
proof -
  let ?ob = "ob_new (mi_new 512) 0 128 3 :: (bytes, mem_io) outbox"
  have nx: "ob_next_id ?ob = 0" by (simp add: ob_new_def)
  have "5 \<le> length (slot_image raw_codec 128 p)" if "storable_pending raw_codec 128 p" for p
    using slot_image_storable(1) [OF that] by simp
  then show ?thesis
    using outbox_enqueue_survives_power_cut [of 0 3 128 512 "[]" raw_codec ?ob _ "zeros 16" "[1, 2]" "[0, 0, 0, 0, 0]" 0 0]
    by (fastforce simp: nx raw_storable slot_spoiled tail_spoiled storable_pending_def)
qed

text \<open>Marking a message sent is not atomic: the record of the pending message is rewritten in place, so a
  power cut that tears this write beyond recognition leaves a medium on which the outbox opens without the
  message, which was queued and never acknowledged.\<close>

theorem torn_mark_sent_loses_message:
  assumes "unat base + 64 + max_slots * slot_len \<le> unat capacity" and "64 \<le> slot_len" and "0 < max_slots"
    and "max_slots < 2 ^ 32" and "length acts < 2 ^ 64" and "list_all (op_storable cd slot_len) acts"
    and "ob_run mem_ops cd acts (ob_new (mi_new capacity) base slot_len max_slots) = Some ob"
    and "bt_get (ob_pending ob) oid = Some q"
    and "slot_pending cd (torn_bytes junk (slot_image cd slot_len
      (q\<lparr>pe_attempts := pe_attempts q + 1, pe_last_sent_at_ms := at, pe_state := Sent\<rparr>))) = None"
  shows "\<exists>ob'. ob_open mem_ops cd (ob_new (ob_mark_sent_cut mem_ops cd junk 0 ob oid at) base slot_len max_slots) =
      (ob', Inr ()) \<and> ob_pending ob' = bt_remove (ob_pending ob) oid"
proof -
  from blank_run [OF assms(1-6)] assms(7) have ob: "mem_ready (ob_io ob)" "ob_ok cd (mi_bytes (ob_io ob)) ob"
    and sh: "ob_base ob = base" "ob_slot_len ob = slot_len" "ob_max_slots ob = max_slots" by auto
  from mem_io.mark_sent_cut [OF ob assms(8)] assms(9) sh show ?thesis by simp
qed

lemma one_queued:
  obtains ob q where "ob_run mem_ops raw_codec [OpEnqueue [1, 2] (zeros 16)] (ob_new (mi_new 512) 0 128 3) = Some ob"
    "bt_get (ob_pending ob) 0 = Some q" "ob_pending ob = [(0, q)]" "storable_pending raw_codec 128 q"
proof -
  let ?new = "ob_new (mi_new 512) 0 128 3 :: (bytes, mem_io) outbox"
  let ?q = "\<lparr>pe_id = 0, pe_idempotency = zeros 16, pe_message = [1, 2], pe_attempts = 0,
    pe_last_sent_at_ms = 0, pe_state = Queued\<rparr>"
  obtain ob r where e: "ob_enqueue mem_ops raw_codec ?new [1, 2] (zeros 16) = (ob, r)" by fastforce
  have "ob_ok raw_codec (mi_bytes (mi_new 512)) ?new"
    by (rule mem_io.blank_ok [OF mem_ready_new, of _ 512]) (simp_all add: mi_new_def)
  then have "(ob_abs ob, r) = mo_enqueue (ob_abs ?new) [1, 2] (zeros 16)"
    using mem_io.enqueue_ok [OF _ _ _ _ _ e] raw_storable [of "[1, 2]" 128] mem_ready_new
    by (simp add: ob_new_def)
  then have "ob_pending ob = [(0, ?q)]" by (simp add: mo_enqueue_def ob_abs_def ob_new_def)
  then show thesis
    using that [of ob ?q] e raw_storable [of "[1, 2]" 128] by (simp add: storable_pending_def)
qed

theorem torn_mark_sent_loses_message_witness:
  "\<exists>ob ob'. ob_run mem_ops raw_codec [OpEnqueue [1, 2] (zeros 16)] (ob_new (mi_new 512) 0 128 3) = Some ob \<and>
    ob_open mem_ops raw_codec (ob_new (ob_mark_sent_cut mem_ops raw_codec [0, 0, 0, 0, 0] 0 ob 0 7) 0 128 3) =
      (ob', Inr ()) \<and> ob_pending ob \<noteq> [] \<and> ob_pending ob' = []"
proof -
  obtain ob q where ob: "ob_run mem_ops raw_codec [OpEnqueue [1, 2] (zeros 16)] (ob_new (mi_new 512) 0 128 3) = Some ob"
    "bt_get (ob_pending ob) 0 = Some q" "ob_pending ob = [(0, q)]" "storable_pending raw_codec 128 q"
    by (rule one_queued)
  have "storable_pending raw_codec 128 (q\<lparr>pe_attempts := pe_attempts q + 1, pe_last_sent_at_ms := 7, pe_state := Sent\<rparr>)"
    using ob(4) by (simp add: storable_pending_def)
  then have "\<exists>ob'. ob_open mem_ops raw_codec (ob_new (ob_mark_sent_cut mem_ops raw_codec [0, 0, 0, 0, 0] 0 ob 0 7) 0 128 3) =
      (ob', Inr ()) \<and> ob_pending ob' = bt_remove (ob_pending ob) 0"
    by (intro torn_mark_sent_loses_message [OF _ _ _ _ _ _ ob(1,2)] slot_spoiled)
      (simp_all add: raw_storable slot_image_storable(1))
  moreover have "ob_pending ob \<noteq> []" "bt_remove (ob_pending ob) 0 = []" using ob(3) by (simp_all add: bt_remove_def)
  ultimately show ?thesis using ob(1) by metis
qed

end
