(* ===== verification/Intent_Store.thy ===== *)
theory Intent_Store
  imports Durable_Outbox
begin

text \<open>
  Dispatch states and the intent store (\<open>crates/protocols/control-dispatch/src\<close>: \<open>dispatch.rs\<close>,
  \<open>intent.rs\<close>, \<open>durable_intent.rs\<close>): the record kept of a command before it is delivered, the bounded
  in-memory store, and the durable store over the append outbox. Strings are their UTF-8 bytes.
\<close>

section \<open>Dispatch states\<close>

datatype dispatch_state =
  StProposed | StValidated | StAuthorized | StReserved | StPersisted | StDelivered | StTransportAcked
  | StReadbackVerified | StCommitted | StRejected | StFailed | StIndeterminate

fun state_code :: "dispatch_state \<Rightarrow> u8" where
  "state_code StProposed = 0" | "state_code StValidated = 1" | "state_code StAuthorized = 2"
| "state_code StReserved = 3" | "state_code StPersisted = 4" | "state_code StDelivered = 5"
| "state_code StTransportAcked = 6" | "state_code StReadbackVerified = 7" | "state_code StCommitted = 8"
| "state_code StRejected = 9" | "state_code StFailed = 10" | "state_code StIndeterminate = 11"

definition state_from_code :: "u8 \<Rightarrow> dispatch_state option" where
  "state_from_code c =
     (if c = 0 then Some StProposed else if c = 1 then Some StValidated else if c = 2 then Some StAuthorized
      else if c = 3 then Some StReserved else if c = 4 then Some StPersisted else if c = 5 then Some StDelivered
      else if c = 6 then Some StTransportAcked else if c = 7 then Some StReadbackVerified
      else if c = 8 then Some StCommitted else if c = 9 then Some StRejected else if c = 10 then Some StFailed
      else if c = 11 then Some StIndeterminate else None)"

lemma state_from_code_code [simp]: "state_from_code (state_code s) = Some s"
  by (cases s) (simp_all add: state_from_code_def)

lemma state_code_inject: "state_code s = state_code t \<longleftrightarrow> s = t"
  by (metis option.inject state_from_code_code)

text \<open>The derived order is the order of declaration.\<close>

instantiation dispatch_state :: linorder
begin

definition less_eq_dispatch_state :: "dispatch_state \<Rightarrow> dispatch_state \<Rightarrow> bool" where
  "less_eq_dispatch_state s t \<longleftrightarrow> state_code s \<le> state_code t"

definition less_dispatch_state :: "dispatch_state \<Rightarrow> dispatch_state \<Rightarrow> bool" where
  "less_dispatch_state s t \<longleftrightarrow> state_code s < state_code t"

instance
  by standard (auto simp: less_eq_dispatch_state_def less_dispatch_state_def state_code_inject order_less_le)

end

definition is_committed :: "dispatch_state \<Rightarrow> bool" where
  "is_committed s = (s = StCommitted)"

definition settled :: "dispatch_state \<Rightarrow> bool" where
  "settled s = (s = StCommitted \<or> s = StRejected \<or> s = StFailed)"

section \<open>UTF-8\<close>

text \<open>\<open>core::str::from_utf8\<close> accepts exactly the well-formed sequences.\<close>

definition utf8_cont :: "u8 \<Rightarrow> bool" where
  "utf8_cont b = (0x80 \<le> b \<and> b \<le> 0xBF)"

fun utf8_valid :: "bytes \<Rightarrow> bool" where
  "utf8_valid [] = True"
| "utf8_valid (a # r) =
     (if a < 0x80 then utf8_valid r
      else if 0xC2 \<le> a \<and> a \<le> 0xDF then (case r of b # s \<Rightarrow> utf8_cont b \<and> utf8_valid s | _ \<Rightarrow> False)
      else if 0xE0 \<le> a \<and> a \<le> 0xEF
      then (case r of b # c # s \<Rightarrow>
              utf8_cont b \<and> utf8_cont c \<and> (a = 0xE0 \<longrightarrow> 0xA0 \<le> b) \<and> (a = 0xED \<longrightarrow> b \<le> 0x9F) \<and> utf8_valid s
            | _ \<Rightarrow> False)
      else if 0xF0 \<le> a \<and> a \<le> 0xF4
      then (case r of b # c # d # s \<Rightarrow>
              utf8_cont b \<and> utf8_cont c \<and> utf8_cont d \<and> (a = 0xF0 \<longrightarrow> 0x90 \<le> b) \<and> (a = 0xF4 \<longrightarrow> b \<le> 0x8F) \<and>
              utf8_valid s
            | _ \<Rightarrow> False)
      else False)"

section \<open>Intent records\<close>

record intent_record =
  ir_command_id :: bytes
  ir_correlation_id :: bytes
  ir_issued_at_ms :: u64
  ir_expires_at_ms :: u64
  ir_target_device :: bytes
  ir_power_kw :: f64
  ir_input_digest :: "bytes option"
  ir_state :: dispatch_state

definition intent_encode :: "intent_record \<Rightarrow> ds_error + bytes" where
  "intent_encode r =
     (let n = min 32 (length (ir_target_device r))
      in Inr (ir_command_id r @ ir_correlation_id r @ le_bytes 8 (ir_issued_at_ms r) @
              le_bytes 8 (ir_expires_at_ms r) @ [of_nat n] @ take n (ir_target_device r) @
              le_bytes 8 (ir_power_kw r) @
              (case ir_input_digest r of Some d \<Rightarrow> [1] @ d | None \<Rightarrow> [0]) @ [state_code (ir_state r)]))"

definition intent_decode :: "bytes \<Rightarrow> ds_error + (generation \<times> intent_record)" where
  "intent_decode bs =
     (if length bs < 49 then Inl DsCorrupt
      else let tlen = unat (bs ! 48)
           in if length bs < 49 + tlen + 8 then Inl DsCorrupt
              else if \<not> utf8_valid (slice 49 (49 + tlen) bs) then Inl DsCorrupt
              else let off = 49 + tlen + 8
                   in and_then (if length bs \<le> off then Inl DsCorrupt
                        else if bs ! off = 0 then Inr (None, off + 1)
                        else if bs ! off = 1
                             then (if length bs \<le> off + 33 then Inl DsCorrupt
                                   else Inr (Some (slice (off + 1) (off + 33) bs), off + 33))
                        else Inl DsCorrupt) (\<lambda>(input_digest, off).
                      and_then (ok_or (if off < length bs then Some (bs ! off) else None) DsCorrupt) (\<lambda>c.
                      and_then (ok_or (state_from_code c) DsCorrupt) (\<lambda>state.
                        Inr (0, \<lparr>ir_command_id = slice 0 16 bs, ir_correlation_id = slice 16 32 bs,
                             ir_issued_at_ms = from_le (slice 32 40 bs), ir_expires_at_ms = from_le (slice 40 48 bs),
                             ir_target_device = slice 49 (49 + tlen) bs,
                             ir_power_kw = from_le (slice (49 + tlen) (49 + tlen + 8) bs),
                             ir_input_digest = input_digest, ir_state = state\<rparr>)))))"

definition intent_codec :: "intent_record msg_codec" where
  "intent_codec = \<lparr>mc_encode = intent_encode, mc_decode = intent_decode\<rparr>"

definition intent_wf :: "intent_record \<Rightarrow> bool" where
  "intent_wf r \<longleftrightarrow>
     length (ir_command_id r) = 16 \<and> length (ir_correlation_id r) = 16 \<and>
     length (ir_target_device r) \<le> 32 \<and> utf8_valid (ir_target_device r) \<and>
     (\<forall>d. ir_input_digest r = Some d \<longrightarrow> length d = 32)"

lemma intent_roundtrip:
  assumes "intent_wf r" and "intent_encode r = Inr bs"
  shows "intent_decode bs = Inr (0, r)" and "length bs \<le> 123"
proof -
  let ?t = "ir_target_device r"
  have n: "min 32 (length ?t) = length ?t" using assms(1) by (simp add: intent_wf_def)
  have un: "unat (of_nat (length ?t) :: u8) = length ?t"
    using assms(1) by (simp add: intent_wf_def unsigned_of_nat take_bit_nat_eq_self)
  define tail where "tail = (case ir_input_digest r of Some d \<Rightarrow> [1] @ d | None \<Rightarrow> [0]) @ [state_code (ir_state r)]"
  have bs: "bs = ir_command_id r @ ir_correlation_id r @ le_bytes 8 (ir_issued_at_ms r) @
      le_bytes 8 (ir_expires_at_ms r) @ [of_nat (length ?t)] @ ?t @ le_bytes 8 (ir_power_kw r) @ tail"
    using assms(2) n by (simp add: intent_encode_def tail_def Let_def)
  have len: "length bs = 57 + length ?t + length tail" "bs ! 48 = of_nat (length ?t)"
    using assms(1) by (simp_all add: bs intent_wf_def nth_append)
  have "length tail \<le> 34" using assms(1) by (auto simp: tail_def intent_wf_def split: option.splits)
  then show "length bs \<le> 123" using assms(1) len by (simp add: intent_wf_def)
  have sl: "slice 0 16 bs = ir_command_id r" "slice 16 32 bs = ir_correlation_id r"
    "slice 32 40 bs = le_bytes 8 (ir_issued_at_ms r)" "slice 40 48 bs = le_bytes 8 (ir_expires_at_ms r)"
    "slice 49 (49 + length ?t) bs = ?t" "slice (49 + length ?t) (49 + length ?t + 8) bs = le_bytes 8 (ir_power_kw r)"
    using assms(1) by (simp_all add: bs intent_wf_def slice_def)
  have dr: "drop (57 + length ?t) bs = tail"
  proof -
    let ?pre = "ir_command_id r @ ir_correlation_id r @ le_bytes 8 (ir_issued_at_ms r) @
      le_bytes 8 (ir_expires_at_ms r) @ [of_nat (length ?t)] @ ?t @ le_bytes 8 (ir_power_kw r)"
    have "bs = ?pre @ tail" "length ?pre = 57 + length ?t" using assms(1) by (simp_all add: bs intent_wf_def)
    then show ?thesis by (metis append_eq_conv_conj)
  qed
  have tl: "bs ! (57 + length ?t + k) = tail ! k" for k
    unfolding dr [symmetric] using len(1) by (intro nth_drop [symmetric]) simp
  have ts: "slice (57 + length ?t + k) (57 + length ?t + m) bs = slice k m tail" for k m
    unfolding dr [symmetric] by (simp add: slice_def add.commute add.left_commute)
  show "intent_decode bs = Inr (0, r)"
  proof (cases "ir_input_digest r")
    case None
    then show ?thesis
      using assms(1) un len tl [of 0] tl [of 1] sl
      by (simp add: intent_decode_def tail_def intent_wf_def Let_def)
  next
    case (Some d)
    then have "length d = 32" using assms(1) by (simp add: intent_wf_def)
    then show ?thesis
      using Some assms(1) un len tl [of 0] tl [of 33] ts [of 1 33] sl
      by (simp add: intent_decode_def tail_def intent_wf_def slice_def nth_append Let_def)
  qed
qed

section \<open>The store interface\<close>

datatype intent_store_error = IsUnavailable ds_error | IsFull | IsUnknown

text \<open>The trait object the dispatch engine holds. An update may panic: the option.\<close>

record 's intent_ops =
  is_append :: "'s \<Rightarrow> intent_record \<Rightarrow> 's \<times> (intent_store_error + unit)"
  is_update_state :: "'s \<Rightarrow> bytes \<Rightarrow> dispatch_state \<Rightarrow> ('s \<times> (intent_store_error + unit)) option"
  is_find :: "'s \<Rightarrow> bytes \<Rightarrow> intent_record option"
  is_pending :: "'s \<Rightarrow> intent_record list"

text \<open>Settling the commands \<open>ks\<close> one after the other; none if an update fails.\<close>

fun settle_all :: "'s intent_ops \<Rightarrow> dispatch_state \<Rightarrow> 's \<Rightarrow> bytes list \<Rightarrow> 's option" where
  "settle_all ops st s [] = Some s"
| "settle_all ops st s (k # ks) =
     (case is_update_state ops s k st of
        Some (s, Inr _) \<Rightarrow> settle_all ops st s ks
      | _ \<Rightarrow> None)"

text \<open>What the engine relies on: an intent that was appended is found, an update of a pending intent
  succeeds and is seen, other intents are untouched, and the pending intents are those not in a
  terminal state.\<close>

locale intent_log =
  fixes ops :: "'s intent_ops" and inv :: "'s \<Rightarrow> bool" and room :: "'s \<Rightarrow> bool"
    and storable_intent :: "intent_record \<Rightarrow> bool"
  assumes append_find: "inv s \<Longrightarrow> room s \<Longrightarrow> storable_intent r \<Longrightarrow> is_find ops s (ir_command_id r) = None \<Longrightarrow>
      is_append ops s r = (s', res) \<Longrightarrow>
      (res = Inr () \<longrightarrow> inv s' \<and> (\<forall>k. is_find ops s' k = (if k = ir_command_id r then Some r else is_find ops s k))) \<and>
      (res \<noteq> Inr () \<longrightarrow> res = Inl IsFull \<and> s' = s)"
    and update_find: "inv s \<Longrightarrow> is_find ops s k = Some r \<Longrightarrow> \<not> settled (ir_state r) \<Longrightarrow>
      st \<in> {StIndeterminate, StCommitted, StFailed, StRejected} \<Longrightarrow>
      \<exists>s'. is_update_state ops s k st = Some (s', Inr ()) \<and> inv s' \<and>
        (\<forall>j. is_find ops s' j = (if j = k then Some (r\<lparr>ir_state := st\<rparr>) else is_find ops s j))"
    and pending_find: "inv s \<Longrightarrow> r \<in> set (is_pending ops s) \<longleftrightarrow>
      is_find ops s (ir_command_id r) = Some r \<and> \<not> settled (ir_state r)"
begin

text \<open>A command that was recorded and then settled is not pending; the rest of the pending intents
  stay.\<close>

lemma settle_pending:
  assumes "inv s" and "is_find ops s k = Some r" and "\<not> settled (ir_state r)"
    and "st \<in> {StCommitted, StFailed, StRejected}" and "ir_command_id r = k"
  obtains s' where "is_update_state ops s k st = Some (s', Inr ())" "inv s'"
    "set (is_pending ops s') = set (is_pending ops s) - {r}"
proof -
  obtain s' where s': "is_update_state ops s k st = Some (s', Inr ())" "inv s'"
    "\<forall>j. is_find ops s' j = (if j = k then Some (r\<lparr>ir_state := st\<rparr>) else is_find ops s j)"
    using update_find [OF assms(1-3), of st] assms(4) by auto
  have "x \<in> set (is_pending ops s') \<longleftrightarrow> x \<in> set (is_pending ops s) - {r}" for x
  proof (cases "ir_command_id x = k")
    case True
    then have "is_find ops s' (ir_command_id x) = Some (r\<lparr>ir_state := st\<rparr>)" "is_find ops s (ir_command_id x) = Some r"
      using s'(3) assms(2) by simp_all
    moreover have "settled (ir_state (r\<lparr>ir_state := st\<rparr>))" using assms(4) by (auto simp: settled_def)
    ultimately have "x \<notin> set (is_pending ops s')" "x \<in> set (is_pending ops s) \<longrightarrow> x = r"
      unfolding pending_find [OF s'(2)] pending_find [OF assms(1)] by (metis option.inject)+
    then show ?thesis by blast
  next
    case False
    then show ?thesis
      using pending_find [OF s'(2), of x] pending_find [OF assms(1), of x] s'(3) assms(5) by auto
  qed
  with s'(1,2) that show thesis by blast
qed

lemma settle_list:
  assumes "inv s" and "distinct ks" and "set ks \<subseteq> ir_command_id ` set (is_pending ops s)"
    and "st \<in> {StCommitted, StFailed, StRejected}"
  shows "\<exists>s'. settle_all ops st s ks = Some s' \<and> inv s' \<and>
    set (is_pending ops s') = {r \<in> set (is_pending ops s). ir_command_id r \<notin> set ks}"
  using assms(1-3)
proof (induction ks arbitrary: s)
  case (Cons k ks)
  then obtain r where r: "r \<in> set (is_pending ops s)" "ir_command_id r = k" by auto
  then have f: "is_find ops s k = Some r" "\<not> settled (ir_state r)" using pending_find [OF Cons.prems(1)] by auto
  obtain s1 where s1: "is_update_state ops s k st = Some (s1, Inr ())" "inv s1"
    "set (is_pending ops s1) = set (is_pending ops s) - {r}"
    by (rule settle_pending [OF Cons.prems(1) f assms(4) r(2)])
  have only: "x = r" if "x \<in> set (is_pending ops s)" "ir_command_id x = k" for x
    using that f pending_find [OF Cons.prems(1), of x] by simp
  have "set ks \<subseteq> ir_command_id ` set (is_pending ops s1)"
  proof
    fix j assume j: "j \<in> set ks"
    then obtain x where "x \<in> set (is_pending ops s)" "ir_command_id x = j" using Cons.prems(3) by auto
    moreover from this have "x \<noteq> r" using j Cons.prems(2) r(2) by auto
    ultimately show "j \<in> ir_command_id ` set (is_pending ops s1)" unfolding s1(3) by blast
  qed
  from Cons.IH [OF s1(2) _ this] Cons.prems(2) obtain s' where s': "settle_all ops st s1 ks = Some s'" "inv s'"
    "set (is_pending ops s') = {x \<in> set (is_pending ops s1). ir_command_id x \<notin> set ks}" by auto
  have "set (is_pending ops s') = {x \<in> set (is_pending ops s). ir_command_id x \<notin> set (k # ks)}"
    unfolding s'(3) s1(3) using only r(2) by auto
  with s'(1,2) s1(1) show ?case by auto
qed simp

lemma settle_everything:
  assumes "inv s" and "st \<in> {StCommitted, StFailed, StRejected}"
  shows "\<exists>s'. settle_all ops st s (remdups (map ir_command_id (is_pending ops s))) = Some s' \<and> is_pending ops s' = []"
proof -
  let ?ks = "remdups (map ir_command_id (is_pending ops s))"
  obtain s' where s': "settle_all ops st s ?ks = Some s'"
    "set (is_pending ops s') = {r \<in> set (is_pending ops s). ir_command_id r \<notin> set ?ks}"
    using settle_list [OF assms(1), of ?ks st] assms(2) by auto
  have "set (is_pending ops s') = {}" unfolding s'(2) by auto
  with s'(1) show ?thesis by simp
qed

end

section \<open>The in-memory store\<close>

record mem_intent_store =
  mis_records :: "intent_record list"
  mis_cap :: nat

definition mis_new :: "nat \<Rightarrow> mem_intent_store" where
  "mis_new cap = \<lparr>mis_records = [], mis_cap = cap\<rparr>"

definition mis_append :: "mem_intent_store \<Rightarrow> intent_record \<Rightarrow> mem_intent_store \<times> (intent_store_error + unit)" where
  "mis_append s r =
     (if mis_cap s \<le> length (mis_records s) then (s, Inl IsFull)
      else (s\<lparr>mis_records := mis_records s @ [r]\<rparr>, Inr ()))"

fun set_state :: "intent_record list \<Rightarrow> bytes \<Rightarrow> dispatch_state \<Rightarrow> intent_record list option" where
  "set_state [] k st = None"
| "set_state (r # rs) k st =
     (if ir_command_id r = k then Some (r\<lparr>ir_state := st\<rparr> # rs)
      else map_option ((#) r) (set_state rs k st))"

definition mis_update_state ::
  "mem_intent_store \<Rightarrow> bytes \<Rightarrow> dispatch_state \<Rightarrow> (mem_intent_store \<times> (intent_store_error + unit)) option" where
  "mis_update_state s k st =
     Some (case set_state (mis_records s) k st of
             None \<Rightarrow> (s, Inl IsUnknown)
           | Some rs \<Rightarrow> (s\<lparr>mis_records := rs\<rparr>, Inr ()))"

definition mis_find :: "mem_intent_store \<Rightarrow> bytes \<Rightarrow> intent_record option" where
  "mis_find s k = find (\<lambda>r. ir_command_id r = k) (mis_records s)"

definition mis_pending :: "mem_intent_store \<Rightarrow> intent_record list" where
  "mis_pending s = filter (\<lambda>r. \<not> settled (ir_state r)) (mis_records s)"

definition mem_intent_ops :: "mem_intent_store intent_ops" where
  "mem_intent_ops =
     \<lparr>is_append = mis_append, is_update_state = mis_update_state, is_find = mis_find, is_pending = mis_pending\<rparr>"

definition mis_inv :: "mem_intent_store \<Rightarrow> bool" where
  "mis_inv s = distinct (map ir_command_id (mis_records s))"

lemma find_append: "find P (xs @ ys) = (case find P xs of None \<Rightarrow> find P ys | Some x \<Rightarrow> Some x)"
  by (induction xs) auto

lemma set_state_find:
  assumes "find (\<lambda>r. ir_command_id r = k) rs = Some r"
  obtains rs' where "set_state rs k st = Some rs'" "map ir_command_id rs' = map ir_command_id rs"
    "\<And>j. find (\<lambda>r. ir_command_id r = j) rs' =
      (if j = k then Some (r\<lparr>ir_state := st\<rparr>) else find (\<lambda>r. ir_command_id r = j) rs)"
  using assms
proof (induction rs arbitrary: thesis)
  case (Cons x rs)
  show ?case
  proof (cases "ir_command_id x = k")
    case True
    with Cons.prems show ?thesis by (intro Cons.prems(1) [of "x\<lparr>ir_state := st\<rparr> # rs"]) auto
  next
    case False
    with Cons.prems(2) have "find (\<lambda>r. ir_command_id r = k) rs = Some r" by simp
    then obtain rs' where "set_state rs k st = Some rs'" "map ir_command_id rs' = map ir_command_id rs"
      "\<And>j. find (\<lambda>r. ir_command_id r = j) rs' =
        (if j = k then Some (r\<lparr>ir_state := st\<rparr>) else find (\<lambda>r. ir_command_id r = j) rs)"
      using Cons.IH by metis
    with False show ?thesis by (intro Cons.prems(1) [of "x # rs'"]) auto
  qed
qed simp

lemma find_distinct:
  "distinct (map ir_command_id rs) \<Longrightarrow> find (\<lambda>r. ir_command_id r = k) rs = Some r \<longleftrightarrow> r \<in> set rs \<and> ir_command_id r = k"
  by (induction rs) auto

interpretation mem_intents: intent_log mem_intent_ops mis_inv "\<lambda>_. True" "\<lambda>_. True"
proof
  fix s r s' res
  assume a: "mis_inv s" "is_find mem_intent_ops s (ir_command_id r) = None" "is_append mem_intent_ops s r = (s', res)"
  from a(2) have none: "find (\<lambda>x. ir_command_id x = ir_command_id r) (mis_records s) = None"
    by (simp add: mem_intent_ops_def mis_find_def)
  from none have new: "ir_command_id r \<notin> ir_command_id ` set (mis_records s)" by (auto simp: find_None_iff)
  from a(1,3) new none show "(res = Inr () \<longrightarrow> mis_inv s' \<and> (\<forall>k. is_find mem_intent_ops s' k =
      (if k = ir_command_id r then Some r else is_find mem_intent_ops s k))) \<and> (res \<noteq> Inr () \<longrightarrow> res = Inl IsFull \<and> s' = s)"
    by (auto simp: mem_intent_ops_def mis_append_def mis_find_def mis_inv_def find_append
        split: if_splits option.splits)
next
  fix s k r st
  assume a: "mis_inv s" "is_find mem_intent_ops s k = Some r"
  then obtain rs' where "set_state (mis_records s) k st = Some rs'"
    "map ir_command_id rs' = map ir_command_id (mis_records s)"
    "\<And>j. find (\<lambda>r. ir_command_id r = j) rs' =
      (if j = k then Some (r\<lparr>ir_state := st\<rparr>) else find (\<lambda>r. ir_command_id r = j) (mis_records s))"
    using set_state_find [of k "mis_records s" r st] by (auto simp: mem_intent_ops_def mis_find_def)
  then show "\<exists>s'. is_update_state mem_intent_ops s k st = Some (s', Inr ()) \<and> mis_inv s' \<and>
      (\<forall>j. is_find mem_intent_ops s' j = (if j = k then Some (r\<lparr>ir_state := st\<rparr>) else is_find mem_intent_ops s j))"
    using a by (simp add: mem_intent_ops_def mis_update_state_def mis_inv_def mis_find_def)
next
  fix s r
  assume "mis_inv s"
  then show "r \<in> set (is_pending mem_intent_ops s) \<longleftrightarrow>
      is_find mem_intent_ops s (ir_command_id r) = Some r \<and> \<not> settled (ir_state r)"
    by (auto simp: mem_intent_ops_def mis_pending_def mis_find_def mis_inv_def find_distinct)
qed

section \<open>The durable store\<close>

definition TERMINAL_COMMITTED :: u64 where "TERMINAL_COMMITTED = 1"
definition TERMINAL_FAILED :: u64 where "TERMINAL_FAILED = 2"
definition TERMINAL_REJECTED :: u64 where "TERMINAL_REJECTED = 3"

record 'io durable_intent_store =
  dis_outbox :: "(intent_record, 'io) outbox"
  dis_index :: "(bytes, u64) btree"
  dis_states :: "(bytes, dispatch_state) btree"
  dis_records :: "(bytes, intent_record) btree"

definition dis_new :: "'io \<Rightarrow> u64 \<Rightarrow> nat \<Rightarrow> nat \<Rightarrow> 'io durable_intent_store" where
  "dis_new io base slot_len max_slots =
     \<lparr>dis_outbox = ob_new io base slot_len max_slots, dis_index = bt_empty, dis_states = bt_empty,
      dis_records = bt_empty\<rparr>"

definition dis_restore :: "'io durable_intent_store \<Rightarrow> intent_record pending \<Rightarrow> 'io durable_intent_store" where
  "dis_restore s p =
     (case pe_state p of
        PeerAcked \<Rightarrow> s
      | st \<Rightarrow>
        let state = (if st = Queued then StPersisted else StIndeterminate);
            rec = pe_message p;
            k = ir_command_id rec
        in s\<lparr>dis_index := bt_insert (dis_index s) k (pe_id p), dis_states := bt_insert (dis_states s) k state,
             dis_records := bt_insert (dis_records s) k rec\<rparr>)"

definition dis_open ::
  "'io persist_ops \<Rightarrow> 'io durable_intent_store \<Rightarrow> 'io durable_intent_store \<times> (intent_store_error + unit)" where
  "dis_open ops s =
     (let (ob, r) = ob_open ops intent_codec (dis_outbox s);
          s = s\<lparr>dis_outbox := ob\<rparr>
      in case r of
           Inl e \<Rightarrow> (s, Inl (IsUnavailable e))
         | Inr _ \<Rightarrow> (foldl dis_restore s (ob_recover_pending ob), Inr ()))"

definition dis_receipt :: "dispatch_state \<Rightarrow> peer_receipt" where
  "dis_receipt st =
     \<lparr>pr_peer = map (\<lambda>c. of_nat (of_char c)) ''control-dispatch'',
      pr_receipt_id = (if st = StCommitted then TERMINAL_COMMITTED else if st = StFailed then TERMINAL_FAILED
        else if st = StRejected then TERMINAL_REJECTED else 0), pr_at_ms = 0\<rparr>"

definition dis_ack ::
  "'io persist_ops \<Rightarrow> 'io durable_intent_store \<Rightarrow> bytes \<Rightarrow> dispatch_state \<Rightarrow>
     ('io durable_intent_store \<times> (intent_store_error + unit)) option" where
  "dis_ack ops s k st =
     (case bt_get (dis_index s) k of
        None \<Rightarrow> Some (s, Inl IsUnknown)
      | Some oid \<Rightarrow>
        map_option (\<lambda>(ob, r). case r of
            Inl e \<Rightarrow> (s\<lparr>dis_outbox := ob\<rparr>, Inl (IsUnavailable e))
          | Inr _ \<Rightarrow> (s\<lparr>dis_outbox := ob, dis_states := bt_insert (dis_states s) k st\<rparr>, Inr ()))
          (ob_mark_acked ops intent_codec (dis_outbox s) oid (dis_receipt st)))"

definition dis_append ::
  "'io persist_ops \<Rightarrow> 'io durable_intent_store \<Rightarrow> intent_record \<Rightarrow>
     'io durable_intent_store \<times> (intent_store_error + unit)" where
  "dis_append ops s r =
     (let (ob, res) = ob_enqueue ops intent_codec (dis_outbox s) r (ir_command_id r);
          s = s\<lparr>dis_outbox := ob\<rparr>;
          k = ir_command_id r
      in case res of
           Inl e \<Rightarrow> (s, Inl (if e = DsOutOfSpace then IsFull else IsUnavailable e))
         | Inr oid \<Rightarrow>
           (s\<lparr>dis_index := bt_insert (dis_index s) k oid, dis_states := bt_insert (dis_states s) k StPersisted,
              dis_records := bt_insert (dis_records s) k r\<rparr>, Inr ()))"

definition dis_update_state ::
  "'io persist_ops \<Rightarrow> 'io durable_intent_store \<Rightarrow> bytes \<Rightarrow> dispatch_state \<Rightarrow>
     ('io durable_intent_store \<times> (intent_store_error + unit)) option" where
  "dis_update_state ops s k st =
     (case st of
        StIndeterminate \<Rightarrow>
          Some (case bt_get (dis_index s) k of
             None \<Rightarrow> (s, Inl IsUnknown)
           | Some oid \<Rightarrow>
             let (ob, r) = ob_mark_sent ops intent_codec (dis_outbox s) oid 0
             in case r of
                  Inl e \<Rightarrow> (s\<lparr>dis_outbox := ob\<rparr>, Inl (IsUnavailable e))
                | Inr _ \<Rightarrow> (s\<lparr>dis_outbox := ob, dis_states := bt_insert (dis_states s) k st\<rparr>, Inr ()))
      | StCommitted \<Rightarrow> dis_ack ops s k st
      | StFailed \<Rightarrow> dis_ack ops s k st
      | StRejected \<Rightarrow> dis_ack ops s k st
      | _ \<Rightarrow> Some (s\<lparr>dis_states := bt_insert (dis_states s) k st\<rparr>, Inr ()))"

definition dis_find :: "'io durable_intent_store \<Rightarrow> bytes \<Rightarrow> intent_record option" where
  "dis_find s k =
     (case bt_get (dis_records s) k of
        None \<Rightarrow> None
      | Some r \<Rightarrow> Some (case bt_get (dis_states s) k of Some st \<Rightarrow> r\<lparr>ir_state := st\<rparr> | None \<Rightarrow> r))"

definition dis_pending :: "'io durable_intent_store \<Rightarrow> intent_record list" where
  "dis_pending s =
     concat (map (\<lambda>(k, r).
       let st = (case bt_get (dis_states s) k of Some st \<Rightarrow> st | None \<Rightarrow> ir_state r)
       in if settled st then [] else [r\<lparr>ir_state := st\<rparr>]) (dis_records s))"

definition terminal_receipt_id :: "dispatch_state \<Rightarrow> u64 option" where
  "terminal_receipt_id st =
     (if st = StCommitted then Some TERMINAL_COMMITTED else if st = StFailed then Some TERMINAL_FAILED
      else if st = StRejected then Some TERMINAL_REJECTED else None)"

definition durable_intent_ops :: "'io persist_ops \<Rightarrow> 'io durable_intent_store intent_ops" where
  "durable_intent_ops ops =
     \<lparr>is_append = dis_append ops, is_update_state = dis_update_state ops, is_find = dis_find,
      is_pending = dis_pending\<rparr>"

section \<open>The durable store and its medium\<close>

definition pending_dispatch_state :: "message_state \<Rightarrow> dispatch_state" where
  "pending_dispatch_state ms = (if ms = Queued then StPersisted else StIndeterminate)"

text \<open>The tables and the outbox agree: the pending messages of the outbox are the intents in a state that
  is not terminal, under their command ids.\<close>

definition dis_agrees :: "'io durable_intent_store \<Rightarrow> bool" where
  "dis_agrees s \<longleftrightarrow>
     bt_inv (dis_index s) \<and> bt_inv (dis_states s) \<and> bt_inv (dis_records s) \<and> bt_inv (ob_pending (dis_outbox s)) \<and>
     (\<forall>k. bt_get (dis_index s) k = None \<longleftrightarrow> bt_get (dis_records s) k = None) \<and>
     (\<forall>k. bt_get (dis_states s) k = None \<longleftrightarrow> bt_get (dis_records s) k = None) \<and>
     (\<forall>k r. bt_get (dis_records s) k = Some r \<longrightarrow> ir_command_id r = k) \<and>
     (\<forall>oid p. bt_get (ob_pending (dis_outbox s)) oid = Some p \<longrightarrow>
        pe_id p = oid \<and> pe_state p \<noteq> PeerAcked \<and>
        (let k = ir_command_id (pe_message p)
         in pe_idempotency p = k \<and> bt_get (dis_index s) k = Some oid \<and> bt_get (dis_records s) k = Some (pe_message p) \<and>
            bt_get (dis_states s) k = Some (pending_dispatch_state (pe_state p)))) \<and>
     (\<forall>k st. bt_get (dis_states s) k = Some st \<longrightarrow> \<not> settled st \<longrightarrow>
        (\<exists>oid p. bt_get (ob_pending (dis_outbox s)) oid = Some p \<and> ir_command_id (pe_message p) = k)) \<and>
     (\<forall>k oid. bt_get (dis_index s) k = Some oid \<longrightarrow> oid < ob_next_id (dis_outbox s) \<and>
        (\<forall>p. bt_get (ob_pending (dis_outbox s)) oid = Some p \<longrightarrow> ir_command_id (pe_message p) = k))"

definition dis_inv :: "('io \<Rightarrow> bytes) \<Rightarrow> ('io \<Rightarrow> bool) \<Rightarrow> 'io durable_intent_store \<Rightarrow> bool" where
  "dis_inv contents ready s \<longleftrightarrow>
     ready (ob_io (dis_outbox s)) \<and> ob_ok intent_codec (contents (ob_io (dis_outbox s))) (dis_outbox s) \<and>
     173 \<le> ob_slot_len (dis_outbox s) \<and> dis_agrees s"

definition dis_room :: "'io durable_intent_store \<Rightarrow> bool" where
  "dis_room s \<longleftrightarrow> ob_next_id (dis_outbox s) \<noteq> - 1"

definition dis_storable :: "intent_record \<Rightarrow> bool" where
  "dis_storable r \<longleftrightarrow> intent_wf r \<and> ir_state r = StPersisted"

lemma dis_storable_outbox:
  "dis_storable r \<Longrightarrow> 173 \<le> n \<Longrightarrow> storable intent_codec n r"
  using intent_roundtrip [of r]
  by (auto simp: dis_storable_def storable_def intent_codec_def intent_encode_def Let_def)

lemma dis_agreesD:
  assumes "dis_agrees s"
  shows "bt_inv (dis_index s)" and "bt_inv (dis_states s)" and "bt_inv (dis_records s)"
    and "bt_inv (ob_pending (dis_outbox s))"
    and "bt_get (dis_index s) k = None \<longleftrightarrow> bt_get (dis_records s) k = None"
    and "bt_get (dis_states s) k = None \<longleftrightarrow> bt_get (dis_records s) k = None"
    and "bt_get (dis_records s) k = Some r \<Longrightarrow> ir_command_id r = k"
    and "bt_get (ob_pending (dis_outbox s)) oid = Some p \<Longrightarrow>
        pe_id p = oid \<and> pe_state p \<noteq> PeerAcked \<and> pe_idempotency p = ir_command_id (pe_message p) \<and>
        bt_get (dis_index s) (ir_command_id (pe_message p)) = Some oid \<and>
        bt_get (dis_records s) (ir_command_id (pe_message p)) = Some (pe_message p) \<and>
        bt_get (dis_states s) (ir_command_id (pe_message p)) = Some (pending_dispatch_state (pe_state p))"
    and "bt_get (dis_states s) k = Some st \<Longrightarrow> \<not> settled st \<Longrightarrow>
        \<exists>oid p. bt_get (ob_pending (dis_outbox s)) oid = Some p \<and> ir_command_id (pe_message p) = k"
    and "bt_get (dis_index s) k = Some oid \<Longrightarrow> oid < ob_next_id (dis_outbox s)"
    and "bt_get (dis_index s) k = Some oid \<Longrightarrow> bt_get (ob_pending (dis_outbox s)) oid = Some p \<Longrightarrow> ir_command_id (pe_message p) = k"
  using assms unfolding dis_agrees_def Let_def by blast+

lemma dis_agreesI:
  assumes "bt_inv (dis_index s)" and "bt_inv (dis_states s)" and "bt_inv (dis_records s)"
    and "bt_inv (ob_pending (dis_outbox s))"
    and "\<And>k. bt_get (dis_index s) k = None \<longleftrightarrow> bt_get (dis_records s) k = None"
    and "\<And>k. bt_get (dis_states s) k = None \<longleftrightarrow> bt_get (dis_records s) k = None"
    and "\<And>k r. bt_get (dis_records s) k = Some r \<Longrightarrow> ir_command_id r = k"
    and "\<And>oid p. bt_get (ob_pending (dis_outbox s)) oid = Some p \<Longrightarrow>
        pe_id p = oid \<and> pe_state p \<noteq> PeerAcked \<and> pe_idempotency p = ir_command_id (pe_message p) \<and>
        bt_get (dis_index s) (ir_command_id (pe_message p)) = Some oid \<and>
        bt_get (dis_records s) (ir_command_id (pe_message p)) = Some (pe_message p) \<and>
        bt_get (dis_states s) (ir_command_id (pe_message p)) = Some (pending_dispatch_state (pe_state p))"
    and "\<And>k st. bt_get (dis_states s) k = Some st \<Longrightarrow> \<not> settled st \<Longrightarrow>
        \<exists>oid p. bt_get (ob_pending (dis_outbox s)) oid = Some p \<and> ir_command_id (pe_message p) = k"
    and "\<And>k oid. bt_get (dis_index s) k = Some oid \<Longrightarrow> oid < ob_next_id (dis_outbox s)"
    and "\<And>k oid p. bt_get (dis_index s) k = Some oid \<Longrightarrow> bt_get (ob_pending (dis_outbox s)) oid = Some p \<Longrightarrow>
        ir_command_id (pe_message p) = k"
  shows "dis_agrees s"
  using assms unfolding dis_agrees_def Let_def by blast

text \<open>The three changes of the tables.\<close>

lemma agrees_append:
  assumes "dis_agrees s"
    and "\<And>i p. bt_get (ob_pending (dis_outbox s)) i = Some p \<Longrightarrow> ir_command_id (pe_message p) \<noteq> ir_command_id r"
    and "bt_get (ob_pending (dis_outbox s)) oid = None" and "oid = ob_next_id (dis_outbox s)" and "ob_next_id ob = oid + 1"
    and "oid \<noteq> - 1"
    and "ob_pending ob = bt_insert (ob_pending (dis_outbox s)) oid \<lparr>pe_id = oid, pe_idempotency = ir_command_id r,
        pe_message = r, pe_attempts = 0, pe_last_sent_at_ms = 0, pe_state = Queued\<rparr>"
  shows "dis_agrees (s\<lparr>dis_outbox := ob, dis_index := bt_insert (dis_index s) (ir_command_id r) oid,
    dis_states := bt_insert (dis_states s) (ir_command_id r) StPersisted,
    dis_records := bt_insert (dis_records s) (ir_command_id r) r\<rparr>)" (is "dis_agrees ?s")
proof (rule dis_agreesI)
  note d = dis_agreesD [OF assms(1)]
  show "bt_get (dis_index ?s) k = None \<longleftrightarrow> bt_get (dis_records ?s) k = None" for k using d(5) by simp
  show "bt_get (dis_states ?s) k = None \<longleftrightarrow> bt_get (dis_records ?s) k = None" for k using d(6) by simp
  show "ir_command_id x = k" if "bt_get (dis_records ?s) k = Some x" for k x
    using that d(7) [of k x] by (auto split: if_splits)
  show "pe_id p = i \<and> pe_state p \<noteq> PeerAcked \<and> pe_idempotency p = ir_command_id (pe_message p) \<and>
      bt_get (dis_index ?s) (ir_command_id (pe_message p)) = Some i \<and>
      bt_get (dis_records ?s) (ir_command_id (pe_message p)) = Some (pe_message p) \<and>
      bt_get (dis_states ?s) (ir_command_id (pe_message p)) = Some (pending_dispatch_state (pe_state p))"
    if "bt_get (ob_pending (dis_outbox ?s)) i = Some p" for i p
    using that d(8) [of i p] assms(2) [of i p] by (auto simp: assms(7) pending_dispatch_state_def split: if_splits)
  show "\<exists>i p. bt_get (ob_pending (dis_outbox ?s)) i = Some p \<and> ir_command_id (pe_message p) = k"
    if "bt_get (dis_states ?s) k = Some st" "\<not> settled st" for k st
  proof (cases "k = ir_command_id r")
    case True
    then show ?thesis by (intro exI [of _ oid]) (simp add: assms(7))
  next
    case False
    with that obtain i p where ip: "bt_get (ob_pending (dis_outbox s)) i = Some p" "ir_command_id (pe_message p) = k"
      using d(9) [of k st] by auto
    with assms(3) have "i \<noteq> oid" by auto
    with ip show ?thesis by (intro exI [of _ i] exI [of _ p]) (simp add: assms(7))
  qed
  have "unat (oid + 1) = unat oid + 1" using unat_Suc_less_iff [of oid] assms(6) by (simp add: unat_word_ariths)
  then have fresh: "j < oid + 1 \<longleftrightarrow> j \<le> oid" for j by (simp add: word_less_nat_alt word_le_nat_alt less_Suc_eq_le)
  have new: "j = oid" if "bt_get (dis_index ?s) (ir_command_id r) = Some j" for j using that by simp
  have old: "bt_get (dis_index s) k = Some j" "j < oid"
    if "bt_get (dis_index ?s) k = Some j" "k \<noteq> ir_command_id r" for k j
    using that d(10) [of k j] unfolding assms(4) by simp_all
  show "j < ob_next_id (dis_outbox ?s)" if "bt_get (dis_index ?s) k = Some j" for k j
  proof (cases "k = ir_command_id r")
    case True
    with that new fresh show ?thesis by (simp add: assms(5))
  next
    case False
    with old(2) [OF that] fresh show ?thesis by (simp add: assms(5))
  qed
  show "ir_command_id (pe_message p) = k"
    if "bt_get (dis_index ?s) k = Some j" "bt_get (ob_pending (dis_outbox ?s)) j = Some p" for k j p
  proof (cases "k = ir_command_id r")
    case True
    with that new have "j = oid" by blast
    with that(2) True show ?thesis by (auto simp: assms(7))
  next
    case False
    from old [OF that(1) False] d(11) [of k j p] that(2) show ?thesis by (simp add: assms(7) split: if_splits)
  qed
qed (use dis_agreesD(1-4) [OF assms(1)] assms(7) in \<open>simp_all add: bt_inv_insert\<close>)

lemma pending_keys_inj:
  assumes "dis_agrees s" and "bt_get (ob_pending (dis_outbox s)) i = Some q"
    and "bt_get (ob_pending (dis_outbox s)) j = Some p" and "ir_command_id (pe_message q) = ir_command_id (pe_message p)"
  shows "i = j"
proof -
  have "bt_get (dis_index s) (ir_command_id (pe_message q)) = Some i"
    "bt_get (dis_index s) (ir_command_id (pe_message p)) = Some j"
    using dis_agreesD(8) [OF assms(1,2)] dis_agreesD(8) [OF assms(1,3)] by blast+
  with assms(4) show ?thesis by simp
qed

lemma agrees_sent:
  assumes "dis_agrees s" and "bt_get (ob_pending (dis_outbox s)) oid = Some p"
    and "ob_pending ob = bt_insert (ob_pending (dis_outbox s)) oid p'"
    and "pe_id p' = pe_id p" and "pe_idempotency p' = pe_idempotency p" and "pe_message p' = pe_message p"
    and "pe_state p' = Sent" and "ob_next_id ob = ob_next_id (dis_outbox s)"
  shows "dis_agrees (s\<lparr>dis_outbox := ob,
    dis_states := bt_insert (dis_states s) (ir_command_id (pe_message p)) StIndeterminate\<rparr>)" (is "dis_agrees ?s")
proof (rule dis_agreesI)
  note d = dis_agreesD [OF assms(1)] and p = dis_agreesD(8) [OF assms(1,2)]
  have same: "ir_command_id (pe_message q) \<noteq> ir_command_id (pe_message p)"
    if "bt_get (ob_pending (dis_outbox s)) i = Some q" "i \<noteq> oid" for i q
    using pending_keys_inj [OF assms(1) that(1) assms(2)] that(2) by blast
  show "bt_get (dis_states ?s) k = None \<longleftrightarrow> bt_get (dis_records ?s) k = None" for k using d(6) [of k] p by auto
  show "pe_id q = i \<and> pe_state q \<noteq> PeerAcked \<and> pe_idempotency q = ir_command_id (pe_message q) \<and>
      bt_get (dis_index ?s) (ir_command_id (pe_message q)) = Some i \<and>
      bt_get (dis_records ?s) (ir_command_id (pe_message q)) = Some (pe_message q) \<and>
      bt_get (dis_states ?s) (ir_command_id (pe_message q)) = Some (pending_dispatch_state (pe_state q))"
    if "bt_get (ob_pending (dis_outbox ?s)) i = Some q" for i q
  proof (cases "i = oid")
    case True
    with that have "q = p'" by (simp add: assms(3))
    with p True assms(4-7) show ?thesis by (simp add: pending_dispatch_state_def)
  next
    case False
    with that have q: "bt_get (ob_pending (dis_outbox s)) i = Some q" by (simp add: assms(3))
    from d(8) [OF q] same [OF q False] show ?thesis by simp
  qed
  show "\<exists>i q. bt_get (ob_pending (dis_outbox ?s)) i = Some q \<and> ir_command_id (pe_message q) = k"
    if "bt_get (dis_states ?s) k = Some st" "\<not> settled st" for k st
  proof (cases "k = ir_command_id (pe_message p)")
    case True
    then show ?thesis by (intro exI [of _ oid]) (simp add: assms(3,6))
  next
    case False
    with that obtain i q where iq: "bt_get (ob_pending (dis_outbox s)) i = Some q" "ir_command_id (pe_message q) = k"
      using d(9) [of k st] by auto
    with False assms(2) have "i \<noteq> oid" by auto
    with iq show ?thesis by (intro exI [of _ i] exI [of _ q]) (simp add: assms(3))
  qed
  show "j < ob_next_id (dis_outbox ?s)" if "bt_get (dis_index ?s) k = Some j" for k j
    using that d(10) assms(8) by simp
  show "ir_command_id (pe_message q) = k" if "bt_get (dis_index ?s) k = Some j" "bt_get (ob_pending (dis_outbox ?s)) j = Some q" for k j q
  proof (cases "j = oid")
    case True
    with that(2) have "q = p'" by (simp add: assms(3))
    with d(11) [OF _ assms(2), of k] that(1) True show ?thesis by (simp add: assms(6))
  next
    case False
    with that d(11) [of k j q] show ?thesis by (simp add: assms(3))
  qed
qed (use dis_agreesD(1-5,7) [OF assms(1)] assms(3) in \<open>simp_all add: bt_inv_insert\<close>)

lemma agrees_settled:
  assumes "dis_agrees s" and "bt_get (ob_pending (dis_outbox s)) oid = Some p"
    and "ob_pending ob = bt_remove (ob_pending (dis_outbox s)) oid" and "settled st"
    and "ob_next_id ob = ob_next_id (dis_outbox s)"
  shows "dis_agrees (s\<lparr>dis_outbox := ob,
    dis_states := bt_insert (dis_states s) (ir_command_id (pe_message p)) st\<rparr>)" (is "dis_agrees ?s")
proof (rule dis_agreesI)
  note d = dis_agreesD [OF assms(1)] and p = dis_agreesD(8) [OF assms(1,2)]
  show "bt_get (dis_states ?s) k = None \<longleftrightarrow> bt_get (dis_records ?s) k = None" for k using d(6) [of k] p by auto
  show "pe_id q = i \<and> pe_state q \<noteq> PeerAcked \<and> pe_idempotency q = ir_command_id (pe_message q) \<and>
      bt_get (dis_index ?s) (ir_command_id (pe_message q)) = Some i \<and>
      bt_get (dis_records ?s) (ir_command_id (pe_message q)) = Some (pe_message q) \<and>
      bt_get (dis_states ?s) (ir_command_id (pe_message q)) = Some (pending_dispatch_state (pe_state q))"
    if "bt_get (ob_pending (dis_outbox ?s)) i = Some q" for i q
  proof -
    from that have q: "bt_get (ob_pending (dis_outbox s)) i = Some q" and "i \<noteq> oid"
      by (simp_all add: assms(3) split: if_splits)
    then have "ir_command_id (pe_message q) \<noteq> ir_command_id (pe_message p)"
      using pending_keys_inj [OF assms(1) _ assms(2)] by blast
    with d(8) [OF q] show ?thesis by simp
  qed
  show "\<exists>i q. bt_get (ob_pending (dis_outbox ?s)) i = Some q \<and> ir_command_id (pe_message q) = k"
    if "bt_get (dis_states ?s) k = Some st'" "\<not> settled st'" for k st'
  proof -
    have k: "k \<noteq> ir_command_id (pe_message p)" "bt_get (dis_states s) k = Some st'"
      using that assms(4) by (auto split: if_splits)
    from d(9) [OF k(2) that(2)] obtain i q where
      iq: "bt_get (ob_pending (dis_outbox s)) i = Some q" "ir_command_id (pe_message q) = k" by blast
    with k(1) assms(2) have "i \<noteq> oid" by auto
    with iq show ?thesis by (intro exI [of _ i] exI [of _ q]) (simp add: assms(3))
  qed
  show "j < ob_next_id (dis_outbox ?s)" if "bt_get (dis_index ?s) k = Some j" for k j
    using that d(10) assms(5) by simp
  show "ir_command_id (pe_message q) = k" if "bt_get (dis_index ?s) k = Some j" "bt_get (ob_pending (dis_outbox ?s)) j = Some q" for k j q
    using that d(11) [of k j q] assms(3) by (auto split: if_splits)
qed (use dis_agreesD(1-5,7) [OF assms(1)] assms(3) in \<open>simp_all add: bt_inv_insert bt_inv_remove\<close>)

text \<open>Settling an intent that is no longer pending changes its state only.\<close>

lemma agrees_resettled:
  assumes "dis_agrees s" and "bt_get (dis_states s) k = Some st0" and "settled st0" and "settled st"
  shows "dis_agrees (s\<lparr>dis_states := bt_insert (dis_states s) k st\<rparr>)" (is "dis_agrees ?s")
proof (rule dis_agreesI)
  note d = dis_agreesD [OF assms(1)]
  show "bt_get (dis_states ?s) j = None \<longleftrightarrow> bt_get (dis_records ?s) j = None" for j
    using d(6) [of j] assms(2) by auto
  show "pe_id p = i \<and> pe_state p \<noteq> PeerAcked \<and> pe_idempotency p = ir_command_id (pe_message p) \<and>
      bt_get (dis_index ?s) (ir_command_id (pe_message p)) = Some i \<and>
      bt_get (dis_records ?s) (ir_command_id (pe_message p)) = Some (pe_message p) \<and>
      bt_get (dis_states ?s) (ir_command_id (pe_message p)) = Some (pending_dispatch_state (pe_state p))"
    if "bt_get (ob_pending (dis_outbox ?s)) i = Some p" for i p
  proof -
    from that have p: "bt_get (ob_pending (dis_outbox s)) i = Some p" by simp
    have "ir_command_id (pe_message p) \<noteq> k"
      using d(8) [OF p] assms(2,3) by (auto simp: settled_def pending_dispatch_state_def split: if_splits)
    with d(8) [OF p] show ?thesis by simp
  qed
  show "\<exists>i p. bt_get (ob_pending (dis_outbox ?s)) i = Some p \<and> ir_command_id (pe_message p) = j"
    if "bt_get (dis_states ?s) j = Some st'" "\<not> settled st'" for j st'
    using that assms(4) d(9) [of j st'] by (auto split: if_splits)
  show "j < ob_next_id (dis_outbox ?s)" if "bt_get (dis_index ?s) i = Some j" for i j using that d(10) by simp
  show "ir_command_id (pe_message p) = i" if "bt_get (dis_index ?s) i = Some j" "bt_get (ob_pending (dis_outbox ?s)) j = Some p" for i j p
    using that d(11) by simp
qed (use dis_agreesD(1-5,7) [OF assms(1)] in \<open>simp_all add: bt_inv_insert\<close>)

lemma find_key_None:
  assumes "dis_agrees s" and "\<And>i p. bt_get (ob_pending (dis_outbox s)) i = Some p \<Longrightarrow> ir_command_id (pe_message p) \<noteq> k"
  shows "find (\<lambda>(oid, p). pe_idempotency p = k) (ob_pending (dis_outbox s)) = None"
proof -
  have "pe_idempotency p \<noteq> k" if "(oid, p) \<in> set (ob_pending (dis_outbox s))" for oid p
  proof -
    have "bt_get (ob_pending (dis_outbox s)) oid = Some p"
      using that bt_get_in_set [OF dis_agreesD(4) [OF assms(1)]] by simp
    from dis_agreesD(8) [OF assms(1) this] assms(2) [OF this] show ?thesis by simp
  qed
  then show ?thesis by (auto simp: find_None_iff)
qed

lemma dis_find_states:
  assumes "dis_agrees s"
  shows "dis_find s k = (case bt_get (dis_records s) k of None \<Rightarrow> None
    | Some r \<Rightarrow> Some (r\<lparr>ir_state := the (bt_get (dis_states s) k)\<rparr>))"
  using dis_agreesD(6) [OF assms, of k] by (auto simp: dis_find_def split: option.splits)

lemma dis_pending_iff:
  assumes "dis_agrees s"
  shows "r \<in> set (dis_pending s) \<longleftrightarrow> dis_find s (ir_command_id r) = Some r \<and> \<not> settled (ir_state r)"
proof -
  note d = dis_agreesD [OF assms]
  have rec: "(k, x) \<in> set (dis_records s) \<longleftrightarrow> bt_get (dis_records s) k = Some x" for k x
    by (rule bt_get_in_set [OF d(3)])
  have st: "\<exists>st. bt_get (dis_states s) k = Some st" if "bt_get (dis_records s) k = Some x" for k x
    using d(6) [of k] that by fastforce
  show ?thesis
  proof
    assume "r \<in> set (dis_pending s)"
    then obtain k x st where x: "bt_get (dis_records s) k = Some x" "bt_get (dis_states s) k = Some st"
      "\<not> settled st" "r = x\<lparr>ir_state := st\<rparr>"
      using st by (fastforce simp: dis_pending_def Let_def rec split: if_splits)
    moreover have "ir_command_id r = k" using d(7) [OF x(1)] x(4) by simp
    ultimately show "dis_find s (ir_command_id r) = Some r \<and> \<not> settled (ir_state r)"
      by (simp add: dis_find_states [OF assms])
  next
    assume r: "dis_find s (ir_command_id r) = Some r \<and> \<not> settled (ir_state r)"
    then obtain x st where x: "bt_get (dis_records s) (ir_command_id r) = Some x"
      "bt_get (dis_states s) (ir_command_id r) = Some st" "r = x\<lparr>ir_state := st\<rparr>"
      using st by (fastforce simp: dis_find_states [OF assms] split: option.splits)
    with r show "r \<in> set (dis_pending s)"
      by (auto simp: dis_pending_def rec intro!: bexI [of _ "(ir_command_id r, x)"])
  qed
qed

lemma pending_key_listed:
  assumes "dis_agrees s" and "bt_get (ob_pending (dis_outbox s)) i = Some p"
  shows "ir_command_id (pe_message p) \<in> ir_command_id ` set (dis_pending s)"
proof -
  let ?r = "(pe_message p)\<lparr>ir_state := pending_dispatch_state (pe_state p)\<rparr>"
  note p = dis_agreesD(8) [OF assms]
  have "\<not> settled (pending_dispatch_state (pe_state p))" by (simp add: pending_dispatch_state_def settled_def)
  then have "?r \<in> set (dis_pending s)"
    using p by (simp add: dis_pending_iff [OF assms(1)] dis_find_states [OF assms(1)])
  then show ?thesis by (rule image_eqI [rotated]) simp
qed

context persist_io
begin

text \<open>An append under an id that no pending intent has: it is found afterwards, or the outbox was full.\<close>

lemma dis_append_free:
  assumes "dis_inv contents ready s" and "dis_room s" and "dis_storable r"
    and "ir_command_id r \<notin> ir_command_id ` set (dis_pending s)" and "dis_append ops s r = (s', res)"
  shows "if length (ob_slots (dis_outbox s)) < ob_max_slots (dis_outbox s)
    then res = Inr () \<and> dis_inv contents ready s' \<and>
      (\<forall>k. dis_find s' k = (if k = ir_command_id r then Some r else dis_find s k)) \<and>
      ob_shape (dis_outbox s') = ob_shape (dis_outbox s)
    else res = Inl IsFull \<and> s' = s"
proof -
  let ?ob = "dis_outbox s"
  note inv = assms(1) [unfolded dis_inv_def]
  have ag: "dis_agrees s" and ok: "ready (ob_io ?ob)" "ob_ok intent_codec (contents (ob_io ?ob)) ?ob"
    using inv by simp_all
  have new: "ir_command_id (pe_message p) \<noteq> ir_command_id r" if "bt_get (ob_pending ?ob) i = Some p" for i p
    using pending_key_listed [OF ag that] assms(4) by auto
  obtain ob' res1 where e: "ob_enqueue ops intent_codec ?ob r (ir_command_id r) = (ob', res1)" by fastforce
  have st: "storable intent_codec (ob_slot_len ?ob) r" "length (ir_command_id r) = 16"
    using dis_storable_outbox [OF assms(3)] inv assms(3) by (simp_all add: dis_storable_def intent_wf_def)
  have room: "ob_next_id ?ob \<noteq> - 1" using assms(2) by (simp add: dis_room_def)
  note eo = enqueue_ok [OF ok room st e] and none = find_key_None [OF ag new]
  show ?thesis
  proof (cases "ob_max_slots ?ob \<le> length (ob_slots ?ob)")
    case True
    with eo none have "res1 = Inl DsOutOfSpace" "ob' = ?ob" by simp_all
    with assms(5) e True show ?thesis by (auto simp: dis_append_def)
  next
    case False
    let ?p = "\<lparr>pe_id = ob_next_id ?ob, pe_idempotency = ir_command_id r, pe_message = r, pe_attempts = 0,
        pe_last_sent_at_ms = 0, pe_state = Queued\<rparr>"
    from False eo none have r1: "res1 = Inr (ob_next_id ?ob)"
      "ob_pending ob' = bt_insert (ob_pending ?ob) (ob_next_id ?ob) ?p" "ob_next_id ob' = ob_next_id ?ob + 1"
      by (simp_all add: mo_enqueue_def ob_abs_def Let_def)
    let ?s = "s\<lparr>dis_outbox := ob', dis_index := bt_insert (dis_index s) (ir_command_id r) (ob_next_id ?ob),
      dis_states := bt_insert (dis_states s) (ir_command_id r) StPersisted,
      dis_records := bt_insert (dis_records s) (ir_command_id r) r\<rparr>"
    have s': "s' = ?s" "res = Inr ()" using assms(5) e r1(1) by (simp_all add: dis_append_def Let_def)
    have ag': "dis_agrees ?s"
      by (rule agrees_append [OF ag new agrees_fresh(2) [OF ob_okD(2) [OF ok(2)]] refl r1(3) room r1(2)])
    then have "dis_inv contents ready ?s" using eo inv ob_shape_cong(4) [of ob' ?ob] by (simp add: dis_inv_def)
    moreover have "r\<lparr>ir_state := StPersisted\<rparr> = r" using assms(3) by (simp add: dis_storable_def)
    ultimately show ?thesis unfolding s' dis_find_states [OF ag'] dis_find_states [OF ag]
      using eo False by (simp cong: option.case_cong)
  qed
qed

lemma dis_append_find:
  assumes "dis_inv contents ready s" and "dis_room s" and "dis_storable r" and "dis_find s (ir_command_id r) = None"
    and "dis_append ops s r = (s', res)"
  shows "(res = Inr () \<longrightarrow> dis_inv contents ready s' \<and>
      (\<forall>k. dis_find s' k = (if k = ir_command_id r then Some r else dis_find s k))) \<and>
    (res \<noteq> Inr () \<longrightarrow> res = Inl IsFull \<and> s' = s)"
proof -
  have "ir_command_id r \<notin> ir_command_id ` set (dis_pending s)"
    using assms(1,4) by (auto simp: dis_inv_def dis_pending_iff)
  from dis_append_free [OF assms(1-3) this assms(5)] show ?thesis by (auto split: if_splits)
qed

lemma dis_update_find:
  assumes "dis_inv contents ready s" and "dis_find s k = Some r" and "\<not> settled (ir_state r)"
    and "st \<in> {StIndeterminate, StCommitted, StFailed, StRejected}"
  shows "\<exists>s'. dis_update_state ops s k st = Some (s', Inr ()) \<and> dis_inv contents ready s' \<and>
    (\<forall>j. dis_find s' j = (if j = k then Some (r\<lparr>ir_state := st\<rparr>) else dis_find s j)) \<and>
    ob_shape (dis_outbox s') = ob_shape (dis_outbox s)"
proof -
  let ?ob = "dis_outbox s"
  note inv = assms(1) [unfolded dis_inv_def]
  have ag: "dis_agrees s" and ok: "ready (ob_io ?ob)" "ob_ok intent_codec (contents (ob_io ?ob)) ?ob"
    using inv by simp_all
  note d = dis_agreesD [OF ag]
  from assms(2) obtain x where x: "bt_get (dis_records s) k = Some x" "r = x\<lparr>ir_state := the (bt_get (dis_states s) k)\<rparr>"
    by (auto simp: dis_find_states [OF ag] split: option.splits)
  then obtain st0 where st0: "bt_get (dis_states s) k = Some st0" using d(6) [of k] by fastforce
  with x(2) assms(3) have "\<not> settled st0" by simp
  from d(9) [OF st0 this] obtain oid p where p: "bt_get (ob_pending ?ob) oid = Some p" "ir_command_id (pe_message p) = k"
    by blast
  have idx: "bt_get (dis_index s) k = Some oid" using d(8) [OF p(1)] p(2) by simp
  have fin: ?thesis
    if "dis_update_state ops s k st = Some (s\<lparr>dis_outbox := ob', dis_states := bt_insert (dis_states s) k st\<rparr>, Inr ())"
      "ready (ob_io ob')" "ob_ok intent_codec (contents (ob_io ob')) ob'" "ob_shape ob' = ob_shape ?ob"
      "dis_agrees (s\<lparr>dis_outbox := ob', dis_states := bt_insert (dis_states s) k st\<rparr>)" for ob'
  proof -
    let ?s = "s\<lparr>dis_outbox := ob', dis_states := bt_insert (dis_states s) k st\<rparr>"
    have "dis_find ?s j = (if j = k then Some (r\<lparr>ir_state := st\<rparr>) else dis_find s j)" for j
      using x st0 unfolding dis_find_states [OF that(5)] dis_find_states [OF ag] by (simp split: option.splits)
    moreover have "dis_inv contents ready ?s" using that inv ob_shape_cong(4) [OF that(4)] by (simp add: dis_inv_def)
    ultimately show ?thesis using that(1,4) by (intro exI [of _ ?s]) simp
  qed
  show ?thesis
  proof (cases "st = StIndeterminate")
    case True
    obtain ob' res where e: "ob_mark_sent ops intent_codec ?ob oid 0 = (ob', res)" by fastforce
    with mark_sent_ok [OF ok e] p(1) have m: "res = Inr ()" "ready (ob_io ob')"
      "ob_ok intent_codec (contents (ob_io ob')) ob'" "ob_shape ob' = ob_shape ?ob"
      "ob_pending ob' = bt_insert (ob_pending ?ob) oid
         (p\<lparr>pe_attempts := pe_attempts p + 1, pe_last_sent_at_ms := 0, pe_state := Sent\<rparr>)"
      "ob_next_id ob' = ob_next_id ?ob" by simp_all
    show ?thesis
      by (rule fin [OF _ m(2-4)])
        (use True idx e m(1) agrees_sent [OF ag p(1) m(5)] m(6) p(2) in \<open>simp_all add: dis_update_state_def\<close>)
  next
    case False
    then have t: "settled st" using assms(4) by (auto simp: settled_def)
    obtain ob' res where m: "ob_mark_acked ops intent_codec ?ob oid (dis_receipt st) = Some (ob', res)" "ready (ob_io ob')"
      "ob_ok intent_codec (contents (ob_io ob')) ob'" "ob_shape ob' = ob_shape ?ob"
      "(ob_abs ob', res) = mo_mark_acked (ob_abs ?ob) oid (dis_receipt st)"
      by (rule mark_acked_ok [OF ok])
    have r: "res = Inr ()" "ob_pending ob' = bt_remove (ob_pending ?ob) oid" "ob_next_id ob' = ob_next_id ?ob"
      using m(5) by (simp_all add: mo_mark_acked_def ob_abs_def)
    have "dis_update_state ops s k st = dis_ack ops s k st"
      using False assms(4) by (auto simp: dis_update_state_def)
    then show ?thesis
      by (intro fin [OF _ m(2-4)])
        (use idx m(1) r(1) agrees_settled [OF ag p(1) r(2) t r(3)] p(2) in \<open>simp_all add: dis_ack_def\<close>)
  qed
qed

text \<open>An update of an intent that is unknown or settled does not disturb the pending ones.\<close>

lemma dis_update_other:
  assumes "dis_inv contents ready s" and "\<And>r. dis_find s k = Some r \<Longrightarrow> settled (ir_state r)"
    and "st \<in> {StIndeterminate, StCommitted, StFailed, StRejected}"
  shows "\<exists>s' res. dis_update_state ops s k st = Some (s', res) \<and> dis_inv contents ready s' \<and>
    (\<forall>j. j \<noteq> k \<longrightarrow> dis_find s' j = dis_find s j) \<and> (\<forall>r. dis_find s' k = Some r \<longrightarrow> settled (ir_state r)) \<and>
    ob_shape (dis_outbox s') = ob_shape (dis_outbox s)"
proof (cases "bt_get (dis_index s) k")
  case None
  then have "dis_update_state ops s k st = Some (s, Inl IsUnknown)"
    using assms(3) by (auto simp: dis_update_state_def dis_ack_def)
  with assms(1,2) show ?thesis by auto
next
  case (Some oid)
  let ?ob = "dis_outbox s"
  note inv = assms(1) [unfolded dis_inv_def]
  have ag: "dis_agrees s" and ok: "ready (ob_io ?ob)" "ob_ok intent_codec (contents (ob_io ?ob)) ?ob"
    using inv by simp_all
  note d = dis_agreesD [OF ag]
  obtain x st0 where x: "bt_get (dis_records s) k = Some x" "bt_get (dis_states s) k = Some st0"
    using Some d(5,6) [of k] by fastforce
  then have st0: "settled st0" using assms(2) [of "x\<lparr>ir_state := st0\<rparr>"] by (simp add: dis_find_states [OF ag])
  have gone: "bt_get (ob_pending ?ob) oid = None"
  proof (rule ccontr)
    assume "bt_get (ob_pending ?ob) oid \<noteq> None"
    then obtain p where p: "bt_get (ob_pending ?ob) oid = Some p" by blast
    with d(11) [OF Some p] d(8) [OF p] x(2) st0 show False by (auto simp: settled_def pending_dispatch_state_def split: if_splits)
  qed
  show ?thesis
  proof (cases "st = StIndeterminate")
    case True
    obtain ob' res where e: "ob_mark_sent ops intent_codec ?ob oid 0 = (ob', res)" by fastforce
    with mark_sent_ok [OF ok e] gone have "res = Inl (DsOther ''unknown-outbox-id'')" "ob' = ?ob" by simp_all
    with True Some e have "dis_update_state ops s k st = Some (s, Inl (IsUnavailable (DsOther ''unknown-outbox-id'')))"
      by (simp add: dis_update_state_def)
    with assms(1,2) show ?thesis by auto
  next
    case False
    let ?s = "s\<lparr>dis_states := bt_insert (dis_states s) k st\<rparr>"
    have t: "settled st" using False assms(3) by (auto simp: settled_def)
    have u: "dis_update_state ops s k st = Some (?s, Inr ())"
      using False assms(3) Some gone by (auto simp: dis_update_state_def dis_ack_def ob_mark_acked_def)
    have ag': "dis_agrees ?s" by (rule agrees_resettled [OF ag x(2) st0 t])
    have "dis_find ?s j = dis_find s j" if "j \<noteq> k" for j
      using that unfolding dis_find_states [OF ag'] dis_find_states [OF ag] by (simp split: option.splits)
    moreover have "settled (ir_state r)" if "dis_find ?s k = Some r" for r
      using that t x unfolding dis_find_states [OF ag'] by auto
    ultimately show ?thesis using u inv ag' by (intro exI [of _ ?s] exI [of _ "Inr ()"]) (simp add: dis_inv_def)
  qed
qed

end

sublocale persist_io \<subseteq> durable: intent_log "durable_intent_ops ops" "dis_inv contents ready" dis_room dis_storable
proof
  fix s r s' res
  assume "dis_inv contents ready s" "dis_room s" "dis_storable r"
    "is_find (durable_intent_ops ops) s (ir_command_id r) = None" "is_append (durable_intent_ops ops) s r = (s', res)"
  then show "(res = Inr () \<longrightarrow> dis_inv contents ready s' \<and> (\<forall>k. is_find (durable_intent_ops ops) s' k =
      (if k = ir_command_id r then Some r else is_find (durable_intent_ops ops) s k))) \<and>
      (res \<noteq> Inr () \<longrightarrow> res = Inl IsFull \<and> s' = s)"
    unfolding durable_intent_ops_def intent_ops.select_convs using dis_append_find [of s r s' res] by blast
next
  fix s k r st
  assume "dis_inv contents ready s" "is_find (durable_intent_ops ops) s k = Some r" "\<not> settled (ir_state r)"
    "st \<in> {StIndeterminate, StCommitted, StFailed, StRejected}"
  then show "\<exists>s'. is_update_state (durable_intent_ops ops) s k st = Some (s', Inr ()) \<and> dis_inv contents ready s' \<and>
      (\<forall>j. is_find (durable_intent_ops ops) s' j = (if j = k then Some (r\<lparr>ir_state := st\<rparr>) else is_find (durable_intent_ops ops) s j))"
    unfolding durable_intent_ops_def intent_ops.select_convs using dis_update_find [of s k r st] by blast
next
  fix s r
  assume "dis_inv contents ready s"
  then show "r \<in> set (is_pending (durable_intent_ops ops) s) \<longleftrightarrow>
      is_find (durable_intent_ops ops) s (ir_command_id r) = Some r \<and> \<not> settled (ir_state r)"
    unfolding durable_intent_ops_def intent_ops.select_convs dis_inv_def by (intro dis_pending_iff) blast
qed

section \<open>Restarts\<close>

abbreviation pending_key :: "intent_record pending \<Rightarrow> bytes" where
  "pending_key p \<equiv> ir_command_id (pe_message p)"

lemma dis_restore_pending:
  "pe_state p \<noteq> PeerAcked \<Longrightarrow> dis_restore s p =
     s\<lparr>dis_index := bt_insert (dis_index s) (pending_key p) (pe_id p),
       dis_states := bt_insert (dis_states s) (pending_key p) (pending_dispatch_state (pe_state p)),
       dis_records := bt_insert (dis_records s) (pending_key p) (pe_message p)\<rparr>"
  by (cases "pe_state p") (simp_all add: dis_restore_def pending_dispatch_state_def Let_def)

lemma restore_fold:
  assumes "distinct (map pending_key ps)" and "list_all (\<lambda>p. pe_state p \<noteq> PeerAcked) ps"
    and "bt_inv (dis_index s)" and "bt_inv (dis_states s)" and "bt_inv (dis_records s)"
  shows "dis_outbox (foldl dis_restore s ps) = dis_outbox s \<and> bt_inv (dis_index (foldl dis_restore s ps)) \<and>
    bt_inv (dis_states (foldl dis_restore s ps)) \<and> bt_inv (dis_records (foldl dis_restore s ps)) \<and>
    bt_get (dis_index (foldl dis_restore s ps)) k =
      (case find (\<lambda>p. pending_key p = k) ps of Some p \<Rightarrow> Some (pe_id p) | None \<Rightarrow> bt_get (dis_index s) k) \<and>
    bt_get (dis_states (foldl dis_restore s ps)) k =
      (case find (\<lambda>p. pending_key p = k) ps of
         Some p \<Rightarrow> Some (pending_dispatch_state (pe_state p)) | None \<Rightarrow> bt_get (dis_states s) k) \<and>
    bt_get (dis_records (foldl dis_restore s ps)) k =
      (case find (\<lambda>p. pending_key p = k) ps of Some p \<Rightarrow> Some (pe_message p) | None \<Rightarrow> bt_get (dis_records s) k)"
  using assms
proof (induction ps arbitrary: s)
  case (Cons p ps)
  have "pending_key p \<notin> pending_key ` set ps" using Cons.prems(1) by simp
  then have "find (\<lambda>q. pending_key q = pending_key p) ps = None" unfolding find_None_iff by (metis imageI)
  with Cons.IH [of "dis_restore s p"] Cons.prems show ?case
    by (auto simp: dis_restore_pending bt_inv_insert split: option.splits)
qed simp

lemma find_pending:
  assumes "dis_agrees s"
  shows "find (\<lambda>p. pending_key p = k) (map snd (ob_pending (dis_outbox s))) = Some p \<longleftrightarrow>
    (\<exists>oid. bt_get (ob_pending (dis_outbox s)) oid = Some p \<and> pending_key p = k)"
proof -
  let ?ps = "map snd (ob_pending (dis_outbox s))"
  have mem: "q \<in> set ?ps \<longleftrightarrow> (\<exists>oid. bt_get (ob_pending (dis_outbox s)) oid = Some q)" for q
    using bt_get_in_set [OF dis_agreesD(4) [OF assms]] by (force simp: image_iff)
  show ?thesis
  proof
    assume "find (\<lambda>p. pending_key p = k) ?ps = Some p"
    then have "p \<in> set ?ps" "pending_key p = k" by (auto simp: find_Some_iff)
    with mem show "\<exists>oid. bt_get (ob_pending (dis_outbox s)) oid = Some p \<and> pending_key p = k" by blast
  next
    assume "\<exists>oid. bt_get (ob_pending (dis_outbox s)) oid = Some p \<and> pending_key p = k"
    then obtain oid where p: "bt_get (ob_pending (dis_outbox s)) oid = Some p" "pending_key p = k" by blast
    with mem have "find (\<lambda>p. pending_key p = k) ?ps \<noteq> None" by (auto simp: find_None_iff)
    then obtain q where q: "find (\<lambda>p. pending_key p = k) ?ps = Some q" by blast
    then have "q \<in> set ?ps" "pending_key q = k" by (auto simp: find_Some_iff)
    with mem obtain oid' where q': "bt_get (ob_pending (dis_outbox s)) oid' = Some q" by blast
    with pending_keys_inj [OF assms q' p(1)] p \<open>pending_key q = k\<close> have "q = p" by simp
    with q show "find (\<lambda>p. pending_key p = k) ?ps = Some p" by simp
  qed
qed

lemma pending_keys_distinct:
  assumes "dis_agrees s"
  shows "distinct (map pending_key (map snd (ob_pending (dis_outbox s))))"
proof -
  let ?m = "ob_pending (dis_outbox s)"
  note d = dis_agreesD [OF assms]
  have "distinct ?m" using d(4) by (simp add: bt_inv_def strict_sorted_iff distinct_map)
  moreover have "inj_on (\<lambda>x. pending_key (snd x)) (set ?m)"
  proof (rule inj_onI, clarify)
    fix i q j p
    assume "(i, q) \<in> set ?m" "(j, p) \<in> set ?m" "pending_key (snd (i, q)) = pending_key (snd (j, p))"
    then show "i = j \<and> q = p"
      using pending_keys_inj [OF assms, of i q j p] by (auto simp: bt_get_in_set [OF d(4)])
  qed
  ultimately show ?thesis by (simp add: distinct_map comp_def)
qed

text \<open>The tables rebuilt from the outbox.\<close>

definition dis_rebuilt :: "'io durable_intent_store \<Rightarrow> 'io durable_intent_store" where
  "dis_rebuilt s =
     foldl dis_restore \<lparr>dis_outbox = dis_outbox s, dis_index = bt_empty, dis_states = bt_empty, dis_records = bt_empty\<rparr>
       (map snd (ob_pending (dis_outbox s)))"

lemma rebuilt_tables:
  assumes "dis_agrees s"
  shows "dis_outbox (dis_rebuilt s) = dis_outbox s" and "bt_inv (dis_index (dis_rebuilt s))"
    and "bt_inv (dis_states (dis_rebuilt s))" and "bt_inv (dis_records (dis_rebuilt s))"
    and "bt_get (dis_index (dis_rebuilt s)) k =
      map_option pe_id (find (\<lambda>p. pending_key p = k) (map snd (ob_pending (dis_outbox s))))"
    and "bt_get (dis_states (dis_rebuilt s)) k =
      map_option (\<lambda>p. pending_dispatch_state (pe_state p)) (find (\<lambda>p. pending_key p = k) (map snd (ob_pending (dis_outbox s))))"
    and "bt_get (dis_records (dis_rebuilt s)) k =
      map_option pe_message (find (\<lambda>p. pending_key p = k) (map snd (ob_pending (dis_outbox s))))"
proof -
  have "list_all (\<lambda>p. pe_state p \<noteq> PeerAcked) (map snd (ob_pending (dis_outbox s)))"
    using dis_agreesD(8) [OF assms] bt_get_in_set [OF dis_agreesD(4) [OF assms]] by (fastforce simp: list_all_iff)
  note r = restore_fold [OF pending_keys_distinct [OF assms] this,
    of "\<lparr>dis_outbox = dis_outbox s, dis_index = bt_empty, dis_states = bt_empty, dis_records = bt_empty\<rparr>" k]
  have inv: "bt_inv ([] :: (bytes, 'b) btree)" for k by (simp add: bt_inv_def)
  show "dis_outbox (dis_rebuilt s) = dis_outbox s" "bt_inv (dis_index (dis_rebuilt s))"
    "bt_inv (dis_states (dis_rebuilt s))" "bt_inv (dis_records (dis_rebuilt s))"
    "bt_get (dis_index (dis_rebuilt s)) k =
      map_option pe_id (find (\<lambda>p. pending_key p = k) (map snd (ob_pending (dis_outbox s))))"
    "bt_get (dis_states (dis_rebuilt s)) k =
      map_option (\<lambda>p. pending_dispatch_state (pe_state p)) (find (\<lambda>p. pending_key p = k) (map snd (ob_pending (dis_outbox s))))"
    "bt_get (dis_records (dis_rebuilt s)) k =
      map_option pe_message (find (\<lambda>p. pending_key p = k) (map snd (ob_pending (dis_outbox s))))"
    using r by (simp_all add: dis_rebuilt_def bt_inv_def split: option.splits)
qed

lemma pending_dispatch_not_terminal: "\<not> settled (pending_dispatch_state ms)"
  by (simp add: pending_dispatch_state_def settled_def)

lemma rebuilt_agrees:
  assumes "dis_agrees s"
  shows "dis_agrees (dis_rebuilt s)"
proof (rule dis_agreesI)
  note d = dis_agreesD [OF assms] and r = rebuilt_tables [OF assms] and f = find_pending [OF assms]
  show "pe_id p = oid \<and> pe_state p \<noteq> PeerAcked \<and> pe_idempotency p = pending_key p \<and>
      bt_get (dis_index (dis_rebuilt s)) (pending_key p) = Some oid \<and>
      bt_get (dis_records (dis_rebuilt s)) (pending_key p) = Some (pe_message p) \<and>
      bt_get (dis_states (dis_rebuilt s)) (pending_key p) = Some (pending_dispatch_state (pe_state p))"
    if "bt_get (ob_pending (dis_outbox (dis_rebuilt s))) oid = Some p" for oid p
  proof -
    from that have p: "bt_get (ob_pending (dis_outbox s)) oid = Some p" unfolding r(1) .
    with f have "find (\<lambda>q. pending_key q = pending_key p) (map snd (ob_pending (dis_outbox s))) = Some p" by blast
    with d(8) [OF p] show ?thesis unfolding r(5-7) by simp
  qed
  show "\<exists>oid p. bt_get (ob_pending (dis_outbox (dis_rebuilt s))) oid = Some p \<and> pending_key p = k"
    if "bt_get (dis_states (dis_rebuilt s)) k = Some st" for k st
    using that f [of k] unfolding r(1,6) by auto
  show "ir_command_id x = k" if "bt_get (dis_records (dis_rebuilt s)) k = Some x" for k x
    using that f [of k] unfolding r(7) by auto
  show "bt_inv (ob_pending (dis_outbox (dis_rebuilt s)))" unfolding r(1) by (rule d(4))
  have i: "\<exists>p. bt_get (ob_pending (dis_outbox s)) oid = Some p \<and> pending_key p = k \<and> bt_get (dis_index s) k = Some oid"
    if "bt_get (dis_index (dis_rebuilt s)) k = Some oid" for k oid
    using that f [of k] d(8) unfolding r(5) by fastforce
  show "oid < ob_next_id (dis_outbox (dis_rebuilt s))" if "bt_get (dis_index (dis_rebuilt s)) k = Some oid" for k oid
    using i [OF that] d(10) unfolding r(1) by blast
  show "pending_key p = k" if "bt_get (dis_index (dis_rebuilt s)) k = Some oid"
    "bt_get (ob_pending (dis_outbox (dis_rebuilt s))) oid = Some p" for k oid p
    using i [OF that(1)] that(2) unfolding r(1) by auto
qed (simp_all add: rebuilt_tables [OF assms])

lemma dis_pending_map:
  assumes "dis_agrees s"
  shows "dis_pending s = map (\<lambda>(k, r). r\<lparr>ir_state := the (bt_get (dis_states s) k)\<rparr>)
    (filter (\<lambda>(k, r). \<not> settled (the (bt_get (dis_states s) k))) (dis_records s))"
proof -
  have "\<exists>st. bt_get (dis_states s) k = Some st" if "(k, r) \<in> set (dis_records s)" for k r
    using dis_agreesD(6) [OF assms, of k] bt_get_in_set [OF dis_agreesD(3) [OF assms], of k r] that by fastforce
  then have "\<forall>x \<in> set (dis_records s). \<exists>st. bt_get (dis_states s) (fst x) = Some st" by force
  moreover have "concat (map (\<lambda>(k, r). let st = (case bt_get (dis_states s) k of Some st \<Rightarrow> st | None \<Rightarrow> ir_state r)
        in if settled st then [] else [r\<lparr>ir_state := st\<rparr>]) m) =
      map (\<lambda>(k, r). r\<lparr>ir_state := the (bt_get (dis_states s) k)\<rparr>)
        (filter (\<lambda>(k, r). \<not> settled (the (bt_get (dis_states s) k))) m)"
    if "\<forall>x \<in> set m. \<exists>st. bt_get (dis_states s) (fst x) = Some st" for m
    using that by (induction m) (auto simp: Let_def)
  ultimately show ?thesis unfolding dis_pending_def by blast
qed

lemma rebuilt_records:
  assumes "dis_agrees s"
  shows "dis_records (dis_rebuilt s) =
    filter (\<lambda>(k, r). \<not> settled (the (bt_get (dis_states s) k))) (dis_records s)" (is "_ = ?filtered")
proof (rule bt_ext)
  note d = dis_agreesD [OF assms] and r = rebuilt_tables [OF assms] and f = find_pending [OF assms]
  show "bt_inv (dis_records (dis_rebuilt s))" "bt_inv ?filtered" by (simp_all add: r(4) bt_inv_filter d(3))
  fix k
  have "bt_get (dis_records (dis_rebuilt s)) k = Some x \<longleftrightarrow> bt_get ?filtered k = Some x" for x
  proof
    assume "bt_get (dis_records (dis_rebuilt s)) k = Some x"
    then obtain oid p where p: "bt_get (ob_pending (dis_outbox s)) oid = Some p" "pending_key p = k" "x = pe_message p"
      using f [of k] unfolding r(7) by auto
    then show "bt_get ?filtered k = Some x"
      using d(8) [OF p(1)] pending_dispatch_not_terminal by (auto simp: bt_get_filter [OF d(3)])
  next
    assume "bt_get ?filtered k = Some x"
    then have x: "bt_get (dis_records s) k = Some x" "\<not> settled (the (bt_get (dis_states s) k))"
      by (simp_all add: bt_get_filter [OF d(3)])
    then obtain st where st: "bt_get (dis_states s) k = Some st" using d(6) [of k] by fastforce
    with x(2) obtain oid p where p: "bt_get (ob_pending (dis_outbox s)) oid = Some p" "pending_key p = k"
      using d(9) [OF st] by auto
    with f have "find (\<lambda>q. pending_key q = k) (map snd (ob_pending (dis_outbox s))) = Some p" by blast
    moreover have "x = pe_message p" using d(8) [OF p(1)] p(2) x(1) by simp
    ultimately show "bt_get (dis_records (dis_rebuilt s)) k = Some x" unfolding r(7) by simp
  qed
  then show "bt_get (dis_records (dis_rebuilt s)) k = bt_get ?filtered k" by (metis not_Some_eq)
qed

lemma rebuilt_pending:
  assumes "dis_agrees s"
  shows "dis_pending (dis_rebuilt s) = dis_pending s"
proof -
  note d = dis_agreesD [OF assms] and r = rebuilt_tables [OF assms] and f = find_pending [OF assms]
  have same: "bt_get (dis_states (dis_rebuilt s)) k = bt_get (dis_states s) k"
    if "(k, x) \<in> set (dis_records (dis_rebuilt s))" for k x
  proof -
    from that have "bt_get (dis_records (dis_rebuilt s)) k = Some x" using bt_get_in_set [OF r(4)] by blast
    then obtain oid p where p: "bt_get (ob_pending (dis_outbox s)) oid = Some p" "pending_key p = k"
      using f [of k] unfolding r(7) by auto
    with f have "find (\<lambda>q. pending_key q = k) (map snd (ob_pending (dis_outbox s))) = Some p" by blast
    with d(8) [OF p(1)] p(2) show ?thesis unfolding r(6) by simp
  qed
  have "filter (\<lambda>(k, x). \<not> settled (the (bt_get (dis_states (dis_rebuilt s)) k))) (dis_records (dis_rebuilt s)) =
      dis_records (dis_rebuilt s)"
  proof (rule filter_True, clarify)
    fix k x
    assume kx: "(k, x) \<in> set (dis_records (dis_rebuilt s))"
      and "settled (the (bt_get (dis_states (dis_rebuilt s)) k))"
    moreover from kx have "\<not> settled (the (bt_get (dis_states s) k))" by (simp add: rebuilt_records [OF assms])
    ultimately show False using same [OF kx] by simp
  qed
  then show ?thesis
    unfolding dis_pending_map [OF assms] dis_pending_map [OF rebuilt_agrees [OF assms]] rebuilt_records [OF assms, symmetric]
    using same by (auto intro!: map_cong)
qed

context persist_io
begin

lemma dis_reopen:
  assumes "dis_inv contents ready s"
  shows "dis_open ops (dis_new (ob_io (dis_outbox s)) (ob_base (dis_outbox s)) (ob_slot_len (dis_outbox s))
    (ob_max_slots (dis_outbox s))) = (dis_rebuilt s, Inr ())" and "dis_inv contents ready (dis_rebuilt s)"
proof -
  note inv = assms [unfolded dis_inv_def]
  have "ob_open ops intent_codec (ob_new (ob_io (dis_outbox s)) (ob_base (dis_outbox s)) (ob_slot_len (dis_outbox s))
      (ob_max_slots (dis_outbox s))) = (dis_outbox s, Inr ())"
    using inv by (intro open_rep) (simp_all add: ob_ok_def)
  then show "dis_open ops (dis_new (ob_io (dis_outbox s)) (ob_base (dis_outbox s)) (ob_slot_len (dis_outbox s))
    (ob_max_slots (dis_outbox s))) = (dis_rebuilt s, Inr ())"
    by (simp add: dis_open_def dis_new_def dis_rebuilt_def ob_recover_pending_def)
  show "dis_inv contents ready (dis_rebuilt s)"
    using inv rebuilt_agrees [of s] rebuilt_tables(1) [of s] by (simp add: dis_inv_def)
qed

end

section \<open>Histories of a store\<close>

text \<open>What has happened to a store, the latest event first: the appends and updates that succeeded, and the
  restarts. \<open>open_intents\<close> reads off the intents that were appended and not settled since, each in the last
  state it was given.\<close>

datatype intent_event = Appended intent_record | Updated bytes dispatch_state | Restarted

fun open_intents :: "intent_event list \<Rightarrow> bytes \<Rightarrow> intent_record option" where
  "open_intents [] = Map.empty"
| "open_intents (Appended r # evs) = (open_intents evs)(ir_command_id r \<mapsto> r)"
| "open_intents (Updated k st # evs) =
     (case open_intents evs k of
        None \<Rightarrow> open_intents evs
      | Some r \<Rightarrow> (open_intents evs)(k := if settled st then None else Some (r\<lparr>ir_state := st\<rparr>)))"
| "open_intents (Restarted # evs) = open_intents evs"

text \<open>The durable store over a blank medium (\<open>MemIo\<close>). An append is made under an id that no open intent has,
  of a record in the state Persisted whose device name is valid UTF-8 of at most 32 bytes, while the outbox has ids
  left; an update gives any id, known or not, one of the four states that reach the medium; the service may restart
  at any point.\<close>

inductive dis_reach :: "u64 \<Rightarrow> nat \<Rightarrow> nat \<Rightarrow> intent_event list \<Rightarrow> mem_io durable_intent_store \<Rightarrow> bool"
  for base :: u64 and slot_len :: nat and max_slots :: nat where
  start: "unat base + 64 + max_slots * slot_len \<le> unat capacity \<Longrightarrow> 173 \<le> slot_len \<Longrightarrow> 0 < max_slots \<Longrightarrow>
    max_slots < 2 ^ 32 \<Longrightarrow> dis_open mem_ops (dis_new (mi_new capacity) base slot_len max_slots) = (s, res) \<Longrightarrow>
    dis_reach base slot_len max_slots [] s"
| append: "dis_reach base slot_len max_slots evs s \<Longrightarrow> dis_room s \<Longrightarrow> dis_storable r \<Longrightarrow>
    open_intents evs (ir_command_id r) = None \<Longrightarrow> dis_append mem_ops s r = (s', res) \<Longrightarrow>
    dis_reach base slot_len max_slots (if res = Inr () then Appended r # evs else evs) s'"
| update: "dis_reach base slot_len max_slots evs s \<Longrightarrow> st \<in> {StIndeterminate, StCommitted, StFailed, StRejected} \<Longrightarrow>
    dis_update_state mem_ops s k st = Some (s', res) \<Longrightarrow>
    dis_reach base slot_len max_slots (if res = Inr () then Updated k st # evs else evs) s'"
| restart: "dis_reach base slot_len max_slots evs s \<Longrightarrow>
    dis_open mem_ops (dis_new (ob_io (dis_outbox s)) base slot_len max_slots) = (s', res) \<Longrightarrow>
    dis_reach base slot_len max_slots (Restarted # evs) s'"

text \<open>The intents of a store that are not settled.\<close>

definition dis_open_intent :: "'io durable_intent_store \<Rightarrow> bytes \<Rightarrow> intent_record option" where
  "dis_open_intent s k =
     (case dis_find s k of None \<Rightarrow> None | Some r \<Rightarrow> if settled (ir_state r) then None else Some r)"

lemma dis_open_mem:
  assumes "dis_agrees s"
  shows "dis_open_intent s k = Some r \<longleftrightarrow> r \<in> set (dis_pending s) \<and> ir_command_id r = k"
proof -
  have "ir_command_id r = k" if "dis_find s k = Some r"
    using that dis_agreesD(7) [OF assms, of k] by (auto simp: dis_find_states [OF assms] split: option.splits)
  then show ?thesis
    by (auto simp: dis_pending_iff [OF assms] dis_open_intent_def split: option.splits if_splits)
qed

lemma dis_pending_ran: "dis_agrees s \<Longrightarrow> set (dis_pending s) = ran (dis_open_intent s)"
  by (auto simp: ran_def dis_open_mem)

lemma dis_pending_dom: "dis_agrees s \<Longrightarrow> ir_command_id ` set (dis_pending s) = dom (dis_open_intent s)"
  by (auto simp: dom_def dis_open_mem)

lemma rebuilt_open:
  assumes "dis_agrees s"
  shows "dis_open_intent (dis_rebuilt s) = dis_open_intent s"
proof -
  have "dis_open_intent (dis_rebuilt s) k = Some r \<longleftrightarrow> dis_open_intent s k = Some r" for k r
    unfolding dis_open_mem [OF assms] dis_open_mem [OF rebuilt_agrees [OF assms]] rebuilt_pending [OF assms] ..
  then show ?thesis by (intro ext) (metis not_Some_eq)
qed

abbreviation mem_dis_inv :: "mem_io durable_intent_store \<Rightarrow> bool" where
  "mem_dis_inv \<equiv> dis_inv mi_bytes mem_ready"

text \<open>The store a blank medium stands for.\<close>

lemma blank_dis_inv:
  assumes "unat base + 64 + max_slots * slot_len \<le> unat capacity" and "173 \<le> slot_len" and "0 < max_slots"
    and "max_slots < 2 ^ 32"
  shows "mem_dis_inv (dis_new (mi_new capacity) base slot_len max_slots)"
proof -
  obtain ob where "ob_run mem_ops intent_codec [] (ob_new (mi_new capacity) base slot_len max_slots) = Some ob"
    "mem_ready (ob_io ob)" "ob_ok intent_codec (mi_bytes (ob_io ob)) ob"
    using blank_run [of base max_slots slot_len capacity "[]" intent_codec] assms by auto
  moreover have "dis_agrees (dis_new (mi_new capacity) base slot_len max_slots)"
    by (rule dis_agreesI) (simp_all add: dis_new_def ob_new_def bt_inv_def)
  ultimately show ?thesis using assms(2) by (auto simp: dis_inv_def dis_new_def ob_new_def)
qed

lemma mem_dis_agrees: "mem_dis_inv s \<Longrightarrow> dis_agrees s"
  by (simp add: dis_inv_def)

lemma dis_append_open:
  assumes "mem_dis_inv s" and "dis_room s" and "dis_storable r" and "dis_open_intent s (ir_command_id r) = None"
    and "dis_append mem_ops s r = (s', res)"
  shows "mem_dis_inv s' \<and> ob_shape (dis_outbox s') = ob_shape (dis_outbox s) \<and>
    dis_open_intent s' = (if res = Inr () then (dis_open_intent s)(ir_command_id r \<mapsto> r) else dis_open_intent s)"
proof -
  have "ir_command_id r \<notin> ir_command_id ` set (dis_pending s)"
    using assms(4) by (auto simp: dis_pending_dom [OF mem_dis_agrees [OF assms(1)]])
  note a = mem_io.dis_append_free [OF assms(1-3) this assms(5)]
  have "\<not> settled (ir_state r)" using assms(3) by (simp add: dis_storable_def settled_def)
  then have "dis_open_intent s' = (dis_open_intent s)(ir_command_id r \<mapsto> r)"
    if "\<forall>k. dis_find s' k = (if k = ir_command_id r then Some r else dis_find s k)"
    using that by (intro ext) (simp add: dis_open_intent_def)
  with a assms(1) show ?thesis by (auto split: if_splits)
qed

lemma dis_update_open:
  assumes "mem_dis_inv s" and "st \<in> {StIndeterminate, StCommitted, StFailed, StRejected}"
    and "dis_update_state mem_ops s k st = Some (s', res)"
  shows "mem_dis_inv s' \<and> ob_shape (dis_outbox s') = ob_shape (dis_outbox s) \<and>
    dis_open_intent s' = (case dis_open_intent s k of
        None \<Rightarrow> dis_open_intent s
      | Some r \<Rightarrow> (dis_open_intent s)(k := if settled st then None else Some (r\<lparr>ir_state := st\<rparr>))) \<and>
    (dis_open_intent s k \<noteq> None \<longrightarrow> res = Inr ())"
proof (cases "dis_open_intent s k")
  case None
  then have "settled (ir_state r)" if "dis_find s k = Some r" for r
    using that by (auto simp: dis_open_intent_def split: if_splits)
  from mem_io.dis_update_other [where s = s and k = k, OF assms(1) this assms(2)]
  have "\<exists>s1 res1. dis_update_state mem_ops s k st = Some (s1, res1) \<and> mem_dis_inv s1 \<and>
    (\<forall>j. j \<noteq> k \<longrightarrow> dis_find s1 j = dis_find s j) \<and> (\<forall>r. dis_find s1 k = Some r \<longrightarrow> settled (ir_state r)) \<and>
    ob_shape (dis_outbox s1) = ob_shape (dis_outbox s)" by blast
  with assms(3) have u: "mem_dis_inv s'" "\<forall>j. j \<noteq> k \<longrightarrow> dis_find s' j = dis_find s j"
    "\<forall>r. dis_find s' k = Some r \<longrightarrow> settled (ir_state r)" "ob_shape (dis_outbox s') = ob_shape (dis_outbox s)" by auto
  have "dis_open_intent s' j = dis_open_intent s j" for j
    using u(2,3) None by (cases "j = k") (auto simp: dis_open_intent_def split: option.splits)
  with u None show ?thesis by auto
next
  case (Some r)
  then have r: "dis_find s k = Some r" "\<not> settled (ir_state r)"
    by (auto simp: dis_open_intent_def split: option.splits if_splits)
  from mem_io.dis_update_find [OF assms(1) r assms(2)] assms(3)
  have u: "mem_dis_inv s'" "\<forall>j. dis_find s' j = (if j = k then Some (r\<lparr>ir_state := st\<rparr>) else dis_find s j)"
    "ob_shape (dis_outbox s') = ob_shape (dis_outbox s)" "res = Inr ()" by auto
  have "dis_open_intent s' = (dis_open_intent s)(k := if settled st then None else Some (r\<lparr>ir_state := st\<rparr>))"
    using u(2) by (intro ext) (simp add: dis_open_intent_def)
  with u Some show ?thesis by simp
qed

lemma dis_reach_inv:
  assumes "dis_reach base slot_len max_slots evs s"
  shows "mem_dis_inv s \<and> ob_shape (dis_outbox s) = (base, slot_len, max_slots) \<and> dis_open_intent s = open_intents evs"
  using assms
proof (induction rule: dis_reach.induct)
  case (start capacity s res)
  let ?new = "dis_new (mi_new capacity) base slot_len max_slots"
  have inv: "mem_dis_inv ?new" by (rule blank_dis_inv [OF start(1-4)])
  have sh: "ob_shape (dis_outbox ?new) = (base, slot_len, max_slots)" "ob_io (dis_outbox ?new) = mi_new capacity"
    using start(2,3) by (simp_all add: dis_new_def ob_new_def ob_shape_def)
  have "s = dis_rebuilt ?new" using mem_io.dis_reopen(1) [OF inv] start(5) sh by (simp add: ob_shape_def)
  moreover have "dis_open_intent ?new = Map.empty"
    by (rule ext) (simp add: dis_open_intent_def dis_find_def dis_new_def)
  ultimately show ?case
    using mem_io.dis_reopen(2) [OF inv] rebuilt_tables(1) [of ?new] rebuilt_open [OF mem_dis_agrees [OF inv]]
      mem_dis_agrees [OF inv] sh by simp
next
  case (append evs s r s' res)
  then show ?case using dis_append_open [of s r s' res] by simp
next
  case (update evs s st k s' res)
  then show ?case using dis_update_open [of s st k s' res] by (auto split: option.splits)
next
  case (restart evs s s' res)
  then have inv: "mem_dis_inv s" and sh: "ob_shape (dis_outbox s) = (base, slot_len, max_slots)" by auto
  have "s' = dis_rebuilt s" using mem_io.dis_reopen(1) [OF inv] restart(2) sh by (simp add: ob_shape_def)
  then show ?case
    using mem_io.dis_reopen(2) [OF inv] rebuilt_tables(1) [of s] rebuilt_open [OF mem_dis_agrees [OF inv]]
      mem_dis_agrees [OF inv] sh restart.IH by simp
qed

section \<open>Properties\<close>

text \<open>C17. Intents survive restarts: after any history of appends under ids that are not open (of records in
  the state Persisted with a device name of at most 32 bytes of valid UTF-8), of updates to Indeterminate, Committed, Failed or
  Rejected of any id, and of restarts, on an in-memory medium that holds the slots (each of 173 bytes or more) and before the
  64-bit message numbers run out, the store opened after the next restart lists the same pending
  intents in the same order, and they are exactly the intents that were appended and not settled since, each in the last state
  it was given.\<close>

theorem intents_survive_restart:
  assumes "dis_reach base slot_len max_slots evs s"
  shows "\<exists>s'. dis_open mem_ops (dis_new (ob_io (dis_outbox s)) base slot_len max_slots) = (s', Inr ()) \<and>
    dis_pending s' = dis_pending s \<and> set (dis_pending s') = ran (open_intents evs)"
proof -
  have inv: "mem_dis_inv s" "ob_shape (dis_outbox s) = (base, slot_len, max_slots)" "dis_open_intent s = open_intents evs"
    using dis_reach_inv [OF assms] by auto
  note ag = mem_dis_agrees [OF inv(1)]
  have "set (dis_pending s) = ran (open_intents evs)" by (simp add: dis_pending_ran [OF ag] inv(3))
  with mem_io.dis_reopen(1) [OF inv(1)] inv(2) rebuilt_pending [OF ag] show ?thesis by (auto simp: ob_shape_def)
qed

definition demo_intent :: intent_record where
  "demo_intent = \<lparr>ir_command_id = zeros 16, ir_correlation_id = zeros 16, ir_issued_at_ms = 1000,
     ir_expires_at_ms = 1300, ir_target_device = [0x70, 0x63, 0x73], ir_power_kw = f64_100,
     ir_input_digest = None, ir_state = StPersisted\<rparr>"

lemma dis_reach_start:
  "\<exists>s. dis_reach 0 256 4 [] s \<and> ob_slots (dis_outbox s) = [] \<and> ob_next_id (dis_outbox s) = 0"
proof -
  let ?new = "dis_new (mi_new 2048) 0 256 4"
  have inv: "mem_dis_inv ?new" by (rule blank_dis_inv) simp_all
  have "dis_open mem_ops ?new = (dis_rebuilt ?new, Inr ())"
    using mem_io.dis_reopen(1) [OF inv] by (simp add: dis_new_def ob_new_def)
  then have "dis_reach 0 256 4 [] (dis_rebuilt ?new)" by (intro dis_reach.start) simp_all
  moreover have "dis_outbox (dis_rebuilt ?new) = dis_outbox ?new" by (rule rebuilt_tables(1) [OF mem_dis_agrees [OF inv]])
  ultimately show ?thesis by (intro exI [of _ "dis_rebuilt ?new"]) (simp add: dis_new_def ob_new_def)
qed

text \<open>A history in which an intent is appended and then marked indeterminate can be reached.\<close>

lemma dis_reach_sent:
  "\<exists>s. dis_reach 0 256 4 [Updated (zeros 16) StIndeterminate, Appended demo_intent] s"
proof -
  obtain s where s: "dis_reach 0 256 4 [] s" "ob_slots (dis_outbox s) = []" "ob_next_id (dis_outbox s) = 0"
    using dis_reach_start by blast
  note i = dis_reach_inv [OF s(1)]
  have st: "dis_storable demo_intent" by (simp add: dis_storable_def intent_wf_def demo_intent_def)
  have room: "dis_room s" using s(3) by (simp add: dis_room_def)
  obtain s1 res where a: "dis_append mem_ops s demo_intent = (s1, res)" by fastforce
  have "ir_command_id demo_intent \<notin> ir_command_id ` set (dis_pending s)"
    using i by (simp add: dis_pending_dom [OF mem_dis_agrees])
  from mem_io.dis_append_free [OF _ room st this a] i s(2) have "res = Inr ()" by (simp add: ob_shape_def)
  with dis_reach.append [OF s(1) room st _ a] have r1: "dis_reach 0 256 4 [Appended demo_intent] s1" by simp
  from dis_reach_inv [OF r1] have i1: "mem_dis_inv s1" "dis_open_intent s1 (zeros 16) = Some demo_intent"
    by (simp_all add: demo_intent_def)
  then have "dis_find s1 (zeros 16) = Some demo_intent" "\<not> settled (ir_state demo_intent)"
    by (auto simp: dis_open_intent_def split: option.splits if_splits)
  then obtain s2 where "dis_update_state mem_ops s1 (zeros 16) StIndeterminate = Some (s2, Inr ())"
    using mem_io.dis_update_find [OF i1(1), of "zeros 16" demo_intent StIndeterminate] by auto
  from dis_reach.update [OF r1 _ this] show ?thesis by auto
qed

theorem intents_survive_restart_witness:
  "\<exists>s s'. dis_reach 0 256 4 [Updated (zeros 16) StIndeterminate, Appended demo_intent] s \<and>
    dis_open mem_ops (dis_new (ob_io (dis_outbox s)) 0 256 4) = (s', Inr ()) \<and>
    set (dis_pending s') = {demo_intent\<lparr>ir_state := StIndeterminate\<rparr>}"
proof -
  obtain s where s: "dis_reach 0 256 4 [Updated (zeros 16) StIndeterminate, Appended demo_intent] s"
    using dis_reach_sent by blast
  from intents_survive_restart [OF s] s show ?thesis by (auto simp: demo_intent_def settled_def)
qed

text \<open>C25. No intent is stuck: after any history of appends, updates and restarts as in the property on
  restarts (ids that are not open, names of at most 32 bytes of valid UTF-8, the four update states, the in-memory medium), the pending intents, which
  are the intents appended and not settled since, can be given a final state one after the other, each update succeeding
  without a panic, until none is pending.\<close>

theorem pending_intents_can_be_settled:
  assumes "dis_reach base slot_len max_slots evs s" and "st \<in> {StCommitted, StFailed, StRejected}"
  shows "\<exists>ks s'. set ks = dom (open_intents evs) \<and> distinct ks \<and>
    settle_all (durable_intent_ops mem_ops) st s ks = Some s' \<and> dis_pending s' = []"
proof -
  let ?ks = "remdups (map ir_command_id (dis_pending s))"
  have i: "mem_dis_inv s" "dis_open_intent s = open_intents evs" using dis_reach_inv [OF assms(1)] by auto
  then have "set ?ks = dom (open_intents evs)" using dis_pending_dom [OF mem_dis_agrees [OF i(1)]] by simp
  moreover from mem_io.durable.settle_everything [OF i(1) assms(2)]
  have "\<exists>s'. settle_all (durable_intent_ops mem_ops) st s ?ks = Some s' \<and> dis_pending s' = []"
    by (simp add: durable_intent_ops_def)
  ultimately show ?thesis by (metis distinct_remdups)
qed

theorem pending_intents_can_be_settled_witness:
  "\<exists>s s'. dis_reach 0 256 4 [Updated (zeros 16) StIndeterminate, Appended demo_intent] s \<and> dis_pending s \<noteq> [] \<and>
    settle_all (durable_intent_ops mem_ops) StFailed s [zeros 16] = Some s' \<and> dis_pending s' = []"
proof -
  let ?evs = "[Updated (zeros 16) StIndeterminate, Appended demo_intent]"
  obtain s where s: "dis_reach 0 256 4 ?evs s" using dis_reach_sent by blast
  have o: "dom (open_intents ?evs) = {zeros 16}" by (auto simp: demo_intent_def settled_def)
  have "set (dis_pending s) \<noteq> {}"
    using dis_reach_inv [OF s] o dis_pending_dom [of s] by (auto simp: dis_inv_def simp del: open_intents.simps)
  moreover obtain ks s' where "set ks = {zeros 16}" "distinct ks"
    "settle_all (durable_intent_ops mem_ops) StFailed s ks = Some s'" "dis_pending s' = []"
    using pending_intents_can_be_settled [OF s, of StFailed] o by auto
  moreover from this have "ks = [zeros 16]" by (cases ks; cases "tl ks") auto
  ultimately show ?thesis using s by auto
qed

text \<open>An intent record is read back from its encoding exactly when its device name fits: records with
  identifiers of their length and a device name of at most 32 bytes round trip.\<close>

theorem intent_record_roundtrip:
  assumes "intent_wf r"
  shows "\<exists>bs. intent_encode r = Inr bs \<and> intent_decode bs = Inr (0, r) \<and> length bs \<le> 123"
proof -
  obtain bs where bs: "intent_encode r = Inr bs" by (simp add: intent_encode_def Let_def)
  with intent_roundtrip [OF assms bs] show ?thesis by blast
qed

theorem intent_record_roundtrip_witness:
  "\<exists>bs. intent_encode demo_intent = Inr bs \<and> intent_decode bs = Inr (0, demo_intent)"
  using intent_record_roundtrip [of demo_intent] by (auto simp: intent_wf_def demo_intent_def)

text \<open>A device name is cut after 32 bytes even inside a character: when the first 32 bytes of a longer name
  are not valid UTF-8 by themselves, the intent is encoded and stored, but its record cannot be decoded, so it is
  not recovered after a restart.\<close>

theorem cut_device_name_not_recovered:
  assumes "length (ir_command_id r) = 16" and "length (ir_correlation_id r) = 16"
    and "32 < length (ir_target_device r)" and "\<not> utf8_valid (take 32 (ir_target_device r))"
  shows "\<exists>bs. intent_encode r = Inr bs \<and> intent_decode bs = Inl DsCorrupt"
proof -
  define tail where "tail = le_bytes 8 (ir_power_kw r) @
    (case ir_input_digest r of Some d \<Rightarrow> [1] @ d | None \<Rightarrow> [0]) @ [state_code (ir_state r)]"
  define bs where "bs = ir_command_id r @ ir_correlation_id r @ le_bytes 8 (ir_issued_at_ms r) @
    le_bytes 8 (ir_expires_at_ms r) @ [32] @ take 32 (ir_target_device r) @ tail"
  have "length tail \<ge> 10" by (simp add: tail_def split: option.splits)
  then have "length bs \<ge> 91" using assms(1-3) by (simp add: bs_def)
  moreover have "bs ! 48 = 32" "slice 49 81 bs = take 32 (ir_target_device r)"
    using assms(1-3) by (simp_all add: bs_def nth_append slice_def)
  ultimately have "intent_decode bs = Inl DsCorrupt" using assms(4) by (simp add: intent_decode_def)
  moreover have "intent_encode r = Inr bs" using assms(3) by (simp add: intent_encode_def bs_def tail_def)
  ultimately show ?thesis by blast
qed

lemma utf8_ascii: "utf8_valid (replicate n 0x61 @ bs) = utf8_valid bs"
  by (induction n) simp_all

theorem cut_device_name_not_recovered_witness:
  "utf8_valid (replicate 31 0x61 @ [0xC3, 0xA9]) \<and>
   (\<exists>bs. intent_encode (demo_intent\<lparr>ir_target_device := replicate 31 0x61 @ [0xC3, 0xA9]\<rparr>) = Inr bs \<and>
      intent_decode bs = Inl DsCorrupt)"
  using cut_device_name_not_recovered [of "demo_intent\<lparr>ir_target_device := replicate 31 0x61 @ [0xC3, 0xA9]\<rparr>"]
  by (simp add: demo_intent_def utf8_ascii utf8_cont_def)

text \<open>Appending an intent whose command id is still pending stores nothing: the call succeeds and the store
  reports the new intent as persisted, while the outbox keeps the old message in its old state.\<close>

theorem duplicate_intent_not_stored:
  assumes "find (\<lambda>(oid, p). pe_idempotency p = ir_command_id r) (ob_pending (dis_outbox s)) = Some (oid, p)"
  shows "\<exists>s'. dis_append ops s r = (s', Inr ()) \<and> dis_outbox s' = dis_outbox s \<and>
    dis_find s' (ir_command_id r) = Some (r\<lparr>ir_state := StPersisted\<rparr>)"
  using assms by (simp add: dis_append_def ob_enqueue_def dis_find_def Let_def)

theorem duplicate_intent_not_stored_witness:
  "\<exists>s s'. dis_append mem_ops s demo_intent = (s', Inr ()) \<and> dis_outbox s' = dis_outbox s"
proof -
  let ?p = "\<lparr>pe_id = 0, pe_idempotency = zeros 16, pe_message = demo_intent, pe_attempts = 1,
    pe_last_sent_at_ms = 0, pe_state = Sent\<rparr>"
  let ?s = "(dis_new (mi_new 2048) 0 256 4)\<lparr>dis_outbox := (ob_new (mi_new 2048) 0 256 4)\<lparr>ob_pending := [(0, ?p)]\<rparr>\<rparr>"
  have "find (\<lambda>(oid, p). pe_idempotency p = ir_command_id demo_intent) (ob_pending (dis_outbox ?s)) = Some (0, ?p)"
    by (simp add: demo_intent_def)
  from duplicate_intent_not_stored [OF this, of mem_ops] show ?thesis by blast
qed

end
