(* ===== verification/Float64.thy ===== *)
theory Float64
  imports EnerOS_Prelude
begin

text \<open>
  Binary64 arithmetic on bit patterns. A finite value is an integer number of units of
  \<open>2\<^sup>-\<^sup>1\<^sup>0\<^sup>7\<^sup>4\<close>, so sums, products and quotients are exact fractions of units, rounded once, to the
  nearest representable value with ties to even, as IEEE-754 and Rust prescribe. The payload of a
  NaN result, which Rust leaves open, is the one of \<open>f64::NAN\<close>. Which of two zeros of different sign
  \<open>f64::max\<close> and \<open>f64::min\<close> return is left open too; here it is the first argument.
\<close>

section \<open>Values\<close>

definition f64_ex :: "f64 \<Rightarrow> nat" where
  "f64_ex x = unat (take_bit 63 x) div 2 ^ 52"

definition f64_frac :: "f64 \<Rightarrow> nat" where
  "f64_frac x = unat (take_bit 63 x) mod 2 ^ 52"

definition f64_is_finite :: "f64 \<Rightarrow> bool" where
  "f64_is_finite x = (f64_ex x < 2047)"

definition f64_is_infinite :: "f64 \<Rightarrow> bool" where
  "f64_is_infinite x = (take_bit 63 x = 0x7FF0000000000000)"

text \<open>The magnitude of a finite value, in units.\<close>

definition f64_units :: "f64 \<Rightarrow> nat" where
  "f64_units x =
     (if f64_ex x = 0 then f64_frac x else (2 ^ 52 + f64_frac x) * 2 ^ (f64_ex x - 1))"

definition f64_int :: "f64 \<Rightarrow> int" where
  "f64_int x = (if bit x 63 then - int (f64_units x) else int (f64_units x))"

section \<open>Rounding\<close>

fun bit_len :: "nat \<Rightarrow> nat" where
  "bit_len n = (if n = 0 then 0 else Suc (bit_len (n div 2)))"

declare bit_len.simps [simp del]

text \<open>The bit pattern of the magnitude \<open>a / b\<close> units.\<close>

definition round_frac :: "nat \<Rightarrow> nat \<Rightarrow> nat" where
  "round_frac a b =
     (let sh = bit_len (a div b) - 53;
          d = b * 2 ^ sh;
          q = a div d;
          r = a mod d;
          q = (if d < 2 * r \<or> d = 2 * r \<and> odd q then Suc q else q)
      in min (sh * 2 ^ 52 + q) 0x7FF0000000000000)"

definition f64_mk :: "bool \<Rightarrow> nat \<Rightarrow> f64" where
  "f64_mk neg mag = (if neg then 0x8000000000000000 + of_nat mag else of_nat mag)"

section \<open>Operations\<close>

definition f64_neg :: "f64 \<Rightarrow> f64" where
  "f64_neg x = x XOR 0x8000000000000000"

definition f64_abs :: "f64 \<Rightarrow> f64" where
  "f64_abs x = take_bit 63 x"

definition f64_add :: "f64 \<Rightarrow> f64 \<Rightarrow> f64" where
  "f64_add x y =
     (if f64_is_nan x \<or> f64_is_nan y then f64_nan
      else if f64_is_infinite x then (if f64_is_infinite y \<and> x \<noteq> y then f64_nan else x)
      else if f64_is_infinite y then y
      else let s = f64_int x + f64_int y
           in if s = 0 then (if bit x 63 \<and> bit y 63 then 0x8000000000000000 else 0)
              else f64_mk (s < 0) (round_frac (nat \<bar>s\<bar>) 1))"

definition f64_sub :: "f64 \<Rightarrow> f64 \<Rightarrow> f64" where
  "f64_sub x y = f64_add x (f64_neg y)"

definition f64_mul :: "f64 \<Rightarrow> f64 \<Rightarrow> f64" where
  "f64_mul x y =
     (let neg = (bit x 63 \<noteq> bit y 63)
      in if f64_is_nan x \<or> f64_is_nan y then f64_nan
         else if f64_is_infinite x \<or> f64_is_infinite y
              then (if take_bit 63 x = 0 \<or> take_bit 63 y = 0 then f64_nan else f64_mk neg 0x7FF0000000000000)
         else f64_mk neg (round_frac (f64_units x * f64_units y) (2 ^ 1074)))"

definition f64_div :: "f64 \<Rightarrow> f64 \<Rightarrow> f64" where
  "f64_div x y =
     (let neg = (bit x 63 \<noteq> bit y 63)
      in if f64_is_nan x \<or> f64_is_nan y then f64_nan
         else if f64_is_infinite x then (if f64_is_infinite y then f64_nan else f64_mk neg 0x7FF0000000000000)
         else if f64_is_infinite y then f64_mk neg 0
         else if take_bit 63 y = 0
              then (if take_bit 63 x = 0 then f64_nan else f64_mk neg 0x7FF0000000000000)
         else f64_mk neg (round_frac (f64_units x * 2 ^ 1074) (f64_units y)))"

definition f64_max :: "f64 \<Rightarrow> f64 \<Rightarrow> f64" where
  "f64_max x y = (if f64_is_nan x then y else if f64_is_nan y then x else if f64_lt x y then y else x)"

definition f64_min :: "f64 \<Rightarrow> f64 \<Rightarrow> f64" where
  "f64_min x y = (if f64_is_nan x then y else if f64_is_nan y then x else if f64_lt y x then y else x)"

definition f64_signum :: "f64 \<Rightarrow> f64" where
  "f64_signum x = (if f64_is_nan x then f64_nan else if bit x 63 then 0xBFF0000000000000 else f64_1)"

text \<open>The conversion \<open>i as f64\<close> of an \<open>i64\<close>.\<close>

definition f64_of_i64 :: "i64 \<Rightarrow> f64" where
  "f64_of_i64 i = f64_mk (sint i < 0) (round_frac (nat \<bar>sint i\<bar> * 2 ^ 1074) 1)"

section \<open>Representable values round to themselves\<close>

lemma bit_len_eq: "2 ^ k \<le> n \<Longrightarrow> n < 2 ^ Suc k \<Longrightarrow> bit_len n = Suc k"
proof (induction k arbitrary: n)
  case 0
  then have "n = 1" by simp
  then show ?case by (simp add: bit_len.simps)
next
  case (Suc k)
  then have "bit_len (n div 2) = Suc k" by (intro Suc.IH) auto
  moreover have "n \<noteq> 0" using Suc.prems(1) by (cases n) auto
  ultimately show ?case by (simp add: bit_len.simps [of n])
qed

lemma bit_len_le: "n < 2 ^ k \<Longrightarrow> bit_len n \<le> k"
proof (induction k arbitrary: n)
  case (Suc k)
  then show ?case by (cases "n = 0") (auto simp: bit_len.simps [of n] bit_len.simps [of 0])
qed (simp add: bit_len.simps)

lemma f64_mag: "unat (take_bit 63 (x :: f64)) = f64_ex x * 2 ^ 52 + f64_frac x"
  by (simp add: f64_ex_def f64_frac_def)

lemma f64_frac_less: "f64_frac x < 2 ^ 52"
  by (simp add: f64_frac_def)

lemma round_frac_units:
  assumes "f64_is_finite x"
  shows "round_frac (f64_units x) 1 = unat (take_bit 63 x)"
proof (cases "f64_ex x = 0")
  case True
  have "bit_len (f64_frac x) \<le> 52" using f64_frac_less by (rule bit_len_le)
  then show ?thesis using True f64_frac_less [of x]
    by (simp add: round_frac_def f64_units_def f64_mag Let_def)
next
  case False
  then obtain k where k: "f64_ex x = Suc k" using not0_implies_Suc by blast
  let ?m = "2 ^ 52 + f64_frac x"
  have "?m < 2 ^ 53" using f64_frac_less [of x] by simp
  then have "?m * 2 ^ k < 2 ^ 53 * 2 ^ k" by (rule mult_strict_right_mono) simp
  then have len: "bit_len (?m * 2 ^ k) = Suc (52 + k)"
    by (intro bit_len_eq) (simp_all add: power_add)
  have "Suc k < 2047" using assms k by (simp add: f64_is_finite_def)
  then have "k * 2 ^ 52 + ?m < 0x7FF0000000000000" using f64_frac_less [of x] by simp
  then show ?thesis using k len
    by (simp add: round_frac_def f64_units_def f64_mag Let_def)
qed

lemma unat_f64: "unat (x :: f64) = (if bit x 63 then 2 ^ 63 else 0) + unat (take_bit 63 x)"
proof -
  have "unat x < 2 ^ 64" by (rule order_less_le_trans [OF unsigned_less]) simp
  then have "unat x div 2 ^ 63 < 2" by simp
  then have d: "unat x div 2 ^ 63 = (if odd (unat x div 2 ^ 63) then 1 else 0)"
    by (cases "unat x div 2 ^ 63" rule: nat.exhaust) auto
  have b: "bit x 63 \<longleftrightarrow> odd (unat x div 2 ^ 63)"
    using bit_unsigned_iff [of x 63, where 'a = nat] by (simp add: bit_iff_odd)
  have t: "unat (take_bit 63 x) = unat x mod 2 ^ 63"
    unfolding unsigned_take_bit_eq by (simp add: take_bit_eq_mod)
  have "unat x = (if odd (unat x div 2 ^ 63) then 1 else 0) * 2 ^ 63 + unat x mod 2 ^ 63"
    by (subst d [symmetric]) (rule div_mult_mod_eq [symmetric])
  then show ?thesis unfolding t b by (simp split: if_split_asm)
qed

lemma f64_mk_mag: "f64_mk (bit x 63) (unat (take_bit 63 x)) = x"
proof -
  have "unat x < 2 ^ 64" by (rule order_less_le_trans [OF unsigned_less]) simp
  then show ?thesis
    using unat_f64 [of x] by (intro word_unat_eq_iff [THEN iffD2]) (auto simp: f64_mk_def unat_word_ariths)
qed

lemma f64_units_0_iff: "f64_units x = 0 \<longleftrightarrow> take_bit 63 x = 0"
proof -
  have "take_bit 63 x = 0 \<longleftrightarrow> unat (take_bit 63 x) = 0" by (simp add: unat_eq_0)
  also have "\<dots> \<longleftrightarrow> f64_units x = 0" by (auto simp: f64_mag f64_units_def)
  finally show ?thesis by simp
qed

lemma f64_finite_not_special:
  "f64_is_finite x \<Longrightarrow> \<not> f64_is_nan x \<and> \<not> f64_is_infinite x"
  using f64_mag [of x] f64_frac_less [of x]
  by (auto simp: f64_is_finite_def f64_is_nan_def f64_is_infinite_def word_less_nat_alt)

text \<open>Adding zero changes nothing but the sign of a negative zero.\<close>

lemma f64_add_0:
  assumes "f64_is_finite x" and "x \<noteq> 0x8000000000000000"
  shows "f64_add x 0 = x"
proof -
  note fin = f64_finite_not_special [OF assms(1)]
  have z: "f64_int 0 = 0" "\<not> f64_is_nan 0" "\<not> f64_is_infinite 0"
    by (simp_all add: f64_int_def f64_units_def f64_ex_def f64_frac_def f64_is_nan_def f64_is_infinite_def)
  show ?thesis
  proof (cases "f64_units x = 0")
    case True
    with f64_mk_mag [of x] assms(2) have "x = 0" by (auto simp: f64_units_0_iff f64_mk_def split: if_splits)
    then show ?thesis by (simp add: f64_add_def z)
  next
    case False
    then have "f64_add x 0 = f64_mk (bit x 63) (round_frac (f64_units x) 1)"
      using fin z by (simp add: f64_add_def f64_int_def Let_def)
    then show ?thesis using round_frac_units [OF assms(1)] f64_mk_mag by simp
  qed
qed

section \<open>Operations whose result is representable\<close>

lemma round_frac_scale: "0 < b \<Longrightarrow> round_frac (a * b) b = round_frac a 1"
proof -
  assume b: "0 < b"
  have dm: "a * b div (b * d) = a div d" "a * b mod (b * d) = b * (a mod d)" for d
    using b unfolding mult.commute [of a b] by (simp_all add: div_mult_mult1 mod_mult_mult1)
  have cmp: "b * d < 2 * (b * r) \<longleftrightarrow> d < 2 * r" "b * d = 2 * (b * r) \<longleftrightarrow> d = 2 * r" for d r :: nat
    using b unfolding mult.left_commute [of 2 b] by simp_all
  show ?thesis using b by (simp add: round_frac_def Let_def dm cmp)
qed

lemma f64_add_exact:
  assumes "f64_is_finite x" and "f64_is_finite y" and "f64_is_finite z"
    and "f64_int x + f64_int y = f64_int z" and "f64_int z \<noteq> 0"
  shows "f64_add x y = z"
proof -
  have "nat \<bar>f64_int z\<bar> = f64_units z" "f64_int z < 0 \<longleftrightarrow> bit z 63" using assms(5) by (auto simp: f64_int_def)
  then show ?thesis
    using assms round_frac_units [OF assms(3)] f64_mk_mag [of z]
    by (simp add: f64_add_def f64_finite_not_special Let_def)
qed

lemma f64_mul_exact:
  assumes "f64_is_finite x" and "f64_is_finite y" and "f64_is_finite z"
    and "f64_units x * f64_units y = f64_units z * 2 ^ 1074" and "bit z 63 \<longleftrightarrow> bit x 63 \<noteq> bit y 63"
  shows "f64_mul x y = z"
proof -
  have "round_frac (f64_units x * f64_units y) (2 ^ 1074) = unat (take_bit 63 z)"
    unfolding assms(4) using round_frac_units [OF assms(3)] by (simp add: round_frac_scale del: power_numeral)
  then show ?thesis
    using assms(1,2,5) f64_mk_mag [of z] f64_finite_not_special [OF assms(1)] f64_finite_not_special [OF assms(2)]
    by (simp add: f64_mul_def Let_def del: power_numeral)
qed

lemma f64_div_exact:
  assumes "f64_is_finite x" and "f64_is_finite y" and "f64_is_finite z" and "f64_units y \<noteq> 0"
    and "f64_units x * 2 ^ 1074 = f64_units z * f64_units y" and "bit z 63 \<longleftrightarrow> bit x 63 \<noteq> bit y 63"
  shows "f64_div x y = z"
proof -
  have "round_frac (f64_units x * 2 ^ 1074) (f64_units y) = unat (take_bit 63 z)"
    unfolding assms(5) using round_frac_units [OF assms(3)] assms(4) by (simp add: round_frac_scale)
  then show ?thesis
    using assms(1,2,4,6) f64_mk_mag [of z] f64_finite_not_special [OF assms(1)] f64_finite_not_special [OF assms(2)]
    by (simp add: f64_div_def f64_units_0_iff Let_def del: power_numeral)
qed

section \<open>Negation\<close>

lemma f64_neg_frame:
  "f64_ex (f64_neg x) = f64_ex x" "f64_frac (f64_neg x) = f64_frac x" "bit (f64_neg x) 63 \<longleftrightarrow> \<not> bit x 63"
  by (simp_all add: f64_ex_def f64_frac_def f64_neg_def take_bit_xor bit_xor_iff)

lemma f64_int_neg: "f64_int (f64_neg x) = - f64_int x"
  using f64_neg_frame [of x] by (simp add: f64_int_def f64_units_def)

lemma f64_sub_self: "f64_is_finite x \<Longrightarrow> f64_sub x x = 0"
  using f64_finite_not_special [of x] f64_finite_not_special [of "f64_neg x"]
  by (simp add: f64_sub_def f64_add_def f64_is_finite_def f64_neg_frame f64_int_neg)

lemmas f64_eval = f64_is_finite_def f64_int_def f64_units_def f64_ex_def f64_frac_def

end
