(* ===== verification/Schedule_Guard.thy ===== *)
theory Schedule_Guard
  imports Float64
begin

text \<open>
  The schedule validator (\<open>crates/ai/safety-validator\<close>): the electrical rule, the protection
  coordination rule and the chain that runs them, and the guard the dispatch engine builds from them
  (\<open>crates/protocols/control-dispatch/src/engine.rs\<close>). Power and state values are \<open>f64\<close>.
\<close>

section \<open>Data\<close>

datatype solve_status =
  Optimal | Suboptimal | Infeasible | Unbounded | SolveTimeout | SolveError string

record schedule_entry =
  se_period :: nat
  se_charge_power_kw :: f64
  se_discharge_power_kw :: f64
  se_net_power_kw :: f64
  se_soc_pct :: f64
  se_revenue_yuan :: f64

record schedule_result =
  sr_schedule :: "schedule_entry list"
  sr_total_revenue_yuan :: f64
  sr_objective_value :: f64
  sr_solve_status :: solve_status

record system_state =
  ss_voltage_v :: f64
  ss_current_a :: f64
  ss_frequency_hz :: f64
  ss_soc_pct :: f64
  ss_timestamp_ms :: u64

definition ss_unknown :: system_state where
  "ss_unknown = \<lparr>ss_voltage_v = f64_nan, ss_current_a = f64_nan, ss_frequency_hz = f64_nan,
     ss_soc_pct = f64_nan, ss_timestamp_ms = 0\<rparr>"

datatype severity = Info | Warning | Critical | Fatal

datatype violation_reason =
  VrNormal | VrNonFinite string | VrOverCurrent | VrOverVoltage | VrUnderVoltage | VrFreqOutOfRange

record violation =
  vi_rule :: string
  vi_period :: nat
  vi_field :: string
  vi_original_value :: f64
  vi_safe_value :: f64
  vi_severity :: severity
  vi_reason :: violation_reason

definition vi_mk :: "string \<Rightarrow> nat \<Rightarrow> string \<Rightarrow> f64 \<Rightarrow> f64 \<Rightarrow> severity \<Rightarrow> violation_reason \<Rightarrow> violation" where
  "vi_mk rule period field original_value safe_value severity reason =
     \<lparr>vi_rule = rule, vi_period = period, vi_field = field, vi_original_value = original_value,
      vi_safe_value = safe_value, vi_severity = severity, vi_reason = reason\<rparr>"

definition vi_normal :: "string \<Rightarrow> nat \<Rightarrow> string \<Rightarrow> f64 \<Rightarrow> f64 \<Rightarrow> severity \<Rightarrow> violation" where
  "vi_normal rule period field original_value safe_value severity =
     vi_mk rule period field original_value safe_value severity VrNormal"

record validation_result =
  vr_passed :: bool
  vr_clamped :: bool
  vr_clamped_schedule :: "schedule_result option"
  vr_violations :: "violation list"

section \<open>The electrical rule\<close>

record electrical_rule =
  er_max_power_kw :: f64
  er_max_current_a :: f64
  er_voltage_range :: "f64 \<times> f64"
  er_freq_range :: "f64 \<times> f64"

definition non_finite :: "string \<Rightarrow> nat \<Rightarrow> (string \<times> f64) list \<Rightarrow> violation list" where
  "non_finite rule period vs =
     map (\<lambda>(field, v). vi_mk rule period field v f64_0 Fatal (VrNonFinite field))
       (filter (\<lambda>(field, v). \<not> f64_is_finite v) vs)"

definition soc_max :: f64 where "soc_max = 0x3FEE666666666666"
definition soc_min :: f64 where "soc_min = 0x3FA999999999999A"

text \<open>One entry: its violations, the entry as clamped, and whether it was.\<close>

definition er_entry :: "electrical_rule \<Rightarrow> schedule_entry \<Rightarrow> violation list \<times> schedule_entry \<times> bool" where
  "er_entry r e =
     (let rule = ''electrical_safety'';
          v0 = non_finite rule (se_period e) [(''charge_power'', se_charge_power_kw e),
            (''discharge_power'', se_discharge_power_kw e), (''soc'', se_soc_pct e)];
          (v1, e, c1) =
            (if f64_lt (er_max_power_kw r) (se_charge_power_kw e)
             then ([vi_normal rule (se_period e) ''charge_power'' (se_charge_power_kw e) (er_max_power_kw r) Critical],
                   e\<lparr>se_charge_power_kw := er_max_power_kw r\<rparr>, True)
             else ([], e, False));
          (v2, e, c2) =
            (if f64_lt (er_max_power_kw r) (se_discharge_power_kw e)
             then ([vi_normal rule (se_period e) ''discharge_power'' (se_discharge_power_kw e) (er_max_power_kw r) Critical],
                   e\<lparr>se_discharge_power_kw := er_max_power_kw r\<rparr>, True)
             else ([], e, c1));
          (v3, e, c3) =
            (if f64_lt soc_max (se_soc_pct e)
             then ([vi_normal rule (se_period e) ''soc'' (se_soc_pct e) soc_max Critical],
                   e\<lparr>se_soc_pct := soc_max\<rparr>, True)
             else ([], e, c2));
          (v4, e, c4) =
            (if f64_lt (se_soc_pct e) soc_min
             then ([vi_normal rule (se_period e) ''soc'' (se_soc_pct e) soc_min Fatal],
                   e\<lparr>se_soc_pct := soc_min\<rparr>, True)
             else ([], e, c3))
      in (v0 @ v1 @ v2 @ v3 @ v4, e, c4))"

definition er_state :: "electrical_rule \<Rightarrow> system_state \<Rightarrow> violation list" where
  "er_state r st =
     (let rule = ''electrical_safety'';
          (vmin, vmax) = er_voltage_range r;
          (fmin, fmax) = er_freq_range r
      in (if f64_lt (er_max_current_a r) (ss_current_a st)
          then [vi_mk rule 0 ''current'' (ss_current_a st) (er_max_current_a r) Critical VrOverCurrent] else []) @
         (if f64_lt vmax (ss_voltage_v st)
          then [vi_mk rule 0 ''voltage'' (ss_voltage_v st) vmax Critical VrOverVoltage]
          else if f64_lt (ss_voltage_v st) vmin
          then [vi_mk rule 0 ''voltage'' (ss_voltage_v st) vmin Critical VrUnderVoltage] else []) @
         (if f64_lt fmax (ss_frequency_hz st) \<or> f64_lt (ss_frequency_hz st) fmin
          then [vi_mk rule 0 ''frequency'' (ss_frequency_hz st)
                 (if f64_lt fmax (ss_frequency_hz st) then fmax else fmin) Critical VrFreqOutOfRange] else []))"

definition vr_of :: "schedule_result \<Rightarrow> bool \<Rightarrow> violation list \<Rightarrow> validation_result" where
  "vr_of schedule clamped violations =
     \<lparr>vr_passed = list_all (\<lambda>v. vi_severity v \<noteq> Fatal) violations, vr_clamped = clamped,
      vr_clamped_schedule = (if clamped then Some schedule else None), vr_violations = violations\<rparr>"

definition er_validate :: "electrical_rule \<Rightarrow> schedule_result \<Rightarrow> system_state \<Rightarrow> validation_result" where
  "er_validate r schedule st =
     (let v0 = non_finite ''electrical_safety'' 0 [(''state.voltage_v'', ss_voltage_v st),
            (''state.current_a'', ss_current_a st), (''state.frequency_hz'', ss_frequency_hz st)];
          rs = map (er_entry r) (sr_schedule schedule);
          clamped = list_ex (\<lambda>(_, _, c). c) rs
      in vr_of (schedule\<lparr>sr_schedule := map (\<lambda>(_, e, _). e) rs\<rparr>) clamped
           (v0 @ concat (map fst rs) @ er_state r st))"

section \<open>The protection coordination rule\<close>

record protection_rule =
  pr_overcurrent_threshold :: f64
  pr_overvoltage_threshold :: f64
  pr_undervoltage_threshold :: f64
  pr_freq_protection :: "f64 \<times> f64"
  pr_max_ramp_rate :: f64

definition f64_quarter :: f64 where "f64_quarter = 0x3FD0000000000000"

definition pr_clamp :: "schedule_entry \<Rightarrow> f64 \<Rightarrow> schedule_entry" where
  "pr_clamp e diff =
     (let e = (if f64_lt f64_0 diff
               then let take = f64_min diff (se_charge_power_kw e);
                        remaining = f64_sub diff take
                    in e\<lparr>se_charge_power_kw := f64_sub (se_charge_power_kw e) take,
                         se_discharge_power_kw := f64_add (se_discharge_power_kw e) remaining\<rparr>
               else let take = f64_min (f64_neg diff) (se_discharge_power_kw e);
                        remaining = f64_add diff take
                    in e\<lparr>se_discharge_power_kw := f64_sub (se_discharge_power_kw e) take,
                         se_charge_power_kw := f64_add (se_charge_power_kw e) (f64_neg remaining)\<rparr>)
      in e\<lparr>se_net_power_kw := f64_sub (se_discharge_power_kw e) (se_charge_power_kw e)\<rparr>)"

text \<open>The loop over the entries from the second on, with the net power \<open>prev\<close> of the entry before, as
  clamped.\<close>

fun pr_loop ::
  "protection_rule \<Rightarrow> nat \<Rightarrow> f64 \<Rightarrow> schedule_entry list \<Rightarrow> violation list \<times> schedule_entry list \<times> bool" where
  "pr_loop r i prev [] = ([], [], False)"
| "pr_loop r i prev (e # es) =
     (let curr = se_net_power_kw e;
          delta_per_min = f64_div (f64_abs (f64_sub curr prev)) f64_quarter
      in if f64_lt (pr_max_ramp_rate r) delta_per_min
         then let safe_delta = f64_mul (f64_mul (pr_max_ramp_rate r) f64_quarter) (f64_signum curr);
                  safe_value = f64_add prev safe_delta;
                  e = pr_clamp e (f64_sub safe_value curr);
                  (vs, es, c) = pr_loop r (Suc i) (se_net_power_kw e) es
              in (vi_normal ''protection_coordination'' i ''ramp_rate'' curr safe_value Critical # vs, e # es, True)
         else let (vs, es, c) = pr_loop r (Suc i) curr es in (vs, e # es, c))"

definition pr_validate :: "protection_rule \<Rightarrow> schedule_result \<Rightarrow> system_state \<Rightarrow> validation_result" where
  "pr_validate r schedule st =
     (case sr_schedule schedule of
        [] \<Rightarrow> vr_of schedule False []
      | e # es \<Rightarrow>
        let (vs, es, c) = pr_loop r 1 (se_net_power_kw e) es
        in vr_of (schedule\<lparr>sr_schedule := e # es\<rparr>) c vs)"

section \<open>The validator\<close>

text \<open>A rule as its trait object: its priority and its check.\<close>

record safety_rule =
  ru_priority :: u32
  ru_validate :: "schedule_result \<Rightarrow> system_state \<Rightarrow> validation_result"

definition electrical :: "electrical_rule \<Rightarrow> safety_rule" where
  "electrical r = \<lparr>ru_priority = 10, ru_validate = er_validate r\<rparr>"

definition protection :: "protection_rule \<Rightarrow> safety_rule" where
  "protection r = \<lparr>ru_priority = 20, ru_validate = pr_validate r\<rparr>"

definition add_rule :: "safety_rule list \<Rightarrow> safety_rule \<Rightarrow> safety_rule list" where
  "add_rule rules rule = sort_key ru_priority (rules @ [rule])"

definition sv_default :: "safety_rule list" where
  "sv_default =
     add_rule (add_rule [] (electrical \<lparr>er_max_power_kw = f64_100, er_max_current_a = 0x4069000000000000,
         er_voltage_range = (0x4075400000000000, 0x407A400000000000),
         er_freq_range = (0x4048C00000000000, 0x4049400000000000)\<rparr>))
       (protection \<lparr>pr_overcurrent_threshold = 0x406B800000000000, pr_overvoltage_threshold = 0x407B800000000000,
         pr_undervoltage_threshold = 0x4074000000000000, pr_freq_protection = (0x4048800000000000, 0x4049800000000000),
         pr_max_ramp_rate = 0x4069000000000000\<rparr>)"

text \<open>The rules in order: the violations, the schedule as clamped, whether it was, and whether a fatal
  violation ended the chain.\<close>

fun sv_chain ::
  "safety_rule list \<Rightarrow> schedule_result \<Rightarrow> system_state \<Rightarrow> violation list \<times> schedule_result \<times> bool \<times> bool" where
  "sv_chain [] schedule st = ([], schedule, False, False)"
| "sv_chain (r # rs) schedule st =
     (let result = ru_validate r schedule st;
          has_fatal = list_ex (\<lambda>v. vi_severity v = Fatal) (vr_violations result);
          (schedule, clamped) =
            (if vr_clamped result
             then (case vr_clamped_schedule result of Some s \<Rightarrow> (s, True) | None \<Rightarrow> (schedule, False))
             else (schedule, False))
      in if has_fatal then (vr_violations result, schedule, clamped, True)
         else let (vs, schedule, c, fatal) = sv_chain rs schedule st
              in (vr_violations result @ vs, schedule, clamped \<or> c, fatal))"

definition simul_eps :: f64 where "simul_eps = 0x3EB0C6F7A0B5ED8D"

definition mutex_violations :: "schedule_entry list \<Rightarrow> violation list" where
  "mutex_violations es =
     map (\<lambda>e. vi_normal ''charge_discharge_mutex'' (se_period e) ''charge_power_kw'' (se_charge_power_kw e) f64_0 Fatal)
       (filter (\<lambda>e. f64_lt simul_eps (se_charge_power_kw e) \<and> f64_lt simul_eps (se_discharge_power_kw e)) es)"

definition sv_validate :: "safety_rule list \<Rightarrow> schedule_result \<Rightarrow> system_state \<Rightarrow> validation_result" where
  "sv_validate rules schedule st =
     (let (vs, schedule, clamped, fatal) = sv_chain rules schedule st
      in if fatal
         then \<lparr>vr_passed = False, vr_clamped = clamped, vr_clamped_schedule = Some schedule, vr_violations = vs\<rparr>
         else let vs = vs @ mutex_violations (sr_schedule schedule)
              in \<lparr>vr_passed = (vs = [] \<or> list_all (\<lambda>v. vi_severity v \<noteq> Fatal) vs), vr_clamped = clamped,
                  vr_clamped_schedule = (if clamped then Some schedule else None), vr_violations = vs\<rparr>)"

section \<open>The dispatch guard\<close>

record safety_guard_params =
  gp_max_power_kw :: f64
  gp_max_current_a :: f64
  gp_voltage_window :: "f64 \<times> f64"
  gp_freq_window :: "f64 \<times> f64"
  gp_ramp_kw_per_min :: f64
  gp_protection_overcurrent_a :: f64
  gp_protection_overvoltage_v :: f64
  gp_protection_undervoltage_v :: f64

text \<open>The reason a guard gives, as the data its message prints.\<close>

datatype guard_reject =
  GrOutside string f64 "f64 \<times> f64" | GrViolations "(string \<times> string \<times> severity) list" | GrClamped

definition in_window :: "f64 \<times> f64 \<Rightarrow> f64 \<Rightarrow> bool" where
  "in_window win v = (f64_le (fst win) v \<and> f64_le v (snd win))"

definition guard_entries :: "f64 list \<Rightarrow> f64 \<Rightarrow> schedule_entry list" where
  "guard_entries series soc =
     map (\<lambda>(period, p). \<lparr>se_period = period, se_charge_power_kw = f64_abs (f64_min p f64_0),
        se_discharge_power_kw = f64_max p f64_0, se_net_power_kw = p,
        se_soc_pct = (if f64_is_finite soc then soc else f64_0), se_revenue_yuan = f64_0\<rparr>)
       (enumerate 0 series)"

definition guard_rules :: "safety_guard_params \<Rightarrow> safety_rule list" where
  "guard_rules p =
     add_rule (add_rule [] (electrical \<lparr>er_max_power_kw = gp_max_power_kw p, er_max_current_a = gp_max_current_a p,
         er_voltage_range = gp_voltage_window p, er_freq_range = gp_freq_window p\<rparr>))
       (protection \<lparr>pr_overcurrent_threshold = gp_protection_overcurrent_a p,
         pr_overvoltage_threshold = gp_protection_overvoltage_v p,
         pr_undervoltage_threshold = gp_protection_undervoltage_v p,
         pr_freq_protection = (f64_sub (fst (gp_freq_window p)) 0x3FE0000000000000,
           f64_add (snd (gp_freq_window p)) 0x3FE0000000000000),
         pr_max_ramp_rate = gp_ramp_kw_per_min p\<rparr>)"

definition safety_guard :: "safety_guard_params \<Rightarrow> f64 list \<Rightarrow> system_state \<Rightarrow> guard_reject + unit" where
  "safety_guard p series st =
     (if \<not> in_window (gp_voltage_window p) (ss_voltage_v st)
      then Inl (GrOutside ''voltage'' (ss_voltage_v st) (gp_voltage_window p))
      else if \<not> in_window (gp_freq_window p) (ss_frequency_hz st)
      then Inl (GrOutside ''frequency'' (ss_frequency_hz st) (gp_freq_window p))
      else let verdict = sv_validate (guard_rules p)
             \<lparr>sr_schedule = guard_entries series (ss_soc_pct st), sr_total_revenue_yuan = f64_0,
              sr_objective_value = f64_0, sr_solve_status = Optimal\<rparr> st
           in if vr_passed verdict \<and> \<not> vr_clamped verdict then Inr ()
              else if vr_violations verdict = [] then Inl GrClamped
              else Inl (GrViolations (map (\<lambda>v. (vi_rule v, vi_field v, vi_severity v)) (vr_violations verdict))))"

section \<open>What the guard accepts\<close>

text \<open>The conditions on the measured state: within the windows, finite, charged between 5 and 95 percent.\<close>

definition state_acceptable :: "safety_guard_params \<Rightarrow> system_state \<Rightarrow> bool" where
  "state_acceptable p st \<longleftrightarrow>
     in_window (gp_voltage_window p) (ss_voltage_v st) \<and> in_window (gp_freq_window p) (ss_frequency_hz st) \<and>
     f64_is_finite (ss_voltage_v st) \<and> f64_is_finite (ss_current_a st) \<and> f64_is_finite (ss_frequency_hz st) \<and>
     f64_is_finite (ss_soc_pct st) \<and> \<not> f64_lt soc_max (ss_soc_pct st) \<and> \<not> f64_lt (ss_soc_pct st) soc_min"

text \<open>The condition on a single power value. A NaN is split into a charging and a discharging power of zero, so
  the guard sees a power of zero.\<close>

definition power_within :: "safety_guard_params \<Rightarrow> f64 \<Rightarrow> bool" where
  "power_within p kw \<longleftrightarrow>
     (if f64_is_nan kw then \<not> f64_lt (gp_max_power_kw p) f64_0
      else f64_is_finite kw \<and> \<not> f64_lt (gp_max_power_kw p) (f64_abs kw))"

text \<open>Both, for a power that is a number.\<close>

definition power_acceptable :: "safety_guard_params \<Rightarrow> f64 \<Rightarrow> system_state \<Rightarrow> bool" where
  "power_acceptable p kw st \<longleftrightarrow>
     state_acceptable p st \<and> f64_is_finite kw \<and> \<not> f64_lt (gp_max_power_kw p) (f64_abs kw)"

lemma guard_rules_order: "guard_rules p =
   [electrical \<lparr>er_max_power_kw = gp_max_power_kw p, er_max_current_a = gp_max_current_a p,
      er_voltage_range = gp_voltage_window p, er_freq_range = gp_freq_window p\<rparr>,
    protection \<lparr>pr_overcurrent_threshold = gp_protection_overcurrent_a p,
      pr_overvoltage_threshold = gp_protection_overvoltage_v p,
      pr_undervoltage_threshold = gp_protection_undervoltage_v p,
      pr_freq_protection = (f64_sub (fst (gp_freq_window p)) 0x3FE0000000000000,
        f64_add (snd (gp_freq_window p)) 0x3FE0000000000000),
      pr_max_ramp_rate = gp_ramp_kw_per_min p\<rparr>]"
  by (simp add: guard_rules_def add_rule_def electrical_def protection_def)

lemma er_state_not_fatal: "list_all (\<lambda>v. vi_severity v \<noteq> Fatal) (er_state r st)"
  by (simp add: er_state_def vi_mk_def Let_def split: prod.splits)

lemma non_finite_ok: "list_all (\<lambda>v. vi_severity v \<noteq> Fatal) (non_finite rule i vs) \<longleftrightarrow> list_all (\<lambda>(f, v). f64_is_finite v) vs"
  by (auto simp: non_finite_def list_all_iff vi_mk_def)

lemma er_entry_clean:
  assumes "er_entry r e = (vs, e', c)"
  shows "list_all (\<lambda>v. vi_severity v \<noteq> Fatal) vs \<and> \<not> c \<longleftrightarrow>
      f64_is_finite (se_charge_power_kw e) \<and> f64_is_finite (se_discharge_power_kw e) \<and> f64_is_finite (se_soc_pct e) \<and>
      \<not> f64_lt (er_max_power_kw r) (se_charge_power_kw e) \<and> \<not> f64_lt (er_max_power_kw r) (se_discharge_power_kw e) \<and>
      \<not> f64_lt soc_max (se_soc_pct e) \<and> \<not> f64_lt (se_soc_pct e) soc_min"
    and "\<not> c \<Longrightarrow> e' = e"
  using assms
  by (auto simp: er_entry_def Let_def vi_normal_def vi_mk_def non_finite_ok split: if_splits)

lemma f64_key_abs: "f64_key (f64_abs x) = \<bar>f64_key x\<bar>"
proof -
  have "\<not> bit (take_bit 63 x) 63" by (simp add: bit_take_bit_iff)
  moreover have "uint x = uint (take_bit 63 x)" if "\<not> bit x 63"
  proof -
    have "x = take_bit 63 x" using unat_f64 [of x] that by (simp add: word_unat_eq_iff)
    then show ?thesis by (rule arg_cong)
  qed
  ultimately show ?thesis by (auto simp: f64_key_def f64_abs_def)
qed

lemma f64_is_nan_abs: "f64_is_nan (f64_abs x) = f64_is_nan x"
  by (simp add: f64_is_nan_def f64_abs_def)

lemma f64_is_finite_abs: "f64_is_finite (f64_abs x) = f64_is_finite x"
  by (simp add: f64_is_finite_def f64_ex_def f64_abs_def)


lemma f64_zero_simps:
  "\<not> f64_is_nan 0" "f64_key 0 = 0" "f64_is_finite 0" "f64_abs 0 = 0"
  by (simp_all add: f64_is_nan_def f64_key_def f64_is_finite_def f64_ex_def f64_abs_def)

text \<open>A power value split into charging and discharging.\<close>

lemma charge_discharge:
  shows "f64_is_finite (f64_abs (f64_min kw 0)) \<and> f64_is_finite (f64_max kw 0) \<longleftrightarrow> f64_is_nan kw \<or> f64_is_finite kw"
    and "f64_lt m (f64_abs (f64_min kw 0)) \<or> f64_lt m (f64_max kw 0) \<longleftrightarrow>
      f64_lt m (if f64_is_nan kw then 0 else f64_abs kw)"
    and "\<not> (f64_lt simul_eps (f64_abs (f64_min kw 0)) \<and> f64_lt simul_eps (f64_max kw 0))"
proof -
  have eps: "f64_key simul_eps > 0" "\<not> f64_is_nan simul_eps"
    by (simp_all add: simul_eps_def f64_key_def f64_is_nan_def)
  note defs = f64_min_def f64_max_def f64_lt_def f64_zero_simps f64_key_abs f64_is_nan_abs f64_is_finite_abs
  show "f64_is_finite (f64_abs (f64_min kw 0)) \<and> f64_is_finite (f64_max kw 0) \<longleftrightarrow> f64_is_nan kw \<or> f64_is_finite kw"
    by (auto simp: defs)
  show "f64_lt m (f64_abs (f64_min kw 0)) \<or> f64_lt m (f64_max kw 0) \<longleftrightarrow>
      f64_lt m (if f64_is_nan kw then 0 else f64_abs kw)"
    by (auto simp: defs)
  show "\<not> (f64_lt simul_eps (f64_abs (f64_min kw 0)) \<and> f64_lt simul_eps (f64_max kw 0))"
    using eps by (auto simp: defs)
qed

lemma guard_accepts_all: "safety_guard p [kw] st = Inr () \<longleftrightarrow> state_acceptable p st \<and> power_within p kw"
proof -
  let ?er = "\<lparr>er_max_power_kw = gp_max_power_kw p, er_max_current_a = gp_max_current_a p,
      er_voltage_range = gp_voltage_window p, er_freq_range = gp_freq_window p\<rparr>"
  let ?soc = "if f64_is_finite (ss_soc_pct st) then ss_soc_pct st else 0"
  let ?e = "\<lparr>se_period = 0, se_charge_power_kw = f64_abs (f64_min kw 0), se_discharge_power_kw = f64_max kw 0,
      se_net_power_kw = kw, se_soc_pct = ?soc, se_revenue_yuan = 0\<rparr>"
  let ?s = "\<lparr>sr_schedule = [?e], sr_total_revenue_yuan = 0, sr_objective_value = 0, sr_solve_status = Optimal\<rparr>"
  obtain vs e' c where e: "er_entry ?er ?e = (vs, e', c)" by (metis prod_cases3)
  let ?vs = "non_finite ''electrical_safety'' 0 [(''state.voltage_v'', ss_voltage_v st),
      (''state.current_a'', ss_current_a st), (''state.frequency_hz'', ss_frequency_hz st)] @ vs @ er_state ?er st"
  have er: "er_validate ?er ?s st = vr_of (?s\<lparr>sr_schedule := [e']\<rparr>) c ?vs"
    by (simp add: er_validate_def e)
  have passed: "list_all (\<lambda>v. vi_severity v \<noteq> Fatal) ws \<longleftrightarrow> \<not> list_ex (\<lambda>v. vi_severity v = Fatal) ws" for ws
    by (simp add: list_all_iff list_ex_iff)
  have mutex: "mutex_violations [?e] = []" using charge_discharge(3) [of kw] by (simp add: mutex_violations_def)
  have "vr_passed (sv_validate (guard_rules p) ?s st) \<and> \<not> vr_clamped (sv_validate (guard_rules p) ?s st) \<longleftrightarrow>
      list_all (\<lambda>v. vi_severity v \<noteq> Fatal) ?vs \<and> \<not> c"
    using mutex er_entry_clean(2) [OF e] unfolding passed
    by (cases c; cases "list_ex (\<lambda>v. vi_severity v = Fatal) ?vs")
      (simp_all add: sv_validate_def guard_rules_order electrical_def protection_def er pr_validate_def vr_of_def
        passed Let_def del: list_ex_append)
  also have "\<dots> \<longleftrightarrow> f64_is_finite (ss_voltage_v st) \<and> f64_is_finite (ss_current_a st) \<and> f64_is_finite (ss_frequency_hz st) \<and>
      f64_is_finite ?soc \<and> \<not> f64_lt soc_max ?soc \<and> \<not> f64_lt ?soc soc_min \<and>
      power_within p kw"
    unfolding power_within_def using er_entry_clean(1) [OF e] er_state_not_fatal [of ?er st] charge_discharge(1) [of kw]
      charge_discharge(2) [of "gp_max_power_kw p" kw]
    by (auto simp: non_finite_ok)
  also have "\<dots> \<longleftrightarrow> f64_is_finite (ss_voltage_v st) \<and> f64_is_finite (ss_current_a st) \<and> f64_is_finite (ss_frequency_hz st) \<and>
      f64_is_finite (ss_soc_pct st) \<and> \<not> f64_lt soc_max (ss_soc_pct st) \<and> \<not> f64_lt (ss_soc_pct st) soc_min \<and>
      power_within p kw"
  proof -
    have "f64_lt 0 soc_min" by (simp add: soc_min_def f64_lt_def f64_key_def f64_is_nan_def)
    then show ?thesis by auto
  qed
  finally show ?thesis
    by (auto simp: safety_guard_def state_acceptable_def guard_entries_def enumerate_eq_zip Let_def)
qed

lemma guard_accepts:
  assumes "\<not> f64_is_nan kw"
  shows "safety_guard p [kw] st = Inr () \<longleftrightarrow> power_acceptable p kw st"
  using assms by (simp add: guard_accepts_all power_acceptable_def power_within_def)

section \<open>Properties\<close>

text \<open>C26. The guard of the dispatch engine accepts a power value exactly when the bus voltage and the frequency
  are within their windows, the measured voltage, current, frequency and state of charge are finite, the state
  of charge is between 5 and 95 percent, and the power is finite and its magnitude not above
  the configured maximum (a maximum that is NaN excludes no finite power); a power that is NaN is judged as a power of zero, so it
  is accepted unless the maximum is negative. The measured current
  has no limit other than being finite.\<close>

theorem guard_accepts_iff:
  "safety_guard p [kw] st = Inr () \<longleftrightarrow> state_acceptable p st \<and> power_within p kw"
  by (rule guard_accepts_all)

definition demo_guard :: safety_guard_params where
  "demo_guard = \<lparr>gp_max_power_kw = f64_500, gp_max_current_a = 0x4069000000000000,
     gp_voltage_window = (0x4075400000000000, 0x407A400000000000),
     gp_freq_window = (0x4048C00000000000, 0x4049400000000000), gp_ramp_kw_per_min = 0x4069000000000000,
     gp_protection_overcurrent_a = 0x406B800000000000, gp_protection_overvoltage_v = 0x407B800000000000,
     gp_protection_undervoltage_v = 0x4074000000000000\<rparr>"

definition demo_state :: system_state where
  "demo_state = \<lparr>ss_voltage_v = 0x4079000000000000, ss_current_a = f64_50, ss_frequency_hz = f64_50,
     ss_soc_pct = 0x3FE0000000000000, ss_timestamp_ms = 1700000000000\<rparr>"

lemma demo_acceptable: "f64_is_finite c \<Longrightarrow> power_acceptable demo_guard f64_100 (demo_state\<lparr>ss_current_a := c\<rparr>)"
  by (simp add: power_acceptable_def state_acceptable_def demo_guard_def demo_state_def in_window_def f64_le_def f64_lt_def f64_key_def
      f64_is_nan_def f64_is_finite_def f64_ex_def soc_max_def soc_min_def f64_abs_def)

text \<open>The guard of the scenario accepts 100 kW, and it accepts NaN.\<close>

lemma demo_guard_accepts:
  "safety_guard demo_guard [f64_100] demo_state = Inr ()" "safety_guard demo_guard [f64_nan] demo_state = Inr ()"
  using demo_acceptable [of f64_50]
  by (simp_all add: guard_accepts_all power_acceptable_def power_within_def demo_state_def demo_guard_def
      f64_is_nan_def f64_is_finite_def f64_ex_def f64_lt_def f64_key_def)

text \<open>The guard does not enforce its current limit: whatever finite current is measured, the verdict is the
  same, because the over-current violation of the electrical rule is neither fatal nor a clamp.\<close>

theorem guard_ignores_current:
  assumes "f64_is_finite (ss_current_a st)" and "f64_is_finite c"
  shows "safety_guard p [kw] (st\<lparr>ss_current_a := c\<rparr>) = Inr () \<longleftrightarrow> safety_guard p [kw] st = Inr ()"
  using assms by (simp add: guard_accepts_all state_acceptable_def)

theorem guard_ignores_current_witness:
  "f64_lt (gp_max_current_a demo_guard) f64_1000 \<and>
   safety_guard demo_guard [f64_100] (demo_state\<lparr>ss_current_a := f64_1000\<rparr>) = Inr ()"
  using guard_ignores_current [of demo_state f64_1000 demo_guard f64_100] demo_guard_accepts(1)
  by (simp add: demo_guard_def demo_state_def f64_lt_def f64_key_def f64_is_nan_def f64_is_finite_def f64_ex_def)

definition ramp_down :: schedule_result where
  "ramp_down = \<lparr>sr_schedule =
     [\<lparr>se_period = 0, se_charge_power_kw = f64_0, se_discharge_power_kw = f64_100, se_net_power_kw = f64_100,
       se_soc_pct = 0x3FE0000000000000, se_revenue_yuan = f64_0\<rparr>,
      \<lparr>se_period = 1, se_charge_power_kw = f64_0, se_discharge_power_kw = f64_0, se_net_power_kw = f64_0,
       se_soc_pct = 0x3FE0000000000000, se_revenue_yuan = f64_0\<rparr>],
     sr_total_revenue_yuan = f64_0, sr_objective_value = f64_0, sr_solve_status = Optimal\<rparr>"

lemma ramp_arith:
  "f64_add 0 0xC059000000000000 = 0xC059000000000000"
  "f64_div 0x4059000000000000 0x3FD0000000000000 = 0x4079000000000000"
  "f64_mul 0x4069000000000000 0x3FD0000000000000 = 0x4049000000000000"
  "f64_mul 0x4049000000000000 0x3FF0000000000000 = 0x4049000000000000"
  "f64_add 0x4059000000000000 0x4049000000000000 = 0x4062C00000000000"
  "f64_add 0x4062C00000000000 0x8000000000000000 = 0x4062C00000000000"
  "f64_add 0 0x4062C00000000000 = 0x4062C00000000000"
  by (rule f64_add_exact f64_div_exact f64_mul_exact; simp add: f64_eval)+

lemma f64_add_0_m0: "f64_add 0 0x8000000000000000 = 0"
  by (simp add: f64_add_def f64_eval f64_is_nan_def f64_is_infinite_def)

lemmas f64_compare = f64_lt_def f64_le_def f64_key_def f64_is_nan_def f64_is_finite_def f64_ex_def f64_abs_def
  f64_min_def f64_signum_def f64_neg_def

lemma ramp_chain:
  "sv_chain sv_default ramp_down demo_state =
     ([vi_normal ''protection_coordination'' 1 ''ramp_rate'' 0 0x4062C00000000000 Critical],
      ramp_down\<lparr>sr_schedule := [hd (sr_schedule ramp_down), (sr_schedule ramp_down ! 1)
        \<lparr>se_discharge_power_kw := 0x4062C00000000000, se_net_power_kw := 0x4062C00000000000\<rparr>]\<rparr>, True, False)"
  by (simp add: sv_default_def add_rule_def electrical_def protection_def ramp_down_def demo_state_def er_validate_def
      er_entry_def er_state_def non_finite_def pr_validate_def pr_clamp_def vr_of_def vi_normal_def vi_mk_def
      f64_compare soc_max_def soc_min_def f64_sub_def f64_quarter_def ramp_arith f64_add_0_m0 Let_def)

text \<open>The ramp clamp of the validator can raise the power it limits: a schedule that discharges 100 kW, the
  default maximum, and then stops is accepted with its second period replaced by a discharge of 150 kW, because
  the clamp takes the sign of the new power for the direction of the change.\<close>

theorem ramp_clamp_raises_power:
  "vr_passed (sv_validate sv_default ramp_down demo_state) \<and>
   map_option (\<lambda>s. map se_discharge_power_kw (sr_schedule s))
     (vr_clamped_schedule (sv_validate sv_default ramp_down demo_state)) = Some [f64_100, 0x4062C00000000000] \<and>
   f64_lt f64_100 0x4062C00000000000"
  unfolding sv_validate_def ramp_chain
  by (simp add: mutex_violations_def ramp_down_def vi_normal_def vi_mk_def simul_eps_def f64_compare)

end
