(* ===== verification/Decision_Gate.thy ===== *)
theory Decision_Gate
  imports Float64
begin

text \<open>
  The decision gate (\<open>crates/ai/dual-brain/src/gate.rs\<close>): a sliding-window rate limit and a rolling
  energy budget, checked before a dispatch and charged only when it is confirmed.
\<close>

datatype gate_decision = Allow | RateLimited | EnergyExceeded

record decision_gate =
  dg_max_per_minute :: u32
  dg_window :: "u64 list"
  dg_max_kwh_per_period :: f64
  dg_period_ms :: u64
  dg_period_start_ms :: u64
  dg_used_kwh :: f64
  dg_rejected_rate :: u64
  dg_rejected_energy :: u64

definition dg_new :: "u32 \<Rightarrow> f64 \<Rightarrow> u64 \<Rightarrow> decision_gate" where
  "dg_new max_per_minute max_kwh period_ms =
     \<lparr>dg_max_per_minute = max_per_minute, dg_window = [], dg_max_kwh_per_period = max_kwh,
      dg_period_ms = period_ms, dg_period_start_ms = 0, dg_used_kwh = f64_0, dg_rejected_rate = 0,
      dg_rejected_energy = 0\<rparr>"

definition dg_check_rate :: "decision_gate \<Rightarrow> u64 \<Rightarrow> decision_gate \<times> gate_decision" where
  "dg_check_rate g now_ms =
     (let cutoff = saturating_sub now_ms 60000;
          g = g\<lparr>dg_window := dropWhile (\<lambda>t. t < cutoff) (dg_window g)\<rparr>;
          rate_ok = (0 < dg_max_per_minute g \<and> (of_nat (length (dg_window g)) :: u32) < dg_max_per_minute g)
      in if \<not> rate_ok then (g\<lparr>dg_rejected_rate := dg_rejected_rate g + 1\<rparr>, RateLimited)
         else (g, Allow))"

definition gate_eps :: f64 where "gate_eps = 0x3E112E0BE826D695"

definition dg_check_energy :: "decision_gate \<Rightarrow> u64 \<Rightarrow> f64 \<Rightarrow> decision_gate \<times> gate_decision" where
  "dg_check_energy g now_ms energy_kwh =
     (let g = (if 0 < dg_period_ms g \<and> dg_period_ms g \<le> saturating_sub now_ms (dg_period_start_ms g)
               then g\<lparr>dg_period_start_ms := now_ms, dg_used_kwh := f64_0\<rparr> else g);
          energy_ok = (f64_lt f64_0 (dg_max_kwh_per_period g) \<and>
            f64_le (f64_add (dg_used_kwh g) (f64_max energy_kwh f64_0))
              (f64_add (dg_max_kwh_per_period g) gate_eps))
      in if \<not> energy_ok then (g\<lparr>dg_rejected_energy := dg_rejected_energy g + 1\<rparr>, EnergyExceeded)
         else (g, Allow))"

definition dg_check :: "decision_gate \<Rightarrow> u64 \<Rightarrow> f64 \<Rightarrow> decision_gate \<times> gate_decision" where
  "dg_check g now_ms energy_kwh =
     (case dg_check_rate g now_ms of
        (g, Allow) \<Rightarrow> dg_check_energy g now_ms energy_kwh
      | (g, other) \<Rightarrow> (g, other))"

definition dg_record :: "decision_gate \<Rightarrow> u64 \<Rightarrow> f64 \<Rightarrow> decision_gate" where
  "dg_record g now_ms energy_kwh =
     g\<lparr>dg_window := dg_window g @ [now_ms],
       dg_used_kwh := f64_add (dg_used_kwh g) (f64_max energy_kwh f64_0)\<rparr>"

section \<open>The rate limit\<close>

text \<open>No interval of one minute, both ends included, holds more than \<open>m\<close> of the times \<open>recs\<close>.\<close>

definition in_minute :: "u64 \<Rightarrow> u64 \<Rightarrow> bool" where
  "in_minute a t \<longleftrightarrow> a \<le> t \<and> unat t \<le> unat a + 60000"

definition rate_bounded :: "u32 \<Rightarrow> u64 list \<Rightarrow> bool" where
  "rate_bounded m recs \<longleftrightarrow> (\<forall>a. length (filter (in_minute a) recs) \<le> unat m)"

text \<open>The gate after a run with the confirmed dispatches \<open>recs\<close>, last used at time \<open>latest\<close>: its window
  holds the recent ones.\<close>

definition gate_rate_inv :: "decision_gate \<Rightarrow> u64 list \<Rightarrow> u64 \<Rightarrow> bool" where
  "gate_rate_inv g recs latest \<longleftrightarrow>
     sorted recs \<and> list_all (\<lambda>t. t \<le> latest) recs \<and> rate_bounded (dg_max_per_minute g) recs \<and>
     (\<exists>c \<le> saturating_sub latest 60000. dg_window g = filter (\<lambda>t. c \<le> t) recs)"

lemma length_filter_mono:
  "(\<And>x. x \<in> set xs \<Longrightarrow> P x \<Longrightarrow> Q x) \<Longrightarrow> length (filter P xs) \<le> length (filter Q xs)"
  by (induction xs) (auto simp: le_Suc_eq)

lemma dropWhile_sorted: "sorted xs \<Longrightarrow> dropWhile (\<lambda>t. t < c) xs = filter (\<lambda>t. c \<le> t) (xs :: 'a::linorder list)"
  by (induction xs) (auto intro!: filter_True [symmetric])

lemma saturating_sub_mono: "a \<le> b \<Longrightarrow> saturating_sub a c \<le> saturating_sub b c"
  by (simp add: word_le_nat_alt unat_saturating_sub)

lemma minute_end: "in_minute a t \<longleftrightarrow> a \<le> t \<and> saturating_sub t 60000 \<le> a"
  by (auto simp: in_minute_def word_le_nat_alt unat_saturating_sub)

text \<open>Entries of the window are entries of the last minute.\<close>

lemma window_in_minute:
  assumes "list_all (\<lambda>t. t \<le> latest) recs" and "latest \<le> now"
  shows "filter (\<lambda>t. saturating_sub now 60000 \<le> t) recs = filter (in_minute (saturating_sub now 60000)) recs"
proof (rule filter_cong)
  fix t assume "t \<in> set recs"
  with assms have "t \<le> now" by (auto simp: list_all_iff)
  then show "saturating_sub now 60000 \<le> t \<longleftrightarrow> in_minute (saturating_sub now 60000) t"
    by (auto simp: in_minute_def word_le_nat_alt unat_saturating_sub)
qed simp

lemma check_rate_inv:
  assumes "gate_rate_inv g recs latest" and "latest \<le> now" and "dg_check_rate g now = (g', d)"
  shows "gate_rate_inv g' recs now"
    and "d = Allow \<Longrightarrow> length (filter (in_minute (saturating_sub now 60000)) recs) < unat (dg_max_per_minute g)"
    and "dg_max_per_minute g' = dg_max_per_minute g"
proof -
  let ?cut = "saturating_sub now 60000"
  from assms(1) obtain c where c: "c \<le> saturating_sub latest 60000" "dg_window g = filter (\<lambda>t. c \<le> t) recs"
    and s: "sorted recs" and le: "list_all (\<lambda>t. t \<le> latest) recs" and rb: "rate_bounded (dg_max_per_minute g) recs"
    by (auto simp: gate_rate_inv_def)
  have "c \<le> ?cut" using c(1) saturating_sub_mono [OF assms(2)] by (rule order_trans)
  moreover have "sorted (filter (\<lambda>t. c \<le> t) recs)" using sorted_filter [of "\<lambda>t. t" recs] s by simp
  ultimately have w: "dropWhile (\<lambda>t. t < ?cut) (dg_window g) = filter (\<lambda>t. ?cut \<le> t) recs"
    unfolding c(2) by (subst dropWhile_sorted) (auto intro!: filter_cong)
  have len: "length (filter (\<lambda>t. ?cut \<le> t) recs) \<le> unat (dg_max_per_minute g)"
    using rb unfolding window_in_minute [OF le assms(2)] rate_bounded_def by simp
  also have "\<dots> < 2 ^ 32" by (rule order_less_le_trans [OF unsigned_less]) simp
  finally have un: "unat (of_nat (length (filter (\<lambda>t. ?cut \<le> t) recs)) :: u32) = length (filter (\<lambda>t. ?cut \<le> t) recs)"
    by (simp add: unsigned_of_nat take_bit_nat_eq_self)
  show "dg_max_per_minute g' = dg_max_per_minute g"
    using assms(3) by (auto simp: dg_check_rate_def Let_def split: if_splits)
  have "dg_window g' = filter (\<lambda>t. ?cut \<le> t) recs"
    using assms(3) w by (auto simp: dg_check_rate_def Let_def split: if_splits)
  moreover have "list_all (\<lambda>t. t \<le> now) recs" using le assms(2) by (auto simp: list_all_iff)
  ultimately show "gate_rate_inv g' recs now"
    using s rb \<open>dg_max_per_minute g' = dg_max_per_minute g\<close> by (auto simp: gate_rate_inv_def)
  show "length (filter (in_minute ?cut) recs) < unat (dg_max_per_minute g)" if "d = Allow"
    using assms(3) that w un
    by (auto simp: dg_check_rate_def Let_def word_less_nat_alt simp flip: window_in_minute [OF le assms(2)]
        split: if_splits)
qed

lemma check_energy_rate:
  assumes "dg_check_energy g now e = (g', d)"
  shows "dg_window g' = dg_window g" and "dg_max_per_minute g' = dg_max_per_minute g"
  using assms by (auto simp: dg_check_energy_def Let_def split: if_splits)

lemma rate_bounded_snoc:
  assumes "rate_bounded m recs" and "list_all (\<lambda>t. t \<le> now) recs"
    and "length (filter (in_minute (saturating_sub now 60000)) recs) < unat m"
  shows "rate_bounded m (recs @ [now])"
proof -
  have "length (filter (in_minute a) (recs @ [now])) \<le> unat m" for a
  proof (cases "in_minute a now")
    case True
    have "in_minute (saturating_sub now 60000) t" if "in_minute a t" "t \<in> set recs" for t
    proof -
      have "t \<le> now" using that(2) assms(2) by (simp add: list_all_iff)
      with that(1) True show ?thesis
        by (auto simp: in_minute_def word_le_nat_alt unat_saturating_sub)
    qed
    then have "length (filter (in_minute a) recs) \<le> length (filter (in_minute (saturating_sub now 60000)) recs)"
      by (intro length_filter_mono) auto
    with assms(3) True show ?thesis by simp
  next
    case False
    with assms(1) show ?thesis by (simp add: rate_bounded_def)
  qed
  then show ?thesis by (simp add: rate_bounded_def)
qed

lemma record_rate_inv:
  assumes "gate_rate_inv g recs now"
    and "length (filter (in_minute (saturating_sub now 60000)) recs) < unat (dg_max_per_minute g)"
  shows "gate_rate_inv (dg_record g now e) (recs @ [now]) now"
proof -
  from assms(1) obtain c where c: "c \<le> saturating_sub now 60000" "dg_window g = filter (\<lambda>t. c \<le> t) recs"
    and s: "sorted recs" and le: "list_all (\<lambda>t. t \<le> now) recs" and rb: "rate_bounded (dg_max_per_minute g) recs"
    by (auto simp: gate_rate_inv_def)
  have "saturating_sub now 60000 \<le> now" by (simp add: word_le_nat_alt unat_saturating_sub)
  with c have "dg_window (dg_record g now e) = filter (\<lambda>t. c \<le> t) (recs @ [now])"
    by (simp add: dg_record_def)
  moreover have "sorted (recs @ [now])" using s le by (auto simp: sorted_append list_all_iff)
  ultimately show ?thesis
    using c(1) le rate_bounded_snoc [OF rb le assms(2)] by (auto simp: gate_rate_inv_def dg_record_def)
qed

section \<open>The energy budget\<close>

definition energy_within :: "decision_gate \<Rightarrow> bool" where
  "energy_within g \<longleftrightarrow>
     dg_used_kwh g = f64_0 \<or> f64_le (dg_used_kwh g) (f64_add (dg_max_kwh_per_period g) gate_eps)"

lemma f64_zeros:
  "f64_int 0 = 0" "\<not> f64_is_nan 0" "\<not> f64_is_infinite 0"
  "f64_int 0x8000000000000000 = 0" "\<not> f64_is_nan 0x8000000000000000" "\<not> f64_is_infinite 0x8000000000000000"
  by (simp_all add: f64_int_def f64_units_def f64_ex_def f64_frac_def f64_is_nan_def f64_is_infinite_def)

lemma f64_add_0_key:
  assumes "\<not> f64_is_nan x"
  shows "f64_key (f64_add x 0) = f64_key x \<and> \<not> f64_is_nan (f64_add x 0)"
proof -
  consider "x = 0x8000000000000000" | "f64_is_finite x" "x \<noteq> 0x8000000000000000" | "f64_is_infinite x"
  proof (cases "f64_is_finite x")
    case False
    then have "0x7FF0000000000000 \<le> unat (take_bit 63 x)"
      using f64_mag [of x] by (simp add: f64_is_finite_def)
    moreover have "unat (take_bit 63 x) \<le> 0x7FF0000000000000"
      using assms by (simp add: f64_is_nan_def word_le_nat_alt not_less)
    ultimately have "f64_is_infinite x" by (simp add: f64_is_infinite_def word_unat_eq_iff)
    then show thesis by (rule that(3))
  qed (use that in blast)
  then show ?thesis
  proof cases
    case 1
    show ?thesis unfolding 1
      by (simp_all add: f64_add_def f64_zeros f64_key_def f64_is_nan_def Let_def)
  next
    case 2
    with f64_add_0 assms show ?thesis by simp
  next
    case 3
    moreover have "\<not> f64_is_nan 0" "\<not> f64_is_infinite 0" by (simp_all add: f64_is_nan_def f64_is_infinite_def)
    ultimately have "f64_add x 0 = x" using assms by (simp add: f64_add_def)
    with assms show ?thesis by simp
  qed
qed

lemma f64_max_0: "f64_max f64_0 f64_0 = f64_0"
  by (simp add: f64_max_def)

lemma f64_add_0_0: "f64_add f64_0 f64_0 = f64_0"
  by (simp add: f64_add_def f64_zeros Let_def)

lemma new_energy_within: "energy_within (dg_new m k p)"
  by (simp add: energy_within_def dg_new_def)

lemma check_rate_energy:
  assumes "dg_check_rate g now = (g', d)"
  shows "dg_used_kwh g' = dg_used_kwh g" and "dg_max_kwh_per_period g' = dg_max_kwh_per_period g"
  using assms by (auto simp: dg_check_rate_def Let_def split: if_splits)

lemma check_energy_within:
  assumes "dg_check_energy g now e = (g', d)" and "energy_within g"
  shows "energy_within g'" and "d = Allow \<Longrightarrow> energy_within (dg_record g' now' e)"
  using assms by (auto simp: dg_check_energy_def energy_within_def dg_record_def Let_def split: if_splits)

lemma record_0_within: "energy_within g \<Longrightarrow> energy_within (dg_record g now f64_0)"
  using f64_add_0_key [of "dg_used_kwh g"]
  by (auto simp: energy_within_def dg_record_def f64_max_0 f64_add_0_0 f64_le_def)

end
