(* ===== verification/Audit_Chain.thy ===== *)
theory Audit_Chain
  imports EnerOS_Prelude
begin

text \<open>
  The audit hash chain (\<open>crates/security/audit/src\<close>: \<open>events.rs\<close>, \<open>chain.rs\<close>, \<open>store.rs\<close>) and the
  decision audit built on it (\<open>crates/ai/dual-brain/src/audit.rs\<close>). SHA-256 comes from the \<open>sha2\<close>
  crate and is the parameter \<open>sha\<close>; the contents of a fresh \<open>heapless::String\<close> of a given capacity
  after one \<open>push_str\<close> is the parameter \<open>fixed\<close>.
\<close>

section \<open>Events and entries\<close>

datatype audit_event_type =
  AuthLogin | AuthLogout | ConfigChange | ControlCommand | ModelLoad | KeyUse | AgentStart | AgentStop
  | FederateJoin | FederateLeave | SecurityAlert | AiDecision | WriteExecuted | WriteDenied | LeaseGranted
  | HandshakeCompleted

fun aet_code :: "audit_event_type \<Rightarrow> u8" where
  "aet_code AuthLogin = 1" | "aet_code AuthLogout = 2" | "aet_code ConfigChange = 3"
| "aet_code ControlCommand = 4" | "aet_code ModelLoad = 5" | "aet_code KeyUse = 6"
| "aet_code AgentStart = 7" | "aet_code AgentStop = 8" | "aet_code FederateJoin = 9"
| "aet_code FederateLeave = 10" | "aet_code SecurityAlert = 11" | "aet_code AiDecision = 12"
| "aet_code WriteExecuted = 13" | "aet_code WriteDenied = 14" | "aet_code LeaseGranted = 15"
| "aet_code HandshakeCompleted = 16"

definition aet_try_from :: "u8 \<Rightarrow> audit_event_type option" where
  "aet_try_from v =
     (if v = 1 then Some AuthLogin else if v = 2 then Some AuthLogout else if v = 3 then Some ConfigChange
      else if v = 4 then Some ControlCommand else if v = 5 then Some ModelLoad else if v = 6 then Some KeyUse
      else if v = 7 then Some AgentStart else if v = 8 then Some AgentStop else if v = 9 then Some FederateJoin
      else if v = 10 then Some FederateLeave else if v = 11 then Some SecurityAlert
      else if v = 12 then Some AiDecision else if v = 13 then Some WriteExecuted
      else if v = 14 then Some WriteDenied else if v = 15 then Some LeaseGranted
      else if v = 16 then Some HandshakeCompleted else None)"

record audit_event =
  ae_seq :: u64
  ae_timestamp_ms :: u64
  ae_event_type :: audit_event_type
  ae_actor :: bytes
  ae_target :: bytes
  ae_detail :: bytes
  ae_severity :: u8
  ae_source_ip :: bytes

definition ae_new :: "(nat \<Rightarrow> bytes \<Rightarrow> bytes) \<Rightarrow> audit_event_type \<Rightarrow> bytes \<Rightarrow> bytes \<Rightarrow> bytes \<Rightarrow> audit_event" where
  "ae_new fixed event_type actor target detail =
     \<lparr>ae_seq = 0, ae_timestamp_ms = 0, ae_event_type = event_type, ae_actor = fixed 64 actor,
      ae_target = fixed 128 target, ae_detail = fixed 256 detail, ae_severity = 0,
      ae_source_ip = zeros 4\<rparr>"

record chain_entry =
  cn_seq :: u64
  cn_prev_hash :: bytes
  cn_event_hash :: bytes
  cn_combined_hash :: bytes
  cn_timestamp_ms :: u64

record hash_chain =
  hc_last_hash :: bytes
  hc_last_seq :: u64
  hc_entry_count :: u64
  hc_genesis_hash :: bytes

datatype audit_error =
  HashComputeFailed | SeqOutOfOrder u64 u64 | ChainBroken u64 | StorageWriteFailed
  | StorageReadFailed | BufferFull | InvalidGenesis

record verify_report =
  vp_total :: u64
  vp_broken_at :: "u64 option"
  vp_valid :: bool

section \<open>Hashes\<close>

text \<open>The prefix of the encoding buffer that is hashed. Writing past the 512 bytes of the buffer panics:
  the option of the event hash.\<close>

definition event_bytes :: "audit_event \<Rightarrow> bytes" where
  "event_bytes ev =
     be_bytes 8 (ae_seq ev) @ be_bytes 8 (ae_timestamp_ms ev) @ [aet_code (ae_event_type ev), ae_severity ev] @
     ae_source_ip ev @ [of_nat (length (ae_actor ev))] @ ae_actor ev @ [of_nat (length (ae_target ev))] @
     ae_target ev @ ae_detail ev"

definition compute_event_hash :: "(bytes \<Rightarrow> bytes) \<Rightarrow> audit_event \<Rightarrow> bytes option" where
  "compute_event_hash sha ev =
     (if length (event_bytes ev) \<le> 512 then Some (sha (event_bytes ev)) else None)"

definition compute_combined_hash :: "(bytes \<Rightarrow> bytes) \<Rightarrow> bytes \<Rightarrow> bytes \<Rightarrow> bytes" where
  "compute_combined_hash sha prev_hash event_hash = sha (put (put (zeros 64) 0 prev_hash) 32 event_hash)"

definition genesis :: "(bytes \<Rightarrow> bytes) \<Rightarrow> bytes \<Rightarrow> bytes" where
  "genesis sha domain = sha domain"

section \<open>Stores\<close>

record 's audit_store =
  as_append :: "'s \<Rightarrow> chain_entry \<Rightarrow> 's \<times> (audit_error + unit)"
  as_read_range :: "'s \<Rightarrow> u64 \<Rightarrow> u64 \<Rightarrow> audit_error + chain_entry list"
  as_read_last_n :: "'s \<Rightarrow> nat \<Rightarrow> audit_error + chain_entry list"
  as_count :: "'s \<Rightarrow> audit_error + u64"

definition mem_store :: "chain_entry list audit_store" where
  "mem_store =
     \<lparr>as_append = (\<lambda>es e. (es @ [e], Inr ())),
      as_read_range = (\<lambda>es start end_seq. Inr (filter (\<lambda>e. start \<le> cn_seq e \<and> cn_seq e \<le> end_seq) es)),
      as_read_last_n = (\<lambda>es n. Inr (drop (length es - n) es)),
      as_count = (\<lambda>es. Inr (of_nat (length es)))\<rparr>"

section \<open>The logger\<close>

record 's audit_logger =
  al_chain :: hash_chain
  al_store :: 's

definition al_new :: "'s \<Rightarrow> bytes \<Rightarrow> 's audit_logger" where
  "al_new store g =
     \<lparr>al_chain = \<lparr>hc_last_hash = g, hc_last_seq = 0, hc_entry_count = 0, hc_genesis_hash = g\<rparr>,
      al_store = store\<rparr>"

definition al_recover :: "'s audit_store \<Rightarrow> 's \<Rightarrow> bytes \<Rightarrow> audit_error + 's audit_logger" where
  "al_recover ops store g =
     and_then (as_count ops store) (\<lambda>count.
       if count = 0 then Inr (al_new store g)
       else and_then (as_read_last_n ops store 1) (\<lambda>es.
         if es = [] then Inl StorageReadFailed
         else Inr \<lparr>al_chain = \<lparr>hc_last_hash = cn_combined_hash (last es), hc_last_seq = cn_seq (last es),
                     hc_entry_count = count, hc_genesis_hash = g\<rparr>, al_store = store\<rparr>))"

definition al_entry :: "(bytes \<Rightarrow> bytes) \<Rightarrow> hash_chain \<Rightarrow> audit_event \<Rightarrow> bytes \<Rightarrow> chain_entry" where
  "al_entry sha hc ev event_hash =
     \<lparr>cn_seq = ae_seq ev, cn_prev_hash = hc_last_hash hc, cn_event_hash = event_hash,
      cn_combined_hash = compute_combined_hash sha (hc_last_hash hc) event_hash,
      cn_timestamp_ms = ae_timestamp_ms ev\<rparr>"

definition al_log ::
  "(bytes \<Rightarrow> bytes) \<Rightarrow> 's audit_store \<Rightarrow> 's audit_logger \<Rightarrow> audit_event \<Rightarrow>
     ('s audit_logger \<times> (audit_error + chain_entry)) option" where
  "al_log sha ops lg event =
     (let hc = al_chain lg;
          expect = hc_last_seq hc + 1
      in if ae_seq event \<noteq> 0 \<and> ae_seq event \<noteq> expect
         then Some (lg, Inl (SeqOutOfOrder expect (ae_seq event)))
         else let ev = event\<lparr>ae_seq := expect\<rparr>
              in case compute_event_hash sha ev of
                   None \<Rightarrow> None
                 | Some event_hash \<Rightarrow>
                   let entry = al_entry sha hc ev event_hash
                   in Some (case as_append ops (al_store lg) entry of
                        (st, Inl e) \<Rightarrow> (lg\<lparr>al_store := st\<rparr>, Inl e)
                      | (st, Inr _) \<Rightarrow>
                        (\<lparr>al_chain = hc\<lparr>hc_last_hash := cn_combined_hash entry, hc_last_seq := expect,
                            hc_entry_count := hc_entry_count hc + 1\<rparr>, al_store = st\<rparr>, Inr entry)))"

fun al_log_batch ::
  "(bytes \<Rightarrow> bytes) \<Rightarrow> 's audit_store \<Rightarrow> 's audit_logger \<Rightarrow> audit_event list \<Rightarrow>
     ('s audit_logger \<times> (audit_error + chain_entry list)) option" where
  "al_log_batch sha ops lg [] = Some (lg, Inr [])"
| "al_log_batch sha ops lg (ev # evs) =
     (case al_log sha ops lg ev of
        None \<Rightarrow> None
      | Some (lg, Inl e) \<Rightarrow> Some (lg, Inl e)
      | Some (lg, Inr entry) \<Rightarrow>
        (case al_log_batch sha ops lg evs of
           None \<Rightarrow> None
         | Some (lg, Inl e) \<Rightarrow> Some (lg, Inl e)
         | Some (lg, Inr es) \<Rightarrow> Some (lg, Inr (entry # es))))"

section \<open>The verifier\<close>

definition verify_link :: "(bytes \<Rightarrow> bytes) \<Rightarrow> chain_entry \<Rightarrow> bytes \<Rightarrow> bool" where
  "verify_link sha entry prev_hash =
     (cn_prev_hash entry = prev_hash \<and>
      compute_combined_hash sha (cn_prev_hash entry) (cn_event_hash entry) = cn_combined_hash entry)"

text \<open>The first entry that does not link.\<close>

fun first_break :: "(bytes \<Rightarrow> bytes) \<Rightarrow> bytes \<Rightarrow> chain_entry list \<Rightarrow> u64 option" where
  "first_break sha prev [] = None"
| "first_break sha prev (e # es) =
     (if cn_prev_hash e \<noteq> prev then Some (cn_seq e)
      else if compute_combined_hash sha (cn_prev_hash e) (cn_event_hash e) \<noteq> cn_combined_hash e then Some (cn_seq e)
      else first_break sha (cn_combined_hash e) es)"

definition verify_chain :: "(bytes \<Rightarrow> bytes) \<Rightarrow> chain_entry list \<Rightarrow> verify_report" where
  "verify_chain sha entries =
     (if entries = [] then \<lparr>vp_total = 0, vp_broken_at = None, vp_valid = True\<rparr>
      else let broken_at = first_break sha (cn_prev_hash (hd entries)) entries
           in \<lparr>vp_total = of_nat (length entries), vp_broken_at = broken_at, vp_valid = (broken_at = None)\<rparr>)"

section \<open>The decision audit\<close>

datatype safety_outcome = Passed | Blocked | SafetyDegraded
datatype exec_outcome = Succeeded | ExecFailed | ExecDegraded | ExecProposed | ExecNoAction

definition str :: "string \<Rightarrow> bytes" where
  "str s = map (\<lambda>c. of_nat (of_char c)) s"

fun so_as_str :: "safety_outcome \<Rightarrow> bytes" where
  "so_as_str Passed = str ''passed''"
| "so_as_str Blocked = str ''blocked''"
| "so_as_str SafetyDegraded = str ''degraded''"

fun eo_as_str :: "exec_outcome \<Rightarrow> bytes" where
  "eo_as_str Succeeded = str ''succeeded''"
| "eo_as_str ExecFailed = str ''failed''"
| "eo_as_str ExecDegraded = str ''degraded''"
| "eo_as_str ExecProposed = str ''proposed''"
| "eo_as_str ExecNoAction = str ''noaction''"

record decision_record =
  dr_actor :: bytes
  dr_target :: bytes
  dr_intent :: bytes
  dr_lp_solution :: bytes
  dr_safety :: safety_outcome
  dr_exec :: exec_outcome
  dr_now_ms :: u64

record decision_audit =
  da_logger :: "chain_entry list audit_logger"
  da_max_entries :: nat
  da_dropped :: u64

definition MAX_AUDIT_ENTRIES :: nat where "MAX_AUDIT_ENTRIES = 4096"

definition da_new :: "bytes \<Rightarrow> decision_audit" where
  "da_new g = \<lparr>da_logger = al_new [] g, da_max_entries = MAX_AUDIT_ENTRIES, da_dropped = 0\<rparr>"

definition log_decision ::
  "(bytes \<Rightarrow> bytes) \<Rightarrow> (nat \<Rightarrow> bytes \<Rightarrow> bytes) \<Rightarrow> decision_audit \<Rightarrow> decision_record \<Rightarrow>
     (decision_audit \<times> (audit_error + chain_entry)) option" where
  "log_decision sha fixed da r =
     (if da_max_entries da \<le> unat (hc_entry_count (al_chain (da_logger da)))
      then Some (da\<lparr>da_dropped := da_dropped da + 1\<rparr>, Inl BufferFull)
      else let detail = str ''i='' @ dr_intent r @ str '';p='' @ dr_lp_solution r @ str '';s='' @
                 so_as_str (dr_safety r) @ str '';x='' @ eo_as_str (dr_exec r);
               event = (ae_new fixed AiDecision (dr_actor r) (dr_target r) detail)\<lparr>ae_timestamp_ms := dr_now_ms r\<rparr>
           in map_option (\<lambda>(lg, res). (da\<lparr>da_logger := lg\<rparr>, res)) (al_log sha mem_store (da_logger da) event))"

definition da_verify :: "(bytes \<Rightarrow> bytes) \<Rightarrow> decision_audit \<Rightarrow> audit_error + verify_report" where
  "da_verify sha da =
     and_then (as_count mem_store (al_store (da_logger da))) (\<lambda>count.
       and_then (as_read_range mem_store (al_store (da_logger da)) 1 count) (\<lambda>entries.
         Inr (verify_chain sha entries)))"

section \<open>Links\<close>

definition chain_head :: "bytes \<Rightarrow> chain_entry list \<Rightarrow> bytes" where
  "chain_head prev es = (if es = [] then prev else cn_combined_hash (last es))"

definition entry_wf :: "chain_entry \<Rightarrow> bool" where
  "entry_wf e \<longleftrightarrow> length (cn_prev_hash e) = 32 \<and> length (cn_event_hash e) = 32"

lemma first_break_append:
  "first_break sha prev (es @ fs) = None \<longleftrightarrow>
     first_break sha prev es = None \<and> first_break sha (chain_head prev es) fs = None"
  by (induction sha prev es rule: first_break.induct) (auto simp: chain_head_def)

lemma verify_chain_valid:
  "vp_valid (verify_chain sha es) \<longleftrightarrow> es = [] \<or> first_break sha (cn_prev_hash (hd es)) es = None"
  by (simp add: verify_chain_def Let_def)

lemma first_break_hd: "first_break sha prev es = None \<Longrightarrow> es \<noteq> [] \<Longrightarrow> cn_prev_hash (hd es) = prev"
  by (cases es) (auto split: if_splits)

lemma verify_segment:
  "vp_valid (verify_chain sha (es @ fs @ gs)) \<Longrightarrow> vp_valid (verify_chain sha fs)"
proof -
  assume "vp_valid (verify_chain sha (es @ fs @ gs))"
  then consider "fs = []" | p where "first_break sha p fs = None"
    by (auto simp: verify_chain_valid first_break_append)
  then show ?thesis
  proof cases
    case 2
    then show ?thesis using first_break_hd [OF 2] by (cases "fs = []") (simp_all add: verify_chain_valid)
  qed (simp add: verify_chain_valid)
qed

lemma combined_input:
  assumes "length p = 32" and "length e = 32"
  shows "put (put (zeros 64) 0 p) 32 e = p @ e"
  using assms by (simp add: put_def)

text \<open>The bytes an entry's combined hash is taken of. Two chains with the same head differ nowhere, or some
  entry of the one and the entry at the same place in the other have different bytes and the same hash.\<close>

definition entry_input :: "chain_entry \<Rightarrow> bytes" where
  "entry_input e = cn_prev_hash e @ cn_event_hash e"

definition collide_at :: "(bytes \<Rightarrow> bytes) \<Rightarrow> chain_entry list \<Rightarrow> chain_entry list \<Rightarrow> nat \<Rightarrow> bool" where
  "collide_at sha es fs i \<longleftrightarrow>
     entry_input (es ! i) \<noteq> entry_input (fs ! i) \<and> sha (entry_input (es ! i)) = sha (entry_input (fs ! i))"

lemma collide_at_append:
  "i < length es \<Longrightarrow> length es = length fs \<Longrightarrow> collide_at sha (es @ [e]) (fs @ [f]) i = collide_at sha es fs i"
  "length es = length fs \<Longrightarrow> collide_at sha (es @ [e]) (fs @ [f]) (length es) \<longleftrightarrow>
     entry_input e \<noteq> entry_input f \<and> sha (entry_input e) = sha (entry_input f)"
  by (simp_all add: collide_at_def nth_append)

lemma same_head:
  assumes "length es = length fs" and "first_break sha p es = None" and "first_break sha q fs = None"
    and "list_all entry_wf es" and "list_all entry_wf fs"
    and "chain_head p es = chain_head q fs" and "es \<noteq> []"
    and "\<And>i. i < length es \<Longrightarrow> \<not> collide_at sha es fs i"
  shows "p = q \<and> map cn_event_hash es = map cn_event_hash fs"
  using assms
proof (induction es arbitrary: fs rule: rev_induct)
  case (snoc e es)
  from snoc.prems(1) obtain fs' f where fs: "fs = fs' @ [f]" and len: "length es = length fs'"
    by (metis append_butlast_last_id length_append_singleton length_butlast diff_Suc_1 list.size(3) nat.simps(3))
  note b = snoc.prems(2,3) [unfolded fs first_break_append]
  have e: "cn_prev_hash e = chain_head p es" "sha (entry_input e) = cn_combined_hash e" "entry_wf e"
    using b(1) snoc.prems(4)
    by (auto simp: entry_input_def compute_combined_hash_def combined_input entry_wf_def split: if_splits)
  have f: "cn_prev_hash f = chain_head q fs'" "sha (entry_input f) = cn_combined_hash f" "entry_wf f"
    using b(2) snoc.prems(5) fs
    by (auto simp: entry_input_def compute_combined_hash_def combined_input entry_wf_def split: if_splits)
  have "cn_combined_hash e = cn_combined_hash f" using snoc.prems(6) fs by (simp add: chain_head_def)
  then have "entry_input e = entry_input f"
    using snoc.prems(8) [of "length es"] e(2) f(2) by (simp add: fs collide_at_append(2) [OF len])
  then have eq: "cn_prev_hash e = cn_prev_hash f" "cn_event_hash e = cn_event_hash f"
    using e(3) f(3) by (auto simp: entry_input_def entry_wf_def)
  have no: "\<not> collide_at sha es fs' i" if "i < length es" for i
    using snoc.prems(8) [of i] that by (simp add: fs collide_at_append(1) [OF that len])
  show ?case
  proof (cases "es = []")
    case True
    then show ?thesis using eq e(1) f(1) len fs by (simp add: chain_head_def)
  next
    case False
    then show ?thesis using snoc.IH [OF len] b snoc.prems(4,5) no eq e(1) f(1) fs by auto
  qed
qed simp

section \<open>The decision audit keeps a valid chain\<close>

text \<open>The entries of a log are numbered from one and linked from the genesis hash; the chain head is
  that of the entries.\<close>

definition numbered :: "chain_entry list \<Rightarrow> bool" where
  "numbered es \<longleftrightarrow> map cn_seq es = map of_nat [1..<Suc (length es)]"

definition da_inv :: "(bytes \<Rightarrow> bytes) \<Rightarrow> decision_audit \<Rightarrow> bool" where
  "da_inv sha da \<longleftrightarrow>
     (let es = al_store (da_logger da); hc = al_chain (da_logger da)
      in length es \<le> da_max_entries da \<and> da_max_entries da = MAX_AUDIT_ENTRIES \<and> numbered es \<and>
         first_break sha (hc_genesis_hash hc) es = None \<and>
         hc_entry_count hc = of_nat (length es) \<and> hc_last_seq hc = of_nat (length es) \<and>
         hc_last_hash hc = chain_head (hc_genesis_hash hc) es)"

lemma small_count: "n \<le> 4096 \<Longrightarrow> unat (of_nat n :: u64) = n"
  by (simp add: unsigned_of_nat take_bit_nat_eq_self)

lemma event_bytes_fit:
  assumes "\<And>n s. length (fixed n s) \<le> n"
  shows "compute_event_hash sha ((ae_new fixed ty a t d)\<lparr>ae_timestamp_ms := ts, ae_seq := i\<rparr>) \<noteq> None"
  using assms [of 64 a] assms [of 128 t] assms [of 256 d]
  by (simp add: compute_event_hash_def event_bytes_def ae_new_def)

lemma log_decision_inv:
  assumes "\<And>n s. length (fixed n s) \<le> n" and "da_inv sha da"
  obtains da' res where "log_decision sha fixed da r = Some (da', res)" "da_inv sha da'"
    "length (al_store (da_logger da')) = min (Suc (length (al_store (da_logger da)))) MAX_AUDIT_ENTRIES"
proof -
  let ?es = "al_store (da_logger da)" and ?hc = "al_chain (da_logger da)"
  note inv = assms(2) [unfolded da_inv_def Let_def]
  show thesis
  proof (cases "length ?es < MAX_AUDIT_ENTRIES")
    case False
    with inv show thesis
      by (intro that [of "da\<lparr>da_dropped := da_dropped da + 1\<rparr>" "Inl BufferFull"])
        (simp_all add: log_decision_def da_inv_def MAX_AUDIT_ENTRIES_def small_count Let_def)
  next
    case True
    define ev where "ev = (ae_new fixed AiDecision (dr_actor r) (dr_target r) (str ''i='' @ dr_intent r @ str '';p='' @
        dr_lp_solution r @ str '';s='' @ so_as_str (dr_safety r) @ str '';x='' @ eo_as_str (dr_exec r)))
        \<lparr>ae_timestamp_ms := dr_now_ms r\<rparr>"
    obtain h where h: "compute_event_hash sha (ev\<lparr>ae_seq := hc_last_seq ?hc + 1\<rparr>) = Some h"
    proof -
      have "compute_event_hash sha (ev\<lparr>ae_seq := hc_last_seq ?hc + 1\<rparr>) \<noteq> None"
        unfolding ev_def by (rule event_bytes_fit) (rule assms(1))
      with that show thesis by blast
    qed
    define en where "en = al_entry sha ?hc (ev\<lparr>ae_seq := hc_last_seq ?hc + 1\<rparr>) h"
    define da' where "da' = da\<lparr>da_logger := \<lparr>al_chain = ?hc\<lparr>hc_last_hash := cn_combined_hash en,
        hc_last_seq := hc_last_seq ?hc + 1, hc_entry_count := hc_entry_count ?hc + 1\<rparr>, al_store = ?es @ [en]\<rparr>\<rparr>"
    have "al_log sha mem_store (da_logger da) ev = Some (da_logger da', Inr en)"
      using h by (simp add: al_log_def mem_store_def en_def [symmetric] da'_def Let_def) (simp add: ev_def ae_new_def)
    then have "log_decision sha fixed da r = Some (da', Inr en)"
      using True inv unfolding log_decision_def Let_def ev_def [symmetric]
      by (simp add: MAX_AUDIT_ENTRIES_def small_count da'_def)
    moreover have "da_inv sha da'"
      using True inv
      by (simp add: da_inv_def da'_def numbered_def first_break_append en_def al_entry_def chain_head_def Let_def
          add.commute)
    ultimately show thesis using True by (intro that [of da' "Inr en"]) (simp_all add: da'_def)
  qed
qed

fun da_run ::
  "(bytes \<Rightarrow> bytes) \<Rightarrow> (nat \<Rightarrow> bytes \<Rightarrow> bytes) \<Rightarrow> decision_audit \<Rightarrow> decision_record list \<Rightarrow> decision_audit option" where
  "da_run sha fixed da [] = Some da"
| "da_run sha fixed da (r # rs) =
     (case log_decision sha fixed da r of None \<Rightarrow> None | Some (da, _) \<Rightarrow> da_run sha fixed da rs)"

lemma da_run_inv:
  assumes "\<And>n s. length (fixed n s) \<le> n" and "da_inv sha da"
  shows "\<exists>da'. da_run sha fixed da rs = Some da' \<and> da_inv sha da' \<and>
    length (al_store (da_logger da')) = min (length (al_store (da_logger da)) + length rs) MAX_AUDIT_ENTRIES"
  using assms(2)
proof (induction rs arbitrary: da)
  case (Cons r rs)
  obtain da1 res where l: "log_decision sha fixed da r = Some (da1, res)" "da_inv sha da1"
    "length (al_store (da_logger da1)) = min (Suc (length (al_store (da_logger da)))) MAX_AUDIT_ENTRIES"
    by (rule log_decision_inv [OF assms(1) Cons.prems])
  from Cons.IH [OF l(2)] l(1,3) show ?case by (auto simp: min_def)
qed (auto simp: da_inv_def Let_def)

lemma da_inv_verify:
  assumes "da_inv sha da"
  shows "\<exists>rep. da_verify sha da = Inr rep \<and> vp_valid rep \<and> unat (vp_total rep) = length (al_store (da_logger da))"
proof -
  let ?es = "al_store (da_logger da)"
  note inv = assms [unfolded da_inv_def Let_def MAX_AUDIT_ENTRIES_def]
  have "1 \<le> cn_seq e \<and> cn_seq e \<le> of_nat (length ?es)" if e: "e \<in> set ?es" for e
  proof -
    have "cn_seq e \<in> of_nat ` {1..<Suc (length ?es)}"
      using e inv by (metis image_eqI list.set_map numbered_def set_upt)
    then obtain k where k: "cn_seq e = of_nat k" "1 \<le> k" "k \<le> length ?es" by auto
    then show ?thesis using inv small_count [of k] small_count [of "length ?es"] by (simp add: word_le_nat_alt)
  qed
  then have all: "filter (\<lambda>e. 1 \<le> cn_seq e \<and> cn_seq e \<le> of_nat (length ?es)) ?es = ?es"
    by (simp add: filter_id_conv)
  have "vp_valid (verify_chain sha ?es)"
    using inv first_break_hd [of sha _ ?es] by (cases "?es = []") (auto simp: verify_chain_valid)
  moreover have "unat (vp_total (verify_chain sha ?es)) = length ?es"
    using inv by (simp add: verify_chain_def small_count Let_def)
  ultimately show ?thesis using all by (simp add: da_verify_def mem_store_def)
qed

section \<open>Properties\<close>

text \<open>Every decision log verifies: from a new decision audit, any sequence of decisions is logged without a
  panic, and the verifier reports a valid chain that holds the decisions up to the bound of 4096 entries.\<close>

theorem decision_audit_verifies:
  assumes "\<And>n s. length (fixed n s) \<le> n"
  shows "\<exists>da rep. da_run sha fixed (da_new g) rs = Some da \<and> da_verify sha da = Inr rep \<and> vp_valid rep \<and>
    unat (vp_total rep) = min (length rs) 4096"
proof -
  have "da_inv sha (da_new g)"
    by (simp add: da_inv_def da_new_def al_new_def numbered_def chain_head_def)
  from da_run_inv [where rs = rs, OF assms this] da_inv_verify [of sha]
  show ?thesis by (fastforce simp: da_new_def al_new_def MAX_AUDIT_ENTRIES_def)
qed

theorem decision_audit_verifies_witness:
  "\<exists>da rep. da_run (\<lambda>x. take 32 (x @ zeros 32)) take (da_new (zeros 32)) [\<lparr>dr_actor = [1], dr_target = [2], dr_intent = [3],
      dr_lp_solution = [4], dr_safety = Passed, dr_exec = Succeeded, dr_now_ms = 5\<rparr>] = Some da \<and>
    da_verify (\<lambda>x. take 32 (x @ zeros 32)) da = Inr rep \<and> vp_valid rep \<and> unat (vp_total rep) = 1"
  using decision_audit_verifies [of take "\<lambda>x. take 32 (x @ zeros 32)" "zeros 32"
      "[\<lparr>dr_actor = [1], dr_target = [2], dr_intent = [3], dr_lp_solution = [4], dr_safety = Passed,
        dr_exec = Succeeded, dr_now_ms = 5\<rparr>]"] by simp

text \<open>C28. The audit chain is tamper-evident: when two chains of the same length both verify and end in the same
  combined hash, they start from the same anchor and record the same event hashes, or at some position the entry of the one and
  the entry of the other have different inputs to the hash and the same hash, so the two chains themselves hold a collision.\<close>

theorem audit_tampering_needs_collision:
  assumes "vp_valid (verify_chain sha es)" and "vp_valid (verify_chain sha fs)"
    and "length es = length fs" and "es \<noteq> []" and "list_all entry_wf es" and "list_all entry_wf fs"
    and "cn_combined_hash (last es) = cn_combined_hash (last fs)"
  shows "cn_prev_hash (hd es) = cn_prev_hash (hd fs) \<and> map cn_event_hash es = map cn_event_hash fs \<or>
    (\<exists>i < length es. collide_at sha es fs i)"
proof -
  have "fs \<noteq> []" using assms(3,4) by auto
  with assms have "first_break sha (cn_prev_hash (hd es)) es = None" "first_break sha (cn_prev_hash (hd fs)) fs = None"
    "chain_head (cn_prev_hash (hd es)) es = chain_head (cn_prev_hash (hd fs)) fs"
    by (simp_all add: verify_chain_valid chain_head_def)
  then show ?thesis using same_head [OF assms(3) _ _ assms(5,6) _ assms(4)] by blast
qed

definition one_entry :: "(bytes \<Rightarrow> bytes) \<Rightarrow> chain_entry" where
  "one_entry sha = \<lparr>cn_seq = 1, cn_prev_hash = zeros 32, cn_event_hash = replicate 32 7,
     cn_combined_hash = compute_combined_hash sha (zeros 32) (replicate 32 7), cn_timestamp_ms = 9\<rparr>"

text \<open>With a hash that keeps the first 32 bytes of its input two different chains end in the same hash, and the
  property finds where they collide.\<close>

theorem audit_tampering_needs_collision_witness:
  "collide_at (take 32) [one_entry (take 32)] [(one_entry (take 32))\<lparr>cn_event_hash := replicate 32 8\<rparr>] 0"
  using audit_tampering_needs_collision [of "take 32" "[one_entry (take 32)]"
      "[(one_entry (take 32))\<lparr>cn_event_hash := replicate 32 8\<rparr>]"]
  by (simp add: one_entry_def verify_chain_def entry_wf_def compute_combined_hash_def combined_input Let_def)

text \<open>What the verifier does not see: of a valid chain any contiguous part still verifies, so entries cut off
  at the front or at the end go unnoticed, and so does any change of the sequence numbers and timestamps of
  its entries, which no hash covers.\<close>

theorem audit_verifier_blind_spots:
  assumes "vp_valid (verify_chain sha es)"
  shows "vp_valid (verify_chain sha (drop m (take n es))) \<and>
    vp_valid (verify_chain sha (map (\<lambda>e. e\<lparr>cn_seq := f e, cn_timestamp_ms := g e\<rparr>) es))"
proof
  have "es = take m (take n es) @ drop m (take n es) @ drop n es"
    by (metis append_assoc append_take_drop_id)
  with assms show "vp_valid (verify_chain sha (drop m (take n es)))" by (metis verify_segment)
  have "first_break sha p (map (\<lambda>e. e\<lparr>cn_seq := f e, cn_timestamp_ms := g e\<rparr>) es) = None"
    if "first_break sha p es = None" for p
    using that by (induction sha p es rule: first_break.induct) (auto split: if_splits)
  then show "vp_valid (verify_chain sha (map (\<lambda>e. e\<lparr>cn_seq := f e, cn_timestamp_ms := g e\<rparr>) es))"
    using assms by (cases "es = []") (simp_all add: verify_chain_valid hd_map)
qed

theorem audit_verifier_blind_spots_witness:
  "vp_valid (verify_chain (\<lambda>x. x) [(one_entry (\<lambda>x. x))\<lparr>cn_seq := 8, cn_timestamp_ms := 0\<rparr>])"
  using audit_verifier_blind_spots [of "\<lambda>x. x" "[one_entry (\<lambda>x. x)]" 0 1 "\<lambda>_. 8" "\<lambda>_. 0"]
  by (simp add: one_entry_def verify_chain_def Let_def)

end
