(* ===== verification/Trusted_Telemetry.thy ===== *)
theory Trusted_Telemetry
  imports Schedule_Guard SM3 Ordered_Map
begin

text \<open>
  The trust evaluator of telemetry (\<open>crates/ai/safety-validator/src/trusted.rs\<close>): raw samples become
  the state a control decision may rest on only when every required point has exactly one sample and
  each of those passes every check. Indexing the values by a bound point that no requirement covers
  panics in the code: that is the result \<open>None\<close>.
\<close>

section \<open>Data\<close>

datatype quality_reason =
  QrStale | QrOutOfRange | QrNotFinite | QrReplay | QrSourceConflict | QrMappingStale | QrBadUnit
  | QrIntegrityFailure | QrCapabilityMissing | QrSourceEpochMismatch

datatype sample_quality = SqGood | SqSuspect quality_reason | SqBad quality_reason | SqUnknown

definition is_usable :: "sample_quality \<Rightarrow> bool" where
  "is_usable q = (q = SqGood)"

datatype integrity_status = Verified | Unverified | Unverifiable

datatype point_unit =
  UnitVolt | UnitAmpere | UnitHertz | UnitRatio | UnitPercent | UnitWatt | UnitKilowatt | UnitOther

record telemetry_sample =
  ts_point :: u32
  ts_value :: f64
  ts_source :: u32
  ts_source_epoch :: u64
  ts_measured_at_ms :: u64
  ts_received_at_ms :: u64
  ts_quality :: sample_quality
  ts_sequence :: u64
  ts_integrity :: integrity_status
  ts_mapping_version :: u64

record required_point =
  rp_point :: u32
  rp_min :: f64
  rp_max :: f64
  rp_max_age_ms :: u64
  rp_unit :: point_unit

type_synonym coverage = "required_point list"

definition cov_find :: "coverage \<Rightarrow> u32 \<Rightarrow> required_point option" where
  "cov_find ps point = find (\<lambda>p. rp_point p = point) ps"

record state_bindings =
  sb_voltage :: u32
  sb_current :: u32
  sb_frequency :: u32
  sb_soc :: u32

record evaluator_config =
  ec_coverage :: coverage
  ec_bindings :: state_bindings
  ec_mapping_version :: u64
  ec_max_skew_ms :: u64
  ec_allowed_sources :: "u32 list"
  ec_require_integrity :: bool
  ec_control_horizon_ms :: u64

record trusted_telemetry =
  tt_state :: system_state
  tt_coverage :: coverage
  tt_valid_until_ms :: u64
  tt_provenance_digest :: bytes
  tt_generated_at_ms :: u64
  tt_source_epoch :: u64
  tt_mapping_version :: u64
  tt_samples :: "(u32, f64) btree"

definition is_valid_at :: "trusted_telemetry \<Rightarrow> u64 \<Rightarrow> bool" where
  "is_valid_at t now_ms = (now_ms \<le> tt_valid_until_ms t)"

datatype trust_rejection =
  TrNoSamples
  | TrMissingPoints "u32 list"
  | TrStale u32 u64 u64
  | TrBadQuality u32 sample_quality
  | TrNotFinite u32
  | TrOutOfRange u32 f64 f64 f64
  | TrReplay u32 u64 u64
  | TrSourceConflict u32 "u32 list"
  | TrUnknownSource u32 u32
  | TrSourceEpochMismatch u32 u64 u64
  | TrMappingStale u32 u64 u64
  | TrIntegrityFailure u32 integrity_status
  | TrClockNotMonotonic u64 u64

record evaluator =
  ev_config :: evaluator_config
  ev_last_sequences :: "(u32, u64) btree"
  ev_last_received_at_ms :: u64
  ev_epoch :: u64

section \<open>Operations\<close>

definition ev_new :: "evaluator_config \<Rightarrow> evaluator" where
  "ev_new config = \<lparr>ev_config = config, ev_last_sequences = bt_empty, ev_last_received_at_ms = 0, ev_epoch = 0\<rparr>"

definition advance_epoch :: "evaluator \<Rightarrow> evaluator" where
  "advance_epoch e = e\<lparr>ev_epoch := saturating_add (ev_epoch e) 1\<rparr>"

definition ev_restore :: "evaluator \<Rightarrow> u64 \<Rightarrow> u64 \<Rightarrow> (u32, u64) btree \<Rightarrow> evaluator" where
  "ev_restore e epoch last_received_at_ms last_sequences =
     e\<lparr>ev_epoch := epoch, ev_last_received_at_ms := last_received_at_ms, ev_last_sequences := last_sequences\<rparr>"

fun quality_code :: "sample_quality \<Rightarrow> u8" where
  "quality_code SqGood = 0"
| "quality_code (SqSuspect _) = 1"
| "quality_code (SqBad _) = 2"
| "quality_code SqUnknown = 3"

fun integrity_code :: "integrity_status \<Rightarrow> u8" where
  "integrity_code Verified = 0"
| "integrity_code Unverified = 1"
| "integrity_code Unverifiable = 2"

definition put_sample :: "bytes \<Rightarrow> nat \<times> telemetry_sample \<Rightarrow> bytes" where
  "put_sample buf = (\<lambda>(i, s).
     (let base = 16 + i * 56;
          buf = put buf base (le_bytes 4 (ts_point s));
          buf = put buf (base + 4) (le_bytes 8 (ts_value s));
          buf = put buf (base + 12) (le_bytes 4 (ts_source s));
          buf = put buf (base + 16) (le_bytes 8 (ts_source_epoch s));
          buf = put buf (base + 24) (le_bytes 8 (ts_measured_at_ms s));
          buf = put buf (base + 32) (le_bytes 8 (ts_sequence s));
          buf = put buf (base + 40) [quality_code (ts_quality s)];
          buf = put buf (base + 41) [integrity_code (ts_integrity s)]
      in put buf (base + 48) (le_bytes 8 (ts_mapping_version s))))"

definition provenance_buf :: "telemetry_sample list \<Rightarrow> u64 \<Rightarrow> u64 \<Rightarrow> bytes" where
  "provenance_buf samples mapping_version epoch =
     (let buf = zeros (8 + 8 + 56 * length samples);
          buf = put buf 0 (le_bytes 8 mapping_version);
          buf = put buf 8 (le_bytes 8 epoch)
      in foldl put_sample buf (enumerate 0 samples))"

definition provenance_digest :: "telemetry_sample list \<Rightarrow> u64 \<Rightarrow> u64 \<Rightarrow> bytes" where
  "provenance_digest samples mapping_version epoch = sm3_hash (provenance_buf samples mapping_version epoch)"

text \<open>Check 1: receipt times do not go back, and do not spread over more than the skew.\<close>

definition check_clock :: "evaluator \<Rightarrow> telemetry_sample list \<Rightarrow> trust_rejection + u64" where
  "check_clock e samples =
     (case find (\<lambda>s. ts_received_at_ms s < ev_last_received_at_ms e) samples of
        Some s \<Rightarrow> Inl (TrClockNotMonotonic (ts_received_at_ms s) (ev_last_received_at_ms e))
      | None \<Rightarrow>
        (let hi = fold (\<lambda>s m. max m (ts_received_at_ms s)) samples 0;
             lo = Min (set (map ts_received_at_ms samples))
         in if ec_max_skew_ms (ev_config e) < saturating_sub hi lo then Inl (TrClockNotMonotonic hi lo)
            else Inr hi))"

text \<open>Check 2: one sample per required point.\<close>

fun collect ::
  "evaluator \<Rightarrow> telemetry_sample list \<Rightarrow> (u32, telemetry_sample) btree \<Rightarrow>
     trust_rejection + (u32, telemetry_sample) btree" where
  "collect e [] m = Inr m"
| "collect e (s # ss) m =
     (if cov_find (ec_coverage (ev_config e)) (ts_point s) = None then collect e ss m
      else case bt_get m (ts_point s) of
             None \<Rightarrow> collect e ss (bt_insert m (ts_point s) s)
           | Some prev \<Rightarrow>
             if ts_source prev \<noteq> ts_source s
             then Inl (TrSourceConflict (ts_point s) [ts_source prev, ts_source s])
             else Inl (TrReplay (ts_point s) (ts_sequence s)
               (case bt_get (ev_last_sequences e) (ts_point s) of
                  Some n \<Rightarrow> n | None \<Rightarrow> saturating_sub (ts_sequence s) 1)))"

text \<open>Check 3: the sample of one requirement.\<close>

definition check_sample :: "evaluator \<Rightarrow> u64 \<Rightarrow> required_point \<Rightarrow> telemetry_sample \<Rightarrow> trust_rejection option" where
  "check_sample e now_ms req s =
     (let cfg = ev_config e; p = rp_point req in
      if ts_source s \<notin> set (ec_allowed_sources cfg) then Some (TrUnknownSource p (ts_source s))
      else if ts_source_epoch s \<noteq> ev_epoch e then Some (TrSourceEpochMismatch p (ts_source_epoch s) (ev_epoch e))
      else if ts_mapping_version s \<noteq> ec_mapping_version cfg
           then Some (TrMappingStale p (ts_mapping_version s) (ec_mapping_version cfg))
      else if \<not> is_usable (ts_quality s) then Some (TrBadQuality p (ts_quality s))
      else if ec_require_integrity cfg \<and> ts_integrity s \<noteq> Verified then Some (TrIntegrityFailure p (ts_integrity s))
      else if \<not> f64_is_finite (ts_value s) then Some (TrNotFinite p)
      else if f64_lt (ts_value s) (rp_min req) \<or> f64_lt (rp_max req) (ts_value s)
           then Some (TrOutOfRange p (ts_value s) (rp_min req) (rp_max req))
      else let age = saturating_sub now_ms (ts_measured_at_ms s) in
           if rp_max_age_ms req < age then Some (TrStale p age (rp_max_age_ms req))
           else let last_seq = (case bt_get (ev_last_sequences e) p of Some n \<Rightarrow> n | None \<Rightarrow> 0) in
                if ts_sequence s \<le> last_seq then Some (TrReplay p (ts_sequence s) last_seq)
                else None)"

fun check_points ::
  "evaluator \<Rightarrow> u64 \<Rightarrow> (u32, telemetry_sample) btree \<Rightarrow> required_point list \<Rightarrow> (u32, f64) btree \<Rightarrow>
     (trust_rejection + (u32, f64) btree) option" where
  "check_points e now_ms m [] vals = Some (Inr vals)"
| "check_points e now_ms m (req # reqs) vals =
     (case bt_get m (rp_point req) of
        None \<Rightarrow> None
      | Some s \<Rightarrow>
        (case check_sample e now_ms req s of
           Some r \<Rightarrow> Some (Inl r)
         | None \<Rightarrow> check_points e now_ms m reqs (bt_insert vals (rp_point req) (ts_value s))))"

text \<open>Check 4: the state, from the bound points.\<close>

definition bound_state :: "state_bindings \<Rightarrow> (u32, f64) btree \<Rightarrow> u64 \<Rightarrow> system_state option" where
  "bound_state b vals now_ms =
     (case (bt_get vals (sb_voltage b), bt_get vals (sb_current b), bt_get vals (sb_frequency b), bt_get vals (sb_soc b)) of
        (Some v, Some c, Some f, Some q) \<Rightarrow>
          Some \<lparr>ss_voltage_v = v, ss_current_a = c, ss_frequency_hz = f, ss_soc_pct = q, ss_timestamp_ms = now_ms\<rparr>
      | _ \<Rightarrow> None)"

definition ev_advance :: "evaluator \<Rightarrow> u64 \<Rightarrow> (u32, telemetry_sample) btree \<Rightarrow> evaluator" where
  "ev_advance e received m =
     e\<lparr>ev_last_received_at_ms := received,
       ev_last_sequences := fold (\<lambda>(p, s) q. bt_insert q p (ts_sequence s)) m (ev_last_sequences e)\<rparr>"

definition evaluate ::
  "evaluator \<Rightarrow> telemetry_sample list \<Rightarrow> u64 \<Rightarrow> (evaluator \<times> (trust_rejection + trusted_telemetry)) option" where
  "evaluate e samples now_ms =
     (if samples = [] then Some (e, Inl TrNoSamples)
      else case check_clock e samples of
        Inl r \<Rightarrow> Some (e, Inl r)
      | Inr received \<Rightarrow>
        (case collect e samples bt_empty of
           Inl r \<Rightarrow> Some (e, Inl r)
         | Inr m \<Rightarrow>
           (let cfg = ev_config e;
                missing = filter (\<lambda>p. \<not> bt_contains m p) (map rp_point (ec_coverage cfg))
            in if missing \<noteq> [] then Some (e, Inl (TrMissingPoints missing))
               else case check_points e now_ms m (ec_coverage cfg) bt_empty of
                 None \<Rightarrow> None
               | Some (Inl r) \<Rightarrow> Some (e, Inl r)
               | Some (Inr vals) \<Rightarrow>
                 (case bound_state (ec_bindings cfg) vals now_ms of
                    None \<Rightarrow> None
                  | Some state \<Rightarrow>
                    Some (ev_advance e received m,
                      Inr \<lparr>tt_state = state, tt_coverage = ec_coverage cfg,
                        tt_valid_until_ms = saturating_add now_ms (ec_control_horizon_ms cfg),
                        tt_provenance_digest = provenance_digest samples (ec_mapping_version cfg) (ev_epoch e),
                        tt_generated_at_ms = now_ms, tt_source_epoch = ev_epoch e,
                        tt_mapping_version = ec_mapping_version cfg, tt_samples = vals\<rparr>)))))"

section \<open>Specification\<close>

text \<open>A sample that may stand for a required point.\<close>

definition sample_ok :: "evaluator \<Rightarrow> u64 \<Rightarrow> required_point \<Rightarrow> telemetry_sample \<Rightarrow> bool" where
  "sample_ok e now_ms req s \<longleftrightarrow>
     ts_source s \<in> set (ec_allowed_sources (ev_config e)) \<and> ts_source_epoch s = ev_epoch e \<and>
     ts_mapping_version s = ec_mapping_version (ev_config e) \<and> ts_quality s = SqGood \<and>
     (ec_require_integrity (ev_config e) \<longrightarrow> ts_integrity s = Verified) \<and>
     f64_is_finite (ts_value s) \<and> \<not> f64_lt (ts_value s) (rp_min req) \<and> \<not> f64_lt (rp_max req) (ts_value s) \<and>
     unat now_ms \<le> unat (ts_measured_at_ms s) + unat (rp_max_age_ms req) \<and>
     (\<forall>n. bt_get (ev_last_sequences e) (rp_point req) = Some n \<longrightarrow> n < ts_sequence s) \<and> 0 < ts_sequence s"

text \<open>The samples of a point, and a snapshot in which every required point has one sample that may
  stand for it.\<close>

definition samples_of :: "telemetry_sample list \<Rightarrow> u32 \<Rightarrow> telemetry_sample list" where
  "samples_of samples p = filter (\<lambda>s. ts_point s = p) samples"

definition trustworthy :: "evaluator \<Rightarrow> telemetry_sample list \<Rightarrow> u64 \<Rightarrow> bool" where
  "trustworthy e samples now_ms \<longleftrightarrow>
     samples \<noteq> [] \<and>
     (\<forall>a \<in> set samples. ev_last_received_at_ms e \<le> ts_received_at_ms a \<and>
        (\<forall>b \<in> set samples. unat (ts_received_at_ms a) \<le> unat (ts_received_at_ms b) + unat (ec_max_skew_ms (ev_config e)))) \<and>
     (\<forall>req \<in> set (ec_coverage (ev_config e)). \<exists>s. samples_of samples (rp_point req) = [s] \<and> sample_ok e now_ms req s)"

definition required :: "evaluator \<Rightarrow> u32 \<Rightarrow> bool" where
  "required e p \<longleftrightarrow> p \<in> rp_point ` set (ec_coverage (ev_config e))"

definition bindings_required :: "evaluator \<Rightarrow> bool" where
  "bindings_required e \<longleftrightarrow>
     (let b = ec_bindings (ev_config e)
      in list_all (required e) [sb_voltage b, sb_current b, sb_frequency b, sb_soc b])"

text \<open>The value a snapshot gives a point.\<close>

definition value_at :: "evaluator \<Rightarrow> telemetry_sample list \<Rightarrow> u32 \<Rightarrow> f64 option" where
  "value_at e samples p = (if required e p then map_option ts_value (find (\<lambda>s. ts_point s = p) samples) else None)"

section \<open>Lemmas\<close>

lemma cov_find_None: "cov_find (ec_coverage (ev_config e)) p = None \<longleftrightarrow> \<not> required e p"
  by (auto simp: cov_find_def required_def find_None_iff)

lemma check_sample_None: "check_sample e now req s = None \<longleftrightarrow> sample_ok e now req s"
  by (auto simp: check_sample_def sample_ok_def is_usable_def Let_def not_le not_less word_le_nat_alt
      unat_saturating_sub word_less_nat_alt split: option.splits)

lemma samples_of_Cons: "samples_of (s # ss) p = (if ts_point s = p then s # samples_of ss p else samples_of ss p)"
  by (simp add: samples_of_def)

lemma find_samples_of: "find (\<lambda>s. ts_point s = p) ss = (case samples_of ss p of [] \<Rightarrow> None | s # _ \<Rightarrow> Some s)"
  by (induction ss) (auto simp: samples_of_def)

lemma collect_Inr:
  "collect e ss m = Inr m' \<Longrightarrow>
     bt_get m' p = (if required e p \<and> bt_get m p = None then find (\<lambda>s. ts_point s = p) ss else bt_get m p)"
proof (induction ss arbitrary: m)
  case (Cons s ss)
  show ?case
  proof (cases "required e (ts_point s)")
    case True
    with Cons.prems have "bt_get m (ts_point s) = None" "collect e ss (bt_insert m (ts_point s) s) = Inr m'"
      by (auto simp: cov_find_None split: option.splits if_splits)
    from Cons.IH [OF this(2)] this(1) True show ?thesis by auto
  next
    case False
    with Cons.prems have "collect e ss m = Inr m'" by (simp add: cov_find_None)
    from Cons.IH [OF this] False show ?thesis by auto
  qed
qed simp

text \<open>Collection succeeds when no required point has two samples.\<close>

lemma collect_ok_iff:
  "(\<exists>m'. collect e ss m = Inr m') \<longleftrightarrow>
     (\<forall>p. required e p \<longrightarrow> length (samples_of ss p) + (if bt_get m p = None then 0 else 1) \<le> 1)"
proof (induction ss arbitrary: m)
  case Nil
  show ?case by (simp add: samples_of_def)
next
  case (Cons s ss)
  let ?p = "ts_point s"
  show ?case
  proof (cases "required e ?p")
    case False
    with Cons.IH [of m] show ?thesis by (auto simp: cov_find_None samples_of_Cons)
  next
    case True
    show ?thesis
    proof (cases "bt_get m ?p")
      case None
      then have "(\<exists>m'. collect e (s # ss) m = Inr m') \<longleftrightarrow> (\<exists>m'. collect e ss (bt_insert m ?p s) = Inr m')"
        using True by (simp add: cov_find_None)
      also have "\<dots> \<longleftrightarrow> (\<forall>p. required e p \<longrightarrow>
          length (samples_of (s # ss) p) + (if bt_get m p = None then 0 else 1) \<le> 1)"
        unfolding Cons.IH using None by (auto simp: samples_of_Cons intro: le_SucI)
      finally show ?thesis .
    next
      case (Some prev)
      then have "\<nexists>m'. collect e (s # ss) m = Inr m'" using True by (auto simp: cov_find_None)
      moreover have "\<not> length (samples_of (s # ss) ?p) + (if bt_get m ?p = None then 0 else 1) \<le> 1"
        using Some by (simp add: samples_of_Cons)
      ultimately show ?thesis using True by blast
    qed
  qed
qed

lemma check_points_total:
  assumes "\<And>req. req \<in> set reqs \<Longrightarrow> bt_get m (rp_point req) \<noteq> None"
  shows "check_points e now m reqs vals \<noteq> None"
  using assms
proof (induction reqs arbitrary: vals)
  case (Cons req reqs)
  then obtain s where "bt_get m (rp_point req) = Some s" by force
  with Cons show ?case by (cases "check_sample e now req s") auto
qed simp

lemma check_points_Inr:
  "check_points e now m reqs vals = Some (Inr vs) \<Longrightarrow>
     bt_get vs p = (if p \<in> rp_point ` set reqs then map_option ts_value (bt_get m p) else bt_get vals p)"
proof (induction reqs arbitrary: vals)
  case (Cons req reqs)
  then obtain s where s: "bt_get m (rp_point req) = Some s"
    "check_points e now m reqs (bt_insert vals (rp_point req) (ts_value s)) = Some (Inr vs)"
    by (auto split: option.splits)
  from Cons.IH [OF s(2)] s(1) show ?case by (cases "p = rp_point req") simp_all
qed simp

lemma check_points_ok_iff:
  "(\<exists>vs. check_points e now m reqs vals = Some (Inr vs)) \<longleftrightarrow>
     list_all (\<lambda>req. \<exists>s. bt_get m (rp_point req) = Some s \<and> sample_ok e now req s) reqs"
proof (induction reqs arbitrary: vals)
  case (Cons req reqs)
  show ?case
  proof (cases "bt_get m (rp_point req)")
    case (Some s)
    then show ?thesis using Cons.IH by (cases "check_sample e now req s") (simp_all flip: check_sample_None)
  qed simp
qed simp

lemma fold_max_ge: "m \<le> fold (\<lambda>s m. max m (f s)) ss (m :: u64)"
proof (induction ss arbitrary: m)
  case (Cons s ss)
  have "m \<le> max m (f s)" by simp
  also note Cons.IH [of "max m (f s)"]
  finally show ?case by simp
qed simp

lemma fold_max: "s \<in> set ss \<Longrightarrow> f s \<le> fold (\<lambda>s m. max m (f s)) ss (m :: u64)"
proof (induction ss arbitrary: m)
  case (Cons t ss)
  have "f t \<le> max m (f t)" by simp
  also have "\<dots> \<le> fold (\<lambda>s m. max m (f s)) ss (max m (f t))" by (rule fold_max_ge)
  finally have t: "f t \<le> fold (\<lambda>s m. max m (f s)) ss (max m (f t))" .
  show ?case
  proof (cases "s = t")
    case True
    with t show ?thesis by simp
  next
    case False
    with Cons.prems Cons.IH show ?thesis by simp
  qed
qed simp

lemma fold_max_mem: "fold (\<lambda>s m. max m (f s)) ss (m :: u64) \<in> insert m (f ` set ss)"
proof (induction ss arbitrary: m)
  case (Cons s ss)
  from Cons.IH [of "max m (f s)"] show ?case by (auto simp: max_def split: if_splits)
qed simp

lemma check_clock_iff:
  assumes "ss \<noteq> []"
  shows "\<not> isl (check_clock e ss) \<longleftrightarrow>
    (\<forall>a \<in> set ss. ev_last_received_at_ms e \<le> ts_received_at_ms a \<and>
      (\<forall>b \<in> set ss. unat (ts_received_at_ms a) \<le> unat (ts_received_at_ms b) + unat (ec_max_skew_ms (ev_config e))))"
proof (cases "find (\<lambda>s. ts_received_at_ms s < ev_last_received_at_ms e) ss")
  case (Some s)
  then have "s \<in> set ss" "ts_received_at_ms s < ev_last_received_at_ms e" by (auto simp: find_Some_iff)
  then show ?thesis using Some by (auto simp: check_clock_def not_le)
next
  case None
  then have low: "\<forall>a \<in> set ss. ev_last_received_at_ms e \<le> ts_received_at_ms a" by (auto simp: find_None_iff not_less)
  define hi where "hi = fold (\<lambda>s m. max m (ts_received_at_ms s)) ss 0"
  define lo where "lo = Min (set (map ts_received_at_ms ss))"
  have "hi \<in> insert 0 (ts_received_at_ms ` set ss)" unfolding hi_def by (rule fold_max_mem)
  moreover have ge: "ts_received_at_ms s \<le> hi" if "s \<in> set ss" for s unfolding hi_def using that by (rule fold_max)
  ultimately have "hi \<in> ts_received_at_ms ` set ss"
    using assms by (metis imageI insertE last_in_set word_zero_le order_antisym)
  then obtain a where a: "a \<in> set ss" "hi = ts_received_at_ms a" by auto
  have "lo \<in> ts_received_at_ms ` set ss" unfolding lo_def using assms by (metis Min_in List.finite_set set_empty map_is_Nil_conv set_map)
  then obtain b where b: "b \<in> set ss" "lo = ts_received_at_ms b" by auto
  have le: "lo \<le> ts_received_at_ms s" if "s \<in> set ss" for s unfolding lo_def using that by (intro Min_le) auto
  have "\<not> isl (check_clock e ss) \<longleftrightarrow> unat hi \<le> unat lo + unat (ec_max_skew_ms (ev_config e))"
    using None by (auto simp: check_clock_def hi_def lo_def Let_def word_less_nat_alt unat_saturating_sub not_less)
  also have "\<dots> \<longleftrightarrow> (\<forall>a \<in> set ss. \<forall>b \<in> set ss. unat (ts_received_at_ms a) \<le> unat (ts_received_at_ms b) + unat (ec_max_skew_ms (ev_config e)))"
  proof
    assume h: "unat hi \<le> unat lo + unat (ec_max_skew_ms (ev_config e))"
    show "\<forall>a \<in> set ss. \<forall>b \<in> set ss. unat (ts_received_at_ms a) \<le> unat (ts_received_at_ms b) + unat (ec_max_skew_ms (ev_config e))"
    proof (intro ballI)
      fix x y assume "x \<in> set ss" "y \<in> set ss"
      from ge [OF this(1)] le [OF this(2)] h
      show "unat (ts_received_at_ms x) \<le> unat (ts_received_at_ms y) + unat (ec_max_skew_ms (ev_config e))"
        by (simp add: word_le_nat_alt)
    qed
  qed (use a b in auto)
  finally show ?thesis using low by auto
qed

lemma le_saturating_add: "a \<le> saturating_add b c \<longleftrightarrow> unat a \<le> unat b + unat (c :: u64)"
proof (cases "unat b + unat c < 2 ^ 64")
  case True
  then show ?thesis by (simp add: saturating_add_def word_le_nat_alt unat_word_ariths)
next
  case False
  moreover have "unat a < 2 ^ 64" using unsigned_less [of a, where ?'a = nat] by simp
  ultimately show ?thesis by (simp add: saturating_add_def)
qed

lemma evaluate_rejects: "evaluate e ss now = Some (e', Inl r) \<Longrightarrow> e' = e"
  by (auto simp: evaluate_def Let_def split: if_splits sum.splits option.splits)

lemma evaluate_InrD:
  assumes "evaluate e ss now = Some (e', Inr t)"
  obtains received m where "ss \<noteq> []" "check_clock e ss = Inr received" "collect e ss bt_empty = Inr m"
    "filter (\<lambda>p. \<not> bt_contains m p) (map rp_point (ec_coverage (ev_config e))) = []"
    "check_points e now m (ec_coverage (ev_config e)) bt_empty = Some (Inr (tt_samples t))"
    "bound_state (ec_bindings (ev_config e)) (tt_samples t) now = Some (tt_state t)"
    "e' = ev_advance e received m"
    "tt_valid_until_ms t = saturating_add now (ec_control_horizon_ms (ev_config e))"
    "tt_provenance_digest t = provenance_digest ss (ec_mapping_version (ev_config e)) (ev_epoch e)"
  using assms by (auto simp: evaluate_def Let_def split: if_splits sum.splits option.splits)

text \<open>The map of collected samples, for a snapshot of one sample per required point.\<close>

lemma collected:
  assumes "collect e ss bt_empty = Inr m"
  shows "bt_get m p = (if required e p then find (\<lambda>s. ts_point s = p) ss else None)"
  using collect_Inr [OF assms, of p] by auto

lemma collected_one:
  assumes "collect e ss bt_empty = Inr m" and "required e p"
  shows "bt_get m p = Some s \<longleftrightarrow> samples_of ss p = [s]"
proof -
  have "length (samples_of ss p) \<le> 1" using collect_ok_iff [of e ss bt_empty] assms by auto
  then show ?thesis
    using assms(2) unfolding collected [OF assms(1)] find_samples_of by (auto split: list.splits simp: le_Suc_eq)
qed

lemma bound_state_Some:
  "(\<exists>st. bound_state b vals now = Some st) \<longleftrightarrow>
     list_all (\<lambda>p. bt_get vals p \<noteq> None) [sb_voltage b, sb_current b, sb_frequency b, sb_soc b]"
  by (auto simp: bound_state_def split: option.splits)

lemma evaluate_trustworthy:
  assumes "evaluate e ss now = Some (e', Inr t)"
  shows "trustworthy e ss now" and "bt_get (tt_samples t) p = value_at e ss p"
proof -
  from assms obtain received m where ne: "ss \<noteq> []" and ck: "check_clock e ss = Inr received"
    and m: "collect e ss bt_empty = Inr m"
    and pts: "check_points e now m (ec_coverage (ev_config e)) bt_empty = Some (Inr (tt_samples t))"
    by (rule evaluate_InrD)
  have "list_all (\<lambda>req. \<exists>s. bt_get m (rp_point req) = Some s \<and> sample_ok e now req s) (ec_coverage (ev_config e))"
    using pts check_points_ok_iff by blast
  then have "\<forall>req \<in> set (ec_coverage (ev_config e)). \<exists>s. samples_of ss (rp_point req) = [s] \<and> sample_ok e now req s"
    using collected_one [OF m] by (auto simp: list_all_iff required_def)
  moreover have "\<not> isl (check_clock e ss)" using ck by simp
  ultimately show "trustworthy e ss now" using ne check_clock_iff [OF ne, of e] by (simp add: trustworthy_def)
  show "bt_get (tt_samples t) p = value_at e ss p"
    using check_points_Inr [OF pts, of p] collected [OF m, of p] by (auto simp: value_at_def required_def)
qed

lemma trustworthy_evaluate:
  assumes "trustworthy e ss now" and "bindings_required e"
  shows "\<exists>e' t. evaluate e ss now = Some (e', Inr t)"
proof -
  have ne: "ss \<noteq> []" using assms(1) by (simp add: trustworthy_def)
  have "\<not> isl (check_clock e ss)" using assms(1) unfolding check_clock_iff [OF ne] trustworthy_def by blast
  then obtain received where ck: "check_clock e ss = Inr received" by (cases "check_clock e ss") auto
  have one: "\<exists>s. samples_of ss (rp_point req) = [s] \<and> sample_ok e now req s"
    if "req \<in> set (ec_coverage (ev_config e))" for req using assms(1) that by (simp add: trustworthy_def)
  have "\<exists>m'. collect e ss bt_empty = Inr m'"
    unfolding collect_ok_iff using one by (force simp: required_def)
  then obtain m where m: "collect e ss bt_empty = Inr m" by blast
  have get: "\<exists>s. bt_get m (rp_point req) = Some s \<and> sample_ok e now req s" if "req \<in> set (ec_coverage (ev_config e))" for req
    using one [OF that] collected_one [OF m] that by (auto simp: required_def)
  then have miss: "filter (\<lambda>p. \<not> bt_contains m p) (map rp_point (ec_coverage (ev_config e))) = []"
    by (force simp: filter_empty_conv bt_contains_def)
  have "\<exists>vs. check_points e now m (ec_coverage (ev_config e)) bt_empty = Some (Inr vs)"
    unfolding check_points_ok_iff using get by (simp add: list_all_iff)
  then obtain vs where vs: "check_points e now m (ec_coverage (ev_config e)) bt_empty = Some (Inr vs)" by blast
  have "bt_get vs p \<noteq> None" if "required e p" for p
    using check_points_Inr [OF vs, of p] get that by (force simp: required_def)
  then have "\<exists>st. bound_state (ec_bindings (ev_config e)) vs now = Some st"
    unfolding bound_state_Some using assms(2) by (simp add: bindings_required_def Let_def)
  then show ?thesis using ne ck m miss vs by (auto simp: evaluate_def Let_def)
qed

lemma evaluate_total:
  assumes "bindings_required e"
  shows "evaluate e ss now \<noteq> None"
proof (cases "trustworthy e ss now")
  case True
  then show ?thesis using trustworthy_evaluate [OF _ assms] by force
next
  case False
  show ?thesis
  proof (cases "check_clock e ss")
    case (Inr received)
    show ?thesis
    proof (cases "collect e ss bt_empty")
      case coll: (Inr m)
      show ?thesis
      proof (cases "filter (\<lambda>p. \<not> bt_contains m p) (map rp_point (ec_coverage (ev_config e))) = []")
        case True
        then have get: "bt_get m (rp_point req) \<noteq> None" if "req \<in> set (ec_coverage (ev_config e))" for req
          using that by (auto simp: filter_empty_conv bt_contains_def)
        then obtain r where r: "check_points e now m (ec_coverage (ev_config e)) bt_empty = Some r"
          using check_points_total by blast
        show ?thesis
        proof (cases r)
          case (Inr vs)
          have "bt_get vs p \<noteq> None" if "required e p" for p
            using check_points_Inr [of e now m _ bt_empty vs p] r Inr get that by (force simp: required_def)
          then have "\<exists>st. bound_state (ec_bindings (ev_config e)) vs now = Some st"
            unfolding bound_state_Some using assms by (simp add: bindings_required_def Let_def)
          then show ?thesis using \<open>check_clock e ss = Inr received\<close> coll True r Inr by (auto simp: evaluate_def Let_def)
        qed (use \<open>check_clock e ss = Inr received\<close> coll True r in \<open>auto simp: evaluate_def Let_def\<close>)
      qed (use Inr coll in \<open>auto simp: evaluate_def Let_def\<close>)
    qed (use Inr in \<open>auto simp: evaluate_def Let_def\<close>)
  qed (auto simp: evaluate_def Let_def)
qed

text \<open>C13. The telemetry trust evaluator, whose bound points are required points, never panics. It turns
  a snapshot into trusted telemetry exactly when the snapshot is trustworthy: it is not empty, no
  receipt time lies before the last accepted one or apart from another by more than the skew, and
  every required point has exactly one sample, which comes from an allowed source in the current
  epoch, under the current mapping version, of good quality, authenticated where that is required,
  finite, in range, fresh, and with a sequence number above the last accepted one of that point. The
  telemetry then holds the value of each required point and nothing else, and is valid up to the
  control horizon; a rejected snapshot leaves the evaluator as it was.\<close>

theorem telemetry_trusted_iff:
  assumes "bindings_required e"
  shows "\<exists>e' r. evaluate e samples now = Some (e', r) \<and>
    (\<not> isl r \<longleftrightarrow> trustworthy e samples now) \<and>
    (case r of
       Inl _ \<Rightarrow> e' = e
     | Inr t \<Rightarrow> (\<forall>p. bt_get (tt_samples t) p = value_at e samples p) \<and>
         (\<forall>at. is_valid_at t at \<longleftrightarrow> unat at \<le> unat now + unat (ec_control_horizon_ms (ev_config e))))"
proof -
  from evaluate_total [OF assms] obtain e' r where r: "evaluate e samples now = Some (e', r)" by force
  show ?thesis
  proof (cases r)
    case (Inl j)
    moreover have "\<not> trustworthy e samples now" using trustworthy_evaluate [OF _ assms] r Inl by fastforce
    ultimately show ?thesis using r evaluate_rejects by auto
  next
    case (Inr t)
    then have ev: "evaluate e samples now = Some (e', Inr t)" using r by simp
    have "tt_valid_until_ms t = saturating_add now (ec_control_horizon_ms (ev_config e))"
      using ev by (rule evaluate_InrD)
    then have "is_valid_at t at \<longleftrightarrow> unat at \<le> unat now + unat (ec_control_horizon_ms (ev_config e))" for at
      by (simp add: is_valid_at_def le_saturating_add)
    with r Inr evaluate_trustworthy [OF ev] show ?thesis by auto
  qed
qed

text \<open>A site with two required points, 7 (a voltage) and 9 (a frequency), and a snapshot of them.\<close>

definition site_config :: evaluator_config where
  "site_config =
     \<lparr>ec_coverage = [\<lparr>rp_point = 7, rp_min = f64_0, rp_max = f64_1000, rp_max_age_ms = 5000, rp_unit = UnitVolt\<rparr>,
        \<lparr>rp_point = 9, rp_min = f64_0, rp_max = f64_100, rp_max_age_ms = 5000, rp_unit = UnitHertz\<rparr>],
      ec_bindings = \<lparr>sb_voltage = 7, sb_current = 9, sb_frequency = 9, sb_soc = 9\<rparr>, ec_mapping_version = 1,
      ec_max_skew_ms = 1000, ec_allowed_sources = [1], ec_require_integrity = True, ec_control_horizon_ms = 2000\<rparr>"

definition site_sample :: "u32 \<Rightarrow> f64 \<Rightarrow> u64 \<Rightarrow> telemetry_sample" where
  "site_sample p v n =
     \<lparr>ts_point = p, ts_value = v, ts_source = 1, ts_source_epoch = 0, ts_measured_at_ms = 900,
      ts_received_at_ms = 950, ts_quality = SqGood, ts_sequence = n, ts_integrity = Verified, ts_mapping_version = 1\<rparr>"

lemma site_bindings: "bindings_required (ev_new site_config)"
  by (simp add: bindings_required_def required_def ev_new_def site_config_def)

lemma site_trustworthy: "trustworthy (ev_new site_config) [site_sample 7 f64_600 1, site_sample 9 f64_1 1] 1000"
  by (simp add: trustworthy_def samples_of_def sample_ok_def ev_new_def site_config_def site_sample_def
      f64_is_finite_def f64_ex_def f64_lt_def f64_key_def f64_is_nan_def)

theorem telemetry_trusted_iff_witness:
  "bindings_required (ev_new site_config) \<and>
   (\<exists>e' t. evaluate (ev_new site_config) [site_sample 7 f64_600 1, site_sample 9 f64_1 1] 1000 = Some (e', Inr t) \<and>
      bt_get (tt_samples t) 7 = Some f64_600 \<and> bt_get (tt_samples t) 8 = None \<and> is_valid_at t 3000 \<and> \<not> is_valid_at t 3001)"
proof -
  let ?ss = "[site_sample 7 f64_600 1, site_sample 9 f64_1 1]"
  let ?h = "unat (1000 :: u64) + unat (ec_control_horizon_ms (ev_config (ev_new site_config)))"
  from telemetry_trusted_iff [OF site_bindings, of ?ss 1000]
  obtain e' r where r: "evaluate (ev_new site_config) ?ss 1000 = Some (e', r)"
    "\<not> isl r \<longleftrightarrow> trustworthy (ev_new site_config) ?ss 1000"
    "case r of Inl _ \<Rightarrow> e' = ev_new site_config
     | Inr t \<Rightarrow> (\<forall>p. bt_get (tt_samples t) p = value_at (ev_new site_config) ?ss p) \<and> (\<forall>at. is_valid_at t at \<longleftrightarrow> unat at \<le> ?h)"
    by blast
  then obtain t where "r = Inr t" using site_trustworthy by (cases r) auto
  with r have t: "evaluate (ev_new site_config) ?ss 1000 = Some (e', Inr t)"
    "\<forall>p. bt_get (tt_samples t) p = value_at (ev_new site_config) ?ss p" "\<forall>at. is_valid_at t at \<longleftrightarrow> unat at \<le> ?h"
    by simp_all
  have "value_at (ev_new site_config) ?ss 7 = Some f64_600" "value_at (ev_new site_config) ?ss 8 = None"
    by (simp_all add: value_at_def required_def ev_new_def site_config_def site_sample_def)
  moreover have "is_valid_at t 3000" "\<not> is_valid_at t 3001"
    unfolding t(3) [rule_format] by (simp_all add: ev_new_def site_config_def)
  ultimately show ?thesis using t(1,2) site_bindings by auto
qed

section \<open>No sample is used twice\<close>

text \<open>The ways an evaluator changes, with the accepted samples of required points so far, as pairs of
  point and sequence number. A restart restores the persisted state into a fresh evaluator.\<close>

definition accepted :: "evaluator \<Rightarrow> telemetry_sample list \<Rightarrow> (u32 \<times> u64) list" where
  "accepted e ss = map (\<lambda>s. (ts_point s, ts_sequence s)) (filter (\<lambda>s. required e (ts_point s)) ss)"

inductive ev_reach :: "evaluator \<Rightarrow> (u32 \<times> u64) list \<Rightarrow> evaluator \<Rightarrow> bool" for e0 where
  start: "ev_reach e0 [] e0"
| accept: "ev_reach e0 log e \<Longrightarrow> evaluate e ss now = Some (e', Inr t) \<Longrightarrow> ev_reach e0 (log @ accepted e ss) e'"
| reject: "ev_reach e0 log e \<Longrightarrow> evaluate e ss now = Some (e', Inl r) \<Longrightarrow> ev_reach e0 log e'"
| epoch: "ev_reach e0 log e \<Longrightarrow> ev_reach e0 log (advance_epoch e)"
| restart: "ev_reach e0 log e \<Longrightarrow>
    ev_reach e0 log (ev_restore (ev_new (ev_config e)) (ev_epoch e) (ev_last_received_at_ms e) (ev_last_sequences e))"

definition ordered_per_point :: "(u32 \<times> u64) list \<Rightarrow> bool" where
  "ordered_per_point log = sorted_wrt (\<lambda>(p, a) (q, b). p = q \<longrightarrow> a < b) log"

definition log_seen :: "evaluator \<Rightarrow> (u32 \<times> u64) list \<Rightarrow> bool" where
  "log_seen e log \<longleftrightarrow> (\<forall>(p, a) \<in> set log. \<exists>n. bt_get (ev_last_sequences e) p = Some n \<and> a \<le> n)"

lemma distinct_by_count: "(\<And>p. length (filter (\<lambda>x. f x = p) xs) \<le> 1) \<Longrightarrow> distinct (map f xs)"
proof (induction xs)
  case (Cons x xs)
  have "length (filter (\<lambda>y. f y = p) xs) \<le> 1" for p using Cons.prems [of p] by (auto split: if_splits)
  then have "distinct (map f xs)" by (rule Cons.IH)
  moreover have "filter (\<lambda>y. f y = f x) xs = []" using Cons.prems [of "f x"] by simp
  then have "f x \<notin> f ` set xs" by (force simp: filter_empty_conv)
  ultimately show ?case by simp
qed simp

lemma fold_insert_get:
  assumes "distinct (map fst m)"
  shows "bt_get (fold (\<lambda>(p, s) q. bt_insert q p (f s)) m q0) p =
    (case bt_get m p of Some s \<Rightarrow> Some (f s) | None \<Rightarrow> bt_get q0 p)"
  using assms
proof (induction m arbitrary: q0)
  case (Cons a m)
  obtain k s where a: "a = (k, s)" by (cases a)
  have "bt_get m k = None" using Cons.prems by (simp add: a bt_get_def map_of_eq_None_iff)
  with Cons show ?case by (cases "p = k") (auto simp: a split: option.splits)
qed simp

lemma collect_inv: "bt_inv m \<Longrightarrow> collect e ss m = Inr m' \<Longrightarrow> bt_inv m'"
proof (induction ss arbitrary: m)
  case (Cons s ss)
  show ?case
  proof (cases "collect e ss m = Inr m'")
    case False
    with Cons.prems have "collect e ss (bt_insert m (ts_point s) s) = Inr m'"
      by (auto split: if_splits option.splits)
    with Cons.IH bt_inv_insert [OF Cons.prems(1)] show ?thesis by blast
  qed (use Cons in blast)
qed simp

text \<open>An accepted snapshot: its samples of required points carry new sequence numbers, one per point, and
  the evaluator remembers them.\<close>

lemma accepted_distinct:
  assumes "\<And>p. required e p \<Longrightarrow> \<exists>s. samples_of ss p = [s]"
  shows "distinct (map fst (accepted e ss))"
proof -
  have "length (filter (\<lambda>s. ts_point s = p) (filter (\<lambda>s. required e (ts_point s)) ss)) \<le> 1" for p
  proof (cases "required e p")
    case True
    then obtain s where "filter (\<lambda>s. ts_point s = p) ss = [s]" using assms by (auto simp: samples_of_def)
    moreover have "filter (\<lambda>s. ts_point s = p) (filter (\<lambda>s. required e (ts_point s)) ss) = filter (\<lambda>s. ts_point s = p) ss"
      using True by (auto simp: filter_filter intro: filter_cong)
    ultimately show ?thesis by simp
  next
    case False
    then have "filter (\<lambda>s. ts_point s = p) (filter (\<lambda>s. required e (ts_point s)) ss) = []" by (auto simp: filter_empty_conv)
    then show ?thesis by (simp only: list.size)
  qed
  then have "distinct (map ts_point (filter (\<lambda>s. required e (ts_point s)) ss))"
    by (intro distinct_by_count) 
  then show ?thesis by (simp add: accepted_def comp_def)
qed

lemma accepted_sample:
  assumes "trustworthy e ss now" and "(p, a) \<in> set (accepted e ss)"
  obtains req s where "req \<in> set (ec_coverage (ev_config e))" "p = rp_point req" "samples_of ss p = [s]"
    "sample_ok e now req s" "a = ts_sequence s"
proof -
  from assms(2) obtain s where s: "s \<in> set ss" "required e (ts_point s)" "p = ts_point s" "a = ts_sequence s"
    by (auto simp: accepted_def)
  then obtain req where req: "req \<in> set (ec_coverage (ev_config e))" "p = rp_point req" by (auto simp: required_def)
  with assms(1) obtain s' where s': "samples_of ss p = [s']" "sample_ok e now req s'" by (auto simp: trustworthy_def)
  have "s \<in> set (samples_of ss p)" using s by (simp add: samples_of_def)
  with s' have "s' = s" by simp
  with req s s' that show thesis by blast
qed

lemma evaluate_sequences:
  assumes "evaluate e ss now = Some (e', Inr t)"
  shows "bt_get (ev_last_sequences e') p =
    (if required e p then map_option ts_sequence (find (\<lambda>s. ts_point s = p) ss) else bt_get (ev_last_sequences e) p)"
proof -
  from assms obtain received m where m: "collect e ss bt_empty = Inr m"
    and miss: "filter (\<lambda>p. \<not> bt_contains m p) (map rp_point (ec_coverage (ev_config e))) = []"
    and e': "e' = ev_advance e received m" by (rule evaluate_InrD)
  have "bt_inv m" using collect_inv [OF _ m] by (simp add: bt_inv_def)
  then have d: "distinct (map fst m)" by (auto simp: bt_inv_def strict_sorted_iff)
  have "bt_get m p \<noteq> None" if "required e p" using miss that by (auto simp: filter_empty_conv bt_contains_def required_def)
  then show ?thesis
    unfolding e' ev_advance_def using collected [OF m, of p] by (auto simp: fold_insert_get [OF d] split: option.splits)
qed

lemma log_seenD: "log_seen e log \<Longrightarrow> (p, a) \<in> set log \<Longrightarrow> \<exists>n. bt_get (ev_last_sequences e) p = Some n \<and> a \<le> n"
  unfolding log_seen_def by fast

lemma distinct_keys_ordered: "distinct (map fst xs) \<Longrightarrow> ordered_per_point xs"
  unfolding ordered_per_point_def by (induction xs) force+

lemma accept_seen:
  assumes "evaluate e ss now = Some (e', Inr t)" and "log_seen e log"
  shows "log_seen e' (log @ accepted e ss)"
    and "(p, a) \<in> set log \<Longrightarrow> (p, b) \<in> set (accepted e ss) \<Longrightarrow> a < b"
proof -
  note tw = evaluate_trustworthy(1) [OF assms(1)]
  have new: "bt_get (ev_last_sequences e') p = Some b" if "(p, b) \<in> set (accepted e ss)" for p b
    using tw that
  proof (rule accepted_sample)
    fix req s assume s: "req \<in> set (ec_coverage (ev_config e))" "p = rp_point req" "samples_of ss p = [s]" "b = ts_sequence s"
    then have "required e p" by (auto simp: required_def)
    then show ?thesis using evaluate_sequences [OF assms(1), of p] s by (simp add: find_samples_of)
  qed
  have later: "a < b" if l: "(p, a) \<in> set log" "(p, b) \<in> set (accepted e ss)" for p a b
    using tw l(2)
  proof (rule accepted_sample)
    fix req s assume s: "p = rp_point req" "sample_ok e now req s" "b = ts_sequence s"
    obtain n where "bt_get (ev_last_sequences e) p = Some n" "a \<le> n" using log_seenD [OF assms(2) l(1)] by blast
    with s show ?thesis by (auto simp: sample_ok_def intro: order_le_less_trans)
  qed
  then show "(p, a) \<in> set log \<Longrightarrow> (p, b) \<in> set (accepted e ss) \<Longrightarrow> a < b" .
  have "\<exists>n. bt_get (ev_last_sequences e') p = Some n \<and> a \<le> n" if "(p, a) \<in> set log" for p a
  proof (cases "required e p")
    case True
    then obtain req s where s: "p = rp_point req" "samples_of ss p = [s]" "sample_ok e now req s"
      using tw by (auto simp: required_def trustworthy_def)
    then have "s \<in> set (samples_of ss p)" by simp
    then have "(p, ts_sequence s) \<in> set (accepted e ss)" using True by (auto simp: accepted_def samples_of_def)
    with later [OF that] new show ?thesis by force
  next
    case False
    then show ?thesis using evaluate_sequences [OF assms(1), of p] log_seenD [OF assms(2) that] by simp
  qed
  with new show "log_seen e' (log @ accepted e ss)" by (auto simp: log_seen_def)
qed

lemma ev_reach_ordered: "ev_reach e0 log e \<Longrightarrow> ordered_per_point log \<and> log_seen e log"
proof (induction rule: ev_reach.induct)
  case (accept log e ss now e' t)
  have "ordered_per_point (accepted e ss)"
    using evaluate_trustworthy(1) [OF accept(2)]
    by (intro distinct_keys_ordered accepted_distinct) (auto simp: trustworthy_def required_def)
  moreover have "\<forall>x \<in> set log. \<forall>y \<in> set (accepted e ss). (\<lambda>(p, a) (q, b). p = q \<longrightarrow> a < b) x y"
    using accept_seen(2) [OF accept(2)] accept(3) by fast
  ultimately show ?case
    using accept(3) accept_seen(1) [OF accept(2)] by (simp add: ordered_per_point_def sorted_wrt_append)
next
  case (reject log e ss now e' r)
  with evaluate_rejects show ?case by blast
qed (simp_all add: ordered_per_point_def log_seen_def advance_epoch_def ev_restore_def)

text \<open>C14. No measurement is used twice: over any run of an evaluator, through rejected snapshots, source
  epochs and restarts that restore its persisted state, the sequence numbers of the samples accepted
  for each required point strictly increase, so no pair of point and sequence number is accepted again.\<close>

theorem telemetry_not_replayed:
  assumes "ev_reach (ev_new config) log e"
  shows "distinct log \<and> sorted_wrt (\<lambda>(p, a) (q, b). p = q \<longrightarrow> a < b) log"
proof -
  have o: "ordered_per_point log" using ev_reach_ordered [OF assms] by blast
  then have "distinct log" unfolding ordered_per_point_def by (induction log) auto
  with o show ?thesis by (simp add: ordered_per_point_def)
qed

theorem telemetry_not_replayed_witness:
  "\<exists>e. ev_reach (ev_new site_config) [(7, 1), (9, 1)] e \<and> distinct [(7 :: u32, 1 :: u64), (9, 1)]"
proof -
  let ?ss = "[site_sample 7 f64_600 1, site_sample 9 f64_1 1]"
  obtain e' t where t: "evaluate (ev_new site_config) ?ss 1000 = Some (e', Inr t)"
    using trustworthy_evaluate [OF site_trustworthy site_bindings] by blast
  have "accepted (ev_new site_config) ?ss = [(7, 1), (9, 1)]"
    by (simp add: accepted_def required_def ev_new_def site_config_def site_sample_def)
  with ev_reach.accept [OF ev_reach.start t] have r: "ev_reach (ev_new site_config) [(7, 1), (9, 1)] e'" by simp
  from telemetry_not_replayed [OF r] r show ?thesis by blast
qed

end
