(* ===== verification/Dispatch_Engine.thy ===== *)
theory Dispatch_Engine
  imports Profile Wire Trusted_Telemetry Decision_Gate Intent_Store Audit_Chain "HOL-Library.Monad_Syntax"
begin

text \<open>
  The dispatch engine (\<open>crates/protocols/control-dispatch/src/engine.rs\<close>, with \<open>dispatch.rs\<close>,
  \<open>feedback.rs\<close> and the delivery trait of \<open>channel.rs\<close>): the only way from a plan of the decision
  chain, or a write request of a field protocol, to a command on its way to a device.

  The trait objects the engine holds (intent store, delivery channel, audit logger) and the clock
  are the fields of an environment; the clock is the sequence of its readings, and the engine counts
  how many it has taken. The text of notes, errors and audit details is kept as the data it is printed
  from; the environment holds the printer. A panic is the result \<open>None\<close>.
\<close>

section \<open>Data\<close>

datatype point_value =
  PvFloat f64 | PvInt i64 | PvBool bool | PvEnum u16 | PvString bytes | PvNull

record point_write_intent =
  pw_protocol_id :: bytes
  pw_device_id :: u16
  pw_point_id :: u32
  pw_value :: point_value
  pw_sequence :: u64
  pw_issued_ms :: u64

datatype decision_path = SlowPath | FastPath | FallbackPath | DegradedPath

text \<open>A plan, less its latency breakdown and its forecast feedback, which dispatch does not read.\<close>

record proposed_plan =
  pp_plan_id :: bytes
  pp_path :: decision_path
  pp_schedule :: schedule_result
  pp_power_kw :: f64
  pp_target_device :: bytes
  pp_ttl_secs :: u32
  pp_issued_at_ms :: u64
  pp_input_digest :: "bytes option"
  pp_model_digest :: "bytes option"
  pp_safety_violations :: nat
  pp_safety_clamped :: bool

definition single_entry ::
  "bytes \<Rightarrow> decision_path \<Rightarrow> f64 \<Rightarrow> f64 \<Rightarrow> solve_status \<Rightarrow> u32 \<Rightarrow> u64 \<Rightarrow> bytes option \<Rightarrow> proposed_plan" where
  "single_entry plan_id path net_power_kw soc_pct status ttl_secs issued_at_ms input_digest =
     \<lparr>pp_plan_id = plan_id, pp_path = path,
      pp_schedule = \<lparr>sr_schedule = [\<lparr>se_period = 0,
          se_charge_power_kw = (if f64_lt net_power_kw f64_0 then f64_neg net_power_kw else f64_0),
          se_discharge_power_kw = (if f64_lt f64_0 net_power_kw then net_power_kw else f64_0),
          se_net_power_kw = net_power_kw, se_soc_pct = soc_pct, se_revenue_yuan = f64_0\<rparr>],
        sr_total_revenue_yuan = f64_0, sr_objective_value = f64_0, sr_solve_status = status\<rparr>,
      pp_power_kw = net_power_kw, pp_target_device = str ''pcs'', pp_ttl_secs = ttl_secs,
      pp_issued_at_ms = issued_at_ms, pp_input_digest = input_digest, pp_model_digest = None,
      pp_safety_violations = 0, pp_safety_clamped = False\<rparr>"

record authenticated_actor =
  aa_kind :: actor_kind
  aa_service :: bytes
  aa_session_epoch :: u64

datatype channel_error =
  ChUnreachable | ChTimeout | ChBadResponse | ChProtocol bytes | ChRejected | ChCancelled

datatype dispatch_note =
  NtReplay bytes u64 u64 | NtIdempotentIntent | NtIdempotentPlan | NtDryRun | NtTimeout
  | NtPeerIdempotent | NtPeerDryRun | NtDeviceDenied u8 | NtReadbackUnavailable | NtReadbackMismatch
  | NtExecFailed

datatype detail =
  DtNote dispatch_note | DtUnreachable | DtDelivery channel_error | DtStates "dispatch_state list"
  | DtStatesNote "dispatch_state list" dispatch_note | DtStatesDeny "dispatch_state list" chain_deny_reason
  | DtSafetyReject "dispatch_state list" guard_reject

datatype proposal_fault =
  PfNotFinite | PfOverMax f64 f64 | PfZeroTtl | PfEmptySchedule | PfValue bytes u64
datatype auth_fault =
  AfTarget u16 u32 u32 u32 | AfActor actor_kind | AfDryRun | AfDeny chain_deny_reason
datatype safety_fault = SfChain string | SfGuard guard_reject
datatype response_fault = RfChannel channel_error | RfFrame wire_error | RfUnknownCode
datatype budget = RateBudget | EnergyBudget

datatype dispatch_error =
  ProposalInvalid proposal_fault
  | TelemetryExpired
  | NotAuthorized auth_fault
  | SafetyRejected safety_fault
  | DispatchFeedbackUntrusted "string \<times> reconciled" "string option"
  | BudgetExceeded budget
  | IntentPersistFailed intent_store_error
  | DeliveryUnreachable
  | DeliveryTimeout
  | BadResponse response_fault

record dispatch_receipt =
  rc_command_id :: bytes
  rc_correlation_id :: bytes
  rc_final_state :: dispatch_state
  rc_state_path :: "dispatch_state list"
  rc_committed_at_ms :: "u64 option"
  rc_note :: "dispatch_note option"
  rc_latency_ms :: u64

record feedback_mapping =
  fm_grid_up :: u32
  fm_soc :: u32
  fm_dc_bus_v :: u32
  fm_overcurrent :: u32
  fm_overtemp :: u32

definition PROD_FEEDBACK_MAPPING :: feedback_mapping where
  "PROD_FEEDBACK_MAPPING =
     \<lparr>fm_grid_up = 5, fm_soc = 4, fm_dc_bus_v = 1, fm_overcurrent = 6, fm_overtemp = 6\<rparr>"

text \<open>What the engine is given: the operations of its trait objects, the clock, and the parameters for
  code outside the repository (SHA-256, fixed-capacity strings) and for the printed text.\<close>

record ('i, 'd, 'a) dispatch_env =
  en_intents :: "'i intent_ops"
  en_deliver :: "'d \<Rightarrow> bytes \<Rightarrow> bytes \<Rightarrow> u64 \<Rightarrow> 'd \<times> (channel_error + bytes)"
  en_log :: "'a \<Rightarrow> audit_event \<Rightarrow> ('a \<times> (audit_error + chain_entry)) option"
  en_now :: "nat \<Rightarrow> u64"
  en_sha :: "bytes \<Rightarrow> bytes"
  en_fixed :: "nat \<Rightarrow> bytes \<Rightarrow> bytes"
  en_text :: "detail \<Rightarrow> bytes"

record ('i, 'd, 'a) dispatch_engine =
  de_chain :: control_chain
  de_key :: bytes
  de_profile :: control_profile
  de_fencing_token :: u64
  de_issuer_service :: bytes
  de_issuer_epoch :: u64
  de_target_endpoint :: bytes
  de_max_power_kw :: f64
  de_safety_voltage_window :: "f64 \<times> f64"
  de_safety_freq_window :: "f64 \<times> f64"
  de_safety_ramp_kw_per_min :: f64
  de_gate :: decision_gate
  de_audit :: "decision_audit option"
  de_control_audit :: "'a option"
  de_intent_log :: 'i
  de_delivery :: 'd
  de_mapping :: feedback_mapping
  de_ticks :: nat
  de_seq :: u64
  de_committed_count :: u64
  de_audit_drop_count :: u64
  de_audit_append_count :: u64
  de_last_seq :: "(bytes, u64) btree"

section \<open>Parts of the engine\<close>

definition INTENT_TTL_SECS :: u64 where "INTENT_TTL_SECS = 60"

definition SCHEDULE_WINDOW_HOURS :: f64 where "SCHEDULE_WINDOW_HOURS = f64_quarter"

definition schedule_energy_kwh :: "schedule_result \<Rightarrow> f64" where
  "schedule_energy_kwh s =
     (case sr_schedule s of
        [] \<Rightarrow> f64_0
      | e # _ \<Rightarrow> f64_mul (f64_abs (se_net_power_kw e)) SCHEDULE_WINDOW_HOURS)"

text \<open>The configuration is an engine whose counters are not read.\<close>

definition de_new :: "('i, 'd, 'a) dispatch_engine \<Rightarrow> ('i, 'd, 'a) dispatch_engine" where
  "de_new config =
     config\<lparr>de_seq := 0, de_committed_count := 0, de_audit_drop_count := 0, de_audit_append_count := 0,
       de_last_seq := bt_empty\<rparr>"

definition update_fencing_token :: "('i, 'd, 'a) dispatch_engine \<Rightarrow> u64 \<Rightarrow> ('i, 'd, 'a) dispatch_engine" where
  "update_fencing_token e token = e\<lparr>de_fencing_token := token\<rparr>"

definition now_fn ::
  "('i, 'd, 'a) dispatch_env \<Rightarrow> ('i, 'd, 'a) dispatch_engine \<Rightarrow> ('i, 'd, 'a) dispatch_engine \<times> u64" where
  "now_fn env e = (e\<lparr>de_ticks := Suc (de_ticks e)\<rparr>, en_now env (de_ticks e))"

definition audit_control ::
  "('i, 'd, 'a) dispatch_env \<Rightarrow> exec_outcome \<Rightarrow> safety_outcome \<Rightarrow> detail \<Rightarrow> ('i, 'd, 'a) dispatch_engine \<Rightarrow>
     ('i, 'd, 'a) dispatch_engine option" where
  "audit_control env exec safety det e =
     (case de_control_audit e of
        None \<Rightarrow> Some e
      | Some chain \<Rightarrow>
        (let event_type = (if exec = Succeeded then WriteExecuted else WriteDenied);
             target = str ''control-dispatch/'' @ de_target_endpoint e;
             ev = (ae_new (en_fixed env) event_type (str ''control-dispatch'') target (en_text env det))
               \<lparr>ae_severity := (if safety = safety_outcome.Blocked then 2 else 1)\<rparr>
         in do {
              (chain, r) \<leftarrow> en_log env chain ev;
              let e = e\<lparr>de_control_audit := Some chain\<rparr>;
              Some (case r of
                  Inr _ \<Rightarrow> e\<lparr>de_audit_append_count := de_audit_append_count e + 1\<rparr>
                | Inl _ \<Rightarrow> e\<lparr>de_audit_drop_count := de_audit_drop_count e + 1\<rparr>)
            }))"

definition audit_decision ::
  "('i, 'd, 'a) dispatch_env \<Rightarrow> exec_outcome \<Rightarrow> safety_outcome \<Rightarrow> detail \<Rightarrow> u64 \<Rightarrow> ('i, 'd, 'a) dispatch_engine \<Rightarrow>
     ('i, 'd, 'a) dispatch_engine option" where
  "audit_decision env exec safety det now_ms e =
     (case de_audit e of
        None \<Rightarrow> Some e
      | Some audit \<Rightarrow> do {
          (audit, r) \<leftarrow> log_decision (en_sha env) (en_fixed env) audit
            \<lparr>dr_actor = str ''control-dispatch'', dr_target = de_target_endpoint e, dr_intent = str ''dispatch'',
             dr_lp_solution = en_text env det, dr_safety = safety, dr_exec = exec, dr_now_ms = now_ms\<rparr>;
          let e = e\<lparr>de_audit := Some audit\<rparr>;
          Some (case r of Inr _ \<Rightarrow> e | Inl _ \<Rightarrow> e\<lparr>de_audit_drop_count := de_audit_drop_count e + 1\<rparr>)
        })"

definition engine_audit ::
  "('i, 'd, 'a) dispatch_env \<Rightarrow> exec_outcome \<Rightarrow> safety_outcome \<Rightarrow> detail \<Rightarrow> u64 \<Rightarrow> ('i, 'd, 'a) dispatch_engine \<Rightarrow>
     ('i, 'd, 'a) dispatch_engine option" where
  "engine_audit env exec safety det now_ms e = do {
     e \<leftarrow> audit_control env exec safety det e;
     audit_decision env exec safety det now_ms e
   }"

definition correlation_of :: "bytes \<Rightarrow> bytes" where
  "correlation_of plan_id = (let n = min 16 (length plan_id) in put (zeros 16) 0 (take n plan_id))"

definition intent_correlation :: "bytes \<Rightarrow> u64 \<Rightarrow> bytes" where
  "intent_correlation protocol_id sequence =
     (let n = min 8 (length protocol_id);
          i = put (zeros 16) 0 (take n protocol_id)
      in put i 8 (le_bytes 8 sequence))"

definition validate_proposal :: "('i, 'd, 'a) dispatch_engine \<Rightarrow> proposed_plan \<Rightarrow> dispatch_error option" where
  "validate_proposal e p =
     (if f64_is_nan (pp_power_kw p) \<or> f64_is_infinite (pp_power_kw p) then Some (ProposalInvalid PfNotFinite)
      else if f64_lt (de_max_power_kw e) (f64_abs (pp_power_kw p))
           then Some (ProposalInvalid (PfOverMax (pp_power_kw p) (de_max_power_kw e)))
      else if pp_ttl_secs p = 0 then Some (ProposalInvalid PfZeroTtl)
      else if sr_schedule (pp_schedule p) = [] then Some (ProposalInvalid PfEmptySchedule)
      else None)"

definition project_system_state :: "trusted_telemetry \<Rightarrow> system_state" where
  "project_system_state t =
     (let st = tt_state t
      in if ss_timestamp_ms st = 0 \<or>
            \<not> (f64_is_finite (ss_voltage_v st) \<and> f64_is_finite (ss_current_a st) \<and>
               f64_is_finite (ss_frequency_hz st) \<and> f64_is_finite (ss_soc_pct st))
         then ss_unknown else st)"

definition feedback_of :: "trusted_telemetry \<Rightarrow> u64 \<Rightarrow> u32 \<Rightarrow> feedback_sample" where
  "feedback_of t now_secs point =
     (case bt_get (tt_samples t) point of
        Some v \<Rightarrow> if f64_is_finite v then \<lparr>fs_value = v, fs_quality = Good, fs_timestamp_epoch = now_secs\<rparr>
                  else \<lparr>fs_value = f64_0, fs_quality = Invalid, fs_timestamp_epoch = now_secs\<rparr>
      | None \<Rightarrow> \<lparr>fs_value = f64_0, fs_quality = Invalid, fs_timestamp_epoch = now_secs\<rparr>)"

definition build_feedback :: "feedback_mapping \<Rightarrow> trusted_telemetry \<Rightarrow> u64 \<Rightarrow> feedback_bundle" where
  "build_feedback fm t now_secs =
     \<lparr>fb_grid_up = feedback_of t now_secs (fm_grid_up fm), fb_soc_pct = feedback_of t now_secs (fm_soc fm),
      fb_dc_bus_v = feedback_of t now_secs (fm_dc_bus_v fm), fb_overcurrent = feedback_of t now_secs (fm_overcurrent fm),
      fb_overtemp = feedback_of t now_secs (fm_overtemp fm), fb_maintenance_lockout = False\<rparr>"

definition guard_params :: "('i, 'd, 'a) dispatch_engine \<Rightarrow> safety_guard_params" where
  "guard_params e =
     \<lparr>gp_max_power_kw = de_max_power_kw e, gp_max_current_a = 0x4069000000000000,
      gp_voltage_window = de_safety_voltage_window e, gp_freq_window = de_safety_freq_window e,
      gp_ramp_kw_per_min = de_safety_ramp_kw_per_min e, gp_protection_overcurrent_a = 0x406B800000000000,
      gp_protection_overvoltage_v = 0x407B800000000000, gp_protection_undervoltage_v = 0x4074000000000000\<rparr>"

section \<open>Settling a delivery\<close>

definition receipt_of ::
  "('i, 'd, 'a) dispatch_env \<Rightarrow> ('i, 'd, 'a) dispatch_engine \<Rightarrow> u64 \<Rightarrow> bytes \<Rightarrow> bytes \<Rightarrow> dispatch_state \<Rightarrow>
     dispatch_state list \<Rightarrow> u64 option \<Rightarrow> dispatch_note option \<Rightarrow> ('i, 'd, 'a) dispatch_engine \<times> (dispatch_error + dispatch_receipt)" where
  "receipt_of env e started cid corr final states committed_at nt =
     (let (e, t) = now_fn env e
      in (e, Inr \<lparr>rc_command_id = cid, rc_correlation_id = corr, rc_final_state = final, rc_state_path = states,
            rc_committed_at_ms = committed_at, rc_note = nt, rc_latency_ms = saturating_sub t started\<rparr>))"

definition update_intent ::
  "('i, 'd, 'a) dispatch_env \<Rightarrow> ('i, 'd, 'a) dispatch_engine \<Rightarrow> bytes \<Rightarrow> dispatch_state \<Rightarrow> ('i, 'd, 'a) dispatch_engine option" where
  "update_intent env e cid st = do {
     (il, _) \<leftarrow> is_update_state (en_intents env) (de_intent_log e) cid st;
     Some (e\<lparr>de_intent_log := il\<rparr>)
   }"

definition settle_outcome ::
  "('i, 'd, 'a) dispatch_env \<Rightarrow> ('i, 'd, 'a) dispatch_engine \<Rightarrow> outcome_frame \<Rightarrow> outcome_code \<Rightarrow> dispatch_state list \<Rightarrow> u64 \<Rightarrow>
     bytes \<Rightarrow> bytes \<Rightarrow> f64 \<Rightarrow> (('i, 'd, 'a) dispatch_engine \<times> (dispatch_error + dispatch_receipt)) option" where
  "settle_outcome env e frame outcome states started cid corr energy =
     (case outcome of
        OcApplied \<Rightarrow> do {
          let states = states @ [StReadbackVerified];
          let e = e\<lparr>de_gate := dg_record (de_gate e) started energy\<rparr>;
          e \<leftarrow> update_intent env e cid StCommitted;
          let states = states @ [StCommitted];
          let e = e\<lparr>de_committed_count := de_committed_count e + 1\<rparr>;
          e \<leftarrow> engine_audit env Succeeded Passed (DtStates states) started e;
          let (e, t) = now_fn env e;
          Some (receipt_of env e started cid corr StCommitted states (Some t) None)
        }
      | OcIdempotentHit \<Rightarrow> do {
          e \<leftarrow> update_intent env e cid StCommitted;
          let states = states @ [StCommitted];
          let (e, t) = now_fn env e;
          Some (receipt_of env e started cid corr StCommitted states (Some t) (Some NtPeerIdempotent))
        }
      | OcDryRun \<Rightarrow> do {
          e \<leftarrow> engine_audit env ExecFailed Passed (DtStatesNote states NtPeerDryRun) started e;
          Some (receipt_of env e started cid corr StRejected states None (Some NtPeerDryRun))
        }
      | OcDenied \<Rightarrow> do {
          let nt = NtDeviceDenied (of_class frame);
          e \<leftarrow> update_intent env e cid StFailed;
          e \<leftarrow> engine_audit env ExecFailed Passed (DtStatesNote states nt) started e;
          Some (receipt_of env e started cid corr StFailed states None (Some nt))
        }
      | OcAppliedReadbackUnavailable \<Rightarrow> do {
          e \<leftarrow> update_intent env e cid StIndeterminate;
          e \<leftarrow> engine_audit env ExecFailed Passed (DtStatesNote states NtReadbackUnavailable) started e;
          Some (receipt_of env e started cid corr StIndeterminate states None (Some NtReadbackUnavailable))
        }
      | OcAppliedReadbackMismatch \<Rightarrow> do {
          e \<leftarrow> update_intent env e cid StFailed;
          e \<leftarrow> engine_audit env ExecFailed safety_outcome.Blocked (DtStatesNote states NtReadbackMismatch) started e;
          Some (receipt_of env e started cid corr StFailed states None (Some NtReadbackMismatch))
        }
      | OcFailed \<Rightarrow> do {
          e \<leftarrow> update_intent env e cid StFailed;
          e \<leftarrow> engine_audit env ExecFailed Passed (DtStatesNote states NtExecFailed) started e;
          Some (receipt_of env e started cid corr StFailed states None (Some NtExecFailed))
        })"

definition deliver_and_settle ::
  "('i, 'd, 'a) dispatch_env \<Rightarrow> ('i, 'd, 'a) dispatch_engine \<Rightarrow> channel_error + bytes \<Rightarrow> dispatch_state list \<Rightarrow> u64 \<Rightarrow>
     bytes \<Rightarrow> bytes \<Rightarrow> f64 \<Rightarrow> (('i, 'd, 'a) dispatch_engine \<times> (dispatch_error + dispatch_receipt)) option" where
  "deliver_and_settle env e response states started cid corr energy =
     (case response of
        Inl ChTimeout \<Rightarrow> do {
          e \<leftarrow> update_intent env e cid StIndeterminate;
          e \<leftarrow> engine_audit env ExecFailed Passed (DtNote NtTimeout) started e;
          Some (receipt_of env e started cid corr StIndeterminate states None (Some NtTimeout))
        }
      | Inl ChUnreachable \<Rightarrow> do {
          e \<leftarrow> engine_audit env ExecFailed Passed DtUnreachable started e;
          Some (e, Inl DeliveryUnreachable)
        }
      | Inl err \<Rightarrow> do {
          e \<leftarrow> engine_audit env ExecFailed Passed (DtDelivery err) started e;
          Some (e, Inl (BadResponse (RfChannel err)))
        }
      | Inr bytes \<Rightarrow>
        (let states = states @ [StDelivered]
         in case of_decode bytes of
              Inl err \<Rightarrow> Some (e, Inl (BadResponse (RfFrame err)))
            | Inr frame \<Rightarrow>
              (let states = states @ [StTransportAcked]
               in case of_outcome frame of
                    None \<Rightarrow> Some (e, Inl (BadResponse RfUnknownCode))
                  | Some outcome \<Rightarrow> settle_outcome env e frame outcome states started cid corr energy)))"

section \<open>The core\<close>

datatype core_identity = IdIntent bytes u64 | IdPlan bytes

record core_command =
  co_identity :: core_identity
  co_ttl_secs :: u64
  co_power_kw :: f64
  co_target_device :: bytes
  co_input_digest :: "bytes option"
  co_energy_kwh :: "f64 option"
  co_idem_note :: dispatch_note

text \<open>Identity, in the order the code derives it: a plan takes the next sequence number of the engine.\<close>

definition core_identify ::
  "('i, 'd, 'a) dispatch_engine \<Rightarrow> core_identity \<Rightarrow> ('i, 'd, 'a) dispatch_engine \<times> bytes \<times> bytes \<times> u64" where
  "core_identify e idn =
     (case idn of
        IdIntent protocol_id sequence \<Rightarrow>
          (let c = intent_correlation protocol_id sequence in (e, c, c, sequence))
      | IdPlan plan_id \<Rightarrow>
          (let e = e\<lparr>de_seq := de_seq e + 1\<rparr>;
               cid = put (zeros 16) 0 (le_bytes 8 (de_seq e))
           in (e, cid, correlation_of plan_id, de_seq e)))"

definition core_builder ::
  "('i, 'd, 'a) dispatch_engine \<Rightarrow> core_command \<Rightarrow> bytes \<Rightarrow> bytes \<Rightarrow> u64 \<Rightarrow> u64 \<Rightarrow> envelope_builder" where
  "core_builder e cmd cid corr sequence now_secs =
     (let single = (if f64_lt f64_0 (co_power_kw cmd) then SOn else SOff);
          b = eb_new cid (cp_device_id (de_profile e)) (cp_point_id (de_profile e)) (Single single) now_secs
                (saturating_add now_secs (co_ttl_secs cmd)) (de_issuer_service e);
          b = with_lease b (cp_lease_id (de_profile e)) (de_fencing_token e);
          b = with_policy_version b (cp_policy_version (de_profile e));
          b = with_sequence b sequence;
          b = with_actor_kind b Ai
      in with_idempotency_key b corr)"

text \<open>After authorization: guard, budgets, the durable intent, delivery and settlement.\<close>

definition core_record :: "core_command \<Rightarrow> bytes \<Rightarrow> bytes \<Rightarrow> u64 \<Rightarrow> intent_record" where
  "core_record cmd cid corr started =
     \<lparr>ir_command_id = cid, ir_correlation_id = corr, ir_issued_at_ms = started,
      ir_expires_at_ms = saturating_add started (co_ttl_secs cmd * 1000),
      ir_target_device = co_target_device cmd, ir_power_kw = co_power_kw cmd,
      ir_input_digest = co_input_digest cmd, ir_state = StPersisted\<rparr>"

definition core_payload ::
  "('i, 'd, 'a) dispatch_engine \<Rightarrow> core_command \<Rightarrow> bytes \<Rightarrow> u64 \<Rightarrow> bytes \<Rightarrow> bytes" where
  "core_payload e cmd corr started buf =
     ce_encode (ce_new corr (de_issuer_service e) (de_issuer_epoch e) started
       (saturating_add started (co_ttl_secs cmd * 1000)) buf (co_power_kw cmd))"

definition core_persist ::
  "('i, 'd, 'a) dispatch_env \<Rightarrow> ('i, 'd, 'a) dispatch_engine \<Rightarrow> core_command \<Rightarrow> u64 \<Rightarrow> dispatch_state list \<Rightarrow> u64 \<Rightarrow>
     bytes \<Rightarrow> bytes \<Rightarrow> bytes \<Rightarrow> (('i, 'd, 'a) dispatch_engine \<times> (dispatch_error + dispatch_receipt)) option" where
  "core_persist env e cmd started states deadline_ms cid corr buf =
     (let states = states @ [StReserved];
          (il, r) = is_append (en_intents env) (de_intent_log e) (core_record cmd cid corr started);
          e = e\<lparr>de_intent_log := il\<rparr>
      in case r of
           Inl err \<Rightarrow> Some (e, Inl (IntentPersistFailed err))
         | Inr _ \<Rightarrow>
           (let states = states @ [StPersisted];
                timeout = (if deadline_ms = 0 then - 1 else deadline_ms);
                (ch, response) = en_deliver env (de_delivery e) (de_target_endpoint e)
                  (core_payload e cmd corr started buf) timeout;
                e = e\<lparr>de_delivery := ch\<rparr>
            in deliver_and_settle env e response states started cid corr
                 (case co_energy_kwh cmd of Some x \<Rightarrow> x | None \<Rightarrow> f64_0)))"

definition core_reserve ::
  "('i, 'd, 'a) dispatch_env \<Rightarrow> ('i, 'd, 'a) dispatch_engine \<Rightarrow> core_command \<Rightarrow> trusted_telemetry \<Rightarrow> u64 \<Rightarrow>
     dispatch_state list \<Rightarrow> u64 \<Rightarrow> bytes \<Rightarrow> bytes \<Rightarrow> bytes \<Rightarrow>
     (('i, 'd, 'a) dispatch_engine \<times> (dispatch_error + dispatch_receipt)) option" where
  "core_reserve env e cmd telemetry started states deadline_ms cid corr buf =
     (let states = states @ [StAuthorized]
      in case safety_guard (guard_params e) [co_power_kw cmd] (project_system_state telemetry) of
           Inl reason \<Rightarrow> do {
             e \<leftarrow> engine_audit env ExecFailed safety_outcome.Blocked (DtSafetyReject states reason) started e;
             Some (e, Inl (SafetyRejected (SfGuard reason)))
           }
         | Inr _ \<Rightarrow>
           (let (g, d) = dg_check_rate (de_gate e) started;
                e = e\<lparr>de_gate := g\<rparr>
            in if d \<noteq> gate_decision.Allow then Some (e, Inl (BudgetExceeded RateBudget))
               else case co_energy_kwh cmd of
                      None \<Rightarrow> core_persist env e cmd started states deadline_ms cid corr buf
                    | Some energy \<Rightarrow>
                      (let (g, d) = dg_check_energy (de_gate e) started energy;
                           e = e\<lparr>de_gate := g\<rparr>
                       in if d \<noteq> gate_decision.Allow then Some (e, Inl (BudgetExceeded EnergyBudget))
                          else core_persist env e cmd started states deadline_ms cid corr buf)))"

definition execute_core ::
  "('i, 'd, 'a) dispatch_env \<Rightarrow> ('i, 'd, 'a) dispatch_engine \<Rightarrow> core_command \<Rightarrow> trusted_telemetry \<Rightarrow> authenticated_actor \<Rightarrow> u64 \<Rightarrow>
     dispatch_state list \<Rightarrow> u64 \<Rightarrow> (('i, 'd, 'a) dispatch_engine \<times> (dispatch_error + dispatch_receipt)) option" where
  "execute_core env e cmd telemetry actor started states deadline_ms =
     (if aa_kind actor \<noteq> Ai then Some (e, Inl (NotAuthorized (AfActor (aa_kind actor))))
      else let (e, cid, corr, sequence) = core_identify e (co_identity cmd);
               now_secs = started div 1000;
               buf = env_encode (eb_build (core_builder e cmd cid corr sequence now_secs) (de_key e));
               chain = chain_select (de_chain e) (cp_point_id (de_profile e)) now_secs;
               fb = build_feedback (de_mapping e) telemetry now_secs;
               (chain, outcome) = chain_execute chain buf now_secs fb;
               e = e\<lparr>de_chain := chain\<rparr>
           in case outcome of
                Executed _ _ \<Rightarrow> core_reserve env e cmd telemetry started states deadline_ms cid corr buf
              | IdempotentHit _ \<Rightarrow>
                  Some (receipt_of env e started cid corr StCommitted (states @ [StCommitted]) (Some started)
                    (Some (co_idem_note cmd)))
              | DryRunOutcome _ _ \<Rightarrow> do {
                  e \<leftarrow> engine_audit env ExecFailed Passed (DtStatesNote states NtDryRun) started e;
                  Some (e, Inl (NotAuthorized AfDryRun))
                }
              | Denied reason \<Rightarrow> do {
                  e \<leftarrow> engine_audit env ExecFailed
                    (case reason of UnsafeCommand _ \<Rightarrow> safety_outcome.Blocked | _ \<Rightarrow> Passed) (DtStatesDeny states reason) started e;
                  Some (e, Inl (case reason of
                      UnsafeCommand d \<Rightarrow> SafetyRejected (SfChain d)
                    | FeedbackUntrusted f s \<Rightarrow> DispatchFeedbackUntrusted f s
                    | _ \<Rightarrow> NotAuthorized (AfDeny reason)))
                })"

section \<open>The entries\<close>

definition plan_command :: "proposed_plan \<Rightarrow> core_command" where
  "plan_command p =
     \<lparr>co_identity = IdPlan (pp_plan_id p), co_ttl_secs = ucast (max (pp_ttl_secs p) 1), co_power_kw = pp_power_kw p,
      co_target_device = pp_target_device p, co_input_digest = pp_input_digest p,
      co_energy_kwh = Some (schedule_energy_kwh (pp_schedule p)), co_idem_note = NtIdempotentPlan\<rparr>"

definition submit ::
  "('i, 'd, 'a) dispatch_env \<Rightarrow> ('i, 'd, 'a) dispatch_engine \<Rightarrow> proposed_plan \<Rightarrow> trusted_telemetry \<Rightarrow> authenticated_actor \<Rightarrow>
     u64 \<Rightarrow> (('i, 'd, 'a) dispatch_engine \<times> (dispatch_error + dispatch_receipt)) option" where
  "submit env e proposal telemetry actor deadline_ms =
     (let (e, started) = now_fn env e
      in case validate_proposal e proposal of
           Some err \<Rightarrow> Some (e, Inl err)
         | None \<Rightarrow>
           if \<not> is_valid_at telemetry started then Some (e, Inl TelemetryExpired)
           else execute_core env e (plan_command proposal)
             telemetry actor started [StProposed, StValidated] deadline_ms)"

definition intent_value :: "point_value \<Rightarrow> f64 option" where
  "intent_value v =
     (case v of
        PvFloat f \<Rightarrow> if f64_is_finite f then Some f else None
      | PvInt i \<Rightarrow> Some (f64_of_i64 i)
      | PvBool b \<Rightarrow> Some (if b then f64_1 else f64_0)
      | _ \<Rightarrow> None)"

text \<open>The decimal text of a device number, for the name of the target.\<close>

fun decimal :: "nat \<Rightarrow> string" where
  "decimal n = (if n < 10 then [char_of (48 + n)] else decimal (n div 10) @ [char_of (48 + n mod 10)])"

definition intent_command :: "point_write_intent \<Rightarrow> f64 \<Rightarrow> core_command" where
  "intent_command i power_kw =
     \<lparr>co_identity = IdIntent (pw_protocol_id i) (pw_sequence i), co_ttl_secs = INTENT_TTL_SECS, co_power_kw = power_kw,
      co_target_device = pw_protocol_id i @ str '':'' @ str (decimal (unat (pw_device_id i))),
      co_input_digest = None, co_energy_kwh = None, co_idem_note = NtIdempotentIntent\<rparr>"

definition note_sequence :: "('i, 'd, 'a) dispatch_engine \<Rightarrow> point_write_intent \<Rightarrow> ('i, 'd, 'a) dispatch_engine" where
  "note_sequence e i = e\<lparr>de_last_seq := bt_insert (de_last_seq e) (pw_protocol_id i) (pw_sequence i)\<rparr>"

definition submit_intent ::
  "('i, 'd, 'a) dispatch_env \<Rightarrow> ('i, 'd, 'a) dispatch_engine \<Rightarrow> point_write_intent \<Rightarrow> trusted_telemetry \<Rightarrow> authenticated_actor \<Rightarrow>
     u64 \<Rightarrow> (('i, 'd, 'a) dispatch_engine \<times> (dispatch_error + dispatch_receipt)) option" where
  "submit_intent env e intent telemetry actor deadline_ms =
     (let (e, started) = now_fn env e;
          p = de_profile e
      in if ucast (pw_device_id intent) \<noteq> cp_device_id p \<or> pw_point_id intent \<noteq> cp_point_id p
         then Some (e, Inl (NotAuthorized (AfTarget (pw_device_id intent) (pw_point_id intent) (cp_device_id p) (cp_point_id p))))
         else case intent_value (pw_value intent) of
           None \<Rightarrow> Some (e, Inl (ProposalInvalid (PfValue (pw_protocol_id intent) (pw_sequence intent))))
         | Some power_kw \<Rightarrow>
           if \<not> is_valid_at telemetry started then Some (e, Inl TelemetryExpired)
           else case bt_get (de_last_seq e) (pw_protocol_id intent) of
             Some seen \<Rightarrow>
               if pw_sequence intent \<le> seen
               then do {
                 let nt = NtReplay (pw_protocol_id intent) (pw_sequence intent) seen;
                 e \<leftarrow> engine_audit env ExecFailed Passed (DtNote nt) started e;
                 Some (receipt_of env e started (zeros 16)
                   (intent_correlation (pw_protocol_id intent) (pw_sequence intent)) StRejected
                   [StProposed, StValidated] None (Some nt))
               }
               else execute_core env (note_sequence e intent) (intent_command intent power_kw) telemetry actor started
                 [StProposed, StValidated] deadline_ms
           | None \<Rightarrow> execute_core env (note_sequence e intent) (intent_command intent power_kw) telemetry actor started
               [StProposed, StValidated] deadline_ms)"

text \<open>The two entries of the dispatch interface.\<close>

datatype request = PlanRequest proposed_plan | WriteRequest point_write_intent

definition dispatch ::
  "('i, 'd, 'a) dispatch_env \<Rightarrow> ('i, 'd, 'a) dispatch_engine \<Rightarrow> request \<Rightarrow> trusted_telemetry \<Rightarrow> authenticated_actor \<Rightarrow>
     u64 \<Rightarrow> (('i, 'd, 'a) dispatch_engine \<times> (dispatch_error + dispatch_receipt)) option" where
  "dispatch env e req telemetry actor deadline_ms =
     (case req of
        PlanRequest p \<Rightarrow> submit env e p telemetry actor deadline_ms
      | WriteRequest i \<Rightarrow> submit_intent env e i telemetry actor deadline_ms)"

end
