(* ===== verification/Dispatch_Clearance.thy ===== *)
theory Dispatch_Clearance
  imports Dispatch_Engine
begin

text \<open>
  The specification of the dispatch engine and the lemmas that connect it with the code: what each
  stage leaves unchanged, when a request is cleared for delivery, the three ways a dispatch ends, the
  budgets over a run, and that the engine returns.
\<close>

section \<open>Postconditions\<close>

text \<open>A computation that may panic satisfies a postcondition when every result does.\<close>

definition post :: "'r option \<Rightarrow> ('r \<Rightarrow> bool) \<Rightarrow> bool" where
  "post m P \<longleftrightarrow> (\<forall>x. m = Some x \<longrightarrow> P x)"

lemma post_Some [simp]: "post (Some x) P \<longleftrightarrow> P x"
  by (simp add: post_def)

lemma post_bind [simp]: "post (Option.bind m f) P \<longleftrightarrow> post m (\<lambda>x. post (f x) P)"
  by (cases m) (simp_all add: post_def)

lemma post_mono: "post m P \<Longrightarrow> (\<And>x. P x \<Longrightarrow> Q x) \<Longrightarrow> post m Q"
  by (simp add: post_def)

lemma postD: "post m P \<Longrightarrow> m = Some x \<Longrightarrow> P x"
  by (simp add: post_def)

lemma post_any: "(\<And>x. P x) \<Longrightarrow> post m P"
  by (simp add: post_def)

section \<open>Frames\<close>

text \<open>The part of an engine that auditing leaves alone.\<close>

definition same_control :: "('i, 'd, 'a) dispatch_engine \<Rightarrow> ('i, 'd, 'a) dispatch_engine \<Rightarrow> bool" where
  "same_control e e' \<longleftrightarrow>
     de_chain e' = de_chain e \<and> de_gate e' = de_gate e \<and> de_intent_log e' = de_intent_log e \<and>
     de_delivery e' = de_delivery e \<and> de_committed_count e' = de_committed_count e \<and> de_ticks e' = de_ticks e \<and>
     de_seq e' = de_seq e \<and> de_last_seq e' = de_last_seq e \<and> de_profile e' = de_profile e \<and>
     de_target_endpoint e' = de_target_endpoint e"

lemma audit_control_same: "post (audit_control env x s d e) (same_control e)"
proof (cases "de_control_audit e")
  case None
  then show ?thesis by (simp add: audit_control_def same_control_def)
next
  case (Some c)
  have s: "same_control e (case r of
       Inr _ \<Rightarrow> e\<lparr>de_control_audit := Some c', de_audit_append_count := k\<rparr>
     | Inl _ \<Rightarrow> e\<lparr>de_control_audit := Some c', de_audit_drop_count := l\<rparr>)" for r c' k l
    by (cases r) (simp_all add: same_control_def)
  show ?thesis unfolding audit_control_def Let_def Some option.case post_bind
    by (rule post_any) (simp only: case_prod_beta post_Some s)
qed

lemma audit_decision_same: "post (audit_decision env x s d n e) (same_control e)"
proof (cases "de_audit e")
  case None
  then show ?thesis by (simp add: audit_decision_def same_control_def)
next
  case (Some c)
  have s: "same_control e (case r of
       Inr _ \<Rightarrow> e\<lparr>de_audit := Some c'\<rparr>
     | Inl _ \<Rightarrow> e\<lparr>de_audit := Some c', de_audit_drop_count := l\<rparr>)" for r c' k l
    by (cases r) (simp_all add: same_control_def)
  show ?thesis unfolding audit_decision_def Let_def Some option.case post_bind
    by (rule post_any) (simp only: case_prod_beta post_Some s)
qed

lemma same_control_trans: "same_control a b \<Longrightarrow> same_control b c \<Longrightarrow> same_control a c"
  by (simp add: same_control_def)

lemma engine_audit_same: "post (engine_audit env x s d n e) (same_control e)"
  unfolding engine_audit_def post_bind
  by (rule post_mono [OF audit_control_same], rule post_mono [OF audit_decision_same]) (rule same_control_trans)

lemma update_intent_frame:
  "post (update_intent env e cid st) (\<lambda>e'. \<exists>il. e' = e\<lparr>de_intent_log := il\<rparr>)"
  unfolding update_intent_def post_bind by (rule post_any) (auto simp: case_prod_beta)

section \<open>Settlement\<close>

text \<open>What a settled receipt may look like, after the states \<open>states\<close>.\<close>

definition receipt_ok :: "dispatch_state list \<Rightarrow> dispatch_receipt \<Rightarrow> bool" where
  "receipt_ok states rc \<longleftrightarrow>
     (rc_final_state rc = StCommitted \<and> rc_committed_at_ms rc \<noteq> None \<and>
        (rc_state_path rc = states @ [StCommitted] \<or> rc_state_path rc = states @ [StReadbackVerified, StCommitted])) \<or>
     (rc_final_state rc \<in> {StRejected, StFailed, StIndeterminate} \<and> rc_committed_at_ms rc = None \<and>
        rc_state_path rc = states)"

definition settled_as :: "outcome_code \<Rightarrow> dispatch_state" where
  "settled_as oc =
     (case oc of
        OcApplied \<Rightarrow> StCommitted | OcIdempotentHit \<Rightarrow> StCommitted | OcDryRun \<Rightarrow> StRejected | OcDenied \<Rightarrow> StFailed
      | OcAppliedReadbackUnavailable \<Rightarrow> StIndeterminate | OcAppliedReadbackMismatch \<Rightarrow> StFailed | OcFailed \<Rightarrow> StFailed)"

text \<open>The engine \<open>e'\<close> after settling, for the gate \<open>g\<close> and the count \<open>n\<close> it ends with.\<close>

definition settled_engine ::
  "('i, 'd, 'a) dispatch_engine \<Rightarrow> decision_gate \<Rightarrow> u64 \<Rightarrow> ('i, 'd, 'a) dispatch_engine \<Rightarrow> bool" where
  "settled_engine e g n e' \<longleftrightarrow>
     de_delivery e' = de_delivery e \<and> de_gate e' = g \<and> de_committed_count e' = n \<and> de_ticks e \<le> de_ticks e'"

definition fresh_note :: "dispatch_receipt \<Rightarrow> bool" where
  "fresh_note rc \<longleftrightarrow> rc_note rc \<noteq> Some NtIdempotentPlan \<and> rc_note rc \<noteq> Some NtIdempotentIntent"

lemma receipt_of_settled:
  assumes "de_delivery e1 = de_delivery e" "de_gate e1 = g" "de_committed_count e1 = n" "de_ticks e \<le> de_ticks e1"
    and "nt \<noteq> Some NtIdempotentPlan" "nt \<noteq> Some NtIdempotentIntent"
    and "receipt_of env e1 started cid corr final states at nt = (e', r)"
  shows "settled_engine e g n e' \<and> (\<exists>rc. r = Inr rc \<and> rc_final_state rc = final \<and> rc_state_path rc = states \<and>
    rc_committed_at_ms rc = at \<and> fresh_note rc)"
  using assms by (auto simp: receipt_of_def now_fn_def settled_engine_def fresh_note_def)

lemma settle_outcome_spec:
  "post (settle_outcome env e frame oc states started cid corr energy) (\<lambda>(e', r).
     settled_engine e (if oc = OcApplied then dg_record (de_gate e) started energy else de_gate e)
       (if oc = OcApplied then de_committed_count e + 1 else de_committed_count e) e' \<and>
     (\<exists>rc. r = Inr rc \<and> rc_final_state rc = settled_as oc \<and> receipt_ok states rc \<and> fresh_note rc))"
proof -
  note defs = settle_outcome_def settled_engine_def settled_as_def receipt_ok_def fresh_note_def now_fn_def
    receipt_of_def same_control_def
  show ?thesis
  proof (cases oc)
    case OcApplied
    show ?thesis unfolding OcApplied settle_outcome_def outcome_code.case Let_def post_bind
      by (rule post_mono [OF update_intent_frame], rule post_mono [OF engine_audit_same]) (auto simp: defs)
  next
    case OcIdempotentHit
    show ?thesis unfolding OcIdempotentHit settle_outcome_def outcome_code.case Let_def post_bind
      by (rule post_mono [OF update_intent_frame]) (auto simp: defs)
  next
    case OcDryRun
    show ?thesis unfolding OcDryRun settle_outcome_def outcome_code.case Let_def post_bind
      by (rule post_mono [OF engine_audit_same]) (auto simp: defs)
  qed (simp_all only: settle_outcome_def outcome_code.case Let_def post_bind,
      (rule post_mono [OF update_intent_frame], rule post_mono [OF engine_audit_same], auto simp: defs)+)
qed

text \<open>The answer of the device in a response of the channel.\<close>

definition answer :: "channel_error + bytes \<Rightarrow> outcome_code option" where
  "answer response =
     (case response of
        Inl _ \<Rightarrow> None
      | Inr bs \<Rightarrow> (case of_decode bs of Inl _ \<Rightarrow> None | Inr frame \<Rightarrow> of_outcome frame))"

text \<open>The result of a dispatch whose delivery got \<open>response\<close>.\<close>

definition result_fits :: "channel_error + bytes \<Rightarrow> dispatch_state list \<Rightarrow> dispatch_error + dispatch_receipt \<Rightarrow> bool" where
  "result_fits response states r \<longleftrightarrow>
     (case r of
        Inl _ \<Rightarrow> answer response = None
      | Inr rc \<Rightarrow> fresh_note rc \<and>
         (case answer response of
            Some oc \<Rightarrow> rc_final_state rc = settled_as oc \<and> receipt_ok (states @ [StDelivered, StTransportAcked]) rc
          | None \<Rightarrow> response = Inl ChTimeout \<and> rc_final_state rc = StIndeterminate \<and> receipt_ok states rc))"

definition gate_settled :: "channel_error + bytes \<Rightarrow> decision_gate \<Rightarrow> u64 \<Rightarrow> f64 \<Rightarrow> decision_gate" where
  "gate_settled response g started energy =
     (if answer response = Some OcApplied then dg_record g started energy else g)"

definition count_settled :: "channel_error + bytes \<Rightarrow> u64 \<Rightarrow> u64" where
  "count_settled response n = (if answer response = Some OcApplied then n + 1 else n)"

lemmas result_defs = settled_engine_def receipt_ok_def fresh_note_def now_fn_def receipt_of_def same_control_def
  answer_def result_fits_def gate_settled_def count_settled_def

lemma deliver_and_settle_spec:
  "post (deliver_and_settle env e response states started cid corr energy) (\<lambda>(e', r).
     settled_engine e (gate_settled response (de_gate e) started energy) (count_settled response (de_committed_count e)) e' \<and>
     result_fits response states r)"
proof (cases response)
  case (Inl err)
  have audit: "post (Option.bind (engine_audit env x s d n e) (\<lambda>e. Some (e, Inl c))) (\<lambda>(e', r).
     settled_engine e (gate_settled (Inl err) (de_gate e) started energy) (count_settled (Inl err) (de_committed_count e)) e' \<and>
     result_fits (Inl err) states r)" if "err \<noteq> ChTimeout" for x s d n c err
    unfolding post_bind by (rule post_mono [OF engine_audit_same]) (auto simp: result_defs)
  show ?thesis
  proof (cases "err = ChTimeout")
    case True
    show ?thesis unfolding Inl True deliver_and_settle_def sum.case channel_error.case post_bind
      by (rule post_mono [OF update_intent_frame], rule post_mono [OF engine_audit_same]) (auto simp: result_defs)
  next
    case False
    then show ?thesis unfolding Inl deliver_and_settle_def by (cases err) (simp_all add: audit del: post_bind)
  qed
next
  case (Inr bs)
  show ?thesis
  proof (cases "of_decode bs")
    case (Inl err)
    then show ?thesis using Inr by (simp add: deliver_and_settle_def result_defs)
  next
    case frame: (Inr frame)
    show ?thesis
    proof (cases "of_outcome frame")
      case None
      then show ?thesis using Inr frame by (simp add: deliver_and_settle_def result_defs)
    next
      case (Some oc)
      then have a: "answer response = Some oc" using Inr frame by (simp add: answer_def)
      have "deliver_and_settle env e response states started cid corr energy =
          settle_outcome env e frame oc ((states @ [StDelivered]) @ [StTransportAcked]) started cid corr energy"
        using Inr frame Some by (simp only: deliver_and_settle_def sum.case option.case Let_def)
      then show ?thesis using settle_outcome_spec [of env e frame oc "states @ [StDelivered, StTransportAcked]" started cid corr energy] a
        by (auto simp: result_fits_def gate_settled_def count_settled_def elim!: post_mono)
    qed
  qed
qed

section \<open>The core\<close>

text \<open>The gate after the checks of a command, and the energy it is charged.\<close>

definition checked_gate :: "decision_gate \<Rightarrow> core_command \<Rightarrow> u64 \<Rightarrow> decision_gate \<times> bool" where
  "checked_gate g cmd started =
     (let (g1, d) = dg_check_rate g started
      in if d \<noteq> gate_decision.Allow then (g1, False)
         else case co_energy_kwh cmd of
                None \<Rightarrow> (g1, True)
              | Some x \<Rightarrow> let (g2, d) = dg_check_energy g1 started x in (g2, d = gate_decision.Allow))"

definition charged :: "core_command \<Rightarrow> f64" where
  "charged cmd = (case co_energy_kwh cmd of Some x \<Rightarrow> x | None \<Rightarrow> f64_0)"

definition delivery_timeout :: "u64 \<Rightarrow> u64" where
  "delivery_timeout deadline_ms = (if deadline_ms = 0 then - 1 else deadline_ms)"

text \<open>The result of delivering \<open>payload\<close> from the engine \<open>e\<close> with the gate \<open>g\<close>.\<close>

definition delivered ::
  "('i, 'd, 'a) dispatch_env \<Rightarrow> ('i, 'd, 'a) dispatch_engine \<Rightarrow> decision_gate \<Rightarrow> core_command \<Rightarrow> u64 \<Rightarrow> u64 \<Rightarrow> bytes \<Rightarrow>
     dispatch_state list \<Rightarrow> ('i, 'd, 'a) dispatch_engine \<times> (dispatch_error + dispatch_receipt) \<Rightarrow> bool" where
  "delivered env e g cmd started deadline_ms payload states = (\<lambda>(e', r).
     (case en_deliver env (de_delivery e) (de_target_endpoint e) payload (delivery_timeout deadline_ms) of
        (ch, response) \<Rightarrow>
          de_delivery e' = ch \<and> de_gate e' = gate_settled response g started (charged cmd) \<and>
          de_committed_count e' = count_settled response (de_committed_count e) \<and> de_ticks e \<le> de_ticks e' \<and>
          result_fits response states r))"

text \<open>An error before delivery.\<close>

definition refused ::
  "('i, 'd, 'a) dispatch_engine \<Rightarrow> decision_gate \<Rightarrow> ('i, 'd, 'a) dispatch_engine \<times> (dispatch_error + dispatch_receipt) \<Rightarrow> bool" where
  "refused e g = (\<lambda>(e', r).
     de_delivery e' = de_delivery e \<and> de_gate e' = g \<and> de_committed_count e' = de_committed_count e \<and>
     de_ticks e \<le> de_ticks e' \<and> isl r)"

lemma core_persist_spec:
  "post (core_persist env e cmd started states deadline_ms cid corr buf)
     (if snd (is_append (en_intents env) (de_intent_log e) (core_record cmd cid corr started)) = Inr ()
      then delivered env e (de_gate e) cmd started deadline_ms (core_payload e cmd corr started buf)
        (states @ [StReserved, StPersisted])
      else refused e (de_gate e))"
proof (cases "is_append (en_intents env) (de_intent_log e) (core_record cmd cid corr started)")
  case app: (Pair il r)
  show ?thesis
  proof (cases r)
    case (Inl err)
    then show ?thesis using app by (simp add: core_persist_def refused_def)
  next
    case (Inr u)
    let ?e1 = "e\<lparr>de_intent_log := il\<rparr>"
    obtain ch response where d: "en_deliver env (de_delivery e) (de_target_endpoint e)
        (core_payload ?e1 cmd corr started buf) (delivery_timeout deadline_ms) = (ch, response)" by fastforce
    have pl: "core_payload ?e1 cmd corr started buf = core_payload e cmd corr started buf"
      by (simp add: core_payload_def)
    have "core_persist env e cmd started states deadline_ms cid corr buf =
        deliver_and_settle env (?e1\<lparr>de_delivery := ch\<rparr>) response ((states @ [StReserved]) @ [StPersisted]) started cid corr (charged cmd)"
      using app Inr d by (simp add: core_persist_def charged_def delivery_timeout_def)
    then show ?thesis
      using deliver_and_settle_spec [of env "?e1\<lparr>de_delivery := ch\<rparr>" response "states @ [StReserved, StPersisted]" started cid corr "charged cmd"]
        app Inr d
      by (auto simp: delivered_def settled_engine_def pl elim!: post_mono)
  qed
qed

text \<open>The signed envelope of a command, and the state of the chain and the feedback it is judged by.\<close>

definition core_buf :: "('i, 'd, 'a) dispatch_engine \<Rightarrow> core_command \<Rightarrow> u64 \<Rightarrow> bytes" where
  "core_buf e cmd started =
     (case core_identify e (co_identity cmd) of
        (e1, cid, corr, sequence) \<Rightarrow>
          env_encode (eb_build (core_builder e cmd cid corr sequence (started div 1000)) (de_key e)))"

definition core_cid :: "('i, 'd, 'a) dispatch_engine \<Rightarrow> core_command \<Rightarrow> bytes" where
  "core_cid e cmd = fst (snd (core_identify e (co_identity cmd)))"

definition core_corr :: "('i, 'd, 'a) dispatch_engine \<Rightarrow> core_command \<Rightarrow> bytes" where
  "core_corr e cmd = fst (snd (snd (core_identify e (co_identity cmd))))"

definition selected_chain :: "('i, 'd, 'a) dispatch_engine \<Rightarrow> u64 \<Rightarrow> control_chain" where
  "selected_chain e started = chain_select (de_chain e) (cp_point_id (de_profile e)) (started div 1000)"

definition core_verdict :: "('i, 'd, 'a) dispatch_engine \<Rightarrow> core_command \<Rightarrow> trusted_telemetry \<Rightarrow> u64 \<Rightarrow> chain_outcome" where
  "core_verdict e cmd telemetry started =
     snd (chain_execute (selected_chain e started) (core_buf e cmd started) (started div 1000)
       (build_feedback (de_mapping e) telemetry (started div 1000)))"

text \<open>A command that is cleared: every condition for its delivery.\<close>

definition core_cleared ::
  "('i, 'd, 'a) dispatch_env \<Rightarrow> ('i, 'd, 'a) dispatch_engine \<Rightarrow> core_command \<Rightarrow> trusted_telemetry \<Rightarrow> authenticated_actor \<Rightarrow>
     u64 \<Rightarrow> bool" where
  "core_cleared env e cmd telemetry actor started \<longleftrightarrow>
     aa_kind actor = Ai \<and>
     (\<exists>ac obs. DryRun \<notin> set obs \<and>
        chain_admits (selected_chain e started) (core_buf e cmd started) (started div 1000)
          (build_feedback (de_mapping e) telemetry (started div 1000)) ac obs) \<and>
     power_acceptable (guard_params e) (co_power_kw cmd) (project_system_state telemetry) \<and>
     snd (checked_gate (de_gate e) cmd started) \<and>
     snd (is_append (en_intents env) (de_intent_log e)
       (core_record cmd (core_cid e cmd) (core_corr e cmd) started)) = Inr ()"

text \<open>A command that is not delivered: the engine keeps its channel and its count, and a receipt is
  given only for a key the chain holds.\<close>

definition withheld ::
  "('i, 'd, 'a) dispatch_engine \<Rightarrow> core_command \<Rightarrow> trusted_telemetry \<Rightarrow> u64 \<Rightarrow> dispatch_state list \<Rightarrow>
     ('i, 'd, 'a) dispatch_engine \<times> (dispatch_error + dispatch_receipt) \<Rightarrow> bool" where
  "withheld e cmd telemetry started states = (\<lambda>(e', r).
     de_delivery e' = de_delivery e \<and> de_committed_count e' = de_committed_count e \<and> de_ticks e \<le> de_ticks e' \<and>
     (de_gate e' = de_gate e \<or> de_gate e' = fst (checked_gate (de_gate e) cmd started)) \<and>
     (case r of
        Inl _ \<Rightarrow> True
      | Inr rc \<Rightarrow> (\<exists>prior. core_verdict e cmd telemetry started = IdempotentHit prior) \<and>
          rc_note rc = Some (co_idem_note cmd) \<and> rc_final_state rc = StCommitted \<and>
          rc_state_path rc = states @ [StCommitted] \<and> rc_committed_at_ms rc = Some started))"

lemma core_reserve_spec:
  assumes "\<not> f64_is_nan (co_power_kw cmd)"
  shows "post (core_reserve env e cmd telemetry started states deadline_ms cid corr buf)
     (\<lambda>x. if power_acceptable (guard_params e) (co_power_kw cmd) (project_system_state telemetry) \<and>
         snd (checked_gate (de_gate e) cmd started) \<and>
         snd (is_append (en_intents env) (de_intent_log e) (core_record cmd cid corr started)) = Inr ()
      then delivered env e (fst (checked_gate (de_gate e) cmd started)) cmd started deadline_ms
        (core_payload e cmd corr started buf) (states @ [StAuthorized, StReserved, StPersisted]) x
      else refused e (de_gate e) x \<or> refused e (fst (checked_gate (de_gate e) cmd started)) x)"
proof (cases "safety_guard (guard_params e) [co_power_kw cmd] (project_system_state telemetry)")
  case (Inl reason)
  then have "\<not> power_acceptable (guard_params e) (co_power_kw cmd) (project_system_state telemetry)"
    by (simp flip: guard_accepts [OF assms])
  moreover have "core_reserve env e cmd telemetry started states deadline_ms cid corr buf =
      Option.bind (engine_audit env ExecFailed safety_outcome.Blocked (DtSafetyReject (states @ [StAuthorized]) reason) started e)
        (\<lambda>e. Some (e, Inl (SafetyRejected (SfGuard reason))))"
    using Inl by (simp add: core_reserve_def)
  ultimately show ?thesis
    by (auto simp: refused_def same_control_def intro!: post_mono [OF engine_audit_same])
next
  case (Inr u)
  then have ok: "power_acceptable (guard_params e) (co_power_kw cmd) (project_system_state telemetry)"
    by (simp flip: guard_accepts [OF assms])
  let ?g = "fst (checked_gate (de_gate e) cmd started)"
  show ?thesis
  proof (cases "snd (checked_gate (de_gate e) cmd started)")
    case False
    then have "\<exists>b. core_reserve env e cmd telemetry started states deadline_ms cid corr buf =
        Some (e\<lparr>de_gate := ?g\<rparr>, Inl (BudgetExceeded b))"
      using Inr by (auto simp: core_reserve_def checked_gate_def Let_def split: prod.splits option.splits if_splits)
    with False show ?thesis by (auto simp: refused_def)
  next
    case True
    then have "core_reserve env e cmd telemetry started states deadline_ms cid corr buf =
        core_persist env (e\<lparr>de_gate := ?g\<rparr>) cmd started (states @ [StAuthorized]) deadline_ms cid corr buf"
      using Inr by (auto simp: core_reserve_def checked_gate_def Let_def split: prod.splits option.splits if_splits)
    moreover have "core_payload (e\<lparr>de_gate := ?g\<rparr>) cmd corr started buf = core_payload e cmd corr started buf"
      by (simp add: core_payload_def)
    ultimately show ?thesis
      using core_persist_spec [of env "e\<lparr>de_gate := ?g\<rparr>" cmd started "states @ [StAuthorized]" deadline_ms cid corr buf] ok True
      by (auto simp: delivered_def refused_def elim!: post_mono)
  qed
qed

lemma core_identify_frame:
  assumes "core_identify e i = (e1, cid, corr, sq)"
  shows "\<exists>n. e1 = e\<lparr>de_seq := n\<rparr>"
proof (cases i)
  case (IdIntent p n)
  with assms have "e1 = e\<lparr>de_seq := de_seq e\<rparr>" by (simp add: core_identify_def Let_def)
  then show ?thesis by blast
next
  case (IdPlan p)
  with assms show ?thesis by (auto simp: core_identify_def Let_def)
qed

lemma core_denied_spec:
  assumes "de_delivery e1 = de_delivery e" "de_gate e1 = de_gate e" "de_committed_count e1 = de_committed_count e"
    "de_ticks e1 = de_ticks e"
  shows "post (Option.bind (engine_audit env x s d n e1) (\<lambda>e. Some (e, Inl c))) (withheld e cmd telemetry started states)"
  unfolding post_bind using assms
  by (intro post_mono [OF engine_audit_same]) (simp add: withheld_def same_control_def)

text \<open>The core, once the command has its identity and the chain its verdict.\<close>

definition core_judged ::
  "('i, 'd, 'a) dispatch_env \<Rightarrow> ('i, 'd, 'a) dispatch_engine \<Rightarrow> core_command \<Rightarrow> trusted_telemetry \<Rightarrow> u64 \<Rightarrow>
     dispatch_state list \<Rightarrow> u64 \<Rightarrow> bytes \<Rightarrow> bytes \<Rightarrow> bytes \<Rightarrow> chain_outcome \<Rightarrow>
     (('i, 'd, 'a) dispatch_engine \<times> (dispatch_error + dispatch_receipt)) option" where
  "core_judged env e cmd telemetry started states deadline_ms cid corr buf out =
     (case out of
        Executed _ _ \<Rightarrow> core_reserve env e cmd telemetry started states deadline_ms cid corr buf
      | IdempotentHit _ \<Rightarrow>
          Some (receipt_of env e started cid corr StCommitted (states @ [StCommitted]) (Some started) (Some (co_idem_note cmd)))
      | DryRunOutcome _ _ \<Rightarrow>
          Option.bind (engine_audit env ExecFailed Passed (DtStatesNote states NtDryRun) started e)
            (\<lambda>e. Some (e, Inl (NotAuthorized AfDryRun)))
      | Denied reason \<Rightarrow>
          Option.bind (engine_audit env ExecFailed
              (case reason of UnsafeCommand _ \<Rightarrow> safety_outcome.Blocked | _ \<Rightarrow> Passed) (DtStatesDeny states reason) started e)
            (\<lambda>e. Some (e, Inl (case reason of
               UnsafeCommand d \<Rightarrow> SafetyRejected (SfChain d)
             | FeedbackUntrusted f s \<Rightarrow> DispatchFeedbackUntrusted f s
             | _ \<Rightarrow> NotAuthorized (AfDeny reason)))))"

lemma execute_core_judged:
  assumes "aa_kind actor = Ai" and "core_identify e (co_identity cmd) = (e\<lparr>de_seq := n\<rparr>, cid, corr, sq)"
    and "chain_execute (selected_chain e started) (core_buf e cmd started) (started div 1000)
      (build_feedback (de_mapping e) telemetry (started div 1000)) = (c, out)"
  shows "execute_core env e cmd telemetry actor started states deadline_ms =
    core_judged env (e\<lparr>de_seq := n, de_chain := c\<rparr>) cmd telemetry started states deadline_ms cid corr (core_buf e cmd started) out"
proof -
  have "env_encode (eb_build (core_builder (e\<lparr>de_seq := n\<rparr>) cmd cid corr sq (started div 1000)) (de_key e)) = core_buf e cmd started"
    by (simp add: core_buf_def assms(2) core_builder_def)
  then show ?thesis
    using assms by (simp add: execute_core_def core_judged_def selected_chain_def Let_def)
qed

lemma execute_core_spec:
  assumes "\<not> f64_is_nan (co_power_kw cmd)"
  shows "post (execute_core env e cmd telemetry actor started states deadline_ms)
     (if core_cleared env e cmd telemetry actor started
      then delivered env e (fst (checked_gate (de_gate e) cmd started)) cmd started deadline_ms
        (core_payload e cmd (core_corr e cmd) started (core_buf e cmd started))
        (states @ [StAuthorized, StReserved, StPersisted])
      else withheld e cmd telemetry started states)"
proof (cases "aa_kind actor = Ai")
  case False
  then show ?thesis by (simp add: execute_core_def core_cleared_def withheld_def)
next
  case ai: True
  obtain e1 cid corr sq where i: "core_identify e (co_identity cmd) = (e1, cid, corr, sq)" by (metis prod_cases4)
  obtain n where e1: "e1 = e\<lparr>de_seq := n\<rparr>" using core_identify_frame [OF i] by blast
  have ids: "core_cid e cmd = cid" "core_corr e cmd = corr" by (simp_all add: core_cid_def core_corr_def i)
  obtain c out where x: "chain_execute (selected_chain e started) (core_buf e cmd started) (started div 1000)
      (build_feedback (de_mapping e) telemetry (started div 1000)) = (c, out)" by fastforce
  then have out: "core_verdict e cmd telemetry started = out" by (simp add: core_verdict_def)
  have adm: "(\<exists>ac obs. DryRun \<notin> set obs \<and> chain_admits (selected_chain e started) (core_buf e cmd started) (started div 1000)
          (build_feedback (de_mapping e) telemetry (started div 1000)) ac obs) \<longleftrightarrow> (\<exists>ac obs. out = Executed ac obs)"
    using chain_execute_Executed_iff [of "selected_chain e started" "core_buf e cmd started" "started div 1000"
        "build_feedback (de_mapping e) telemetry (started div 1000)"] x by auto
  let ?e2 = "e\<lparr>de_seq := n, de_chain := c\<rparr>"
  have e2: "de_delivery ?e2 = de_delivery e" "de_gate ?e2 = de_gate e" "de_committed_count ?e2 = de_committed_count e"
    "de_ticks ?e2 = de_ticks e" by (simp_all add: e1)
  note core = execute_core_judged [OF ai i [unfolded e1] x, unfolded core_judged_def]
  show ?thesis
  proof (cases out)
    case (Executed ac obs)
    have "core_cleared env e cmd telemetry actor started \<longleftrightarrow>
        power_acceptable (guard_params ?e2) (co_power_kw cmd) (project_system_state telemetry) \<and>
         snd (checked_gate (de_gate ?e2) cmd started) \<and>
         snd (is_append (en_intents env) (de_intent_log ?e2) (core_record cmd cid corr started)) = Inr ()"
      using adm ai Executed by (simp add: core_cleared_def ids e1 guard_params_def)
    moreover have "core_payload ?e2 cmd corr started (core_buf e cmd started) =
        core_payload e cmd (core_corr e cmd) started (core_buf e cmd started)" by (simp add: core_payload_def e1 ids)
    ultimately show ?thesis
      unfolding core Executed chain_outcome.case
      by (intro post_mono [OF core_reserve_spec [OF assms]])
        (auto simp: e1 delivered_def refused_def withheld_def isl_def split: if_splits)
  next
    case (IdempotentHit p)
    then have "\<not> core_cleared env e cmd telemetry actor started" using adm by (simp add: core_cleared_def)
    then show ?thesis unfolding core IdempotentHit chain_outcome.case
      using out IdempotentHit by (simp add: withheld_def receipt_of_def now_fn_def e1)
  next
    case (DryRunOutcome ac obs)
    then have "\<not> core_cleared env e cmd telemetry actor started" using adm by (simp add: core_cleared_def)
    then show ?thesis unfolding core DryRunOutcome chain_outcome.case
      using core_denied_spec [OF e2] by (simp only: if_False)
  next
    case (Denied reason)
    then have "\<not> core_cleared env e cmd telemetry actor started" using adm by (simp add: core_cleared_def)
    then show ?thesis unfolding core Denied chain_outcome.case
      using core_denied_spec [OF e2] by (simp only: if_False)
  qed
qed

section \<open>Requests\<close>

text \<open>The command a request stands for when it passes the entry checks at time \<open>started\<close>.\<close>

definition admitted ::
  "('i, 'd, 'a) dispatch_engine \<Rightarrow> request \<Rightarrow> trusted_telemetry \<Rightarrow> u64 \<Rightarrow> core_command option" where
  "admitted e req telemetry started =
     (case req of
        PlanRequest p \<Rightarrow>
          if validate_proposal e p = None \<and> is_valid_at telemetry started then Some (plan_command p) else None
      | WriteRequest i \<Rightarrow>
          if ucast (pw_device_id i) = cp_device_id (de_profile e) \<and> pw_point_id i = cp_point_id (de_profile e) \<and>
             is_valid_at telemetry started \<and>
             (\<forall>seen. bt_get (de_last_seq e) (pw_protocol_id i) = Some seen \<longrightarrow> seen < pw_sequence i)
          then map_option (intent_command i) (intent_value (pw_value i)) else None)"

text \<open>The engine that handles an admitted request: the clock was read, the sequence number noted.\<close>

definition request_engine :: "('i, 'd, 'a) dispatch_engine \<Rightarrow> request \<Rightarrow> ('i, 'd, 'a) dispatch_engine" where
  "request_engine e req =
     (case req of
        PlanRequest p \<Rightarrow> e\<lparr>de_ticks := Suc (de_ticks e)\<rparr>
      | WriteRequest i \<Rightarrow> note_sequence (e\<lparr>de_ticks := Suc (de_ticks e)\<rparr>) i)"

lemma request_engine_frame:
  "de_delivery (request_engine e req) = de_delivery e" "de_gate (request_engine e req) = de_gate e"
  "de_committed_count (request_engine e req) = de_committed_count e"
  "de_ticks (request_engine e req) = Suc (de_ticks e)" "de_chain (request_engine e req) = de_chain e"
  "de_profile (request_engine e req) = de_profile e" "de_target_endpoint (request_engine e req) = de_target_endpoint e"
  by (simp_all add: request_engine_def note_sequence_def split: request.split)

lemma dispatch_admitted:
  assumes "admitted e req telemetry (en_now env (de_ticks e)) = Some cmd"
  shows "dispatch env e req telemetry actor deadline_ms =
    execute_core env (request_engine e req) cmd telemetry actor (en_now env (de_ticks e)) [StProposed, StValidated] deadline_ms"
proof (cases req)
  case (PlanRequest p)
  have "validate_proposal (e\<lparr>de_ticks := t\<rparr>) p = validate_proposal e p" for t by (simp add: validate_proposal_def)
  with assms PlanRequest show ?thesis
    by (simp add: admitted_def dispatch_def submit_def now_fn_def request_engine_def split: if_splits)
next
  case (WriteRequest i)
  with assms show ?thesis
    by (auto simp: admitted_def dispatch_def submit_intent_def now_fn_def request_engine_def Let_def not_le
        split: if_splits option.splits)
qed

text \<open>A request that does not pass the entry checks.\<close>

definition turned_away ::
  "('i, 'd, 'a) dispatch_engine \<Rightarrow> ('i, 'd, 'a) dispatch_engine \<times> (dispatch_error + dispatch_receipt) \<Rightarrow> bool" where
  "turned_away e = (\<lambda>(e', r).
     de_delivery e' = de_delivery e \<and> de_gate e' = de_gate e \<and> de_committed_count e' = de_committed_count e \<and>
     de_ticks e \<le> de_ticks e' \<and>
     (case r of
        Inl _ \<Rightarrow> True
      | Inr rc \<Rightarrow> rc_final_state rc = StRejected \<and> rc_state_path rc = [StProposed, StValidated] \<and>
          rc_committed_at_ms rc = None))"

lemma dispatch_turned_away:
  assumes "admitted e req telemetry (en_now env (de_ticks e)) = None"
  shows "post (dispatch env e req telemetry actor deadline_ms) (turned_away e)"
proof (cases req)
  case (PlanRequest p)
  have "validate_proposal (e\<lparr>de_ticks := t\<rparr>) p = validate_proposal e p" for t by (simp add: validate_proposal_def)
  with assms PlanRequest show ?thesis
    by (auto simp: admitted_def dispatch_def submit_def now_fn_def turned_away_def split: if_splits option.splits)
next
  case (WriteRequest i)
  let ?e = "e\<lparr>de_ticks := Suc (de_ticks e)\<rparr>" and ?t = "en_now env (de_ticks e)"
  let ?nt = "\<lambda>seen. NtReplay (pw_protocol_id i) (pw_sequence i) seen"
  have replay: "post (Option.bind (engine_audit env ExecFailed Passed (DtNote (?nt seen)) ?t ?e)
       (\<lambda>e. Some (receipt_of env e ?t (zeros 16) corr StRejected [StProposed, StValidated] None (Some (?nt seen)))))
     (turned_away e)" for seen corr
    unfolding post_bind
    by (rule post_mono [OF engine_audit_same]) (auto simp: turned_away_def receipt_of_def now_fn_def same_control_def)
  show ?thesis
  proof (cases "ucast (pw_device_id i) = cp_device_id (de_profile e) \<and> pw_point_id i = cp_point_id (de_profile e) \<and>
      is_valid_at telemetry ?t \<and> intent_value (pw_value i) \<noteq> None")
    case True
    then obtain seen where "bt_get (de_last_seq e) (pw_protocol_id i) = Some seen" "pw_sequence i \<le> seen"
      using assms WriteRequest by (auto simp: admitted_def not_less split: if_splits)
    with True WriteRequest show ?thesis using replay
      by (auto simp: dispatch_def submit_intent_def now_fn_def Let_def simp del: post_bind)
  next
    case False
    with WriteRequest show ?thesis
      by (auto simp: dispatch_def submit_intent_def now_fn_def turned_away_def Let_def simp del: post_bind split: option.splits)
  qed
qed

text \<open>The power of an admitted command is a number.\<close>

lemma f64_mk_not_nan: "m \<le> 0x7FF0000000000000 \<Longrightarrow> \<not> f64_is_nan (f64_mk neg m)"
  by (auto simp: f64_is_nan_def f64_mk_def word_less_nat_alt unsigned_take_bit_eq unat_word_ariths take_bit_nat_def
      unsigned_of_nat)

lemma admitted_not_nan:
  assumes "admitted e req telemetry started = Some cmd"
  shows "\<not> f64_is_nan (co_power_kw cmd)"
proof (cases req)
  case (PlanRequest p)
  with assms show ?thesis
    by (auto simp: admitted_def validate_proposal_def plan_command_def split: if_splits)
next
  case (WriteRequest i)
  then obtain v where v: "intent_value (pw_value i) = Some v" "cmd = intent_command i v"
    using assms by (auto simp: admitted_def split: if_splits)
  have "\<not> f64_is_nan (f64_of_i64 j)" for j unfolding f64_of_i64_def by (rule f64_mk_not_nan) (simp add: round_frac_def Let_def)
  moreover have "\<not> f64_is_nan x" if "f64_is_finite x" for x using f64_finite_not_special [OF that] by simp
  moreover have "\<not> f64_is_nan f64_1" "\<not> f64_is_nan f64_0" by (simp_all add: f64_is_nan_def)
  ultimately have "\<not> f64_is_nan v" using v(1) by (auto simp: intent_value_def split: point_value.splits if_splits)
  with v(2) show ?thesis by (simp add: intent_command_def)
qed

section \<open>Delivery\<close>

text \<open>The payload of a request that is cleared for delivery.\<close>

definition cleared_payload ::
  "('i, 'd, 'a) dispatch_env \<Rightarrow> ('i, 'd, 'a) dispatch_engine \<Rightarrow> request \<Rightarrow> trusted_telemetry \<Rightarrow> authenticated_actor \<Rightarrow>
     bytes option" where
  "cleared_payload env e req telemetry actor =
     (let started = en_now env (de_ticks e);
          e1 = request_engine e req
      in case admitted e req telemetry started of
           None \<Rightarrow> None
         | Some cmd \<Rightarrow>
           if core_cleared env e1 cmd telemetry actor started
           then Some (core_payload e1 cmd (core_corr e1 cmd) started (core_buf e1 cmd started)) else None)"

definition device_response ::
  "('i, 'd, 'a) dispatch_env \<Rightarrow> ('i, 'd, 'a) dispatch_engine \<Rightarrow> bytes \<Rightarrow> u64 \<Rightarrow> 'd \<times> (channel_error + bytes)" where
  "device_response env e payload deadline_ms =
     en_deliver env (de_delivery e) (de_target_endpoint e) payload (delivery_timeout deadline_ms)"

text \<open>All results of a dispatch, in the three cases.\<close>

lemma dispatch_cases:
  assumes "dispatch env e req telemetry actor deadline_ms = Some (e', r)"
  obtains (away) "admitted e req telemetry (en_now env (de_ticks e)) = None" "cleared_payload env e req telemetry actor = None"
      "turned_away e (e', r)"
  | (withheld) cmd where "admitted e req telemetry (en_now env (de_ticks e)) = Some cmd"
      "cleared_payload env e req telemetry actor = None"
      "withheld (request_engine e req) cmd telemetry (en_now env (de_ticks e)) [StProposed, StValidated] (e', r)"
  | (delivered) cmd payload where "admitted e req telemetry (en_now env (de_ticks e)) = Some cmd"
      "cleared_payload env e req telemetry actor = Some payload"
      "snd (checked_gate (de_gate e) cmd (en_now env (de_ticks e)))"
      "delivered env (request_engine e req) (fst (checked_gate (de_gate e) cmd (en_now env (de_ticks e)))) cmd
         (en_now env (de_ticks e)) deadline_ms payload
         [StProposed, StValidated, StAuthorized, StReserved, StPersisted] (e', r)"
proof (cases "admitted e req telemetry (en_now env (de_ticks e))")
  case None
  then show thesis using away postD [OF dispatch_turned_away [OF None] assms] by (simp add: cleared_payload_def)
next
  case (Some cmd)
  let ?t = "en_now env (de_ticks e)"
  have "execute_core env (request_engine e req) cmd telemetry actor ?t [StProposed, StValidated] deadline_ms = Some (e', r)"
    using dispatch_admitted [OF Some] assms by simp
  note sp = postD [OF execute_core_spec [OF admitted_not_nan [OF Some]] this]
  show thesis
  proof (cases "core_cleared env (request_engine e req) cmd telemetry actor ?t")
    case True
    then have g: "snd (checked_gate (de_gate e) cmd ?t)" by (simp add: core_cleared_def request_engine_frame)
    have pl: "cleared_payload env e req telemetry actor = Some (core_payload (request_engine e req) cmd
        (core_corr (request_engine e req) cmd) ?t (core_buf (request_engine e req) cmd ?t))"
      using Some True by (simp add: cleared_payload_def Let_def)
    show thesis using delivered [OF Some pl g] sp True by (simp add: request_engine_frame)
  next
    case False
    then have "cleared_payload env e req telemetry actor = None" using Some by (simp add: cleared_payload_def)
    then show thesis using withheld [OF Some] sp False by simp
  qed
qed

lemma less_dispatch: "s < t \<longleftrightarrow> state_code s < state_code (t :: dispatch_state)"
  by (simp add: less_dispatch_state_def)

section \<open>Budgets over a run\<close>

text \<open>The gate checks keep the invariants of the rate and the energy budget; a confirmed dispatch after a
  successful check keeps them too.\<close>

definition gate_inv :: "u32 \<Rightarrow> f64 \<Rightarrow> decision_gate \<Rightarrow> u64 list \<Rightarrow> u64 \<Rightarrow> bool" where
  "gate_inv m k g recs latest \<longleftrightarrow>
     dg_max_per_minute g = m \<and> dg_max_kwh_per_period g = k \<and> gate_rate_inv g recs latest \<and> energy_within g"

lemma gate_rate_inv_window:
  "dg_window g' = dg_window g \<Longrightarrow> dg_max_per_minute g' = dg_max_per_minute g \<Longrightarrow>
     gate_rate_inv g' recs now = gate_rate_inv g recs now"
  by (simp add: gate_rate_inv_def)

lemma check_energy_limit: "dg_check_energy g now x = (g', d) \<Longrightarrow> dg_max_kwh_per_period g' = dg_max_kwh_per_period g"
  by (auto simp: dg_check_energy_def Let_def split: if_splits)

lemma checked_gate_inv:
  assumes "gate_inv m k g recs latest" and "latest \<le> now"
  shows "gate_inv m k (fst (checked_gate g cmd now)) recs now"
    and "snd (checked_gate g cmd now) \<Longrightarrow>
      gate_inv m k (dg_record (fst (checked_gate g cmd now)) now (charged cmd)) (recs @ [now]) now"
proof -
  obtain g1 d where r: "dg_check_rate g now = (g1, d)" by fastforce
  have inv: "gate_rate_inv g recs latest" "dg_max_per_minute g = m" "energy_within g" "dg_max_kwh_per_period g = k" using assms(1) by (simp_all add: gate_inv_def)
  note rate = check_rate_inv [OF inv(1) assms(2) r]
  have e1: "energy_within g1" using inv(3) check_rate_energy [OF r] by (simp add: energy_within_def)
  have room: "gate_rate_inv (dg_record g' now x) (recs @ [now]) now"
    if "d = gate_decision.Allow" "dg_window g' = dg_window g1" "dg_max_per_minute g' = dg_max_per_minute g1" for g' x
    using that rate by (intro record_rate_inv) (simp_all add: gate_rate_inv_window [OF that(2,3)])
  have "gate_inv m k (fst (checked_gate g cmd now)) recs now \<and> (snd (checked_gate g cmd now) \<longrightarrow>
      gate_inv m k (dg_record (fst (checked_gate g cmd now)) now (charged cmd)) (recs @ [now]) now)"
  proof (cases "d = gate_decision.Allow \<and> co_energy_kwh cmd \<noteq> None")
    case False
    have "checked_gate g cmd now = (g1, d = gate_decision.Allow)" using r False by (auto simp: checked_gate_def)
    moreover have "charged cmd = f64_0" if "d = gate_decision.Allow" using False that by (simp add: charged_def)
    ultimately show ?thesis
      using rate e1 inv(2,4) check_rate_energy(2) [OF r] room [of g1 f64_0] record_0_within [OF e1] by (auto simp: gate_inv_def dg_record_def)
  next
    case True
    then obtain x where x: "co_energy_kwh cmd = Some x" by blast
    obtain g2 d2 where g2: "dg_check_energy g1 now x = (g2, d2)" by fastforce
    have "checked_gate g cmd now = (g2, d2 = gate_decision.Allow)" using r True x g2 by (simp add: checked_gate_def)
    moreover have "charged cmd = x" using x by (simp add: charged_def)
    moreover note check_energy_rate [OF g2] check_energy_within [OF g2 e1] check_energy_limit [OF g2]
    ultimately show ?thesis
      using rate inv(2,4) check_rate_energy(2) [OF r] True room [of g2 x] gate_rate_inv_window [of g2 g1 recs now] by (auto simp: gate_inv_def dg_record_def)
  qed
  then show "gate_inv m k (fst (checked_gate g cmd now)) recs now"
    and "snd (checked_gate g cmd now) \<Longrightarrow>
      gate_inv m k (dg_record (fst (checked_gate g cmd now)) now (charged cmd)) (recs @ [now]) now" by blast+
qed

text \<open>A run of the engine, with the start times of the dispatches it counted as committed.\<close>

inductive dispatch_run ::
  "('i, 'd, 'a) dispatch_env \<Rightarrow> ('i, 'd, 'a) dispatch_engine \<Rightarrow> u64 list \<Rightarrow> ('i, 'd, 'a) dispatch_engine \<Rightarrow> bool"
  for env e0 where
  start: "dispatch_run env e0 [] e0"
| request: "dispatch_run env e0 recs e \<Longrightarrow> dispatch env e req telemetry actor deadline_ms = Some (e', r) \<Longrightarrow>
    dispatch_run env e0
      (if de_committed_count e' = de_committed_count e then recs else recs @ [en_now env (de_ticks e)]) e'"
| renew: "dispatch_run env e0 recs e \<Longrightarrow> dispatch_run env e0 recs (update_fencing_token e token)"

lemma gate_inv_later: "gate_inv m k g recs latest \<Longrightarrow> latest \<le> now \<Longrightarrow> gate_inv m k g recs now"
  unfolding gate_inv_def gate_rate_inv_def list_all_iff by (meson order_trans saturating_sub_mono)

lemma dispatch_gate_inv:
  assumes "dispatch env e req telemetry actor deadline_ms = Some (e', r)"
    and "gate_inv m k (de_gate e) recs latest" and "latest \<le> en_now env (de_ticks e)"
  shows "gate_inv m k (de_gate e')
      (if de_committed_count e' = de_committed_count e then recs else recs @ [en_now env (de_ticks e)]) (en_now env (de_ticks e))"
    and "de_ticks e \<le> de_ticks e'"
proof -
  let ?t = "en_now env (de_ticks e)"
  have "gate_inv m k (de_gate e')
      (if de_committed_count e' = de_committed_count e then recs else recs @ [?t]) ?t \<and> de_ticks e \<le> de_ticks e'"
    using assms(1)
  proof (cases rule: dispatch_cases)
    case away
    then show ?thesis using gate_inv_later [OF assms(2,3)] by (simp add: turned_away_def)
  next
    case (withheld cmd)
    then show ?thesis
      using gate_inv_later [OF assms(2,3)] checked_gate_inv(1) [OF assms(2,3), of cmd]
      by (auto simp: withheld_def request_engine_frame)
  next
    case (delivered cmd payload)
    then show ?thesis
      using checked_gate_inv [OF assms(2,3), of cmd]
      by (auto simp: delivered_def request_engine_frame gate_settled_def count_settled_def split: prod.splits if_splits)
  qed
  then show "gate_inv m k (de_gate e') (if de_committed_count e' = de_committed_count e then recs else recs @ [?t]) ?t"
    and "de_ticks e \<le> de_ticks e'" by blast+
qed

lemma run_gate_inv:
  assumes "dispatch_run env e0 recs e" and "mono (en_now env)" and "de_gate e0 = dg_new m k p"
  shows "\<exists>latest. latest \<le> en_now env (de_ticks e) \<and> gate_inv m k (de_gate e) recs latest"
  using assms(1)
proof (induction rule: dispatch_run.induct)
  case start
  have "gate_inv m k (de_gate e0) [] 0"
    unfolding assms(3) gate_inv_def gate_rate_inv_def rate_bounded_def using new_energy_within
    by (auto simp: dg_new_def)
  then show ?case using word_zero_le by blast
next
  case (request recs e req telemetry actor deadline_ms e' r)
  then obtain latest where l: "latest \<le> en_now env (de_ticks e)" "gate_inv m k (de_gate e) recs latest" by blast
  note d = dispatch_gate_inv [OF request.hyps(2) l(2,1)]
  then show ?case using monoD [OF assms(2) d(2)] by blast
next
  case (renew recs e token)
  then show ?case by (simp add: update_fencing_token_def)
qed

section \<open>The engine returns\<close>

definition returns :: "'r option \<Rightarrow> bool" where
  "returns m \<longleftrightarrow> m \<noteq> None"

lemma returns_Some [simp]: "returns (Some x)"
  by (simp add: returns_def)

lemma returns_bind: "returns m \<Longrightarrow> (\<And>x. returns (f x)) \<Longrightarrow> returns (Option.bind m f)"
  by (auto simp: returns_def)

text \<open>What the engine relies on: an update of the intent store and an entry in the control audit do not
  panic, and a fixed-capacity string holds no more than its capacity.\<close>

definition env_total :: "('i, 'd, 'a) dispatch_env \<Rightarrow> bool" where
  "env_total env \<longleftrightarrow>
     (\<forall>s k st. is_update_state (en_intents env) s k st \<noteq> None) \<and> (\<forall>a ev. en_log env a ev \<noteq> None) \<and>
     (\<forall>n s. length (en_fixed env n s) \<le> n)"

lemma log_decision_returns:
  assumes "env_total env"
  shows "returns (log_decision (en_sha env) (en_fixed env) da rec)"
proof -
  have "compute_event_hash (en_sha env) ((ae_new (en_fixed env) ty a t d)\<lparr>ae_timestamp_ms := ts, ae_seq := i\<rparr>) =
      Some (en_sha env (event_bytes ((ae_new (en_fixed env) ty a t d)\<lparr>ae_timestamp_ms := ts, ae_seq := i\<rparr>)))" for ty a t d ts i
    using event_bytes_fit [of "en_fixed env" "en_sha env"] assms unfolding env_total_def compute_event_hash_def by metis
  then show ?thesis by (simp add: returns_def log_decision_def al_log_def Let_def del: not_None_eq)
qed

lemma engine_audit_returns:
  assumes "env_total env"
  shows "returns (engine_audit env x s d n e)"
proof -
  have log: "returns (en_log env a ev)" for a ev using assms by (simp add: env_total_def returns_def)
  have "returns (audit_control env x s d e)" for e
    using log unfolding audit_control_def
    by (cases "de_control_audit e") (auto intro!: returns_bind simp: Let_def split: prod.split)
  moreover have "returns (audit_decision env x s d n e)" for e
    using log_decision_returns [OF assms] unfolding audit_decision_def
    by (cases "de_audit e") (auto intro!: returns_bind simp: Let_def split: prod.split)
  ultimately show ?thesis unfolding engine_audit_def by (intro returns_bind)
qed

lemma update_intent_returns: "env_total env \<Longrightarrow> returns (update_intent env e cid st)"
  unfolding update_intent_def env_total_def by (intro returns_bind) (auto simp: returns_def)

lemma deliver_and_settle_returns:
  assumes "env_total env"
  shows "returns (deliver_and_settle env e response states started cid corr energy)"
proof -
  note r = returns_bind update_intent_returns [OF assms] engine_audit_returns [OF assms]
  have "returns (settle_outcome env e frame oc sts started cid corr energy)" for e frame oc sts
    by (cases oc) (auto simp: settle_outcome_def Let_def now_fn_def intro!: r)
  then show ?thesis
    unfolding deliver_and_settle_def by (auto intro!: r simp: Let_def split: sum.split channel_error.split option.split)
qed

lemma execute_core_returns:
  assumes "env_total env"
  shows "returns (execute_core env e cmd telemetry actor started states deadline_ms)"
proof -
  note r = returns_bind update_intent_returns [OF assms] engine_audit_returns [OF assms] deliver_and_settle_returns [OF assms]
  have p: "returns (core_persist env e cmd started states deadline_ms cid corr buf)" for e states cid corr buf
    unfolding core_persist_def by (auto intro!: r simp: Let_def split: sum.split prod.split)
  have "returns (core_reserve env e cmd telemetry started states deadline_ms cid corr buf)" for e cid corr buf
    unfolding core_reserve_def by (auto intro!: r p simp: Let_def split: sum.split prod.split option.split)
  then show ?thesis
    unfolding execute_core_def by (auto intro!: r simp: Let_def split: prod.split chain_outcome.split)
qed

lemma dispatch_returns:
  assumes "env_total env"
  shows "returns (dispatch env e req telemetry actor deadline_ms)"
proof (cases "admitted e req telemetry (en_now env (de_ticks e))")
  case (Some cmd)
  show ?thesis unfolding dispatch_admitted [OF Some] by (rule execute_core_returns [OF assms])
next
  case None
  note r = returns_bind engine_audit_returns [OF assms] execute_core_returns [OF assms]
  show ?thesis
    by (cases req) (auto simp: dispatch_def submit_def submit_intent_def Let_def now_fn_def intro!: r split: option.split)
qed

end
