(* ===== verification/Dispatch_Safety.thy ===== *)
theory Dispatch_Safety
  imports Dispatch_Clearance Chain_Scenario
begin

text \<open>
  What the dispatch engine guarantees, and where it does not: the properties of the engine, with one
  concrete site for their witnesses.
\<close>

section \<open>A site\<close>

text \<open>The engine of the breaker profile of the chain scenario, at time 100 s, with an in-memory intent
  store, a channel and no audit.\<close>

definition site_env_on ::
  "('d \<Rightarrow> bytes \<Rightarrow> bytes \<Rightarrow> u64 \<Rightarrow> 'd \<times> (channel_error + bytes)) \<Rightarrow> (mem_intent_store, 'd, unit) dispatch_env" where
  "site_env_on deliver =
     \<lparr>en_intents = mem_intent_ops, en_deliver = deliver,
      en_log = (\<lambda>a ev. Some (a, Inl StorageWriteFailed)), en_now = (\<lambda>_. 100000), en_sha = (\<lambda>x. x),
      en_fixed = take, en_text = (\<lambda>_. [])\<rparr>"

definition site_engine_on :: "'d \<Rightarrow> decision_gate \<Rightarrow> (mem_intent_store, 'd, unit) dispatch_engine" where
  "site_engine_on ch g =
     \<lparr>de_chain = demo_chain, de_key = demo_key, de_profile = demo_profile, de_fencing_token = 42,
      de_issuer_service = replicate 16 3, de_issuer_epoch = 1, de_target_endpoint = str ''svc-device-agent'',
      de_max_power_kw = f64_500, de_safety_voltage_window = (0x4075400000000000, 0x407A400000000000),
      de_safety_freq_window = (0x4048C00000000000, 0x4049400000000000), de_safety_ramp_kw_per_min = 0x4069000000000000,
      de_gate = g, de_audit = None, de_control_audit = None, de_intent_log = mis_new 8, de_delivery = ch,
      de_mapping = PROD_FEEDBACK_MAPPING, de_ticks = 0, de_seq = 0, de_committed_count = 0, de_audit_drop_count = 0,
      de_audit_append_count = 0, de_last_seq = bt_empty\<rparr>"

text \<open>The channel of most witnesses keeps what was delivered and always gives the same response.\<close>

abbreviation site_env :: "channel_error + bytes \<Rightarrow> (mem_intent_store, bytes list, unit) dispatch_env" where
  "site_env response \<equiv> site_env_on (\<lambda>d target payload timeout. (d @ [payload], response))"

abbreviation site_engine :: "decision_gate \<Rightarrow> (mem_intent_store, bytes list, unit) dispatch_engine" where
  "site_engine g \<equiv> site_engine_on [] g"

lemmas site_env_def = site_env_on_def
lemmas site_engine_def = site_engine_on_def

definition site_telemetry :: trusted_telemetry where
  "site_telemetry =
     \<lparr>tt_state = demo_state, tt_coverage = [], tt_valid_until_ms = 101000, tt_provenance_digest = zeros 32,
      tt_generated_at_ms = 99000, tt_source_epoch = 0, tt_mapping_version = 1,
      tt_samples = [(1, f64_600), (4, f64_50), (5, f64_1), (6, f64_0)]\<rparr>"

definition site_actor :: authenticated_actor where
  "site_actor = \<lparr>aa_kind = Ai, aa_service = zeros 16, aa_session_epoch = 0\<rparr>"

definition site_write :: request where
  "site_write = WriteRequest
     \<lparr>pw_protocol_id = str ''modbus'', pw_device_id = 7, pw_point_id = 10, pw_value = PvFloat f64_100, pw_sequence = 1,
      pw_issued_ms = 99500\<rparr>"

definition site_plan :: request where
  "site_plan = PlanRequest (single_entry (str ''req-1'') FastPath f64_100 f64_50 Optimal 60 99500 None)"

lemma site_total: "env_total (site_env_on deliver)"
  by (simp add: env_total_def site_env_def mem_intent_ops_def mis_update_state_def)

lemma site_feedback:
  "bundle_trusted (build_feedback PROD_FEEDBACK_MAPPING site_telemetry 100) 100 60"
  "\<not> unsafe_action (profile_safety_point demo_profile) (Single SOn)
     (measured_context (build_feedback PROD_FEEDBACK_MAPPING site_telemetry 100))"
  by (simp_all add: bundle_trusted_def trusted_def build_feedback_def feedback_of_def PROD_FEEDBACK_MAPPING_def
      site_telemetry_def bt_get_def f64_is_finite_def f64_ex_def f64_lt_def f64_key_def f64_is_nan_def f64_eq_def
      unsafe_action_def profile_safety_point_def demo_profile_def ai_pcc_single_def measured_context_def)

lemma demo_chain_selected: "chain_select demo_chain 10 100 = demo_chain"
  by (simp add: chain_select_def demo_chain_eq demo_profile_def ai_pcc_single_def tuning_default_def sbo_select_def)

lemma site_admits:
  assumes "request_fits demo_profile 42 b 100" and "eb_command b = Single SOn"
  shows "chain_admits demo_chain (env_encode (eb_build b demo_key)) 100
    (build_feedback PROD_FEEDBACK_MAPPING site_telemetry 100) (authorized_of (eb_build b demo_key) 7) []"
  using profile_executes_lemma [OF demo_ready _ assms(1), of "build_feedback PROD_FEEDBACK_MAPPING site_telemetry 100"]
    site_feedback assms(2)
  by (simp add: profile_usable_def demo_profile_def ai_pcc_single_def tuning_default_def saturating_add_def)

lemma site_builder:
  assumes "de_profile e = demo_profile" "de_fencing_token e = 42" "de_issuer_service e = replicate 16 3"
    and "length cid = 16" "length corr = 16" "f64_lt f64_0 (co_power_kw cmd)" "co_ttl_secs cmd = 60"
  shows "request_fits demo_profile 42 (core_builder e cmd cid corr sq 100) 100"
    and "eb_command (core_builder e cmd cid corr sq 100) = Single SOn"
    and "eb_idempotency_key (core_builder e cmd cid corr sq 100) = corr"
    and "eb_command_id (core_builder e cmd cid corr sq 100) = cid"
  using assms
  by (simp_all add: core_builder_def builder_defs request_fits_def eb_wf_def demo_profile_def ai_pcc_single_def
      tuning_default_def saturating_add_def)

lemma site_ids: "length (correlation_of p) = 16" "length (intent_correlation p n) = 16"
  by (simp_all add: correlation_of_def intent_correlation_def Let_def length_put)

lemma power_100: "f64_lt f64_0 f64_100" "\<not> f64_is_nan f64_100" "f64_is_finite f64_100" "\<not> f64_is_infinite f64_100"
  "\<not> f64_lt f64_500 (f64_abs f64_100)"
  by (simp_all add: f64_lt_def f64_key_def f64_is_nan_def f64_is_finite_def f64_ex_def f64_is_infinite_def f64_abs_def)

lemma site_guard: "power_acceptable (guard_params (site_engine_on ch g)) f64_100 (project_system_state site_telemetry)"
proof -
  have "project_system_state site_telemetry = demo_state"
    by (simp add: project_system_state_def site_telemetry_def demo_state_def f64_is_finite_def f64_ex_def)
  moreover have "guard_params (site_engine_on ch g) = demo_guard" by (simp add: guard_params_def site_engine_def demo_guard_def)
  moreover have "f64_is_finite (ss_current_a demo_state)" by (simp add: demo_state_def f64_is_finite_def f64_ex_def)
  ultimately show ?thesis using demo_acceptable [of "ss_current_a demo_state"] by simp
qed

lemma site_write_admitted:
  "admitted (site_engine_on ch g) site_write site_telemetry 100000 =
     Some (intent_command \<lparr>pw_protocol_id = str ''modbus'', pw_device_id = 7, pw_point_id = 10, pw_value = PvFloat f64_100,
       pw_sequence = 1, pw_issued_ms = 99500\<rparr> f64_100)"
  by (simp add: admitted_def site_write_def site_engine_def demo_profile_def ai_pcc_single_def is_valid_at_def
      site_telemetry_def intent_value_def power_100)

text \<open>The envelope of the write is one the profile admits.\<close>

lemma site_envelope:
  assumes "admitted (site_engine_on ch (dg_new 10 k p)) site_write site_telemetry 100000 = Some cmd"
  obtains b where "core_buf (request_engine (site_engine_on ch (dg_new 10 k p)) site_write) cmd 100000 = env_encode (eb_build b demo_key)"
    "request_fits demo_profile 42 b 100" "eb_command b = Single SOn" "co_power_kw cmd = f64_100" "co_energy_kwh cmd = None"
proof -
  let ?e = "request_engine (site_engine_on ch (dg_new 10 k p)) site_write"
  let ?c = "intent_correlation (str ''modbus'') 1"
  let ?b = "core_builder ?e cmd ?c ?c 1 100"
  have cmd: "co_identity cmd = IdIntent (str ''modbus'') 1" "co_power_kw cmd = f64_100" "co_ttl_secs cmd = 60" "co_energy_kwh cmd = None"
    using assms [unfolded site_write_admitted] by (auto simp: intent_command_def INTENT_TTL_SECS_def)
  have e: "de_profile ?e = demo_profile" "de_fencing_token ?e = 42" "de_issuer_service ?e = replicate 16 3" "de_key ?e = demo_key"
    by (simp_all add: request_engine_def site_write_def note_sequence_def site_engine_def)
  have buf: "core_buf ?e cmd 100000 = env_encode (eb_build ?b demo_key)"
    by (simp add: core_buf_def cmd core_identify_def e Let_def)
  have "request_fits demo_profile 42 ?b 100" "eb_command ?b = Single SOn"
    using site_builder [OF e(1-3) site_ids(2) site_ids(2)] cmd power_100(1) by simp_all
  with buf cmd that show thesis by blast
qed

lemma site_cleared:
  assumes "admitted (site_engine_on ch (dg_new 10 k p)) site_write site_telemetry 100000 = Some cmd"
  shows "core_cleared (site_env_on deliver) (request_engine (site_engine_on ch (dg_new 10 k p)) site_write) cmd site_telemetry site_actor 100000"
proof -
  let ?e = "request_engine (site_engine_on ch (dg_new 10 k p)) site_write"
  obtain b where b: "core_buf ?e cmd 100000 = env_encode (eb_build b demo_key)" "request_fits demo_profile 42 b 100"
    "eb_command b = Single SOn" "co_power_kw cmd = f64_100" "co_energy_kwh cmd = None" by (rule site_envelope [OF assms])
  have e: "de_profile ?e = demo_profile" "de_chain ?e = demo_chain" "de_mapping ?e = PROD_FEEDBACK_MAPPING" "de_gate ?e = dg_new 10 k p"
    "de_intent_log ?e = mis_new 8" "guard_params ?e = guard_params (site_engine_on ch (dg_new 10 k p))"
    by (simp_all add: request_engine_def site_write_def note_sequence_def site_engine_def guard_params_def)
  have sel: "selected_chain ?e 100000 = demo_chain"
    using demo_chain_selected by (simp add: selected_chain_def e demo_profile_def ai_pcc_single_def)
  have "\<exists>ac obs. DryRun \<notin> set obs \<and> chain_admits (selected_chain ?e 100000) (core_buf ?e cmd 100000) (100000 div 1000)
      (build_feedback (de_mapping ?e) site_telemetry (100000 div 1000)) ac obs"
    using site_admits [OF b(2,3)] by (intro exI [of _ "authorized_of (eb_build b demo_key) 7"] exI [of _ "[]"])
      (simp add: b(1) sel e)
  moreover have "snd (checked_gate (dg_new 10 k p) cmd 100000)"
    by (simp add: checked_gate_def b(5) dg_check_rate_def dg_new_def Let_def)
  moreover have "snd (is_append (en_intents (site_env_on deliver)) (mis_new 8) rec) = Inr ()" for rec
    by (simp add: site_env_def mem_intent_ops_def mis_append_def mis_new_def)
  ultimately show ?thesis
    using site_guard [of ch "dg_new 10 k p"] unfolding core_cleared_def by (simp add: e b(4) site_actor_def)
qed

text \<open>The write is dispatched and the device applies it.\<close>

lemma site_dispatch:
  obtains e' r payload where
    "dispatch (site_env_on deliver) (site_engine_on ch (dg_new 10 k p)) site_write site_telemetry site_actor 0 = Some (e', r)"
    "cleared_payload (site_env_on deliver) (site_engine_on ch (dg_new 10 k p)) site_write site_telemetry site_actor = Some payload"
proof -
  have t: "en_now (site_env_on deliver) n = 100000" for n by (simp add: site_env_def)
  obtain cmd where a: "admitted (site_engine_on ch (dg_new 10 k p)) site_write site_telemetry 100000 = Some cmd"
    using site_write_admitted [of ch "dg_new 10 k p"] by simp
  then obtain payload where c: "cleared_payload (site_env_on deliver) (site_engine_on ch (dg_new 10 k p)) site_write site_telemetry site_actor = Some payload"
    using site_cleared [OF a, of deliver] by (simp add: cleared_payload_def t Let_def)
  have "returns (dispatch (site_env_on deliver) (site_engine_on ch (dg_new 10 k p)) site_write site_telemetry site_actor 0)"
    by (rule dispatch_returns [OF site_total])
  then obtain e' r where "dispatch (site_env_on deliver) (site_engine_on ch (dg_new 10 k p)) site_write site_telemetry site_actor 0 = Some (e', r)"
    by (metis returns_def option.exhaust surj_pair)
  then show thesis using that c by blast
qed

section \<open>Delivery\<close>

text \<open>C2. The engine delivers exactly the cleared requests: a plan or a protocol write reaches the delivery
  channel if and only if it passes the entry checks (a finite power within the limit, a positive
  lifetime, a schedule, or the bound device and point and a sequence number above the last one seen;
  telemetry still valid), comes from the AI decision chain, is admitted by the control chain without a
  dry run, is acceptable to the electrical guard, fits the rate and energy budgets, and was recorded as
  a durable intent first. The channel then carries one payload, and in every other case it is not touched.\<close>

theorem dispatch_delivers_iff_cleared:
  assumes "dispatch env e req telemetry actor deadline_ms = Some (e', r)"
  shows "de_delivery e' =
    (case cleared_payload env e req telemetry actor of
       None \<Rightarrow> de_delivery e
     | Some payload \<Rightarrow> fst (device_response env e payload deadline_ms))"
  using assms
proof (cases rule: dispatch_cases)
  case away
  then show ?thesis by (simp add: turned_away_def)
next
  case (withheld cmd)
  then show ?thesis by (simp add: withheld_def request_engine_frame)
next
  case (delivered cmd payload)
  then show ?thesis
    by (auto simp: delivered_def device_response_def request_engine_frame split: prod.splits)
qed

theorem dispatch_delivers_iff_cleared_witness:
  "\<exists>e' r payload. dispatch (site_env (Inr [0, 0])) (site_engine (dg_new 10 f64_100 0)) site_write site_telemetry site_actor 0 =
     Some (e', r) \<and> de_delivery e' = [payload]"
proof -
  obtain e' r payload where d:
    "dispatch (site_env (Inr [0, 0])) (site_engine (dg_new 10 f64_100 0)) site_write site_telemetry site_actor 0 = Some (e', r)"
    "cleared_payload (site_env (Inr [0, 0])) (site_engine (dg_new 10 f64_100 0)) site_write site_telemetry site_actor = Some payload"
    by (rule site_dispatch)
  have "de_delivery e' = [payload]"
    using dispatch_delivers_iff_cleared [OF d(1)] d(2) by (simp add: device_response_def site_env_def site_engine_def)
  with d(1) show ?thesis by blast
qed

text \<open>C3. A receipt says committed only if the device confirmed: the request was cleared and delivered, and
  the device answered that it applied the command or had applied it before; or nothing was delivered
  and the control chain already held an outcome for the idempotency key of the request.\<close>

theorem committed_means_confirmed:
  assumes "dispatch env e req telemetry actor deadline_ms = Some (e', Inr rc)" and "is_committed (rc_final_state rc)"
  shows "(\<exists>payload. cleared_payload env e req telemetry actor = Some payload \<and>
      answer (snd (device_response env e payload deadline_ms)) \<in> {Some OcApplied, Some OcIdempotentHit}) \<or>
    (\<exists>cmd prior. admitted e req telemetry (en_now env (de_ticks e)) = Some cmd \<and> de_delivery e' = de_delivery e \<and>
      core_verdict (request_engine e req) cmd telemetry (en_now env (de_ticks e)) = IdempotentHit prior)"
  using assms(1)
proof (cases rule: dispatch_cases)
  case away
  then show ?thesis using assms(2) by (simp add: turned_away_def is_committed_def)
next
  case (withheld cmd)
  then show ?thesis by (auto simp: withheld_def request_engine_frame)
next
  case (delivered cmd payload)
  then have "result_fits (snd (device_response env e payload deadline_ms))
      [StProposed, StValidated, StAuthorized, StReserved, StPersisted] (Inr rc)"
    by (auto simp: delivered_def device_response_def request_engine_frame split: prod.splits)
  then have "answer (snd (device_response env e payload deadline_ms)) \<in> {Some OcApplied, Some OcIdempotentHit}"
    using assms(2)
    by (auto simp: result_fits_def is_committed_def settled_as_def split: option.splits outcome_code.splits)
  with delivered(2) show ?thesis by blast
qed

lemma site_receipt:
  assumes "dispatch (site_env (Inr [0, 0])) (site_engine (dg_new 10 k p)) site_write site_telemetry site_actor 0 = Some (e', r)"
  obtains rc where "r = Inr rc" "rc_final_state rc = StCommitted" "de_committed_count e' = 1"
proof -
  obtain payload where pl: "cleared_payload (site_env (Inr [0, 0])) (site_engine (dg_new 10 k p)) site_write site_telemetry site_actor = Some payload"
    by (rule site_dispatch)
  have an: "answer (Inr [0, 0]) = Some OcApplied" by (simp add: answer_def of_decode_def oc_from_code_def of_outcome_def)
  show thesis
    using assms
  proof (cases rule: dispatch_cases)
    case (delivered cmd payload)
    then have "result_fits (Inr [0, 0]) [StProposed, StValidated, StAuthorized, StReserved, StPersisted] r"
      "de_committed_count e' = count_settled (Inr [0, 0]) 0"
      by (simp_all add: delivered_def site_env_def request_engine_frame site_engine_def)
    then show thesis using that an by (cases r) (auto simp: result_fits_def settled_as_def count_settled_def)
  qed (use pl in simp_all)
qed

theorem committed_means_confirmed_witness:
  "\<exists>e' rc. dispatch (site_env (Inr [0, 0])) (site_engine (dg_new 10 f64_100 0)) site_write site_telemetry site_actor 0 =
      Some (e', Inr rc) \<and> is_committed (rc_final_state rc) \<and>
    ((\<exists>payload. cleared_payload (site_env (Inr [0, 0])) (site_engine (dg_new 10 f64_100 0)) site_write site_telemetry site_actor = Some payload) \<or>
     de_delivery e' = [])"
proof -
  obtain e' r where d: "dispatch (site_env (Inr [0, 0])) (site_engine (dg_new 10 f64_100 0)) site_write site_telemetry site_actor 0 = Some (e', r)"
    by (rule site_dispatch)
  obtain rc where rc: "r = Inr rc" "rc_final_state rc = StCommitted" by (rule site_receipt [OF d])
  then have c: "is_committed (rc_final_state rc)" by (simp add: is_committed_def)
  from committed_means_confirmed [OF d [unfolded rc(1)] c] d rc(1) c show ?thesis by (auto simp: site_engine_def)
qed

text \<open>C16. Receipts are well-formed: the path of states starts with proposed and validated and strictly
  ascends the state machine, the final state is terminal or indeterminate, it is committed exactly when
  the path ends in committed, and a time of commitment is given exactly then.\<close>

theorem receipt_well_formed:
  assumes "dispatch env e req telemetry actor deadline_ms = Some (e', Inr rc)"
  shows "sorted_wrt (<) (rc_state_path rc) \<and> take 2 (rc_state_path rc) = [StProposed, StValidated] \<and>
    rc_final_state rc \<in> {StCommitted, StRejected, StFailed, StIndeterminate} \<and>
    (rc_final_state rc = StCommitted \<longleftrightarrow> last (rc_state_path rc) = StCommitted) \<and>
    (rc_final_state rc = StCommitted \<longleftrightarrow> rc_committed_at_ms rc \<noteq> None)"
  using assms
proof (cases rule: dispatch_cases)
  case away
  then show ?thesis by (simp add: turned_away_def less_dispatch)
next
  case (withheld cmd)
  then show ?thesis by (simp add: withheld_def less_dispatch)
next
  case (delivered cmd payload)
  then have "result_fits (snd (device_response env e payload deadline_ms))
      [StProposed, StValidated, StAuthorized, StReserved, StPersisted] (Inr rc)"
    by (auto simp: delivered_def device_response_def request_engine_frame split: prod.splits)
  then have "receipt_ok [StProposed, StValidated, StAuthorized, StReserved, StPersisted, StDelivered, StTransportAcked] rc \<or>
      receipt_ok [StProposed, StValidated, StAuthorized, StReserved, StPersisted] rc"
    by (auto simp: result_fits_def split: option.splits)
  then show ?thesis by (auto simp: receipt_ok_def less_dispatch)
qed

theorem receipt_well_formed_witness:
  "\<exists>e' rc. dispatch (site_env (Inr [0, 0])) (site_engine (dg_new 10 f64_100 0)) site_write site_telemetry site_actor 0 =
      Some (e', Inr rc) \<and> last (rc_state_path rc) = StCommitted"
proof -
  obtain e' r where d: "dispatch (site_env (Inr [0, 0])) (site_engine (dg_new 10 f64_100 0)) site_write site_telemetry site_actor 0 = Some (e', r)"
    by (rule site_dispatch)
  obtain rc where rc: "r = Inr rc" "rc_final_state rc = StCommitted" by (rule site_receipt [OF d])
  from receipt_well_formed [OF d [unfolded rc(1)]] d rc show ?thesis by blast
qed

section \<open>Budgets\<close>

text \<open>C15. Budgets hold over any run: however plans, protocol writes and lease renewals interleave, on a clock
  that does not go back, at most as many dispatches as the gate allows are confirmed in any minute, and
  the energy charged in the current period stays within the budget plus the 1e-9 kWh the gate tolerates in
  its own comparison.\<close>

theorem dispatch_budgets_hold:
  assumes "dispatch_run env e0 recs e" and "mono (en_now env)" and "de_gate e0 = dg_new m k p"
  shows "rate_bounded m recs \<and>
    (dg_used_kwh (de_gate e) = f64_0 \<or> f64_le (dg_used_kwh (de_gate e)) (f64_add k gate_eps))"
  using run_gate_inv [OF assms] by (auto simp: gate_inv_def gate_rate_inv_def energy_within_def)

theorem dispatch_budgets_hold_witness:
  "\<exists>e. dispatch_run (site_env (Inr [0, 0])) (site_engine (dg_new 10 f64_100 0)) [100000] e \<and> rate_bounded 10 [100000]"
proof -
  obtain e' r where d: "dispatch (site_env (Inr [0, 0])) (site_engine (dg_new 10 f64_100 0)) site_write site_telemetry site_actor 0 = Some (e', r)"
    by (rule site_dispatch)
  have "de_committed_count e' = 1" by (rule site_receipt [OF d])
  then have r: "dispatch_run (site_env (Inr [0, 0])) (site_engine (dg_new 10 f64_100 0)) [100000] e'"
    using dispatch_run.request [OF dispatch_run.start d] by (simp add: site_engine_def site_env_def)
  have "mono (en_now (site_env (Inr [0, 0])))" by (simp add: site_env_def mono_def)
  from dispatch_budgets_hold [OF r this] r show ?thesis by (auto simp: site_engine_def)
qed

end
