(* ===== verification/Dispatch_Refusal.thy ===== *)
theory Dispatch_Refusal
  imports Dispatch_Safety
begin

text \<open>
  What a refusal of the dispatch engine leaves behind: the control chain notes the idempotency key before
  the guard and the budgets are checked.
\<close>

section \<open>Budget refusals\<close>

text \<open>Only the budget check answers with a budget error, and it changes nothing but the gate.\<close>

lemma deliver_no_budget:
  "post (deliver_and_settle env e response states started cid corr energy) (\<lambda>x. snd x \<noteq> Inl (BudgetExceeded b))"
proof (cases response)
  case (Inl err)
  then show ?thesis
    by (cases err) (auto simp: deliver_and_settle_def receipt_of_def Let_def now_fn_def intro!: post_any)
next
  case (Inr bs)
  then show ?thesis
    by (auto simp: deliver_and_settle_def settle_outcome_def receipt_of_def Let_def now_fn_def intro!: post_any
        split: sum.splits option.splits outcome_code.splits)
qed

lemma core_persist_no_budget:
  "post (core_persist env e cmd started states deadline_ms cid corr buf) (\<lambda>x. snd x \<noteq> Inl (BudgetExceeded b))"
  by (simp add: core_persist_def Let_def case_prod_beta deliver_no_budget split: sum.split)

lemma core_reserve_budget:
  assumes "core_reserve env e cmd telemetry started states deadline_ms cid corr buf = Some (e', Inl (BudgetExceeded b))"
  shows "\<exists>g. e' = e\<lparr>de_gate := g\<rparr>"
proof -
  have np: "core_persist env e cmd started states deadline_ms cid corr buf \<noteq> Some (e', Inl (BudgetExceeded b))" for e states
    using core_persist_no_budget [of env e cmd started states deadline_ms cid corr buf b] unfolding post_def by fastforce
  show ?thesis
    using assms np by (auto simp: core_reserve_def Let_def bind_eq_Some_conv split: sum.splits option.splits prod.splits if_splits)
qed

text \<open>Such a refusal comes after the chain executed the command.\<close>

lemma execute_core_budget:
  assumes "execute_core env e cmd telemetry actor started states deadline_ms = Some (e', Inl (BudgetExceeded b))"
  shows "\<exists>n c g ac obs. e' = e\<lparr>de_seq := n, de_chain := c, de_gate := g\<rparr> \<and>
    chain_execute (selected_chain e started) (core_buf e cmd started) (started div 1000)
      (build_feedback (de_mapping e) telemetry (started div 1000)) = (c, Executed ac obs)"
proof -
  have ai: "aa_kind actor = Ai" using assms by (cases "aa_kind actor = Ai") (simp_all add: execute_core_def)
  obtain e1 cid corr sq where i: "core_identify e (co_identity cmd) = (e1, cid, corr, sq)" by (metis prod_cases4)
  obtain n where e1: "e1 = e\<lparr>de_seq := n\<rparr>" using core_identify_frame [OF i] by blast
  obtain c out where x: "chain_execute (selected_chain e started) (core_buf e cmd started) (started div 1000)
      (build_feedback (de_mapping e) telemetry (started div 1000)) = (c, out)" by fastforce
  have j: "core_judged env (e\<lparr>de_seq := n, de_chain := c\<rparr>) cmd telemetry started states deadline_ms cid corr (core_buf e cmd started) out
      = Some (e', Inl (BudgetExceeded b))"
    using execute_core_judged [OF ai i [unfolded e1] x] assms by simp
  show ?thesis
  proof (cases out)
    case (Executed ac obs)
    with j core_reserve_budget have "\<exists>g. e' = e\<lparr>de_seq := n, de_chain := c, de_gate := g\<rparr>" by (fastforce simp: core_judged_def)
    with x Executed show ?thesis by blast
  next
    case (Denied reason)
    with j show ?thesis by (cases reason) (auto simp: core_judged_def bind_eq_Some_conv)
  qed (use j in \<open>auto simp: core_judged_def bind_eq_Some_conv receipt_of_def Let_def now_fn_def\<close>)
qed

text \<open>The widths the types of the code give its byte arrays.\<close>

definition engine_wf :: "('i, 'd, 'a) dispatch_engine \<Rightarrow> bool" where
  "engine_wf e \<longleftrightarrow> length (de_issuer_service e) = 16 \<and> length (cp_lease_id (de_profile e)) = 16"

lemma core_identify_lengths:
  "core_identify e i = (e1, cid, corr, sq) \<Longrightarrow> length cid = 16 \<and> length corr = 16"
  by (auto simp: core_identify_def Let_def site_ids length_put split: core_identity.splits)

text \<open>A command the chain admits carries the correlation of its request as idempotency key.\<close>

lemma admitted_key:
  assumes "engine_wf e" and "chain_admits c (core_buf e cmd started) now fb ac obs"
  shows "ac_idempotency_key ac = core_corr e cmd"
proof -
  obtain e1 cid corr sq where i: "core_identify e (co_identity cmd) = (e1, cid, corr, sq)" by (metis prod_cases4)
  let ?b = "core_builder e cmd cid corr sq (started div 1000)"
  have "eb_wf ?b" using assms(1) core_identify_lengths [OF i]
    by (simp add: engine_wf_def core_builder_def builder_defs eb_wf_def)
  then have "env_decode (core_buf e cmd started) = Inr (eb_build ?b (de_key e))"
    using env_decode_encode [OF env_wf_build] by (simp add: core_buf_def i)
  then show ?thesis using assms(2)
    by (auto simp: chain_admits_def authorized_of_def core_corr_def i core_builder_def builder_defs eb_build_def Let_def)
qed

lemma selected_chain_idempotency [simp]: "cc_idempotency (selected_chain e t) = cc_idempotency (de_chain e)"
  by (simp add: selected_chain_def chain_select_def)

lemma plan_corr: "core_corr e (plan_command p) = correlation_of (pp_plan_id p)"
  by (simp add: core_corr_def plan_command_def core_identify_def Let_def)

lemma plan_budget_refusal:
  assumes "dispatch env e (PlanRequest p) telemetry actor deadline_ms = Some (e1, Inl (BudgetExceeded b))"
    and "engine_wf e" and "correlation_of (pp_plan_id p) \<noteq> zeros 16"
  shows "engine_wf e1 \<and> de_delivery e1 = de_delivery e \<and>
    (\<forall>t \<le> saturating_add (en_now env (de_ticks e) div 1000) (ic_ttl_secs (cc_idempotency (de_chain e))).
       ic_check (cc_idempotency (de_chain e1)) (correlation_of (pp_plan_id p)) t = Some Applied)"
proof -
  let ?t = "en_now env (de_ticks e)" and ?e = "request_engine e (PlanRequest p)"
  have wf: "engine_wf ?e" using assms(2) by (simp add: engine_wf_def request_engine_def)
  have "admitted e (PlanRequest p) telemetry ?t = Some (plan_command p)"
    using assms(1) by (auto simp: admitted_def dispatch_def submit_def now_fn_def validate_proposal_def split: if_splits)
  from execute_core_budget [OF assms(1) [unfolded dispatch_admitted [OF this]]]
  obtain n c g ac obs where e1: "e1 = ?e\<lparr>de_seq := n, de_chain := c, de_gate := g\<rparr>"
    and x: "chain_execute (selected_chain ?e ?t) (core_buf ?e (plan_command p) ?t) (?t div 1000)
      (build_feedback (de_mapping ?e) telemetry (?t div 1000)) = (c, Executed ac obs)" by blast
  have "ac_idempotency_key ac = correlation_of (pp_plan_id p)"
    using admitted_key [OF wf] x chain_execute_Executed_iff [of "selected_chain ?e ?t" "core_buf ?e (plan_command p) ?t" "?t div 1000"
        "build_feedback (de_mapping ?e) telemetry (?t div 1000)" ac obs] by (auto simp: plan_corr)
  moreover have "cc_idempotency c = ic_record (cc_idempotency (selected_chain ?e ?t)) (ac_idempotency_key ac) Applied (?t div 1000)"
    using chain_execute_records [of "selected_chain ?e ?t"] x by (metis fst_conv snd_conv)
  ultimately show ?thesis using e1 wf assms(3)
    by (simp add: ic_check_record_same engine_wf_def request_engine_frame)
qed

text \<open>C37. A plan refused for its budget is lost: the control chain has already noted its key as applied, so as long as
  that is remembered the plan, submitted again with whatever telemetry, is not delivered, and if the engine
  answers it with a receipt, the receipt says committed although no device ever got the command.\<close>

theorem budget_refusal_ends_committed:
  assumes "dispatch env e (PlanRequest p) telemetry actor deadline_ms = Some (e1, Inl (BudgetExceeded b))"
    and "dispatch env e1 (PlanRequest p) telemetry' actor' deadline_ms' = Some (e2, r)"
    and "en_now env (de_ticks e1) div 1000 \<le>
      saturating_add (en_now env (de_ticks e) div 1000) (ic_ttl_secs (cc_idempotency (de_chain e)))"
    and "engine_wf e" and "correlation_of (pp_plan_id p) \<noteq> zeros 16"
  shows "de_delivery e2 = de_delivery e \<and>
    (case r of Inl _ \<Rightarrow> True | Inr rc \<Rightarrow> is_committed (rc_final_state rc))"
proof -
  let ?t = "en_now env (de_ticks e1)" and ?e = "request_engine e1 (PlanRequest p)"
  note r1 = plan_budget_refusal [OF assms(1,4,5)]
  then have hit: "ic_check (cc_idempotency (de_chain e1)) (correlation_of (pp_plan_id p)) (?t div 1000) = Some Applied"
    and wf: "engine_wf ?e" using assms(3) by (auto simp: engine_wf_def request_engine_def)
  have nc: "\<not> core_cleared env ?e (plan_command p) telemetry' actor' ?t"
    using admitted_key [OF wf] hit
    by (fastforce simp: core_cleared_def chain_admits_def plan_corr request_engine_frame)
  show ?thesis using assms(2)
  proof (cases rule: dispatch_cases)
    case away
    then show ?thesis using r1 assms(2)
      by (auto simp: turned_away_def dispatch_def submit_def now_fn_def admitted_def validate_proposal_def
          split: sum.splits if_splits)
  next
    case (withheld cmd)
    then show ?thesis using r1 by (auto simp: withheld_def request_engine_frame is_committed_def split: sum.splits)
  next
    case (delivered cmd payload)
    then show ?thesis using nc by (auto simp: cleared_payload_def admitted_def Let_def split: if_splits)
  qed
qed

text \<open>A gate that allows nothing refuses the site's plan.\<close>

lemma site_plan_admitted:
  "admitted (site_engine g) site_plan site_telemetry 100000 =
     Some (plan_command (single_entry (str ''req-1'') FastPath f64_100 f64_50 Optimal 60 99500 None))"
  by (simp add: admitted_def site_plan_def validate_proposal_def site_engine_def is_valid_at_def site_telemetry_def
      single_entry_def power_100)

lemma site_plan_refused:
  "\<exists>e1. dispatch (site_env response) (site_engine (dg_new 0 k p)) site_plan site_telemetry site_actor 0 =
     Some (e1, Inl (BudgetExceeded RateBudget))"
proof -
  let ?e = "request_engine (site_engine (dg_new 0 k p)) site_plan"
  let ?cmd = "plan_command (single_entry (str ''req-1'') FastPath f64_100 f64_50 Optimal 60 99500 None)"
  let ?cid = "put (zeros 16) 0 (le_bytes 8 (1 :: u64))" and ?corr = "correlation_of (str ''req-1'')"
  let ?b = "core_builder ?e ?cmd ?cid ?corr 1 100"
  have e: "de_profile ?e = demo_profile" "de_fencing_token ?e = 42" "de_issuer_service ?e = replicate 16 3" "de_key ?e = demo_key"
    "de_chain ?e = demo_chain" "de_mapping ?e = PROD_FEEDBACK_MAPPING" "de_gate ?e = dg_new 0 k p"
    "de_seq ?e = 0" "guard_params ?e = guard_params (site_engine (dg_new 0 k p))"
    by (simp_all add: request_engine_def site_plan_def site_engine_def guard_params_def)
  have cmd: "co_power_kw ?cmd = f64_100" "co_ttl_secs ?cmd = 60" "co_identity ?cmd = IdPlan (str ''req-1'')"
    by (simp_all add: plan_command_def single_entry_def)
  have i: "core_identify ?e (co_identity ?cmd) = (?e\<lparr>de_seq := 1\<rparr>, ?cid, ?corr, 1)"
    by (simp add: cmd core_identify_def e Let_def)
  have buf: "core_buf ?e ?cmd 100000 = env_encode (eb_build ?b demo_key)" by (simp add: core_buf_def i e)
  have fits: "request_fits demo_profile 42 ?b 100" "eb_command ?b = Single SOn"
    using site_builder [OF e(1-3)] site_ids(1) cmd power_100(1) by (simp_all add: length_put)
  have sel: "selected_chain ?e 100000 = demo_chain"
    using demo_chain_selected by (simp add: selected_chain_def e demo_profile_def ai_pcc_single_def)
  obtain c ac where x: "chain_execute (selected_chain ?e 100000) (core_buf ?e ?cmd 100000) (100000 div 1000)
      (build_feedback (de_mapping ?e) site_telemetry (100000 div 1000)) = (c, Executed ac [])"
    using site_admits [OF fits] chain_execute_Executed_iff [of demo_chain "env_encode (eb_build ?b demo_key)" 100]
    by (simp add: buf sel e) (metis list.distinct(1) list.set_intros(1) prod.collapse list.set(1) empty_iff)
  have "safety_guard (guard_params (?e\<lparr>de_seq := 1, de_chain := c\<rparr>)) [f64_100] (project_system_state site_telemetry) = Inr ()"
    using site_guard [of "[]" "dg_new 0 k p"] guard_accepts [OF power_100(2)] e(9) by (simp add: guard_params_def)
  moreover obtain g where "dg_check_rate (dg_new 0 k p) 100000 = (g, RateLimited)"
    by (simp add: dg_check_rate_def dg_new_def Let_def)
  ultimately have "core_reserve (site_env response) (?e\<lparr>de_seq := 1, de_chain := c\<rparr>) ?cmd site_telemetry 100000
      [StProposed, StValidated] 0 ?cid ?corr (core_buf ?e ?cmd 100000) =
      Some (?e\<lparr>de_seq := 1, de_chain := c, de_gate := g\<rparr>, Inl (BudgetExceeded RateBudget))"
    by (simp add: core_reserve_def cmd e)
  then have "execute_core (site_env response) ?e ?cmd site_telemetry site_actor 100000 [StProposed, StValidated] 0 =
      Some (?e\<lparr>de_seq := 1, de_chain := c, de_gate := g\<rparr>, Inl (BudgetExceeded RateBudget))"
    using execute_core_judged [OF _ i x, of site_actor "site_env response"] by (simp add: site_actor_def core_judged_def)
  moreover have "en_now (site_env response) n = 100000" for n by (simp add: site_env_def)
  ultimately show ?thesis using dispatch_admitted [of "site_engine (dg_new 0 k p)" site_plan site_telemetry "site_env response"]
      site_plan_admitted by auto
qed

lemma zeros_16: "114 # xs \<noteq> zeros (16 :: nat)"
proof
  assume "114 # xs = zeros (16 :: nat)"
  then have "hd (114 # xs) = hd (zeros (16 :: nat))" by simp
  then show False by (simp add: hd_replicate)
qed

theorem budget_refusal_ends_committed_witness:
  "\<exists>e1 e2 r. dispatch (site_env (Inr [0, 0])) (site_engine (dg_new 0 f64_100 0)) site_plan site_telemetry site_actor 0 =
      Some (e1, Inl (BudgetExceeded RateBudget)) \<and>
    dispatch (site_env (Inr [0, 0])) e1 site_plan site_telemetry site_actor 0 = Some (e2, r) \<and> de_delivery e2 = []"
proof -
  let ?env = "site_env (Inr [0, 0])" and ?e = "site_engine (dg_new 0 f64_100 0)"
  obtain e1 where d1: "dispatch ?env ?e site_plan site_telemetry site_actor 0 = Some (e1, Inl (BudgetExceeded RateBudget))"
    using site_plan_refused by blast
  obtain e2 r where d2: "dispatch ?env e1 site_plan site_telemetry site_actor 0 = Some (e2, r)"
    using dispatch_returns [OF site_total] unfolding returns_def by fast
  have "de_delivery e2 = de_delivery ?e"
    using budget_refusal_ends_committed [OF d1 [unfolded site_plan_def] d2 [unfolded site_plan_def]]
    by (simp add: engine_wf_def site_env_def site_engine_def demo_profile_def ai_pcc_single_def single_entry_def
        correlation_of_def saturating_add_def Let_def str_def demo_chain_fields put_def ic_new_def zeros_16)
  then show ?thesis using d1 d2 by (simp add: site_engine_def)
qed

end
