(* ===== verification/Device_Registry.thy ===== *)
theory Device_Registry
  imports Dispatch_Engine
begin

text \<open>
  The devices behind the device agent (\<open>device-agent/src/registry.rs\<close>, \<open>capability_digest.rs\<close>,
  \<open>virtual_device.rs\<close>, and the access traits of \<open>protocol-abstract/src/access.rs\<close>): the interface of an
  adapter, the registry that routes a device number to its adapter, the virtual converter, and the adapter
  that stands for a device whose own adapter could not be built.
\<close>

section \<open>Data points and adapters\<close>

datatype protocol_error =
  PointNotFound | AdapterNotFound | AddrTypeMismatch | ReadFailed | WriteFailed | ProtocolInit | ProtocolNotStarted
  | InvalidConfig | UnsupportedOperation

datatype point_type = PtAnalog | PtDigital | PtControl | PtSetpoint | PtCounter

datatype data_source = DsModbusRtu | DsModbusTcp | DsIec104 | DsCan | DsInternal | DsManual

record data_point =
  dp_point_id :: u32
  dp_device_id :: u16
  dp_name :: bytes
  dp_description :: "bytes option"
  dp_point_type :: point_type
  dp_value :: point_value
  dp_quality :: point_quality
  dp_timestamp_ms :: u64
  dp_source :: data_source
  dp_unit :: "bytes option"

definition pq_good :: point_quality where
  "pq_good = \<lparr>pq_valid = True, pq_invalid = False, pq_questionable = False, pq_substituted = False,
     pq_blocked = False, pq_overflow = False, pq_outdated = False\<rparr>"

datatype write_error = CommandMismatch | WriteUnauthorized | WriteProtocol protocol_error

text \<open>An adapter: reading and authorized writing, both of which may change its state.\<close>

record 'd adapter_ops =
  ad_read :: "'d \<Rightarrow> u32 \<Rightarrow> 'd \<times> (protocol_error + data_point)"
  ad_write :: "'d \<Rightarrow> authorized_command \<Rightarrow> point_value \<Rightarrow> 'd \<times> (write_error + point_value option)"

fun read_points :: "'d adapter_ops \<Rightarrow> 'd \<Rightarrow> u32 list \<Rightarrow> 'd \<times> (protocol_error + data_point) list" where
  "read_points ops d [] = (d, [])"
| "read_points ops d (p # ps) =
     (let (d, r) = ad_read ops d p; (d, rs) = read_points ops d ps in (d, r # rs))"

section \<open>The virtual converter\<close>

definition VIRTUAL_PCS_DEVICE_ID :: u16 where "VIRTUAL_PCS_DEVICE_ID = 1"
definition POINT_DC_BUS_V :: u32 where "POINT_DC_BUS_V = 1"
definition POINT_SOC :: u32 where "POINT_SOC = 4"
definition POINT_GRID_UP :: u32 where "POINT_GRID_UP = 5"
definition POINT_ALARM :: u32 where "POINT_ALARM = 6"
definition POINT_POWER :: u32 where "POINT_POWER = 10"

definition VIRTUAL_PCS_POINTS :: "(bytes \<times> u32) list" where
  "VIRTUAL_PCS_POINTS =
     [(str ''dc_bus_v'', POINT_DC_BUS_V), (str ''soc_pct'', POINT_SOC), (str ''grid_up'', POINT_GRID_UP),
      (str ''overcurrent'', POINT_ALARM), (str ''overtemp'', POINT_ALARM), (str ''active_power'', POINT_POWER)]"

text \<open>The clock is the sequence of its readings; the device counts how many it has taken.\<close>

record virtual_pcs =
  pcs_device_id :: u16
  pcs_power_kw :: f64
  pcs_write_count :: u64
  pcs_ticks :: nat
  pcs_soc_reads :: u64

definition pcs_new :: "u16 \<Rightarrow> virtual_pcs" where
  "pcs_new device_id =
     \<lparr>pcs_device_id = device_id, pcs_power_kw = f64_0, pcs_write_count = 0, pcs_ticks = 0, pcs_soc_reads = 0\<rparr>"

definition pcs_point_name :: "u32 \<Rightarrow> bytes" where
  "pcs_point_name p =
     (if p = POINT_DC_BUS_V then str ''dc_bus_v'' else if p = POINT_SOC then str ''soc_pct''
      else if p = POINT_GRID_UP then str ''grid_up'' else if p = POINT_ALARM then str ''alarm''
      else if p = POINT_POWER then str ''active_power'' else str ''unknown'')"

definition f64_400 :: f64 where "f64_400 = 0x4079000000000000"
definition f64_047 :: f64 where "f64_047 = 0x3FDE147AE147AE14"
definition f64_053 :: f64 where "f64_053 = 0x3FE0F5C28F5C28F6"

definition pcs_read_value :: "virtual_pcs \<Rightarrow> u32 \<Rightarrow> virtual_pcs \<times> point_value option" where
  "pcs_read_value d p =
     (if p = POINT_DC_BUS_V then (d, Some (PvFloat f64_400))
      else if p = POINT_SOC then
        (let d = d\<lparr>pcs_soc_reads := pcs_soc_reads d + 1\<rparr>
         in (d, Some (PvFloat (if even (pcs_soc_reads d) then f64_047 else f64_053))))
      else if p = POINT_GRID_UP then (d, Some (PvBool True))
      else if p = POINT_ALARM then (d, Some (PvBool False))
      else if p = POINT_POWER then (d, Some (PvFloat (pcs_power_kw d)))
      else (d, None))"

definition pcs_read :: "(nat \<Rightarrow> u64) \<Rightarrow> virtual_pcs \<Rightarrow> u32 \<Rightarrow> virtual_pcs \<times> (protocol_error + data_point)" where
  "pcs_read clock d p =
     (case pcs_read_value d p of
        (d, None) \<Rightarrow> (d, Inl PointNotFound)
      | (d, Some v) \<Rightarrow>
        (d\<lparr>pcs_ticks := Suc (pcs_ticks d)\<rparr>,
         Inr \<lparr>dp_point_id = p, dp_device_id = pcs_device_id d, dp_name = pcs_point_name p, dp_description = None,
           dp_point_type = (case v of PvBool _ \<Rightarrow> PtDigital | _ \<Rightarrow> PtAnalog), dp_value = v, dp_quality = pq_good,
           dp_timestamp_ms = clock (pcs_ticks d), dp_source = DsInternal, dp_unit = None\<rparr>))"

definition pcs_write :: "virtual_pcs \<Rightarrow> authorized_command \<Rightarrow> point_value \<Rightarrow> virtual_pcs \<times> (write_error + point_value option)" where
  "pcs_write d cmd v =
     (if ac_device_id cmd \<noteq> pcs_device_id d \<or> ac_point_id cmd \<noteq> POINT_POWER then (d, Inl CommandMismatch)
      else case (case v of PvFloat f \<Rightarrow> Some f | PvInt i \<Rightarrow> Some (f64_of_i64 i) | _ \<Rightarrow> None) of
        None \<Rightarrow> (d, Inl WriteUnauthorized)
      | Some f \<Rightarrow>
        if \<not> f64_is_finite f then (d, Inl WriteUnauthorized)
        else (d\<lparr>pcs_power_kw := f, pcs_write_count := pcs_write_count d + 1\<rparr>, Inr None))"

definition pcs_ops :: "(nat \<Rightarrow> u64) \<Rightarrow> virtual_pcs adapter_ops" where
  "pcs_ops clock = \<lparr>ad_read = pcs_read clock, ad_write = pcs_write\<rparr>"

text \<open>The adapter of a device that could not be rebuilt.\<close>

definition unavailable_ops :: "unit adapter_ops" where
  "unavailable_ops =
     \<lparr>ad_read = (\<lambda>d _. (d, Inl UnsupportedOperation)), ad_write = (\<lambda>d _ _. (d, Inl (WriteProtocol UnsupportedOperation)))\<rparr>"

section \<open>The registry\<close>

datatype device_type = DtPcs | DtBattery | DtBms | DtMeter | DtTemperature
datatype adapter_kind = AkPcs | AkBattery | AkBms | AkMeter | AkTemperature | AkOther

fun ak_code :: "adapter_kind \<Rightarrow> u8" where
  "ak_code AkPcs = 0" | "ak_code AkBattery = 1" | "ak_code AkBms = 2" | "ak_code AkMeter = 3"
| "ak_code AkTemperature = 4" | "ak_code AkOther = 5"

definition ak_from_code :: "u8 \<Rightarrow> adapter_kind option" where
  "ak_from_code c =
     (if c = 0 then Some AkPcs else if c = 1 then Some AkBattery else if c = 2 then Some AkBms
      else if c = 3 then Some AkMeter else if c = 4 then Some AkTemperature else if c = 5 then Some AkOther else None)"

fun ak_from_device_type :: "device_type \<Rightarrow> adapter_kind" where
  "ak_from_device_type DtPcs = AkPcs" | "ak_from_device_type DtBattery = AkBattery" | "ak_from_device_type DtBms = AkBms"
| "ak_from_device_type DtMeter = AkMeter" | "ak_from_device_type DtTemperature = AkTemperature"

text \<open>The permitted operations are three bits.\<close>

definition ops_new :: "u8 \<Rightarrow> u8 option" where
  "ops_new bits = (if and bits (not 7) \<noteq> 0 then None else Some bits)"

definition ops_read_write_readback :: u8 where "ops_read_write_readback = 7"

definition ops_allows :: "u8 \<Rightarrow> u8 \<Rightarrow> bool" where
  "ops_allows ops op = (and ops op \<noteq> 0)"

record device_registration =
  dr_device_id :: u16
  dr_adapter_kind :: adapter_kind
  dr_endpoint :: bytes
  dr_point_schema :: u32
  dr_allowed_ops :: u8
  dr_capability_digest :: bytes
  dr_config_generation :: u64

definition capability_digest :: "bytes \<Rightarrow> adapter_kind \<Rightarrow> u32 \<Rightarrow> u8 \<Rightarrow> bytes" where
  "capability_digest endpoint kind schema_version allowed_ops =
     sm3_hash (endpoint @ [0, ak_code kind] @ le_bytes 4 schema_version @ [allowed_ops])"

datatype registry_error = EmptyPointMap | ZeroCapabilityDigest

record 'd device_info =
  di_device_type :: device_type
  di_device_id :: u16
  di_adapter :: 'd
  di_point_map :: "(bytes, u32) btree"
  di_registration :: device_registration
  di_available :: bool

type_synonym 'd device_registry = "(bytes, 'd device_info) btree"

definition register_with_registration ::
  "'d device_registry \<Rightarrow> bytes \<Rightarrow> device_type \<Rightarrow> device_registration \<Rightarrow> 'd \<Rightarrow> (bytes, u32) btree \<Rightarrow>
     'd device_registry \<times> (registry_error + unit)" where
  "register_with_registration r name device_type registration adapter point_map =
     (let registration = registration\<lparr>dr_capability_digest :=
            capability_digest (dr_endpoint registration) (dr_adapter_kind registration) (dr_point_schema registration)
              (dr_allowed_ops registration)\<rparr>
      in if dr_capability_digest registration = zeros 32 then (r, Inl ZeroCapabilityDigest)
         else (bt_insert r name \<lparr>di_device_type = device_type, di_device_id = dr_device_id registration,
                 di_adapter = adapter, di_point_map = point_map, di_registration = registration, di_available = True\<rparr>,
               Inr ()))"

definition reg_register ::
  "'d device_registry \<Rightarrow> bytes \<Rightarrow> device_type \<Rightarrow> u16 \<Rightarrow> 'd \<Rightarrow> (bytes, u32) btree \<Rightarrow>
     'd device_registry \<times> (registry_error + unit)" where
  "reg_register r name device_type device_id adapter point_map =
     (if point_map = [] then (r, Inl EmptyPointMap)
      else let kind = ak_from_device_type device_type
           in register_with_registration r name device_type
                \<lparr>dr_device_id = device_id, dr_adapter_kind = kind, dr_endpoint = name, dr_point_schema = 1,
                 dr_allowed_ops = ops_read_write_readback,
                 dr_capability_digest = capability_digest name kind 1 ops_read_write_readback,
                 dr_config_generation = 0\<rparr> adapter point_map)"

definition set_available :: "'d device_registry \<Rightarrow> bytes \<Rightarrow> bool \<Rightarrow> 'd device_registry \<times> bool" where
  "set_available r name available =
     (case bt_get r name of
        None \<Rightarrow> (r, False)
      | Some info \<Rightarrow> (bt_insert r name (info\<lparr>di_available := available\<rparr>), True))"

definition reg_update ::
  "'d device_registry \<Rightarrow> bytes \<Rightarrow> device_type \<Rightarrow> u16 \<Rightarrow> (bytes, u32) btree \<Rightarrow> 'd device_registry \<times> bool" where
  "reg_update r name device_type device_id point_map =
     (case bt_get r name of
        None \<Rightarrow> (r, False)
      | Some info \<Rightarrow>
        (let kind = ak_from_device_type device_type;
             g = di_registration info;
             g = g\<lparr>dr_device_id := device_id, dr_adapter_kind := kind,
                   dr_capability_digest := capability_digest (dr_endpoint g) kind (dr_point_schema g) (dr_allowed_ops g),
                   dr_config_generation := saturating_add (dr_config_generation g) 1\<rparr>
         in (bt_insert r name (info\<lparr>di_device_type := device_type, di_device_id := device_id,
               di_point_map := point_map, di_registration := g\<rparr>), True)))"

definition reg_remove :: "'d device_registry \<Rightarrow> bytes \<Rightarrow> 'd device_registry \<times> bool" where
  "reg_remove r name = (bt_remove r name, bt_contains r name)"

text \<open>Routing: the first device, in the order of names, with the number.\<close>

definition find_by_device_id :: "'d device_registry \<Rightarrow> u16 \<Rightarrow> (bytes \<times> 'd device_info) option" where
  "find_by_device_id r device_id = find (\<lambda>(_, info). di_device_id info = device_id) r"

definition set_adapter :: "'d device_registry \<Rightarrow> bytes \<Rightarrow> 'd device_info \<Rightarrow> 'd \<Rightarrow> 'd device_registry" where
  "set_adapter r name info d = bt_insert r name (info\<lparr>di_adapter := d\<rparr>)"


section \<open>What adapters promise\<close>

text \<open>What was written to a device is changed only by a write the device accepts, and then as the value says.\<close>

locale point_adapter =
  fixes ops :: "'d adapter_ops" and written :: "'d \<Rightarrow> 'o" and accepts :: "'o \<Rightarrow> authorized_command \<Rightarrow> f64 \<Rightarrow> bool"
    and result :: "'o \<Rightarrow> f64 \<Rightarrow> 'o"
  assumes read_keeps: "written (fst (ad_read ops d p)) = written d"
    and write_accepted: "accepts (written d) cmd f \<Longrightarrow>
      \<exists>d' v. ad_write ops d cmd (PvFloat f) = (d', Inr v) \<and> written d' = result (written d) f"
    and write_refused: "\<not> accepts (written d) cmd f \<Longrightarrow>
      \<exists>d' e. ad_write ops d cmd (PvFloat f) = (d', Inl e) \<and> written d' = written d"
begin

lemma read_points_keeps: "written (fst (read_points ops d ps)) = written d"
  by (induction ps arbitrary: d) (simp_all add: Let_def case_prod_beta read_keeps)

lemma write_cases:
  obtains (accepted) d' v where "accepts (written d) cmd f" "ad_write ops d cmd (PvFloat f) = (d', Inr v)"
      "written d' = result (written d) f"
  | (refused) d' e where "\<not> accepts (written d) cmd f" "ad_write ops d cmd (PvFloat f) = (d', Inl e)" "written d' = written d"
  using write_accepted write_refused by blast

end

text \<open>The registers of the virtual converter: its number, its set point, and how often it was written.\<close>

definition pcs_registers :: "virtual_pcs \<Rightarrow> u16 \<times> f64 \<times> u64" where
  "pcs_registers d = (pcs_device_id d, pcs_power_kw d, pcs_write_count d)"

definition pcs_accepts :: "u16 \<times> f64 \<times> u64 \<Rightarrow> authorized_command \<Rightarrow> f64 \<Rightarrow> bool" where
  "pcs_accepts regs cmd f \<longleftrightarrow> ac_device_id cmd = fst regs \<and> ac_point_id cmd = POINT_POWER \<and> f64_is_finite f"

definition pcs_set :: "u16 \<times> f64 \<times> u64 \<Rightarrow> f64 \<Rightarrow> u16 \<times> f64 \<times> u64" where
  "pcs_set regs f = (case regs of (i, p, n) \<Rightarrow> (i, f, n + 1))"

lemma pcs_read_keeps: "pcs_registers (fst (pcs_read clock d p)) = pcs_registers d"
  by (simp add: pcs_read_def pcs_read_value_def pcs_registers_def Let_def)

interpretation pcs: point_adapter "pcs_ops clock" pcs_registers pcs_accepts pcs_set
proof
  show "pcs_registers (fst (ad_read (pcs_ops clock) d p)) = pcs_registers d" for d p
    by (simp add: pcs_ops_def pcs_read_keeps)
qed (auto simp: pcs_ops_def pcs_write_def pcs_accepts_def pcs_set_def pcs_registers_def)

interpretation unavailable: point_adapter unavailable_ops "\<lambda>d. d" "\<lambda>_ _ _. False" "\<lambda>d _. d"
  by unfold_locales (simp_all add: unavailable_ops_def)

section \<open>The registry keeps its digests\<close>

definition info_inv :: "'d device_info \<Rightarrow> bool" where
  "info_inv info \<longleftrightarrow>
     (let g = di_registration info
      in di_device_id info = dr_device_id g \<and>
         dr_capability_digest g = capability_digest (dr_endpoint g) (dr_adapter_kind g) (dr_point_schema g) (dr_allowed_ops g))"

definition reg_inv :: "'d device_registry \<Rightarrow> bool" where
  "reg_inv r \<longleftrightarrow> bt_inv r \<and> (\<forall>name info. bt_get r name = Some info \<longrightarrow> info_inv info)"

lemma reg_inv_insert: "reg_inv r \<Longrightarrow> info_inv info \<Longrightarrow> reg_inv (bt_insert r name info)"
  by (simp add: reg_inv_def bt_inv_insert)

inductive reg_step :: "'d device_registry \<Rightarrow> 'd device_registry \<Rightarrow> bool" where
  register: "reg_step r (fst (reg_register r name ty i d pm))"
| load: "reg_step r (fst (register_with_registration r name ty g d pm))"
| available: "reg_step r (fst (set_available r name b))"
| update: "reg_step r (fst (reg_update r name ty i pm))"
| remove: "reg_step r (fst (reg_remove r name))"
| adapter: "bt_get r name = Some info \<Longrightarrow> reg_step r (set_adapter r name info d)"

lemma register_with_inv: "reg_inv r \<Longrightarrow> reg_inv (fst (register_with_registration r name ty g d pm))"
  by (auto simp: register_with_registration_def Let_def info_inv_def intro!: reg_inv_insert)

lemma reg_step_inv: "reg_step r r' \<Longrightarrow> reg_inv r \<Longrightarrow> reg_inv r'"
proof (induction rule: reg_step.induct)
  case (register r name ty i d pm)
  then show ?case by (auto simp: reg_register_def Let_def register_with_inv)
next
  case (load r name ty g d pm)
  then show ?case by (rule register_with_inv)
next
  case (available r name b)
  then show ?case
    by (auto simp: set_available_def info_inv_def Let_def reg_inv_def bt_inv_insert split: option.split)
next
  case (update r name ty i pm)
  then show ?case
    by (auto simp: reg_update_def info_inv_def Let_def reg_inv_def bt_inv_insert split: option.split)
next
  case (remove r name)
  then show ?case by (auto simp: reg_remove_def reg_inv_def bt_inv_remove split: if_splits)
next
  case (adapter r name info d)
  then show ?case by (auto simp: set_adapter_def info_inv_def Let_def reg_inv_def bt_inv_insert)
qed

text \<open>However devices are registered, loaded, updated, marked and removed, every registration carries the digest of its own
  fields and the number it is routed by.\<close>

theorem registry_digest_current:
  assumes "reg_step\<^sup>*\<^sup>* [] r" and "bt_get r name = Some info"
  shows "info_inv info"
proof -
  have "reg_inv r" using assms(1) by (induction rule: rtranclp_induct) (auto simp: reg_step_inv, simp add: reg_inv_def bt_inv_def)
  with assms(2) show ?thesis by (auto simp: reg_inv_def)
qed

lemma find_by_device_id_Some:
  assumes "bt_inv r" and "find_by_device_id r i = Some (name, info)"
  shows "bt_get r name = Some info" and "di_device_id info = i"
proof -
  have "(name, info) \<in> set r \<and> di_device_id info = i"
    using assms(2) by (auto simp: find_by_device_id_def find_Some_iff) (metis nth_mem)
  then show "bt_get r name = Some info" "di_device_id info = i" using bt_get_in_set [OF assms(1)] by auto
qed

end
