(* ===== verification/Device_Ingress.thy ===== *)
theory Device_Ingress
  imports Device_Registry Wire Profile
begin

text \<open>
  The device agent's ingress (\<open>device-agent/src/ingress.rs\<close>, \<open>delivery.rs\<close>, and the handler of
  \<open>svc-device-agent.rs\<close>): the only place that writes to a device. It decodes the delivered frame, verifies
  the command envelope, routes it, reads the device's own telemetry as feedback, has the control chain judge
  the command, writes, reads back and answers with an outcome frame.

  The adapters, the metrics collector, the audit logger and the printer of audit texts are the fields of an
  environment. A panic (of the audit encoding) is the result \<open>None\<close>.
\<close>

section \<open>Data\<close>

datatype deny_class =
  DcDecode | DcHmac | DcLease | DcStaleToken | DcPolicy | DcSafety | DcMismatch | DcProtocol | DcLegacy

fun dc_metric :: "deny_class \<Rightarrow> string" where
  "dc_metric DcDecode = ''eneros_write_denied_decode_total''"
| "dc_metric DcHmac = ''eneros_write_denied_hmac_total''"
| "dc_metric DcLease = ''eneros_write_denied_lease_total''"
| "dc_metric DcStaleToken = ''eneros_write_denied_stale_token_total''"
| "dc_metric DcPolicy = ''eneros_write_denied_policy_total''"
| "dc_metric DcSafety = ''eneros_write_denied_safety_total''"
| "dc_metric DcMismatch = ''eneros_write_denied_mismatch_total''"
| "dc_metric DcProtocol = ''eneros_write_failed_protocol_total''"
| "dc_metric DcLegacy = ''eneros_write_denied_legacy_total''"

fun dc_code :: "deny_class \<Rightarrow> u8" where
  "dc_code DcDecode = 1" | "dc_code DcHmac = 2" | "dc_code DcLease = 3" | "dc_code DcStaleToken = 4"
| "dc_code DcPolicy = 5" | "dc_code DcSafety = 6" | "dc_code DcMismatch = 7" | "dc_code DcProtocol = 8"
| "dc_code DcLegacy = 9"

datatype readback_result = RbVerified f64 | RbMismatch f64 f64 | RbUnavailable

text \<open>The reasons the code prints, as the data they are printed from.\<close>

datatype ingress_reason =
  IrDigestMismatch | IrControlEnvelope wire_error | IrFrame nat | IrEnvelope envelope_error | IrUnauthorized
  | IrDevice u16 | IrPoint u32 | IrWrite write_error | IrChain chain_deny_reason | IrKeyMissing

datatype ingress_outcome =
  IoApplied u16 u32 f64 "point_value option"
  | IoReadbackUnavailable u16 u32 f64
  | IoReadbackMismatch u16 u32 f64 f64 f64
  | IoIdempotentHit
  | IoDryRun
  | IoDenied deny_class ingress_reason

fun classify_deny :: "chain_deny_reason \<Rightarrow> deny_class" where
  "classify_deny (GatewayDeny e) =
     (case e of
        Decode _ \<Rightarrow> DcDecode
      | Unauthorized \<Rightarrow> DcHmac
      | Expired \<Rightarrow> DcLease
      | Future \<Rightarrow> DcLease
      | NoLease \<Rightarrow> DcLease
      | GwLeaseRevoked \<Rightarrow> DcLease
      | Replayed \<Rightarrow> DcLease
      | GwStaleFencing \<Rightarrow> DcStaleToken
      | NoPolicy \<Rightarrow> DcPolicy
      | BadDeviceId \<Rightarrow> DcMismatch)"
| "classify_deny LeaseRevoked = DcLease"
| "classify_deny StaleFencing = DcStaleToken"
| "classify_deny Superseded = DcPolicy"
| "classify_deny (PolicyDeny _) = DcPolicy"
| "classify_deny NotSelected = DcPolicy"
| "classify_deny SelectExpired = DcPolicy"
| "classify_deny (UnsafeCommand _) = DcSafety"
| "classify_deny (FeedbackUntrusted _ _) = DcSafety"

datatype readback_kind = RkExact | RkTolerance f64 | RkEnumerated u16 | RkMonotonicUp | RkMonotonicDown | RkAsyncTarget

record readback_policy =
  rp_kind :: readback_kind
  rp_timeout_ms :: u64

definition rp_tolerance :: "f64 \<Rightarrow> readback_policy" where
  "rp_tolerance tol = \<lparr>rp_kind = RkTolerance tol, rp_timeout_ms = 2000\<rparr>"

definition f64_epsilon :: f64 where "f64_epsilon = 0x3CB0000000000000"
definition f64_tenth :: f64 where "f64_tenth = 0x3FB999999999999A"

definition rp_verify :: "readback_policy \<Rightarrow> f64 \<Rightarrow> f64 \<Rightarrow> bool" where
  "rp_verify rp target readback =
     (case rp_kind rp of
        RkExact \<Rightarrow> f64_eq target readback
      | RkTolerance tol \<Rightarrow> f64_le (f64_abs (f64_sub target readback)) (f64_max tol f64_epsilon)
      | RkEnumerated _ \<Rightarrow> f64_eq target readback
      | RkMonotonicUp \<Rightarrow> f64_le target readback
      | RkMonotonicDown \<Rightarrow> f64_le readback target
      | RkAsyncTarget \<Rightarrow> True)"

record audit_ctx =
  ax_actor_kind :: u8
  ax_issuer :: bytes
  ax_device_id :: u32
  ax_point_id :: u32
  ax_correlation_id :: bytes

datatype ingress_event = IeReadback readback_result | IeIdempotent | IeDryRun

datatype ingress_text =
  ItTarget u32 u32 | ItDetail audit_ctx ingress_event | ItDenied "audit_ctx option" ingress_reason
  | ItLease bytes u64 | ItHandshake bytes u64

record ('d, 'm, 'a) ingress_env =
  ie_adapter :: "'d adapter_ops"
  ie_increment :: "'m \<Rightarrow> string \<Rightarrow> u64 \<Rightarrow> 'm"
  ie_log :: "'a \<Rightarrow> audit_event \<Rightarrow> ('a \<times> (audit_error + chain_entry)) option"
  ie_fixed :: "nat \<Rightarrow> bytes \<Rightarrow> bytes"
  ie_text :: "ingress_text \<Rightarrow> bytes"

record ('m, 'a) ingress =
  ig_chain :: control_chain
  ig_key :: bytes
  ig_lease_id :: bytes
  ig_metrics :: 'm
  ig_audit :: 'a
  ig_audit_dropped :: u64
  ig_write_count :: u64
  ig_lease_ok :: bool
  ig_readback :: readback_policy

section \<open>Delivery frames\<close>

definition DELIVERY_LEN :: nat where "DELIVERY_LEN = ENVELOPE_LEN + 8"

definition df_encode :: "bytes \<times> f64 \<Rightarrow> bytes" where
  "df_encode f = (case f of (envelope, power_kw) \<Rightarrow>
     put (put (zeros DELIVERY_LEN) 0 envelope) ENVELOPE_LEN (le_bytes 8 power_kw))"

definition df_decode :: "bytes \<Rightarrow> nat + bytes \<times> f64" where
  "df_decode buf =
     (if length buf \<noteq> DELIVERY_LEN then Inl (length buf)
      else Inr (take ENVELOPE_LEN buf, from_le (drop ENVELOPE_LEN buf)))"

section \<open>Auditing and denial\<close>

fun actor_str_byte :: "u8 \<Rightarrow> string" where
  "actor_str_byte k =
     (if k = 0 then ''operator'' else if k = 1 then ''agent'' else if k = 2 then ''ai''
      else if k = 3 then ''system'' else if k = 4 then ''emergency'' else ''unknown'')"

definition log_audit ::
  "('d, 'm, 'a) ingress_env \<Rightarrow> ('m, 'a) ingress \<Rightarrow> audit_event \<Rightarrow> u64 \<Rightarrow> ('m, 'a) ingress option" where
  "log_audit env ig event now_ms = do {
     (a, r) \<leftarrow> ie_log env (ig_audit ig) event;
     let ig = ig\<lparr>ig_audit := a\<rparr>;
     Some (case r of
         Inl _ \<Rightarrow> ig\<lparr>ig_audit_dropped := ig_audit_dropped ig + 1,
                     ig_metrics := ie_increment env (ig_metrics ig) ''eneros_audit_dropped_total'' now_ms\<rparr>
       | Inr _ \<Rightarrow> ig)
   }"

definition ctx_of :: "command_envelope \<Rightarrow> audit_ctx" where
  "ctx_of e = \<lparr>ax_actor_kind = actor_byte (env_actor_kind e), ax_issuer = env_issuer e, ax_device_id = env_device_id e,
     ax_point_id = env_point_id e, ax_correlation_id = env_correlation_id e\<rparr>"

definition ingress_deny ::
  "('d, 'm, 'a) ingress_env \<Rightarrow> ('m, 'a) ingress \<Rightarrow> deny_class \<Rightarrow> ingress_reason \<Rightarrow> audit_ctx option \<Rightarrow> u64 \<Rightarrow>
     (('m, 'a) ingress \<times> ingress_outcome) option" where
  "ingress_deny env ig cls reason ctx now_ms = do {
     let ig = ig\<lparr>ig_metrics := ie_increment env (ig_metrics ig) (dc_metric cls) now_ms\<rparr>;
     let actor = (case ctx of Some c \<Rightarrow> actor_str_byte (ax_actor_kind c) | None \<Rightarrow> ''unknown'');
     let target = (case ctx of Some c \<Rightarrow> ie_text env (ItTarget (ax_device_id c) (ax_point_id c)) | None \<Rightarrow> []);
     ig \<leftarrow> log_audit env ig (ae_new (ie_fixed env) WriteDenied (str actor) target (ie_text env (ItDenied ctx reason))) now_ms;
     Some (ig, IoDenied cls reason)
   }"

definition audit_event_of ::
  "('d, 'm, 'a) ingress_env \<Rightarrow> ('m, 'a) ingress \<Rightarrow> u8 \<Rightarrow> u32 \<Rightarrow> u32 \<Rightarrow> audit_ctx \<Rightarrow> ingress_event \<Rightarrow> u64 \<Rightarrow> ('m, 'a) ingress option" where
  "audit_event_of env ig actor device point ctx ev now_ms =
     log_audit env ig (ae_new (ie_fixed env) WriteExecuted (str (actor_str_byte actor)) (ie_text env (ItTarget device point))
       (ie_text env (ItDetail ctx ev))) now_ms"

section \<open>Assembly\<close>

definition ingress_with_readback ::
  "('d, 'm, 'a) ingress_env \<Rightarrow> 'm \<Rightarrow> 'a \<Rightarrow> bytes \<Rightarrow> bytes \<Rightarrow> lease_scope \<Rightarrow> u64 \<Rightarrow> u64 \<Rightarrow> policy \<Rightarrow> u64 \<Rightarrow>
     (u32 \<times> u32 \<times> safety_point) list \<Rightarrow> u64 \<Rightarrow> readback_policy \<Rightarrow> ('m, 'a) ingress option" where
  "ingress_with_readback env m a key lease_id scope ttl epoch_seed pol max_age points now_ms rp =
     (let chain = chain_new key 5 64 pol max_age 300 64 30;
          chain = chain\<lparr>cc_lease_service := seed_epoch (cc_lease_service chain) epoch_seed\<rparr>;
          (ls, grant) = lease_issue (cc_lease_service chain) lease_id scope ttl (now_ms div 1000);
          chain = chain\<lparr>cc_lease_service := ls\<rparr>;
          chain = foldl (\<lambda>c (device, point, spec). c\<lparr>cc_safety := sv_register (cc_safety c) device point spec\<rparr>) chain points
      in log_audit env
           \<lparr>ig_chain = chain, ig_key = key, ig_lease_id = lease_id, ig_metrics = m, ig_audit = a, ig_audit_dropped = 0,
            ig_write_count = 0, ig_lease_ok = (grant \<noteq> None), ig_readback = rp\<rparr>
           (ae_new (ie_fixed env) LeaseGranted (str ''device-agent'') (str ''local-lease'')
              (ie_text env (ItLease lease_id epoch_seed))) now_ms)"

definition ingress_from_profile ::
  "('d, 'm, 'a) ingress_env \<Rightarrow> 'm \<Rightarrow> 'a \<Rightarrow> bytes \<Rightarrow> control_profile \<Rightarrow> u64 \<Rightarrow> ('m, 'a) ingress option" where
  "ingress_from_profile env m a key p now_ms = do {
     pol \<leftarrow> profile_policy p;
     ingress_with_readback env m a key (cp_lease_id p) (profile_lease_scope p) (cp_lease_ttl_secs p) (cp_epoch_seed p) pol
       (ct_feedback_max_age_secs (cp_tuning p)) (profile_safety_points p) now_ms (rp_tolerance f64_tenth)
   }"

section \<open>Feedback\<close>

definition sample_to_f64 :: "point_value \<Rightarrow> f64 option" where
  "sample_to_f64 v =
     (case v of
        PvFloat f \<Rightarrow> Some f
      | PvInt i \<Rightarrow> Some (f64_of_i64 i)
      | PvBool b \<Rightarrow> Some (if b then f64_1 else f64_0)
      | _ \<Rightarrow> None)"

definition read_telemetry_sample ::
  "'d adapter_ops \<Rightarrow> 'd device_info \<Rightarrow> bytes \<Rightarrow> 'd device_info \<times> feedback_sample option" where
  "read_telemetry_sample ops info name =
     (case bt_get (di_point_map info) name of
        None \<Rightarrow> (info, None)
      | Some p \<Rightarrow>
        (case ad_read ops (di_adapter info) p of
           (d, Inl _) \<Rightarrow> (info\<lparr>di_adapter := d\<rparr>, None)
         | (d, Inr dp) \<Rightarrow>
           (info\<lparr>di_adapter := d\<rparr>,
            case sample_to_f64 (dp_value dp) of
              None \<Rightarrow> None
            | Some v \<Rightarrow> Some \<lparr>fs_value = v, fs_quality = from_point_quality (dp_quality dp),
                fs_timestamp_epoch = dp_timestamp_ms dp div 1000\<rparr>)))"

definition set_feedback :: "bytes \<Rightarrow> feedback_sample \<Rightarrow> feedback_bundle \<Rightarrow> feedback_bundle" where
  "set_feedback name s b =
     (if name = str ''grid_up'' then b\<lparr>fb_grid_up := s\<rparr>
      else if name = str ''soc_pct'' then b\<lparr>fb_soc_pct := s\<rparr>
      else if name = str ''dc_bus_v'' then b\<lparr>fb_dc_bus_v := s\<rparr>
      else if name = str ''overcurrent'' then b\<lparr>fb_overcurrent := s\<rparr>
      else if name = str ''overtemp'' then b\<lparr>fb_overtemp := s\<rparr>
      else b)"

fun feedback_loop ::
  "'d adapter_ops \<Rightarrow> 'd device_info \<Rightarrow> feedback_bundle \<Rightarrow> bytes list \<Rightarrow> 'd device_info \<times> feedback_bundle" where
  "feedback_loop ops info b [] = (info, b)"
| "feedback_loop ops info b (name # names) =
     (case read_telemetry_sample ops info name of
        (info, None) \<Rightarrow> feedback_loop ops info b names
      | (info, Some s) \<Rightarrow> feedback_loop ops info (set_feedback name s b) names)"

definition FEEDBACK_NAMES :: "bytes list" where
  "FEEDBACK_NAMES = [str ''grid_up'', str ''soc_pct'', str ''dc_bus_v'', str ''overcurrent'', str ''overtemp'']"

definition ingress_feedback ::
  "'d adapter_ops \<Rightarrow> 'd device_registry \<Rightarrow> u16 \<Rightarrow> u64 \<Rightarrow> 'd device_registry \<times> feedback_bundle" where
  "ingress_feedback ops devices device_id now_secs =
     (let bundle = fb_untrusted now_secs
      in case find_by_device_id devices device_id of
           None \<Rightarrow> (devices, bundle)
         | Some (name, info) \<Rightarrow>
           (case feedback_loop ops info bundle FEEDBACK_NAMES of (info', b) \<Rightarrow> (bt_insert devices name info', b)))"


section \<open>Processing a frame\<close>

definition ingress_frame :: "bytes \<Rightarrow> ingress_reason + bytes \<times> f64" where
  "ingress_frame payload =
     (if length payload = CONTROL_ENVELOPE_LEN then
        (case ce_decode payload of
           Inr ce \<Rightarrow> if verify_payload_digest ce then Inr (ce_envelope ce, ce_power_kw ce) else Inl IrDigestMismatch
         | Inl e \<Rightarrow> Inl (IrControlEnvelope e))
      else
        (case df_decode payload of
           Inr f \<Rightarrow> Inr f
         | Inl n \<Rightarrow> Inl (IrFrame n)))"

definition readback_of :: "readback_policy \<Rightarrow> f64 \<Rightarrow> point_value option \<Rightarrow> readback_result" where
  "readback_of rp target v =
     (case v of
        Some (PvFloat x) \<Rightarrow> if rp_verify rp target x then RbVerified x else RbMismatch target x
      | Some (PvInt i) \<Rightarrow>
          (let x = f64_of_i64 i in if rp_verify rp target x then RbVerified x else RbMismatch target x)
      | _ \<Rightarrow> RbUnavailable)"

text \<open>The branch of an executed command: the authorized write, the independent read and the outcome.\<close>

definition ingress_write ::
  "('d, 'm, 'a) ingress_env \<Rightarrow> ('m, 'a) ingress \<Rightarrow> 'd device_registry \<Rightarrow> authorized_command \<Rightarrow> f64 \<Rightarrow> audit_ctx \<Rightarrow> u64 \<Rightarrow>
     (('m, 'a) ingress \<times> 'd device_registry \<times> ingress_outcome) option" where
  "ingress_write env ig devices cmd power_kw ctx now_ms =
     (let deny = (\<lambda>ig devices cls reason. map_option (\<lambda>(ig, out). (ig, devices, out)) (ingress_deny env ig cls reason (Some ctx) now_ms))
      in case find_by_device_id devices (ac_device_id cmd) of
           None \<Rightarrow> deny ig devices DcMismatch (IrDevice (ac_device_id cmd))
         | Some (name, info) \<Rightarrow>
           (case ad_write (ie_adapter env) (di_adapter info) cmd (PvFloat power_kw) of
              (d, Inl e) \<Rightarrow>
                deny ig (set_adapter devices name info d)
                  (case e of CommandMismatch \<Rightarrow> DcMismatch | WriteUnauthorized \<Rightarrow> DcMismatch | WriteProtocol _ \<Rightarrow> DcProtocol) (IrWrite e)
            | (d, Inr _) \<Rightarrow>
              (let (d, r) = ad_read (ie_adapter env) d (ac_point_id cmd);
                   devices = set_adapter devices name info d;
                   readback = (case r of Inl _ \<Rightarrow> None | Inr dp \<Rightarrow> Some (dp_value dp));
                   result = readback_of (ig_readback ig) power_kw readback;
                   ig = ig\<lparr>ig_write_count := ig_write_count ig + 1,
                           ig_metrics := ie_increment env (ig_metrics ig) ''eneros_write_allowed_total'' now_ms\<rparr>
               in do {
                    ig \<leftarrow> audit_event_of env ig (actor_byte (ac_actor_kind cmd)) (ucast (ac_device_id cmd)) (ac_point_id cmd) ctx
                      (IeReadback result) now_ms;
                    Some (ig, devices,
                      case result of
                        RbVerified _ \<Rightarrow> IoApplied (ac_device_id cmd) (ac_point_id cmd) power_kw readback
                      | RbMismatch ex act \<Rightarrow> IoReadbackMismatch (ac_device_id cmd) (ac_point_id cmd) power_kw ex act
                      | RbUnavailable \<Rightarrow> IoReadbackUnavailable (ac_device_id cmd) (ac_point_id cmd) power_kw)
                  })))"

text \<open>From the chain on.\<close>

definition ingress_judge ::
  "('d, 'm, 'a) ingress_env \<Rightarrow> ('m, 'a) ingress \<Rightarrow> 'd device_registry \<Rightarrow> bytes \<Rightarrow> command_envelope \<Rightarrow> f64 \<Rightarrow> u16 \<Rightarrow> u64 \<Rightarrow>
     (('m, 'a) ingress \<times> 'd device_registry \<times> ingress_outcome) option" where
  "ingress_judge env ig devices envelope_bytes e power_kw device_id now_ms =
     (let now_secs = now_ms div 1000;
          ctx = ctx_of e;
          (devices, feedback) = ingress_feedback (ie_adapter env) devices device_id now_secs;
          chain = chain_select (ig_chain ig) (env_point_id e) now_secs;
          (chain, outcome) = chain_execute chain envelope_bytes now_secs feedback;
          ig = ig\<lparr>ig_chain := chain\<rparr>
      in case outcome of
           Executed cmd _ \<Rightarrow> ingress_write env ig devices cmd power_kw ctx now_ms
         | IdempotentHit _ \<Rightarrow> do {
             let ig = ig\<lparr>ig_metrics := ie_increment env (ig_metrics ig) ''eneros_write_idempotent_hit_total'' now_ms\<rparr>;
             ig \<leftarrow> audit_event_of env ig (actor_byte (env_actor_kind e)) (env_device_id e) (env_point_id e) ctx IeIdempotent now_ms;
             Some (ig, devices, IoIdempotentHit)
           }
         | DryRunOutcome cmd _ \<Rightarrow> do {
             ig \<leftarrow> audit_event_of env ig (actor_byte (ac_actor_kind cmd)) (ucast (ac_device_id cmd)) (ac_point_id cmd) ctx IeDryRun now_ms;
             Some (ig, devices, IoDryRun)
           }
         | Denied reason \<Rightarrow>
             map_option (\<lambda>(ig, out). (ig, devices, out))
               (ingress_deny env ig (classify_deny reason) (IrChain reason) (Some ctx) now_ms))"

definition process ::
  "('d, 'm, 'a) ingress_env \<Rightarrow> ('m, 'a) ingress \<Rightarrow> 'd device_registry \<Rightarrow> bytes \<Rightarrow> u64 \<Rightarrow>
     (('m, 'a) ingress \<times> 'd device_registry \<times> ingress_outcome) option" where
  "process env ig devices payload now_ms =
     (let deny = (\<lambda>cls reason ctx. map_option (\<lambda>(ig, out). (ig, devices, out)) (ingress_deny env ig cls reason ctx now_ms))
      in case ingress_frame payload of
           Inl reason \<Rightarrow> deny DcDecode reason None
         | Inr (envelope_bytes, power_kw) \<Rightarrow>
           (case env_decode envelope_bytes of
              Inl e \<Rightarrow> deny DcDecode (IrEnvelope e) None
            | Inr e \<Rightarrow>
              if \<not> verify_hmac e (ig_key ig) then deny DcHmac IrUnauthorized (Some (ctx_of e))
              else let device_id = (case u16_try_from (env_device_id e) of Some d \<Rightarrow> d | None \<Rightarrow> - 1)
                   in case find_by_device_id devices device_id of
                        None \<Rightarrow> deny DcMismatch (IrDevice device_id) (Some (ctx_of e))
                      | Some (_, info) \<Rightarrow>
                        if env_point_id e \<notin> snd ` set (di_point_map info)
                        then deny DcMismatch (IrPoint (env_point_id e)) (Some (ctx_of e))
                        else ingress_judge env ig devices envelope_bytes e power_kw device_id now_ms))"

definition record_legacy_denied ::
  "('d, 'm, 'a) ingress_env \<Rightarrow> ('m, 'a) ingress \<Rightarrow> u64 \<Rightarrow> ('m, 'a) ingress option" where
  "record_legacy_denied env ig now_ms =
     log_audit env (ig\<lparr>ig_metrics := ie_increment env (ig_metrics ig) ''eneros_write_denied_legacy_total'' now_ms\<rparr>)
       (ae_new (ie_fixed env) WriteDenied (str ''legacy'') (str ''device-agent'')
          (str ''outcome=denied deny_reason=legacy-anonymous'')) now_ms"

section \<open>Handshake\<close>

definition HANDSHAKE_LEN :: nat where "HANDSHAKE_LEN = 56"

definition handshake_response ::
  "('d, 'm, 'a) ingress_env \<Rightarrow> ('m, 'a) ingress \<Rightarrow> (('m, 'a) ingress \<times> (unit + bytes)) option" where
  "handshake_response env ig =
     (if \<not> ig_lease_ok ig then Some (ig, Inl ())
      else let token = (case token_of (cc_lease_service (ig_chain ig)) (ig_lease_id ig) of Some t \<Rightarrow> t | None \<Rightarrow> 0)
           in if token = 0 then Some (ig, Inl ())
              else let payload = put (put (zeros 24) 0 (ig_lease_id ig)) 16 (le_bytes 8 token);
                       hmac = hmac_sm3 (ig_key ig) payload;
                       resp = put (put (zeros HANDSHAKE_LEN) 0 payload) 24 hmac
                   in do {
                        ig \<leftarrow> log_audit env ig (ae_new (ie_fixed env) HandshakeCompleted (str ''device-agent'') (str ''handshake'')
                          (ie_text env (ItHandshake (ig_lease_id ig) token))) 0;
                        Some (ig, Inr resp)
                      })"

definition verify_handshake_response :: "bytes \<Rightarrow> bytes \<Rightarrow> (bytes \<times> u64) option" where
  "verify_handshake_response key resp =
     (if length resp \<noteq> HANDSHAKE_LEN then None
      else if \<not> ct_eq (hmac_sm3 key (take 24 resp)) (drop 24 resp) then None
      else Some (take 16 resp, from_le (slice 16 24 resp)))"

section \<open>The service\<close>

fun outcome_to_frame :: "ingress_outcome \<Rightarrow> outcome_frame" where
  "outcome_to_frame (IoApplied _ _ _ _) = \<lparr>of_code = 0, of_class = 0\<rparr>"
| "outcome_to_frame (IoReadbackUnavailable _ _ _) = \<lparr>of_code = 4, of_class = 0\<rparr>"
| "outcome_to_frame (IoReadbackMismatch _ _ _ _ _) = \<lparr>of_code = 5, of_class = 0\<rparr>"
| "outcome_to_frame IoIdempotentHit = \<lparr>of_code = 1, of_class = 0\<rparr>"
| "outcome_to_frame IoDryRun = \<lparr>of_code = 2, of_class = 0\<rparr>"
| "outcome_to_frame (IoDenied cls _) = \<lparr>of_code = 3, of_class = dc_code cls\<rparr>"

record ('d, 'm, 'a) device_agent =
  ag_ingress :: "('m, 'a) ingress option"
  ag_devices :: "'d device_registry"

definition agent_handle ::
  "('d, 'm, 'a) ingress_env \<Rightarrow> ('d, 'm, 'a) device_agent \<Rightarrow> bytes \<Rightarrow> u64 \<Rightarrow> (('d, 'm, 'a) device_agent \<times> bytes) option" where
  "agent_handle env ag req now_ms =
     (case ag_ingress ag of
        None \<Rightarrow> Some (ag, of_encode (outcome_to_frame (IoDenied DcPolicy IrKeyMissing)))
      | Some ig \<Rightarrow> do {
          (ig, devices, out) \<leftarrow> process env ig (ag_devices ag) req now_ms;
          Some (ag\<lparr>ag_ingress := Some ig, ag_devices := devices\<rparr>, of_encode (outcome_to_frame out))
        })"

end
