(* ===== verification/Device_Safety.thy ===== *)
theory Device_Safety
  imports Device_Ingress Chain_Scenario Dispatch_Clearance
begin

text \<open>
  What the device agent guarantees: a device is written only by a frame that is cleared, the set point of a
  frame is what it gets, a frame is not written twice, and what the handshake carries.
\<close>

section \<open>Specification\<close>

text \<open>What was written to the devices, by name.\<close>

definition written_at :: "('d \<Rightarrow> 'o) \<Rightarrow> 'd device_registry \<Rightarrow> bytes \<Rightarrow> 'o option" where
  "written_at written r name = map_option (\<lambda>info. written (di_adapter info)) (bt_get r name)"

text \<open>A frame that is cleared for writing: it decodes (with a matching digest), its envelope verifies under the key of the
  ingress, the device is registered and has the point, and the control chain admits the command, without a dry run, on
  the feedback read from the device itself.\<close>

definition write_cleared ::
  "'d adapter_ops \<Rightarrow> ('m, 'a) ingress \<Rightarrow> 'd device_registry \<Rightarrow> bytes \<Rightarrow> u64 \<Rightarrow> authorized_command \<Rightarrow> f64 \<Rightarrow> bool" where
  "write_cleared ops ig devices payload now_ms cmd kw \<longleftrightarrow>
     (\<exists>bs e name info obs. ingress_frame payload = Inr (bs, kw) \<and> env_decode bs = Inr e \<and> verify_hmac e (ig_key ig) \<and>
        find_by_device_id devices (ac_device_id cmd) = Some (name, info) \<and> env_point_id e \<in> snd ` set (di_point_map info) \<and>
        DryRun \<notin> set obs \<and>
        chain_admits (chain_select (ig_chain ig) (env_point_id e) (now_ms div 1000)) bs (now_ms div 1000)
          (snd (ingress_feedback ops devices (ac_device_id cmd) (now_ms div 1000))) cmd obs)"

fun is_written :: "ingress_outcome \<Rightarrow> bool" where
  "is_written (IoApplied _ _ _ _) = True"
| "is_written (IoReadbackUnavailable _ _ _) = True"
| "is_written (IoReadbackMismatch _ _ _ _ _) = True"
| "is_written _ = False"

section \<open>Routing and feedback\<close>

lemma bt_insert_present:
  assumes "bt_inv m" and "bt_get m k = Some v"
  shows "bt_insert m k w = map (\<lambda>(k', x). (k', if k' = k then w else x)) m"
  using assms
proof (induction m)
  case (Cons a m)
  obtain k' x where a: "a = (k', x)" by fastforce
  have lt: "\<forall>k'' \<in> fst ` set m. k' < k''" and inv: "bt_inv m"
    using Cons.prems(1) by (auto simp: bt_inv_def a)
  show ?case
  proof (cases "k' = k")
    case True
    then have "map (\<lambda>(k', x). (k', if k' = k then w else x)) m = m"
      using lt by (intro map_idI) force
    then show ?thesis using True a by simp
  next
    case False
    then have g: "bt_get m k = Some v" using Cons.prems(2) a by simp
    then have "k \<in> fst ` set m" using bt_get_None_iff [of m k] by auto
    with lt have "k' < k" by blast
    then show ?thesis using a Cons.IH [OF inv g] by (auto simp: not_less_iff_gr_or_eq)
  qed
qed simp

lemma find_after_insert:
  assumes "bt_inv r" and "find_by_device_id r i = Some (name, info)" and "di_device_id info' = di_device_id info"
  shows "find_by_device_id (bt_insert r name info') i = Some (name, info')"
proof -
  note f = find_by_device_id_Some [OF assms(1,2)]
  have i: "di_device_id info' = i" using f(2) assms(3) by simp
  have "find (\<lambda>(_, x). di_device_id x = i) (map (\<lambda>(k', x). (k', if k' = name then info' else x)) s) = Some (name, info')"
    if "find (\<lambda>(_, x). di_device_id x = i) s = Some (name, info)" for s
    using that
  proof (induction s)
    case (Cons a s)
    obtain k x where "a = (k, x)" by fastforce
    with Cons i show ?case by (cases "k = name"; cases "di_device_id x = i") simp_all
  qed simp
  from this [of r] show ?thesis
    using assms(2) by (simp only: find_by_device_id_def bt_insert_present [OF assms(1) f(1)])
qed

context point_adapter
begin

lemma feedback_loop_keeps:
  assumes "feedback_loop ops info b names = (info', b')"
  shows "\<exists>d. info' = info\<lparr>di_adapter := d\<rparr> \<and> written d = written (di_adapter info)"
  using assms
proof (induction names arbitrary: info b)
  case Nil
  then show ?case by (auto intro: exI [of _ "di_adapter info"])
next
  case (Cons name names)
  obtain i2 s where r: "read_telemetry_sample ops info name = (i2, s)" by fastforce
  have "\<exists>d. i2 = info\<lparr>di_adapter := d\<rparr> \<and> written d = written (di_adapter info)"
  proof (cases "bt_get (di_point_map info) name")
    case None
    then show ?thesis using r by (auto simp: read_telemetry_sample_def intro: exI [of _ "di_adapter info"])
  next
    case (Some p)
    then show ?thesis using r read_keeps [of "di_adapter info" p]
      by (auto simp: read_telemetry_sample_def split: prod.splits sum.splits)
  qed
  then obtain d where d: "i2 = info\<lparr>di_adapter := d\<rparr>" "written d = written (di_adapter info)" by blast
  have "\<exists>b2. feedback_loop ops i2 b2 names = (info', b')"
    using Cons.prems r by (cases s) auto
  then show ?case using Cons.IH d by fastforce
qed

lemma ingress_feedback_keeps:
  assumes "bt_inv devices" and "find_by_device_id devices i = Some (name, info)"
    and "ingress_feedback ops devices i now = (devices1, fb)"
  obtains d where "find_by_device_id devices1 i = Some (name, info\<lparr>di_adapter := d\<rparr>)" "written d = written (di_adapter info)"
    "written_at written devices1 = written_at written devices" "bt_inv devices1"
proof -
  obtain info' b where l: "feedback_loop ops info (fb_untrusted now) FEEDBACK_NAMES = (info', b)" by fastforce
  obtain d where d: "info' = info\<lparr>di_adapter := d\<rparr>" "written d = written (di_adapter info)"
    using feedback_loop_keeps [OF l] by blast
  have r: "devices1 = bt_insert devices name (info\<lparr>di_adapter := d\<rparr>)"
    using assms(2,3) l d by (simp add: ingress_feedback_def)
  have "find_by_device_id devices1 i = Some (name, info\<lparr>di_adapter := d\<rparr>)"
    unfolding r by (rule find_after_insert [OF assms(1,2)]) simp
  moreover have "written_at written devices1 = written_at written devices"
    using find_by_device_id_Some(1) [OF assms(1,2)] d by (auto simp: r written_at_def)
  ultimately show thesis using that d(2) bt_inv_insert [OF assms(1)] r by blast
qed


lemma ingress_write_written:
  assumes "bt_inv devices" and "find_by_device_id devices (ac_device_id cmd) = Some (name, info)" and "ie_adapter env = ops"
    and "ingress_write env ig devices cmd kw ctx now_ms = Some (ig', devices', out)"
  shows "written_at written devices' =
      (if accepts (written (di_adapter info)) cmd kw
       then (written_at written devices)(name \<mapsto> result (written (di_adapter info)) kw) else written_at written devices)"
    and "is_written out \<longleftrightarrow> accepts (written (di_adapter info)) cmd kw"
proof -
  note g = find_by_device_id_Some(1) [OF assms(1,2)]
  have "written_at written devices' =
      (if accepts (written (di_adapter info)) cmd kw
       then (written_at written devices)(name \<mapsto> result (written (di_adapter info)) kw) else written_at written devices) \<and>
     (is_written out \<longleftrightarrow> accepts (written (di_adapter info)) cmd kw)"
  proof (cases rule: write_cases [of "di_adapter info" cmd kw])
    case (accepted d1 v)
    obtain d2 r where rd: "ad_read ops d1 (ac_point_id cmd) = (d2, r)" by fastforce
    have w: "written d2 = result (written (di_adapter info)) kw" using read_keeps [of d1 "ac_point_id cmd"] rd accepted(3) by simp
    have "devices' = set_adapter devices name info d2 \<and> is_written out"
      using assms(2-4) accepted(2) rd
      by (auto simp: ingress_write_def Let_def bind_eq_Some_conv split: readback_result.splits)
    then show ?thesis using accepted(1) w by (auto simp: set_adapter_def written_at_def)
  next
    case (refused d1 e)
    have "devices' = set_adapter devices name info d1 \<and> \<not> is_written out"
      using assms(2-4) refused(2) by (auto simp: ingress_write_def Let_def ingress_deny_def bind_eq_Some_conv)
    then show ?thesis using refused(1,3) g by (auto simp: set_adapter_def written_at_def)
  qed
  then show "written_at written devices' =
      (if accepts (written (di_adapter info)) cmd kw
       then (written_at written devices)(name \<mapsto> result (written (di_adapter info)) kw) else written_at written devices)"
    "is_written out \<longleftrightarrow> accepts (written (di_adapter info)) cmd kw" by blast+
qed

end

lemma ingress_judge_unwritten:
  assumes "ingress_judge env ig devices bs e kw i now_ms = Some (ig', devices', out)"
    and "ingress_feedback (ie_adapter env) devices i (now_ms div 1000) = (devices1, fb)"
    and "chain_execute (chain_select (ig_chain ig) (env_point_id e) (now_ms div 1000)) bs (now_ms div 1000) fb = (c, res)"
  shows "case res of
      Executed cmd obs \<Rightarrow> ingress_write env (ig\<lparr>ig_chain := c\<rparr>) devices1 cmd kw (ctx_of e) now_ms = Some (ig', devices', out)
    | _ \<Rightarrow> devices' = devices1 \<and> \<not> is_written out"
  using assms
  by (cases res) (auto simp: ingress_judge_def Let_def ingress_deny_def bind_eq_Some_conv)

text \<open>Auditing and denying leave the chain alone.\<close>

lemma log_audit_chain: "log_audit env ig ev t = Some ig' \<Longrightarrow> ig_chain ig' = ig_chain ig"
  by (auto simp: log_audit_def Let_def bind_eq_Some_conv split: sum.split)

lemma log_audit_frame:
  "log_audit env ig ev t = Some ig' \<Longrightarrow> ig_key ig' = ig_key ig \<and> ig_readback ig' = ig_readback ig \<and> ig_lease_id ig' = ig_lease_id ig \<and>
     ig_lease_ok ig' = ig_lease_ok ig \<and> ig_write_count ig' = ig_write_count ig"
  by (cases "ie_log env (ig_audit ig) ev") (auto simp: log_audit_def Let_def split: sum.split_asm)

lemma ingress_deny_effect:
  "ingress_deny env ig cls reason ctx t = Some (ig', out) \<Longrightarrow> ig_chain ig' = ig_chain ig \<and> \<not> is_written out"
  by (auto simp: ingress_deny_def Let_def bind_eq_Some_conv dest!: log_audit_chain)

text \<open>The number a cleared command is routed by is the one in its envelope.\<close>

lemma admitted_device:
  assumes "chain_admits c bs now fb cmd obs" and "env_decode bs = Inr e"
  shows "u16_try_from (env_device_id e) = Some (ac_device_id cmd)"
  using assms by (auto simp: chain_admits_def authorized_of_def)

text \<open>What a frame has to show before the chain is asked.\<close>

lemma process_cases:
  assumes "process env ig devices payload now_ms = Some (ig', devices', out)"
  obtains (judged) bs kw e i name info where "ingress_frame payload = Inr (bs, kw)" "env_decode bs = Inr e"
      "verify_hmac e (ig_key ig)" "i = (case u16_try_from (env_device_id e) of Some d \<Rightarrow> d | None \<Rightarrow> - 1)"
      "find_by_device_id devices i = Some (name, info)" "env_point_id e \<in> snd ` set (di_point_map info)"
      "ingress_judge env ig devices bs e kw i now_ms = Some (ig', devices', out)"
  | (denied) "devices' = devices" "\<not> is_written out" "ig_chain ig' = ig_chain ig" "\<And>ops cmd kw. \<not> write_cleared ops ig devices payload now_ms cmd kw"
proof (cases "ingress_frame payload")
  case (Inl reason)
  then show thesis using assms denied
    by (auto simp: process_def write_cleared_def dest!: ingress_deny_effect)
next
  case f: (Inr f)
  obtain bs kw where bs: "f = (bs, kw)" by fastforce
  show thesis
  proof (cases "env_decode bs")
    case (Inl err)
    then show thesis using assms denied f bs
      by (auto simp: process_def write_cleared_def dest!: ingress_deny_effect)
  next
    case e: (Inr e)
    let ?i = "case u16_try_from (env_device_id e) of Some d \<Rightarrow> d | None \<Rightarrow> - 1"
    show thesis
    proof (cases "verify_hmac e (ig_key ig) \<and> (\<exists>name info. find_by_device_id devices ?i = Some (name, info) \<and>
        env_point_id e \<in> snd ` set (di_point_map info))")
      case True
      then obtain name info where i: "verify_hmac e (ig_key ig)" "find_by_device_id devices ?i = Some (name, info)"
        "env_point_id e \<in> snd ` set (di_point_map info)" by blast
      then have "ingress_judge env ig devices bs e kw ?i now_ms = Some (ig', devices', out)"
        using assms f bs e by (simp add: process_def Let_def)
      with judged i f bs e show thesis by blast
    next
      case False
      have "devices' = devices \<and> \<not> is_written out \<and> ig_chain ig' = ig_chain ig"
        using assms f bs e False
        by (auto simp: process_def Let_def dest!: ingress_deny_effect split: if_splits option.splits)
      then have "devices' = devices" "\<not> is_written out" "ig_chain ig' = ig_chain ig" by simp_all
      moreover have "\<not> write_cleared ops ig devices payload now_ms cmd k" for ops cmd k
      proof
        assume "write_cleared ops ig devices payload now_ms cmd k"
        then obtain bs' e' name info obs c fb where w: "ingress_frame payload = Inr (bs', k)" "env_decode bs' = Inr e'"
          "verify_hmac e' (ig_key ig)" "find_by_device_id devices (ac_device_id cmd) = Some (name, info)"
          "env_point_id e' \<in> snd ` set (di_point_map info)" "chain_admits c bs' (now_ms div 1000) fb cmd obs"
          unfolding write_cleared_def by blast
        then have eq: "bs' = bs" "e' = e" using f bs e by simp_all
        have "u16_try_from (env_device_id e) = Some (ac_device_id cmd)" using admitted_device [OF w(6)] w(2) eq by simp
        with w(3-5) eq False show False by simp
      qed
      ultimately show thesis by (rule denied)
    qed
  qed
qed


text \<open>A frame that reached the chain is cleared exactly when the chain executes it.\<close>

lemma cleared_iff_executed:
  assumes "ingress_frame payload = Inr (bs, k)" "env_decode bs = Inr e" "verify_hmac e (ig_key ig)"
    "i = (case u16_try_from (env_device_id e) of Some d \<Rightarrow> d | None \<Rightarrow> - 1)"
    "find_by_device_id devices i = Some (name, info)" "env_point_id e \<in> snd ` set (di_point_map info)"
    and "ingress_feedback ops devices i (now_ms div 1000) = (devices1, fb)"
    and "chain_execute (chain_select (ig_chain ig) (env_point_id e) (now_ms div 1000)) bs (now_ms div 1000) fb = (c, res)"
  shows "write_cleared ops ig devices payload now_ms cmd kw \<longleftrightarrow> kw = k \<and> ac_device_id cmd = i \<and> (\<exists>obs. res = Executed cmd obs)"
proof -
  let ?T = "now_ms div 1000" and ?C = "chain_select (ig_chain ig) (env_point_id e) (now_ms div 1000)"
  have adm: "res = Executed cmd obs \<longleftrightarrow> DryRun \<notin> set obs \<and> chain_admits ?C bs ?T fb cmd obs" for obs
    using chain_execute_Executed_iff [of ?C bs ?T fb] assms(8) by auto
  show ?thesis
  proof
    assume "write_cleared ops ig devices payload now_ms cmd kw"
    then obtain obs where o: "kw = k" "DryRun \<notin> set obs"
        "chain_admits ?C bs ?T (snd (ingress_feedback ops devices (ac_device_id cmd) ?T)) cmd obs"
      using assms(1,2) by (auto simp: write_cleared_def)
    moreover have "ac_device_id cmd = i" using admitted_device [OF o(3) assms(2)] assms(4) by simp
    ultimately show "kw = k \<and> ac_device_id cmd = i \<and> (\<exists>obs. res = Executed cmd obs)" using adm assms(7) by auto
  next
    assume a: "kw = k \<and> ac_device_id cmd = i \<and> (\<exists>obs. res = Executed cmd obs)"
    then obtain obs where "DryRun \<notin> set obs" "chain_admits ?C bs ?T fb cmd obs" using adm by blast
    then show "write_cleared ops ig devices payload now_ms cmd kw"
      unfolding write_cleared_def using a assms(1-3,5-7) by auto
  qed
qed

context point_adapter
begin

theorem process_written:
  assumes "ie_adapter env = ops" and "bt_inv devices" and "process env ig devices payload now_ms = Some (ig', devices', out)"
    and "write_cleared ops ig devices payload now_ms cmd kw"
  shows "\<exists>name info. find_by_device_id devices (ac_device_id cmd) = Some (name, info) \<and>
        (is_written out \<longleftrightarrow> accepts (written (di_adapter info)) cmd kw) \<and>
        written_at written devices' =
          (if accepts (written (di_adapter info)) cmd kw
           then (written_at written devices)(name \<mapsto> result (written (di_adapter info)) kw) else written_at written devices)"
  using assms(3)
proof (cases rule: process_cases)
  case (judged bs k e i name info)
  obtain devices1 fb where f: "ingress_feedback ops devices i (now_ms div 1000) = (devices1, fb)" by fastforce
  obtain c res where x: "chain_execute (chain_select (ig_chain ig) (env_point_id e) (now_ms div 1000)) bs (now_ms div 1000) fb = (c, res)"
    by fastforce
  obtain d where k: "find_by_device_id devices1 i = Some (name, info\<lparr>di_adapter := d\<rparr>)" "written d = written (di_adapter info)"
    "written_at written devices1 = written_at written devices" "bt_inv devices1"
    by (rule ingress_feedback_keeps [OF assms(2) judged(5) f])
  obtain obs where r: "kw = k" "ac_device_id cmd = i" "res = Executed cmd obs"
    using assms(4) unfolding cleared_iff_executed [OF judged(1-6) f x] by blast
  have w: "ingress_write env (ig\<lparr>ig_chain := c\<rparr>) devices1 cmd k (ctx_of e) now_ms = Some (ig', devices', out)"
    using ingress_judge_unwritten [OF judged(7) _ x] f assms(1) r(3) by simp
  note iw = ingress_write_written [OF k(4) k(1) [folded r(2)] assms(1) w]
  show ?thesis using iw k(2,3) judged(5) r(1,2) by (intro exI [of _ name] exI [of _ info]) simp
next
  case denied
  then show ?thesis using assms(4) by blast
qed

theorem process_unwritten:
  assumes "ie_adapter env = ops" and "bt_inv devices" and "process env ig devices payload now_ms = Some (ig', devices', out)"
    and "\<And>cmd kw. \<not> write_cleared ops ig devices payload now_ms cmd kw"
  shows "written_at written devices' = written_at written devices \<and> \<not> is_written out"
  using assms(3)
proof (cases rule: process_cases)
  case (judged bs k e i name info)
  obtain devices1 fb where f: "ingress_feedback ops devices i (now_ms div 1000) = (devices1, fb)" by fastforce
  obtain c res where x: "chain_execute (chain_select (ig_chain ig) (env_point_id e) (now_ms div 1000)) bs (now_ms div 1000) fb = (c, res)"
    by fastforce
  obtain d where k: "written_at written devices1 = written_at written devices"
    by (rule ingress_feedback_keeps [OF assms(2) judged(5) f])
  have "ac_device_id cmd = i" if "res = Executed cmd obs" for cmd obs
  proof -
    have "chain_admits (chain_select (ig_chain ig) (env_point_id e) (now_ms div 1000)) bs (now_ms div 1000) fb cmd obs"
      using chain_execute_Executed_iff [of "chain_select (ig_chain ig) (env_point_id e) (now_ms div 1000)" bs "now_ms div 1000" fb] x that by auto
    from admitted_device [OF this judged(2)] judged(4) show ?thesis by simp
  qed
  then have "res \<noteq> Executed cmd obs" for cmd obs
    using assms(4) unfolding cleared_iff_executed [OF judged(1-6) f x] by blast
  then have "devices' = devices1 \<and> \<not> is_written out"
    using ingress_judge_unwritten [OF judged(7) _ x] f assms(1) by (cases res) auto
  then show ?thesis using k by simp
next
  case denied
  then show ?thesis by simp
qed

end


text \<open>A converter reads back what was written: a policy that accepts the value itself gives an applied outcome.\<close>

lemma tolerance_accepts_itself: "f64_is_finite kw \<Longrightarrow> rp_verify (rp_tolerance f64_tenth) kw kw"
  by (simp add: rp_verify_def rp_tolerance_def f64_sub_self f64_max_def f64_tenth_def f64_epsilon_def f64_abs_def f64_le_def
      f64_lt_def f64_key_def f64_is_nan_def)

lemma pcs_process_applied:
  assumes "ie_adapter env = pcs_ops clock" and "process env ig devices payload t = Some (ig', devices', out)" and "is_written out"
    and "ingress_frame payload = Inr (bs, kw)" and "rp_verify (ig_readback ig) kw kw"
  shows "\<exists>i p. out = IoApplied i p kw (Some (PvFloat kw))"
  using assms(2)
proof (cases rule: process_cases)
  case (judged bs' kw' e i name info)
  obtain devices1 fb where f: "ingress_feedback (ie_adapter env) devices i (t div 1000) = (devices1, fb)" by fastforce
  obtain c res where x: "chain_execute (chain_select (ig_chain ig) (env_point_id e) (t div 1000)) bs' (t div 1000) fb = (c, res)" by fastforce
  have kw: "kw' = kw" using judged(1) assms(4) by simp
  obtain cmd where w: "ingress_write env (ig\<lparr>ig_chain := c\<rparr>) devices1 cmd kw (ctx_of e) t = Some (ig', devices', out)"
    using ingress_judge_unwritten [OF judged(7) f x] assms(3) kw by (cases res) auto
  have "readback_of (ig_readback ig) kw (Some (PvFloat kw)) = RbVerified kw" using assms(5) by (simp add: readback_of_def)
  then show ?thesis
    using w assms(1,3)
    by (auto simp: ingress_write_def Let_def pcs_ops_def pcs_write_def pcs_read_def pcs_read_value_def bind_eq_Some_conv
        POINT_POWER_def POINT_DC_BUS_V_def POINT_SOC_def POINT_GRID_UP_def POINT_ALARM_def
        dest!: ingress_deny_effect split: option.splits if_splits)
qed (use assms(3) in simp)

section \<open>Assembly from a profile\<close>

text \<open>The chain of an ingress assembled from a profile is the one \<open>from_profile\<close> assembles, with its lease issued.\<close>

lemma ingress_from_profile_chain:
  assumes "ingress_from_profile env m a key p now_ms = Some ig" and "cp_tuning p = tuning_default"
    and "cp_epoch_seed p \<noteq> - 1"
  shows "profile_ready key p (now_ms div 1000) t = Some (chain_select (ig_chain ig) (cp_point_id p) t, cp_epoch_seed p + 1)"
proof -
  have v: "cp_policy_version p \<noteq> 0"
    using assms(1) by (auto simp: ingress_from_profile_def profile_policy_eq)
  obtain pol where pol: "profile_policy p = Some pol" using v by (simp add: profile_policy_eq)
  obtain c where c: "from_profile key p = Some c" by (simp add: from_profile_def pol Let_def)
  have "ig_chain ig = fst (issue_lease p c (now_ms div 1000))"
    using assms(1,2) c pol
    by (auto simp: ingress_from_profile_def ingress_with_readback_def from_profile_def issue_lease_def Let_def
        profile_safety_points_def tuning_default_def chain_new_def split: prod.splits option.splits dest!: log_audit_chain)
  moreover have "snd (issue_lease p c (now_ms div 1000)) = Some (cp_epoch_seed p + 1)"
    using c pol assms(3)
    by (auto simp: from_profile_def issue_lease_def Let_def profile_safety_points_def chain_new_def lease_issue_def
        lease_new_def seed_epoch_def checked_add_one bt_contains_def split: prod.splits option.splits)
  ultimately show ?thesis using c by (cases "issue_lease p c (now_ms div 1000)") (simp add: profile_ready_def)
qed


lemma ingress_from_profile_fields:
  assumes "ingress_from_profile env m a key p now_ms = Some ig"
  shows "ig_key ig = key" and "ig_readback ig = rp_tolerance f64_tenth" and "ig_lease_id ig = cp_lease_id p" and "ig_write_count ig = 0"
  using assms
  by (auto simp: ingress_from_profile_def ingress_with_readback_def bind_eq_Some_conv Let_def case_prod_beta
      dest!: log_audit_frame)

text \<open>A control envelope as the dispatch engine builds it is a frame.\<close>

lemma ce_frame:
  assumes "length corr = 16" "length issuer = 16" "length bs = ENVELOPE_LEN"
  shows "ingress_frame (ce_encode (ce_new corr issuer epoch issued expires bs kw)) = Inr (bs, kw)"
proof -
  let ?ce = "ce_new corr issuer epoch issued expires bs kw"
  have wf: "ce_wf ?ce" using assms by (simp add: ce_wf_def ce_new_def payload_digest_of_def Let_def length_sm3_hash)
  have d: "ce_decode (ce_encode ?ce) = Inr ?ce" by (rule ce_decode_encode [OF wf])
  then have "length (ce_encode ?ce) = CONTROL_ENVELOPE_LEN" by (auto simp: ce_decode_def split: if_splits)
  with d show ?thesis by (simp add: ingress_frame_def verify_payload_digest_def ce_new_def)
qed

section \<open>A plant\<close>

text \<open>A virtual converter behind an ingress assembled from the breaker profile of the chain scenario, at 100 s.\<close>

definition plant_env :: "(virtual_pcs, unit, unit) ingress_env" where
  "plant_env =
     \<lparr>ie_adapter = pcs_ops (\<lambda>_. 100000), ie_increment = (\<lambda>m _ _. m), ie_log = (\<lambda>a ev. Some (a, Inl StorageWriteFailed)),
      ie_fixed = take, ie_text = (\<lambda>_. [])\<rparr>"

definition plant_ingress :: "(unit, unit) ingress" where
  "plant_ingress = the (ingress_from_profile plant_env () () demo_key demo_profile 100000)"

definition plant_info :: "virtual_pcs device_info" where
  "plant_info =
     \<lparr>di_device_type = DtPcs, di_device_id = 7, di_adapter = pcs_new 7,
      di_point_map = fold (\<lambda>(n, p) m. bt_insert m n p) VIRTUAL_PCS_POINTS bt_empty,
      di_registration = \<lparr>dr_device_id = 7, dr_adapter_kind = AkPcs, dr_endpoint = str ''pcs'', dr_point_schema = 1,
         dr_allowed_ops = ops_read_write_readback, dr_capability_digest = capability_digest (str ''pcs'') AkPcs 1 ops_read_write_readback,
         dr_config_generation = 0\<rparr>,
      di_available = True\<rparr>"

definition plant_devices :: "virtual_pcs device_registry" where
  "plant_devices = [(str ''pcs'', plant_info)]"

definition plant_payload :: "f64 \<Rightarrow> bytes" where
  "plant_payload kw =
     ce_encode (ce_new (replicate 16 4) (replicate 16 3) 1 100000 160000 (env_encode (eb_build demo_builder demo_key)) kw)"

lemma plant_ingress_eq: "ingress_from_profile plant_env () () demo_key demo_profile 100000 = Some plant_ingress"
proof -
  have "\<exists>ig. ingress_from_profile plant_env () () demo_key demo_profile 100000 = Some ig"
    by (simp add: ingress_from_profile_def profile_policy_eq demo_profile_def ai_pcc_single_def ingress_with_readback_def
        log_audit_def plant_env_def Let_def split: prod.split)
  then show ?thesis by (auto simp: plant_ingress_def)
qed

lemma plant_ingress_fields: "ig_key plant_ingress = demo_key" "ig_readback plant_ingress = rp_tolerance f64_tenth"
  using ingress_from_profile_fields [OF plant_ingress_eq] by simp_all

lemma plant_lease_ok: "ig_lease_ok plant_ingress"
proof -
  have "ig_lease_ok ig" if "ingress_from_profile plant_env () () demo_key demo_profile 100000 = Some ig" for ig
    using that
    by (auto simp: ingress_from_profile_def ingress_with_readback_def bind_eq_Some_conv Let_def case_prod_beta demo_profile_def
        ai_pcc_single_def lease_issue_def chain_new_def lease_new_def seed_epoch_def bt_contains_def checked_add_def
        dest!: log_audit_frame)
  then show ?thesis using plant_ingress_eq .
qed

lemma plant_point_map:
  "di_point_map plant_info = [(str ''active_power'', 10), (str ''dc_bus_v'', 1), (str ''grid_up'', 5), (str ''overcurrent'', 6),
     (str ''overtemp'', 6), (str ''soc_pct'', 4)]"
  by (simp add: plant_info_def VIRTUAL_PCS_POINTS_def str_def POINT_DC_BUS_V_def POINT_SOC_def POINT_GRID_UP_def POINT_ALARM_def POINT_POWER_def)


lemma plant_feedback:
  "snd (ingress_feedback (pcs_ops (\<lambda>_. 100000)) plant_devices 7 100) =
    (let g = (\<lambda>v. \<lparr>fs_value = v, fs_quality = Good, fs_timestamp_epoch = 100\<rparr>)
     in \<lparr>fb_grid_up = g f64_1, fb_soc_pct = g f64_053, fb_dc_bus_v = g f64_400, fb_overcurrent = g f64_0,
         fb_overtemp = g f64_0, fb_maintenance_lockout = False\<rparr>)"
  by (simp add: ingress_feedback_def plant_devices_def find_by_device_id_def FEEDBACK_NAMES_def read_telemetry_sample_def
      plant_info_def VIRTUAL_PCS_POINTS_def str_def POINT_DC_BUS_V_def POINT_SOC_def POINT_GRID_UP_def POINT_ALARM_def
      POINT_POWER_def pcs_ops_def pcs_read_def pcs_read_value_def pcs_new_def fb_untrusted_def Let_def set_feedback_def
      sample_to_f64_def from_point_quality_def pq_good_def)

lemma plant_chain: "chain_select (ig_chain plant_ingress) POINT_POWER 100 = demo_chain"
  using ingress_from_profile_chain [OF plant_ingress_eq, of 100] demo_ready
  by (simp add: demo_profile_def ai_pcc_single_def POINT_POWER_def)

lemma plant_admits:
  assumes "request_fits demo_profile 42 b 100" and "eb_command b = Single SOn"
  shows "chain_admits demo_chain (env_encode (eb_build b demo_key)) 100
    (snd (ingress_feedback (pcs_ops (\<lambda>_. 100000)) plant_devices 7 100)) (authorized_of (eb_build b demo_key) 7) []"
  using profile_executes_lemma [OF demo_ready _ assms(1), of "snd (ingress_feedback (pcs_ops (\<lambda>_. 100000)) plant_devices 7 100)"] assms(2)
  by (simp add: plant_feedback Let_def profile_usable_def demo_profile_def ai_pcc_single_def tuning_default_def saturating_add_def
      bundle_trusted_def trusted_def saturating_sub_def unsafe_action_def profile_safety_point_def measured_context_def
      f64_lt_def f64_eq_def f64_key_def f64_is_nan_def f64_053_def f64_400_def)

text \<open>Any frame around an envelope that fits the profile is cleared.\<close>

lemma plant_clears:
  assumes "request_fits demo_profile 42 b 100" and "eb_command b = Single SOn"
    and "ingress_frame payload = Inr (env_encode (eb_build b demo_key), kw)"
  shows "write_cleared (pcs_ops (\<lambda>_. 100000)) plant_ingress plant_devices payload 100000 (authorized_of (eb_build b demo_key) 7) kw"
proof -
  have d: "env_decode (env_encode (eb_build b demo_key)) = Inr (eb_build b demo_key)"
    using assms(1) by (intro env_decode_encode env_wf_build) (simp add: request_fits_def)
  have p: "ac_device_id (authorized_of (eb_build b demo_key) 7) = 7" "eb_point_id b = POINT_POWER"
    using assms(1) by (simp_all add: authorized_of_def request_fits_def demo_profile_def ai_pcc_single_def POINT_POWER_def)
  have f: "find_by_device_id plant_devices 7 = Some (str ''pcs'', plant_info)"
    by (simp add: find_by_device_id_def plant_devices_def plant_info_def)
  have m: "POINT_POWER \<in> snd ` set (di_point_map plant_info)" by (simp add: plant_point_map POINT_POWER_def)
  have h: "verify_hmac (eb_build b demo_key) (ig_key plant_ingress)"
    using verify_hmac_build by (simp add: plant_ingress_fields)
  show ?thesis unfolding write_cleared_def
    by (rule exI [of _ "env_encode (eb_build b demo_key)"], rule exI [of _ "eb_build b demo_key"],
        rule exI [of _ "str ''pcs''"], rule exI [of _ plant_info], rule exI [of _ "[]"])
      (simp add: assms(3) d p f m h plant_chain plant_admits [OF assms(1,2)] del: image_iff)
qed

lemma plant_envelope_length: "length (env_encode (eb_build demo_builder demo_key)) = ENVELOPE_LEN"
  using demo_fits by (intro length_env_encode env_wf_build) (simp add: request_fits_def)

lemma plant_frame: "ingress_frame (plant_payload kw) = Inr (env_encode (eb_build demo_builder demo_key), kw)"
  unfolding plant_payload_def by (rule ce_frame) (simp_all add: plant_envelope_length)

lemma demo_builder_command: "eb_command demo_builder = Single SOn"
  by (simp add: demo_builder_def builder_defs)

lemmas plant_cleared = plant_clears [OF demo_fits demo_builder_command plant_frame, folded demo_cmd_def]

text \<open>An ingress whose audit does not panic returns.\<close>

lemma log_audit_returns: "(\<And>a ev. returns (ie_log env a ev)) \<Longrightarrow> returns (log_audit env ig ev t)"
  unfolding log_audit_def Let_def by (rule returns_bind) (auto split: prod.split)

lemma ingress_deny_returns: "(\<And>a ev. returns (ie_log env a ev)) \<Longrightarrow> returns (ingress_deny env ig cls reason ctx t)"
  unfolding ingress_deny_def Let_def by (rule returns_bind [OF log_audit_returns]) auto

lemma returns_map [simp]: "returns (map_option f m) \<longleftrightarrow> returns m"
  by (auto simp: returns_def)

lemma process_returns:
  assumes "\<And>a ev. returns (ie_log env a ev)"
  shows "returns (process env ig devices payload t)"
proof -
  note r = ingress_deny_returns [OF assms] log_audit_returns [OF assms]
  have w: "returns (ingress_write env ig devices cmd kw ctx t)" for ig devices cmd kw ctx
    by (auto simp: ingress_write_def audit_event_of_def Let_def r intro!: returns_bind split: option.split prod.split sum.split)
  have "returns (ingress_judge env ig devices bs e kw i t)" for bs e kw i
    by (auto simp: ingress_judge_def audit_event_of_def Let_def r w intro!: returns_bind split: chain_outcome.split prod.split)
  with r show ?thesis by (simp add: process_def Let_def split: sum.split option.split prod.split)
qed

lemma plant_processes:
  obtains ig' devices' out where "process plant_env ig devices payload t = Some (ig', devices', out)"
proof -
  have "returns (process plant_env ig devices payload t)"
    by (rule process_returns) (simp add: plant_env_def returns_def)
  then obtain x where "process plant_env ig devices payload t = Some x" by (auto simp: returns_def)
  then show thesis using that by (cases x) auto
qed

lemma plant_registers: "written_at pcs_registers plant_devices (str ''pcs'') = Some (7, f64_0, 0)"
  by (simp add: written_at_def plant_devices_def plant_info_def pcs_registers_def pcs_new_def)

lemma power_finite: "f64_is_finite f64_100"
  by (simp add: f64_is_finite_def f64_ex_def)

section \<open>Properties\<close>

text \<open>A frame that sets the point of the converter registered under \<open>name\<close> to \<open>kw\<close>: cleared, routed to it, and accepted by it.\<close>

definition sets_point ::
  "(nat \<Rightarrow> u64) \<Rightarrow> ('m, 'a) ingress \<Rightarrow> virtual_pcs device_registry \<Rightarrow> bytes \<Rightarrow> u64 \<Rightarrow> bytes \<Rightarrow> f64 \<Rightarrow> bool" where
  "sets_point clock ig devices payload now_ms name kw \<longleftrightarrow>
     (\<exists>cmd info. write_cleared (pcs_ops clock) ig devices payload now_ms cmd kw \<and>
        find_by_device_id devices (ac_device_id cmd) = Some (name, info) \<and> pcs_accepts (pcs_registers (di_adapter info)) cmd kw)"

text \<open>C5. The device is written exactly by cleared frames: a frame changes the registers of the virtual converter only if it
  decodes, its envelope verifies under the key, its device and point are registered, and the control chain admits its
  command on the feedback read from the device itself; then the converter it names gets the set point of the frame, once,
  provided it accepts the command (its own number and power point, a finite value), and no other device changes.\<close>

theorem device_written_iff_cleared:
  assumes "ie_adapter env = pcs_ops clock" and "bt_inv devices"
    and "process env ig devices payload now_ms = Some (ig', devices', out)"
  shows "(\<forall>name kw. sets_point clock ig devices payload now_ms name kw \<longrightarrow>
      written_at pcs_registers devices' = (written_at pcs_registers devices)
        (name := map_option (\<lambda>regs. pcs_set regs kw) (written_at pcs_registers devices name))) \<and>
    ((\<nexists>name kw. sets_point clock ig devices payload now_ms name kw) \<longrightarrow>
      written_at pcs_registers devices' = written_at pcs_registers devices)"
proof (intro conjI allI impI)
  fix name kw
  assume "sets_point clock ig devices payload now_ms name kw"
  then obtain cmd info where c: "write_cleared (pcs_ops clock) ig devices payload now_ms cmd kw"
    "find_by_device_id devices (ac_device_id cmd) = Some (name, info)" "pcs_accepts (pcs_registers (di_adapter info)) cmd kw"
    by (auto simp: sets_point_def)
  have "written_at pcs_registers devices name = Some (pcs_registers (di_adapter info))"
    using find_by_device_id_Some(1) [OF assms(2) c(2)] by (simp add: written_at_def)
  with pcs.process_written [OF assms c(1)] c(2,3)
  show "written_at pcs_registers devices' = (written_at pcs_registers devices)
      (name := map_option (\<lambda>regs. pcs_set regs kw) (written_at pcs_registers devices name))" by auto
next
  assume n: "\<nexists>name kw. sets_point clock ig devices payload now_ms name kw"
  show "written_at pcs_registers devices' = written_at pcs_registers devices"
  proof (cases "\<exists>cmd kw. write_cleared (pcs_ops clock) ig devices payload now_ms cmd kw")
    case True
    then obtain cmd kw where c: "write_cleared (pcs_ops clock) ig devices payload now_ms cmd kw" by blast
    from pcs.process_written [OF assms c] obtain name info where
      f: "find_by_device_id devices (ac_device_id cmd) = Some (name, info)"
      and w: "\<not> pcs_accepts (pcs_registers (di_adapter info)) cmd kw \<longrightarrow> written_at pcs_registers devices' = written_at pcs_registers devices"
      by auto
    from n c f have "\<not> pcs_accepts (pcs_registers (di_adapter info)) cmd kw" by (auto simp: sets_point_def)
    with w show ?thesis by blast
  next
    case False
    then show ?thesis using pcs.process_unwritten [OF assms] by blast
  qed
qed

lemma plant_route: "find_by_device_id plant_devices (ac_device_id demo_cmd) = Some (str ''pcs'', plant_info)"
  by (simp add: find_by_device_id_def plant_devices_def plant_info_def demo_cmd_def authorized_of_def demo_builder_def builder_defs)

lemma plant_accepts: "f64_is_finite kw \<Longrightarrow> pcs_accepts (pcs_registers (di_adapter plant_info)) demo_cmd kw"
  by (simp add: pcs_accepts_def pcs_registers_def plant_info_def pcs_new_def POINT_POWER_def demo_cmd_def
      authorized_of_def demo_builder_def builder_defs)

lemma plant_sets_point:
  "f64_is_finite kw \<Longrightarrow> sets_point (\<lambda>_. 100000) plant_ingress plant_devices (plant_payload kw) 100000 (str ''pcs'') kw"
  unfolding sets_point_def using plant_cleared [of kw] plant_route plant_accepts by blast

theorem device_written_iff_cleared_witness:
  "\<exists>ig' devices' out. process plant_env plant_ingress plant_devices (plant_payload f64_100) 100000 = Some (ig', devices', out) \<and>
     written_at pcs_registers devices' (str ''pcs'') = Some (7, f64_100, 1)"
proof -
  obtain ig' devices' out where p: "process plant_env plant_ingress plant_devices (plant_payload f64_100) 100000 = Some (ig', devices', out)"
    by (rule plant_processes)
  have inv: "bt_inv plant_devices" by (simp add: plant_devices_def bt_inv_def)
  have e: "ie_adapter plant_env = pcs_ops (\<lambda>_. 100000)" by (simp add: plant_env_def)
  have "written_at pcs_registers devices' = (written_at pcs_registers plant_devices)
      (str ''pcs'' := map_option (\<lambda>regs. pcs_set regs f64_100) (written_at pcs_registers plant_devices (str ''pcs'')))"
    using device_written_iff_cleared [OF e inv p] plant_sets_point [OF power_finite] by blast
  then have "written_at pcs_registers devices' (str ''pcs'') = Some (7, f64_100, 1)" by (simp add: plant_registers pcs_set_def)
  with p show ?thesis by blast
qed


text \<open>C38. The set point is not signed: the envelope alone decides. Whoever holds one delivered frame can put any finite set
  point beside its signed envelope, recompute the unkeyed digest, and the converter takes that set point.\<close>

theorem set_point_not_signed:
  assumes "ie_adapter env = pcs_ops clock" and "bt_inv devices"
    and "length corr = 16" "length issuer = 16" "length bs = ENVELOPE_LEN"
    and "sets_point clock ig devices (ce_encode (ce_new corr issuer epoch issued expires bs kw)) now_ms name kw"
    and "f64_is_finite kw'"
    and "process env ig devices (ce_encode (ce_new corr issuer epoch issued expires bs kw')) now_ms = Some (ig', devices', out)"
  shows "map_option (fst \<circ> snd) (written_at pcs_registers devices' name) = Some kw'"
proof -
  let ?p = "\<lambda>kw. ce_encode (ce_new corr issuer epoch issued expires bs kw)"
  obtain cmd info where c: "write_cleared (pcs_ops clock) ig devices (?p kw) now_ms cmd kw"
    "find_by_device_id devices (ac_device_id cmd) = Some (name, info)" "pcs_accepts (pcs_registers (di_adapter info)) cmd kw"
    using assms(6) by (auto simp: sets_point_def)
  have f: "ingress_frame (?p k) = Inr (bs, k)" for k by (rule ce_frame [OF assms(3-5)])
  have "write_cleared (pcs_ops clock) ig devices (?p kw') now_ms cmd kw'"
    using c(1) unfolding write_cleared_def f by blast
  moreover have "pcs_accepts (pcs_registers (di_adapter info)) cmd kw'" using c(3) assms(7) by (simp add: pcs_accepts_def)
  ultimately show ?thesis
    using pcs.process_written [OF assms(1,2,8)] c(2) by (fastforce simp: pcs_set_def split: prod.split)
qed

theorem set_point_not_signed_witness:
  "\<exists>ig' devices' out. process plant_env plant_ingress plant_devices (plant_payload f64_500) 100000 = Some (ig', devices', out) \<and>
     map_option (fst \<circ> snd) (written_at pcs_registers devices' (str ''pcs'')) = Some f64_500"
proof -
  obtain ig' devices' out where p: "process plant_env plant_ingress plant_devices (plant_payload f64_500) 100000 = Some (ig', devices', out)"
    by (rule plant_processes)
  have inv: "bt_inv plant_devices" by (simp add: plant_devices_def bt_inv_def)
  have e: "ie_adapter plant_env = pcs_ops (\<lambda>_. 100000)" by (simp add: plant_env_def)
  have "f64_is_finite f64_500" by (simp add: f64_is_finite_def f64_ex_def)
  from set_point_not_signed [OF e inv _ _ plant_envelope_length plant_sets_point [OF power_finite, unfolded plant_payload_def] this
      p [unfolded plant_payload_def]] p show ?thesis by simp
qed

text \<open>The handshake carries the lease: what the device agent answers, the issuer verifies under the same key and reads back as
  the lease of the ingress and the fencing token its chain will accept.\<close>

theorem handshake_roundtrip:
  assumes "handshake_response env ig = Some (ig', Inr resp)" and "length (ig_lease_id ig) = 16"
  shows "\<exists>token. verify_handshake_response (ig_key ig) resp = Some (ig_lease_id ig, token) \<and> token \<noteq> 0 \<and>
    token_of (cc_lease_service (ig_chain ig)) (ig_lease_id ig) = Some token"
proof -
  obtain token where t: "token_of (cc_lease_service (ig_chain ig)) (ig_lease_id ig) = Some token" "token \<noteq> 0"
    using assms(1) by (auto simp: handshake_response_def Let_def split: if_splits option.splits)
  let ?p = "ig_lease_id ig @ le_bytes 8 token"
  have p: "put (put (zeros 24) 0 (ig_lease_id ig)) 16 (le_bytes 8 token) = ?p"
    using assms(2) by (simp add: put_def)
  have r: "resp = ?p @ hmac_sm3 (ig_key ig) ?p"
    using assms t by (auto simp: handshake_response_def Let_def p put_def HANDSHAKE_LEN_def bind_eq_Some_conv split: if_splits)
  show ?thesis
    using assms(2) t by (simp add: r verify_handshake_response_def HANDSHAKE_LEN_def slice_def ct_eq_iff)
qed


theorem handshake_roundtrip_witness:
  "\<exists>ig' resp. handshake_response plant_env plant_ingress = Some (ig', Inr resp) \<and>
     verify_handshake_response demo_key resp = Some (replicate 16 1, 42)"
proof -
  have l: "ig_lease_id plant_ingress = replicate 16 1"
    using ingress_from_profile_fields(3) [OF plant_ingress_eq] by (simp add: demo_profile_def ai_pcc_single_def)
  note r = demo_ready [folded plant_chain]
  then have "cc_lease_service (chain_select (ig_chain plant_ingress) POINT_POWER 100) =
      \<lparr>lsv_epoch = 42, lsv_grants = [(replicate 16 1, \<lparr>lg_token = 42, lg_expiry = 3700, lg_scope = profile_lease_scope demo_profile\<rparr>)], lsv_revoked = []\<rparr>"
    unfolding profile_ready_Some_iff by (simp add: demo_profile_def ai_pcc_single_def saturating_add_def)
  then have t: "token_of (cc_lease_service (ig_chain plant_ingress)) (replicate 16 1) = Some 42"
    by (simp add: chain_select_def token_of_def)
  obtain ig' resp where h: "handshake_response plant_env plant_ingress = Some (ig', Inr resp)"
    by (auto simp: handshake_response_def plant_lease_ok t l Let_def log_audit_def plant_env_def)
  from handshake_roundtrip [OF h] h show ?thesis by (auto simp: l t plant_ingress_fields)
qed


section \<open>Replay\<close>

text \<open>Frames processed one after the other.\<close>

fun process_all ::
  "('d, 'm, 'a) ingress_env \<Rightarrow> ('m, 'a) ingress \<Rightarrow> 'd device_registry \<Rightarrow> (bytes \<times> u64) list \<Rightarrow>
     (('m, 'a) ingress \<times> 'd device_registry) option" where
  "process_all env ig devices [] = Some (ig, devices)"
| "process_all env ig devices ((payload, t) # frames) =
     (case process env ig devices payload t of
        None \<Rightarrow> None
      | Some (ig, devices, _) \<Rightarrow> process_all env ig devices frames)"

lemma audit_event_of_chain: "audit_event_of env ig a d p ctx ev t = Some ig' \<Longrightarrow> ig_chain ig' = ig_chain ig"
  by (auto simp: audit_event_of_def dest!: log_audit_chain)

lemma ingress_write_chain:
  "ingress_write env ig devices cmd kw ctx t = Some (ig', devices', out) \<Longrightarrow> ig_chain ig' = ig_chain ig"
  by (auto simp: ingress_write_def Let_def bind_eq_Some_conv dest!: ingress_deny_effect audit_event_of_chain
      split: option.splits prod.splits sum.splits)

lemma ingress_judge_chain:
  assumes "ingress_judge env ig devices bs e kw i t = Some (ig', devices', out)"
  shows "\<exists>fb. ig_chain ig' = fst (chain_execute (chain_select (ig_chain ig) (env_point_id e) (t div 1000)) bs (t div 1000) fb)"
proof -
  obtain devices1 fb where f: "ingress_feedback (ie_adapter env) devices i (t div 1000) = (devices1, fb)" by fastforce
  obtain c res where x: "chain_execute (chain_select (ig_chain ig) (env_point_id e) (t div 1000)) bs (t div 1000) fb = (c, res)" by fastforce
  have "ig_chain ig' = c"
    using assms f x
    by (cases res) (auto simp: ingress_judge_def Let_def bind_eq_Some_conv
        dest!: ingress_deny_effect audit_event_of_chain ingress_write_chain)
  with x show ?thesis by (metis fst_conv)
qed

text \<open>Each frame leaves the gateway as it is or lets it serve one request.\<close>

lemma process_gateway:
  assumes "process env ig devices payload t = Some (ig', devices', out)"
  shows "cc_gateway (ig_chain ig') = cc_gateway (ig_chain ig) \<or>
    (\<exists>buf now. cc_gateway (ig_chain ig') = fst (gw_authorize (cc_gateway (ig_chain ig)) buf now))"
  using assms
proof (cases rule: process_cases)
  case (judged bs kw e i name info)
  obtain fb where "ig_chain ig' = fst (chain_execute (chain_select (ig_chain ig) (env_point_id e) (t div 1000)) bs (t div 1000) fb)"
    using ingress_judge_chain [OF judged(7)] by blast
  then have "cc_gateway (ig_chain ig') = fst (gw_authorize (cc_gateway (ig_chain ig)) bs (t div 1000))"
    by (simp add: chain_select_def)
  then show ?thesis by blast
next
  case denied
  then show ?thesis by simp
qed

lemma remembered_process_all:
  assumes "process_all env ig devices frames = Some (ig', devices')" and "remembered (cc_gateway (ig_chain ig)) k n"
    and "n + length frames < gw_replay_cache_cap (cc_gateway (ig_chain ig))"
  shows "remembered (cc_gateway (ig_chain ig')) k (n + length frames)"
  using assms
proof (induction frames arbitrary: ig devices n)
  case (Cons f frames)
  obtain payload t where f: "f = (payload, t)" by fastforce
  obtain ig1 devices1 out where p: "process env ig devices payload t = Some (ig1, devices1, out)"
    and r: "process_all env ig1 devices1 frames = Some (ig', devices')"
    using Cons.prems(1) by (auto simp: f split: option.splits)
  have "remembered (cc_gateway (ig_chain ig1)) k (Suc n) \<and>
      gw_replay_cache_cap (cc_gateway (ig_chain ig1)) = gw_replay_cache_cap (cc_gateway (ig_chain ig))"
    using process_gateway [OF p] Cons.prems(2,3) remembered_authorize [OF Cons.prems(2)]
    by (auto intro: remembered_mono)
  then show ?case using Cons.IH [OF r, of "Suc n"] Cons.prems(3) by simp
qed simp


lemma ingress_feedback_inv: "bt_inv devices \<Longrightarrow> ingress_feedback ops devices i t = (devices1, fb) \<Longrightarrow> bt_inv devices1"
  by (auto simp: ingress_feedback_def Let_def bt_inv_insert split: option.splits prod.splits)

lemma ingress_write_inv:
  "bt_inv devices \<Longrightarrow> ingress_write env ig devices cmd kw ctx t = Some (ig', devices', out) \<Longrightarrow> bt_inv devices'"
  by (auto simp: ingress_write_def Let_def bind_eq_Some_conv set_adapter_def bt_inv_insert
      split: option.splits prod.splits sum.splits)

lemma process_inv:
  assumes "bt_inv devices" and "process env ig devices payload t = Some (ig', devices', out)"
  shows "bt_inv devices'"
  using assms(2)
proof (cases rule: process_cases)
  case (judged bs kw e i name info)
  obtain devices1 fb where f: "ingress_feedback (ie_adapter env) devices i (t div 1000) = (devices1, fb)" by fastforce
  obtain c res where x: "chain_execute (chain_select (ig_chain ig) (env_point_id e) (t div 1000)) bs (t div 1000) fb = (c, res)" by fastforce
  have "bt_inv devices1" using ingress_feedback_inv [OF assms(1) f] .
  then show ?thesis using ingress_judge_unwritten [OF judged(7) f x] ingress_write_inv by (cases res) auto
qed (simp add: assms(1))

lemma process_all_inv:
  "process_all env ig devices frames = Some (ig', devices') \<Longrightarrow> bt_inv devices \<Longrightarrow> bt_inv devices'"
  by (induction frames arbitrary: ig devices) (auto split: option.splits, blast intro: process_inv)

text \<open>The frame that was written carried an envelope its gateway accepted and recorded.\<close>

lemma written_remembered:
  assumes "ie_adapter env = pcs_ops clock" and "bt_inv devices"
    and "process env ig devices payload t = Some (ig', devices', out)" and "is_written out"
    and "0 < gw_replay_cache_cap (cc_gateway (ig_chain ig))"
  obtains bs e kw where "ingress_frame payload = Inr (bs, kw)" "env_decode bs = Inr e"
    "remembered (cc_gateway (ig_chain ig')) (env_command_id e) 0"
    "gw_replay_cache_cap (cc_gateway (ig_chain ig')) = gw_replay_cache_cap (cc_gateway (ig_chain ig))"
proof -
  obtain cmd k where c: "write_cleared (pcs_ops clock) ig devices payload t cmd k"
    using pcs.process_unwritten [OF assms(1-3)] assms(4) by blast
  show thesis
    using assms(3)
  proof (cases rule: process_cases)
    case (judged bs kw e i name info)
    obtain fb where "ig_chain ig' = fst (chain_execute (chain_select (ig_chain ig) (env_point_id e) (t div 1000)) bs (t div 1000) fb)"
      using ingress_judge_chain [OF judged(7)] by blast
    then have g: "cc_gateway (ig_chain ig') = fst (gw_authorize (cc_gateway (ig_chain ig)) bs (t div 1000))"
      by (simp add: chain_select_def)
    have "gw_accepts (cc_gateway (ig_chain ig)) e (t div 1000)"
      using c judged(1,2) by (auto simp: write_cleared_def chain_admits_def chain_select_def)
    then have "cc_gateway (ig_chain ig') = gw_record (cc_gateway (ig_chain ig)) (env_command_id e)"
      using g judged(2) by (simp add: gw_authorize_state)
    then show thesis using that [OF judged(1,2)] remembered_after_record [OF assms(5)] by simp
  next
    case denied
    then show thesis using assms(4) by simp
  qed
qed

text \<open>C10. A frame is written once: after a frame was written, a frame with the same signed envelope (the set point beside
  it may differ) is not written again while fewer other frames came in between than the replay cache holds: no register
  changes and the outcome is not an applied one.\<close>

theorem frame_written_once:
  assumes "ie_adapter env = pcs_ops clock" and "bt_inv devices"
    and "process env ig devices payload t = Some (ig1, devices1, out)" and "is_written out"
    and "process_all env ig1 devices1 frames = Some (ig2, devices2)"
    and "length frames < gw_replay_cache_cap (cc_gateway (ig_chain ig))"
    and "ingress_frame payload = Inr (bs, kw)" and "ingress_frame payload' = Inr (bs, kw')"
    and "process env ig2 devices2 payload' t' = Some (ig3, devices3, out3)"
  shows "written_at pcs_registers devices3 = written_at pcs_registers devices2 \<and> \<not> is_written out3"
proof (rule pcs.process_unwritten [OF assms(1) _ assms(9)])
  show "bt_inv devices2" using process_all_inv [OF assms(5) process_inv [OF assms(2,3)]] .
  fix cmd k
  have "0 < gw_replay_cache_cap (cc_gateway (ig_chain ig))" using assms(6) by simp
  then obtain e where e: "env_decode bs = Inr e" "remembered (cc_gateway (ig_chain ig1)) (env_command_id e) 0"
    "gw_replay_cache_cap (cc_gateway (ig_chain ig1)) = gw_replay_cache_cap (cc_gateway (ig_chain ig))"
    using written_remembered [OF assms(1-4)] assms(7) by (metis Inr_inject prod.inject)
  have "remembered (cc_gateway (ig_chain ig2)) (env_command_id e) (length frames)"
    using remembered_process_all [OF assms(5) e(2)] e(3) assms(6) by simp
  from remembered_denied [OF this e(1) refl, of "t' div 1000"]
  have "\<not> gw_accepts (cc_gateway (ig_chain ig2)) e (t' div 1000) \<or> u16_try_from (env_device_id e) = None"
    using gw_authorize_Inr_iff [of "cc_gateway (ig_chain ig2)" bs "t' div 1000"] e(1) by fastforce
  then show "\<not> write_cleared (pcs_ops clock) ig2 devices2 payload' t' cmd k"
    using assms(8) e(1) by (auto simp: write_cleared_def chain_admits_def chain_select_def)
qed


lemma plant_cap: "gw_replay_cache_cap (cc_gateway (ig_chain plant_ingress)) = 64"
  using demo_chain_fields(2) by (simp flip: plant_chain add: chain_select_def)

theorem frame_written_once_witness:
  "\<exists>ig1 devices1 ig2 devices2 out. process plant_env plant_ingress plant_devices (plant_payload f64_100) 100000 = Some (ig1, devices1, out) \<and>
     (\<exists>out2. process plant_env ig1 devices1 (plant_payload f64_500) 101000 = Some (ig2, devices2, out2) \<and> \<not> is_written out2)"
proof -
  obtain ig1 devices1 out where p: "process plant_env plant_ingress plant_devices (plant_payload f64_100) 100000 = Some (ig1, devices1, out)"
    by (rule plant_processes)
  obtain ig2 devices2 out2 where p2: "process plant_env ig1 devices1 (plant_payload f64_500) 101000 = Some (ig2, devices2, out2)"
    by (rule plant_processes)
  have inv: "bt_inv plant_devices" by (simp add: plant_devices_def bt_inv_def)
  have e: "ie_adapter plant_env = pcs_ops (\<lambda>_. 100000)" by (simp add: plant_env_def)
  have w: "is_written out"
    using pcs.process_written [OF e inv p plant_cleared [of f64_100]] plant_route plant_accepts [OF power_finite] by auto
  have "written_at pcs_registers devices2 = written_at pcs_registers devices1 \<and> \<not> is_written out2"
    by (rule frame_written_once [OF e inv p w _ _ plant_frame plant_frame p2, of "[]"]) (simp_all add: plant_cap)
  with p p2 show ?thesis by (intro exI conjI) auto
qed

end
