(* ===== verification/End_To_End.thy ===== *)
theory End_To_End
  imports Dispatch_Refusal Device_Safety
begin

text \<open>
  The dispatch engine and the device agent together: the engine's delivery channel is a call of the device agent's
  handler. What the engine counts as committed, the device has.
\<close>

section \<open>The channel\<close>

text \<open>A channel to a device agent: when it returns a response, the agent handled the payload, at some time, and answered
  this; when it returns an error, nothing is assumed.\<close>

definition to_agent ::
  "('i, ('d, 'm, 'a) device_agent, 'b) dispatch_env \<Rightarrow> ('d, 'm, 'a) ingress_env \<Rightarrow> bool" where
  "to_agent env ienv \<longleftrightarrow>
     (\<forall>ag ep payload timeout ag' resp. en_deliver env ag ep payload timeout = (ag', Inr resp) \<longrightarrow>
        (\<exists>t. agent_handle ienv ag payload t = Some (ag', resp)))"

lemma applied_frame:
  assumes "answer (Inr (of_encode (outcome_to_frame out))) = Some OcApplied"
  shows "is_written out"
  using assms by (cases out) (auto simp: answer_def of_encode_def of_decode_def of_outcome_def oc_from_code_def split: if_splits)

lemma core_frame:
  assumes "engine_wf e"
  shows "ingress_frame (core_payload e cmd (core_corr e cmd) started (core_buf e cmd started)) =
    Inr (core_buf e cmd started, co_power_kw cmd)"
proof -
  obtain e1 cid corr sq where i: "core_identify e (co_identity cmd) = (e1, cid, corr, sq)" by (metis prod_cases4)
  note len = core_identify_lengths [OF i]
  have "eb_wf (core_builder e cmd cid corr sq (started div 1000))" using assms len
    by (simp add: engine_wf_def core_builder_def builder_defs eb_wf_def)
  then have "length (core_buf e cmd started) = ENVELOPE_LEN"
    by (simp add: core_buf_def i length_env_encode env_wf_build)
  moreover have "core_corr e cmd = corr" by (simp add: core_corr_def i)
  ultimately show ?thesis unfolding core_payload_def using assms len by (intro ce_frame) (simp_all add: engine_wf_def)
qed

section \<open>Commit\<close>

text \<open>C4. Every counted commit reached the device: when a dispatch over a channel to the device agent raises the count of committed
  commands, then exactly one converter was written, exactly once, and its set point is the power of the plan or protocol
  write that was dispatched.\<close>

theorem counted_commit_reaches_device:
  assumes "to_agent env ienv" and "ie_adapter ienv = pcs_ops clock" and "bt_inv (ag_devices (de_delivery e))" and "engine_wf e"
    and "dispatch env e req telemetry actor deadline_ms = Some (e', r)" and "de_committed_count e' \<noteq> de_committed_count e"
  shows "\<exists>cmd name i p n. admitted e req telemetry (en_now env (de_ticks e)) = Some cmd \<and>
    written_at pcs_registers (ag_devices (de_delivery e)) name = Some (i, p, n) \<and>
    written_at pcs_registers (ag_devices (de_delivery e')) =
      (written_at pcs_registers (ag_devices (de_delivery e)))(name \<mapsto> (i, co_power_kw cmd, n + 1))"
  using assms(5)
proof (cases rule: dispatch_cases)
  case (delivered cmd payload)
  let ?e = "request_engine e req" and ?t = "en_now env (de_ticks e)" and ?ag = "de_delivery e"
  have wf: "engine_wf ?e" using assms(4) by (simp add: engine_wf_def request_engine_def note_sequence_def split: request.split)
  have pl: "payload = core_payload ?e cmd (core_corr ?e cmd) ?t (core_buf ?e cmd ?t)"
    using delivered(1,2) by (simp add: cleared_payload_def Let_def split: if_splits)
  obtain ag' response where d: "en_deliver env ?ag (de_target_endpoint e) payload (delivery_timeout deadline_ms) = (ag', response)"
    by fastforce
  then have ag': "de_delivery e' = ag'" and cnt: "de_committed_count e' = count_settled response (de_committed_count e)"
    using delivered(4) by (auto simp: delivered_def request_engine_frame)
  then have ans: "answer response = Some OcApplied" using assms(6) by (simp add: count_settled_def split: if_splits)
  then obtain resp where r: "response = Inr resp" by (cases response) (auto simp: answer_def)
  obtain t where h: "agent_handle ienv ?ag payload t = Some (ag', resp)"
    using assms(1) d r unfolding to_agent_def by blast
  obtain ig ig' devices' out where ig: "ag_ingress ?ag = Some ig"
    and p: "process ienv ig (ag_devices ?ag) payload t = Some (ig', devices', out)"
    and a: "ag' = ?ag\<lparr>ag_ingress := Some ig', ag_devices := devices'\<rparr>" "resp = of_encode (outcome_to_frame out)"
  proof (cases "ag_ingress ?ag")
    case None
    then have "is_written (IoDenied DcPolicy IrKeyMissing)" using h ans r by (intro applied_frame) (simp add: agent_handle_def)
    then show thesis by simp
  next
    case (Some ig)
    then show thesis using h that by (auto simp: agent_handle_def bind_eq_Some_conv)
  qed
  have w: "is_written out" using applied_frame ans r a(2) by simp
  then obtain c kw where cl: "write_cleared (pcs_ops clock) ig (ag_devices ?ag) payload t c kw"
    using pcs.process_unwritten [OF assms(2,3) p] by blast
  have kw: "kw = co_power_kw cmd" using cl core_frame [OF wf, of cmd ?t] by (auto simp: write_cleared_def pl)
  from pcs.process_written [OF assms(2,3) p cl] w obtain name info where
    f: "find_by_device_id (ag_devices ?ag) (ac_device_id c) = Some (name, info)"
    and u: "written_at pcs_registers devices' =
      (written_at pcs_registers (ag_devices ?ag))(name \<mapsto> pcs_set (pcs_registers (di_adapter info)) kw)" by auto
  obtain i q n where regs: "pcs_registers (di_adapter info) = (i, q, n)" by (metis prod_cases3)
  have "written_at pcs_registers (ag_devices ?ag) name = Some (i, q, n)"
    using find_by_device_id_Some(1) [OF assms(3) f] regs by (simp add: written_at_def)
  moreover have "written_at pcs_registers (ag_devices (de_delivery e')) =
      (written_at pcs_registers (ag_devices ?ag))(name \<mapsto> (i, co_power_kw cmd, n + 1))"
    using u regs kw by (simp add: ag' a(1) pcs_set_def)
  ultimately show ?thesis using delivered(1) by blast
qed (use assms(6) in \<open>simp_all add: turned_away_def withheld_def request_engine_frame\<close>)

section \<open>A closed loop\<close>

text \<open>The engine of the site and the converter of the plant: one deployment, with the handler called directly.\<close>

definition loop_deliver ::
  "(virtual_pcs, unit, unit) device_agent \<Rightarrow> bytes \<Rightarrow> bytes \<Rightarrow> u64 \<Rightarrow> (virtual_pcs, unit, unit) device_agent \<times> (channel_error + bytes)" where
  "loop_deliver ag target payload timeout =
     (case agent_handle plant_env ag payload 100000 of
        None \<Rightarrow> (ag, Inl ChTimeout)
      | Some (ag', resp) \<Rightarrow> (ag', Inr resp))"

definition loop_agent :: "(virtual_pcs, unit, unit) device_agent" where
  "loop_agent = \<lparr>ag_ingress = Some plant_ingress, ag_devices = plant_devices\<rparr>"

lemma loop_to_agent: "to_agent (site_env_on loop_deliver) plant_env"
  by (auto simp: to_agent_def site_env_def loop_deliver_def split: option.splits)

lemma loop_verifies: "rp_verify (ig_readback plant_ingress) f64_100 f64_100"
  unfolding plant_ingress_fields by (rule tolerance_accepts_itself [OF power_100(3)])

lemma loop_applies:
  assumes "admitted (site_engine_on ch (dg_new 10 k p)) site_write site_telemetry 100000 = Some cmd"
    and "ingress_frame payload = Inr (core_buf (request_engine (site_engine_on ch (dg_new 10 k p)) site_write) cmd 100000, f64_100)"
  obtains ag' resp where "loop_deliver loop_agent target payload timeout = (ag', Inr resp)" "answer (Inr resp) = Some OcApplied"
proof -
  obtain b where b: "core_buf (request_engine (site_engine_on ch (dg_new 10 k p)) site_write) cmd 100000 = env_encode (eb_build b demo_key)"
    "request_fits demo_profile 42 b 100" "eb_command b = Single SOn" by (rule site_envelope [OF assms(1)])
  let ?c = "authorized_of (eb_build b demo_key) 7"
  have e: "ie_adapter plant_env = pcs_ops (\<lambda>_. 100000)" by (simp add: plant_env_def)
  have inv: "bt_inv plant_devices" by (simp add: plant_devices_def bt_inv_def)
  note f = assms(2) [unfolded b(1)]
  obtain ig' devices' out where p: "process plant_env plant_ingress plant_devices payload 100000 = Some (ig', devices', out)"
    by (rule plant_processes)
  have pt: "ac_point_id ?c = POINT_POWER" "ac_device_id ?c = 7"
    using b(2) by (simp_all add: authorized_of_def request_fits_def demo_profile_def ai_pcc_single_def POINT_POWER_def)
  have "pcs_accepts (pcs_registers (di_adapter info)) ?c f64_100" if "find_by_device_id plant_devices 7 = Some (name, info)" for name info
    using that pt power_100(3)
    by (auto simp: find_by_device_id_def plant_devices_def plant_info_def pcs_accepts_def pcs_registers_def pcs_new_def split: if_splits)
  then have "is_written out" using pcs.process_written [OF e inv p plant_clears [OF b(2,3) f]] pt(2) by auto
  then have "outcome_to_frame out = \<lparr>of_code = 0, of_class = 0\<rparr>" using pcs_process_applied [OF e p _ f loop_verifies] by auto
  then have "answer (Inr (of_encode (outcome_to_frame out))) = Some OcApplied"
    by (simp add: answer_def of_encode_def of_decode_def of_outcome_def oc_from_code_def)
  moreover have "loop_deliver loop_agent target payload timeout =
      (loop_agent\<lparr>ag_ingress := Some ig', ag_devices := devices'\<rparr>, Inr (of_encode (outcome_to_frame out)))"
    using p by (simp add: loop_deliver_def agent_handle_def loop_agent_def)
  ultimately show thesis using that by blast
qed

lemma loop_committed:
  assumes "dispatch (site_env_on loop_deliver) (site_engine_on loop_agent (dg_new 10 k p)) site_write site_telemetry site_actor 0 = Some (e', r)"
  shows "de_committed_count e' = 1"
proof -
  let ?e = "site_engine_on loop_agent (dg_new 10 k p)"
  have t: "en_now (site_env_on loop_deliver) n = 100000" for n by (simp add: site_env_def)
  obtain payload where pl: "cleared_payload (site_env_on loop_deliver) ?e site_write site_telemetry site_actor = Some payload"
    by (rule site_dispatch)
  show ?thesis
    using assms
  proof (cases rule: dispatch_cases)
    case (delivered cmd payload')
    have a: "admitted ?e site_write site_telemetry 100000 = Some cmd" using delivered(1) t by simp
    obtain ch response where d: "loop_deliver loop_agent (de_target_endpoint ?e) payload' (delivery_timeout 0) = (ch, response)" by fastforce
    have wf: "engine_wf (request_engine ?e site_write)"
      by (simp add: engine_wf_def request_engine_def site_write_def note_sequence_def site_engine_def demo_profile_def ai_pcc_single_def)
    have "co_power_kw cmd = f64_100" using a by (rule site_envelope)
    then have "ingress_frame payload' = Inr (core_buf (request_engine ?e site_write) cmd 100000, f64_100)"
      using core_frame [OF wf, of cmd 100000] delivered(1,2) t
      by (simp add: cleared_payload_def Let_def split: if_splits)
    from loop_applies [OF a this] have "answer response = Some OcApplied" by (metis d prod.inject)
    then show ?thesis using delivered(4) d
      by (auto simp: delivered_def site_env_def request_engine_frame count_settled_def site_engine_def)
  qed (use pl in simp_all)
qed

theorem counted_commit_reaches_device_witness:
  "\<exists>e' r. dispatch (site_env_on loop_deliver) (site_engine_on loop_agent (dg_new 10 f64_100 0)) site_write site_telemetry site_actor 0 =
      Some (e', r) \<and> written_at pcs_registers (ag_devices (de_delivery e')) (str ''pcs'') = Some (7, f64_100, 1)"
proof -
  let ?e = "site_engine_on loop_agent (dg_new 10 f64_100 0)"
  obtain e' r where d: "dispatch (site_env_on loop_deliver) ?e site_write site_telemetry site_actor 0 = Some (e', r)"
    by (rule site_dispatch)
  have e: "ie_adapter plant_env = pcs_ops (\<lambda>_. 100000)" by (simp add: plant_env_def)
  have ag: "ag_devices (de_delivery ?e) = plant_devices" by (simp add: site_engine_def loop_agent_def)
  have wf: "engine_wf ?e" by (simp add: engine_wf_def site_engine_def demo_profile_def ai_pcc_single_def)
  have inv: "bt_inv (ag_devices (de_delivery ?e))" unfolding ag by (simp add: plant_devices_def bt_inv_def)
  have c: "de_committed_count e' \<noteq> de_committed_count ?e" using loop_committed [OF d] by (simp add: site_engine_def)
  from counted_commit_reaches_device [OF loop_to_agent e inv wf d c]
  obtain cmd name i q n where a: "admitted ?e site_write site_telemetry (en_now (site_env_on loop_deliver) (de_ticks ?e)) = Some cmd"
    and w: "written_at pcs_registers plant_devices name = Some (i, q, n)"
    "written_at pcs_registers (ag_devices (de_delivery e')) =
      (written_at pcs_registers plant_devices)(name \<mapsto> (i, co_power_kw cmd, n + 1))"
    unfolding ag by blast
  have "co_power_kw cmd = f64_100" using a [unfolded site_env_def, simplified] by (rule site_envelope)
  moreover have "name = str ''pcs''" "(i, q, n) = (7, f64_0, 0)"
    using w(1) by (auto simp: written_at_def plant_devices_def plant_info_def pcs_registers_def pcs_new_def split: if_splits)
  ultimately show ?thesis using d w(2) by auto
qed

end
