(* ===== verification/Modbus_Frame.thy ===== *)
theory Modbus_Frame
  imports EnerOS_Prelude
begin

text \<open>
  The frame layer of Modbus RTU (\<open>modbus-rtu/src/crc.rs\<close>, \<open>frame.rs\<close>, \<open>request.rs\<close>, \<open>framer.rs\<close>,
  \<open>transport.rs\<close>): the checksum, frames, requests and responses, the framer that cuts a byte stream at
  silences of 3.5 characters, and the receive loop over a serial line.

  The serial line is a record of operations on its state; its clock is part of that state. A panic
  (an index out of bounds) and a loop that never returns are the result \<open>None\<close>.
\<close>

section \<open>Checksum\<close>

definition crc16_bit :: "u16 \<Rightarrow> u16" where
  "crc16_bit crc = (if crc AND 1 \<noteq> 0 then drop_bit 1 crc XOR 0xA001 else drop_bit 1 crc)"

definition crc16_byte :: "u16 \<Rightarrow> u8 \<Rightarrow> u16" where
  "crc16_byte crc byte = (crc16_bit ^^ 8) (crc XOR ucast byte)"

definition crc16_modbus :: "bytes \<Rightarrow> u16" where
  "crc16_modbus data = foldl crc16_byte 0xFFFF data"

section \<open>Frames\<close>

datatype driver_error =
  DrAlreadyRegistered | DrNotFound | DrPermissionDenied | DrInvalidState | DrInitFailed | DrStartFailed | DrStopFailed
  | DrDeinitFailed | DrNotRegistered | DrTimeout

datatype exception_code =
  ExIllegalFunction | ExIllegalDataAddress | ExIllegalDataValue | ExSlaveDeviceFailure | ExAcknowledge | ExSlaveDeviceBusy

datatype modbus_error =
  MeFrameTooShort | MeCrcMismatch | MeAddrMismatch | MeUnexpectedResponse | MeException exception_code | MeDriver driver_error
  | MeMaxRetryExceeded | MeInvalidSlaveAddr | MeInvalidQuantity | MeInvalidRegisterAddr | MeUnsupportedFunction
  | MeFuncCodeMismatch u8 u8

record modbus_frame =
  mf_slave_addr :: u8
  mf_func_code :: u8
  mf_data :: bytes
  mf_crc :: u16

definition mf_new :: "u8 \<Rightarrow> u8 \<Rightarrow> bytes \<Rightarrow> modbus_frame" where
  "mf_new slave_addr func_code data =
     \<lparr>mf_slave_addr = slave_addr, mf_func_code = func_code, mf_data = data,
      mf_crc = crc16_modbus (slave_addr # func_code # data)\<rparr>"

definition mf_encode :: "modbus_frame \<Rightarrow> bytes" where
  "mf_encode f = mf_slave_addr f # mf_func_code f # mf_data f @ le_bytes 2 (mf_crc f)"

definition mf_decode :: "bytes \<Rightarrow> modbus_error + modbus_frame" where
  "mf_decode buf =
     (if length buf < 4 then Inl MeFrameTooShort
      else let n = length buf;
               crc_recv = from_le [buf ! (n - 2), buf ! (n - 1)];
               crc_calc = crc16_modbus (take (n - 2) buf)
           in if crc_recv \<noteq> crc_calc then Inl MeCrcMismatch
              else Inr \<lparr>mf_slave_addr = buf ! 0, mf_func_code = buf ! 1, mf_data = slice 2 (n - 2) buf, mf_crc = crc_recv\<rparr>)"

section \<open>Requests and responses\<close>

datatype function_code =
  FcReadCoils | FcReadDiscreteInputs | FcReadHoldingRegisters | FcReadInputRegisters | FcWriteSingleCoil
  | FcWriteSingleRegister | FcWriteMultipleCoils | FcWriteMultipleRegisters

fun fc_byte :: "function_code \<Rightarrow> u8" where
  "fc_byte FcReadCoils = 1" | "fc_byte FcReadDiscreteInputs = 2" | "fc_byte FcReadHoldingRegisters = 3"
| "fc_byte FcReadInputRegisters = 4" | "fc_byte FcWriteSingleCoil = 5" | "fc_byte FcWriteSingleRegister = 6"
| "fc_byte FcWriteMultipleCoils = 15" | "fc_byte FcWriteMultipleRegisters = 16"

definition ec_from_u8 :: "u8 \<Rightarrow> exception_code option" where
  "ec_from_u8 code =
     (if code = 1 then Some ExIllegalFunction else if code = 2 then Some ExIllegalDataAddress
      else if code = 3 then Some ExIllegalDataValue else if code = 4 then Some ExSlaveDeviceFailure
      else if code = 5 then Some ExAcknowledge else if code = 6 then Some ExSlaveDeviceBusy else None)"

datatype modbus_request =
  RqReadCoils u8 u16 u16
  | RqReadDiscreteInputs u8 u16 u16
  | RqReadHoldingRegisters u8 u16 u16
  | RqReadInputRegisters u8 u16 u16
  | RqWriteSingleCoil u8 u16 bool
  | RqWriteSingleRegister u8 u16 u16
  | RqWriteMultipleCoils u8 u16 "bool list"
  | RqWriteMultipleRegisters u8 u16 "u16 list"

fun rq_slave_addr :: "modbus_request \<Rightarrow> u8" where
  "rq_slave_addr (RqReadCoils s _ _) = s"
| "rq_slave_addr (RqReadDiscreteInputs s _ _) = s"
| "rq_slave_addr (RqReadHoldingRegisters s _ _) = s"
| "rq_slave_addr (RqReadInputRegisters s _ _) = s"
| "rq_slave_addr (RqWriteSingleCoil s _ _) = s"
| "rq_slave_addr (RqWriteSingleRegister s _ _) = s"
| "rq_slave_addr (RqWriteMultipleCoils s _ _) = s"
| "rq_slave_addr (RqWriteMultipleRegisters s _ _) = s"

fun rq_func_code :: "modbus_request \<Rightarrow> function_code" where
  "rq_func_code (RqReadCoils _ _ _) = FcReadCoils"
| "rq_func_code (RqReadDiscreteInputs _ _ _) = FcReadDiscreteInputs"
| "rq_func_code (RqReadHoldingRegisters _ _ _) = FcReadHoldingRegisters"
| "rq_func_code (RqReadInputRegisters _ _ _) = FcReadInputRegisters"
| "rq_func_code (RqWriteSingleCoil _ _ _) = FcWriteSingleCoil"
| "rq_func_code (RqWriteSingleRegister _ _ _) = FcWriteSingleRegister"
| "rq_func_code (RqWriteMultipleCoils _ _ _) = FcWriteMultipleCoils"
| "rq_func_code (RqWriteMultipleRegisters _ _ _) = FcWriteMultipleRegisters"

text \<open>Coil \<open>i\<close> is bit \<open>i mod 8\<close> of byte \<open>i div 8\<close>.\<close>

definition coil_byte :: "bool list \<Rightarrow> nat \<Rightarrow> u8" where
  "coil_byte vals byte_idx =
     foldl (\<lambda>byte bt. let idx = byte_idx * 8 + bt in if idx < length vals \<and> vals ! idx then byte OR push_bit bt 1 else byte)
       0 [0..<8]"

fun rq_encode_data :: "modbus_request \<Rightarrow> bytes" where
  "rq_encode_data (RqReadCoils _ start quantity) = be_bytes 2 start @ be_bytes 2 quantity"
| "rq_encode_data (RqReadDiscreteInputs _ start quantity) = be_bytes 2 start @ be_bytes 2 quantity"
| "rq_encode_data (RqReadHoldingRegisters _ start quantity) = be_bytes 2 start @ be_bytes 2 quantity"
| "rq_encode_data (RqReadInputRegisters _ start quantity) = be_bytes 2 start @ be_bytes 2 quantity"
| "rq_encode_data (RqWriteSingleCoil _ coil_addr v) = be_bytes 2 coil_addr @ (if v then [0xFF, 0] else [0, 0])"
| "rq_encode_data (RqWriteSingleRegister _ reg_addr v) = be_bytes 2 reg_addr @ be_bytes 2 v"
| "rq_encode_data (RqWriteMultipleCoils _ start vals) =
     (let quantity = length vals;
          byte_count = (quantity + 7) div 8
      in be_bytes 2 start @ be_bytes 2 (of_nat quantity :: u16) @ [of_nat byte_count] @ map (coil_byte vals) [0..<byte_count])"
| "rq_encode_data (RqWriteMultipleRegisters _ start vals) =
     be_bytes 2 start @ be_bytes 2 (of_nat (length vals) :: u16) @ [of_nat (length vals * 2)] @ concat (map (be_bytes 2) vals)"

datatype modbus_response =
  RsReadCoils "bool list"
  | RsReadDiscreteInputs "bool list"
  | RsReadHoldingRegisters "u16 list"
  | RsReadInputRegisters "u16 list"
  | RsWriteSingleCoil u16 bool
  | RsWriteSingleRegister u16 u16
  | RsWriteMultipleCoils u16 u16
  | RsWriteMultipleRegisters u16 u16
  | RsError exception_code
  | RsBroadcast

text \<open>The byte of every requested coil is indexed without a look at the byte count: \<open>None\<close> is the panic.\<close>

definition parse_bit_data :: "bytes \<Rightarrow> u16 \<Rightarrow> (unit + bool list) option" where
  "parse_bit_data data quantity =
     (if data = [] then Some (Inl ())
      else if length data < 1 + unat (data ! 0) then Some (Inl ())
      else if \<exists>i \<in> set [0..<unat quantity]. length data \<le> 1 + i div 8 then None
      else Some (Inr (map (\<lambda>i. data ! (1 + i div 8) AND push_bit (i mod 8) 1 \<noteq> 0) [0..<unat quantity])))"

section \<open>Framer\<close>

definition DEFAULT_BAUD :: u32 where "DEFAULT_BAUD = 9600"

definition char_time_35_ns :: "u32 \<Rightarrow> u64" where
  "char_time_35_ns baud = (if baud = 0 then - 1 else 38500000000 div ucast baud + 1)"

record rtu_framer =
  fr_buf :: bytes
  fr_len :: nat
  fr_baud :: u32
  fr_last_byte_ns :: u64
  fr_has_data :: bool
  fr_frames_ok :: u64
  fr_frames_overflow :: u64

definition fr_new :: "u32 \<Rightarrow> rtu_framer" where
  "fr_new baud =
     \<lparr>fr_buf = zeros 256, fr_len = 0, fr_baud = baud, fr_last_byte_ns = 0, fr_has_data = False, fr_frames_ok = 0,
      fr_frames_overflow = 0\<rparr>"

definition feed_byte :: "rtu_framer \<Rightarrow> u8 \<Rightarrow> u64 \<Rightarrow> rtu_framer \<times> (unit + bytes option)" where
  "feed_byte f byte now_ns =
     (let gap = (if fr_has_data f then saturating_sub now_ns (fr_last_byte_ns f) else 0);
          f = f\<lparr>fr_last_byte_ns := now_ns\<rparr>
      in if fr_has_data f \<and> char_time_35_ns (fr_baud f) \<le> gap then
           let frame_len = fr_len f;
               f = f\<lparr>fr_buf := (fr_buf f)[0 := byte], fr_len := 1, fr_has_data := True, fr_frames_ok := fr_frames_ok f + 1\<rparr>
           in (f, Inr (Some (take frame_len (fr_buf f))))
         else if length (fr_buf f) \<le> fr_len f then
           (f\<lparr>fr_frames_overflow := fr_frames_overflow f + 1, fr_len := 1, fr_buf := (fr_buf f)[0 := byte], fr_has_data := True\<rparr>, Inl ())
         else (f\<lparr>fr_buf := (fr_buf f)[fr_len f := byte], fr_len := fr_len f + 1, fr_has_data := True\<rparr>, Inr None))"

definition fr_flush :: "rtu_framer \<Rightarrow> rtu_framer \<times> bytes option" where
  "fr_flush f =
     (if \<not> fr_has_data f then (f, None)
      else (f\<lparr>fr_len := 0, fr_has_data := False, fr_frames_ok := fr_frames_ok f + 1\<rparr>, Some (take (fr_len f) (fr_buf f))))"

definition fr_stats :: "rtu_framer \<Rightarrow> u64 \<times> u64" where
  "fr_stats f = (fr_frames_ok f, fr_frames_overflow f)"

definition fr_reset :: "rtu_framer \<Rightarrow> rtu_framer" where
  "fr_reset f = f\<lparr>fr_len := 0, fr_has_data := False, fr_frames_ok := 0, fr_frames_overflow := 0\<rparr>"

section \<open>Serial transport\<close>

record 'u uart_ops =
  ua_read_byte :: "'u \<Rightarrow> 'u \<times> u8 option"
  ua_write_bytes :: "'u \<Rightarrow> bytes \<Rightarrow> 'u \<times> (driver_error + nat)"
  ua_wait_tx_done :: "'u \<Rightarrow> u32 \<Rightarrow> 'u \<times> (driver_error + unit)"
  ua_now_ns :: "'u \<Rightarrow> 'u \<times> u64"

record 'u rs485_transport =
  rt_uart :: 'u
  rt_framer :: rtu_framer

definition RX_MAX :: nat where "RX_MAX = 256"

definition rs485_new :: "'u \<Rightarrow> u32 \<Rightarrow> 'u rs485_transport" where
  "rs485_new uart baud = \<lparr>rt_uart = uart, rt_framer = fr_new baud\<rparr>"

definition rs485_send :: "'u uart_ops \<Rightarrow> 'u rs485_transport \<Rightarrow> bytes \<Rightarrow> 'u rs485_transport \<times> (driver_error + unit)" where
  "rs485_send ops t data =
     (case ua_write_bytes ops (rt_uart t) data of
        (u, Inl e) \<Rightarrow> (t\<lparr>rt_uart := u\<rparr>, Inl e)
      | (u, Inr written) \<Rightarrow>
        if written \<noteq> length data then (t\<lparr>rt_uart := u\<rparr>, Inl DrInvalidState)
        else case ua_wait_tx_done ops u 1000 of (u, r) \<Rightarrow> (t\<lparr>rt_uart := u\<rparr>, r))"

partial_function (option) recv_loop ::
  "'u uart_ops \<Rightarrow> 'u \<Rightarrow> rtu_framer \<Rightarrow> u64 \<Rightarrow> ('u \<times> rtu_framer \<times> (driver_error + bytes)) option" where
  "recv_loop ops u f deadline =
     (case ua_read_byte ops u of
        (u, Some byte) \<Rightarrow>
          (case ua_now_ns ops u of (u, now) \<Rightarrow>
             (case feed_byte f byte now of
                (f, Inr (Some frame)) \<Rightarrow>
                  if length frame \<le> RX_MAX then Some (u, f, Inr frame) else recv_loop ops u f deadline
              | (f, Inr None) \<Rightarrow> recv_loop ops u f deadline
              | (f, Inl _) \<Rightarrow> recv_loop ops u f deadline))
      | (u, None) \<Rightarrow>
          (case ua_now_ns ops u of (u, now) \<Rightarrow>
             if deadline \<le> now then
               (case fr_flush f of
                  (f, Some frame) \<Rightarrow> Some (u, f, Inr frame)
                | (f, None) \<Rightarrow> Some (u, f, Inl DrTimeout))
             else recv_loop ops u f deadline))"

definition rs485_recv ::
  "'u uart_ops \<Rightarrow> 'u rs485_transport \<Rightarrow> u32 \<Rightarrow> ('u rs485_transport \<times> (driver_error + bytes)) option" where
  "rs485_recv ops t timeout_ms =
     (case ua_now_ns ops (rt_uart t) of (u, now) \<Rightarrow>
        map_option (\<lambda>(u, f, r). (\<lparr>rt_uart = u, rt_framer = f\<rparr>, r))
          (recv_loop ops u (rt_framer t) (saturating_add now (ucast timeout_ms * 1000000))))"

end
