(* ===== verification/Float32.thy ===== *)
theory Float32
  imports Float64
begin

text \<open>
  Binary32 arithmetic on bit patterns, in the same way as binary64: a finite value is an integer number of units of
  \<open>2\<^sup>-\<^sup>1\<^sup>4\<^sup>9\<close>, results are rounded once to the nearest value, ties to even. Then the conversions between the two formats and
  the casts from binary64 to integers, which truncate, saturate and take NaN to zero.
\<close>

type_synonym f32 = "32 word"

abbreviation (input) f32_nan :: f32 where "f32_nan \<equiv> 0x7FC00000"

definition f32_is_nan :: "f32 \<Rightarrow> bool" where
  "f32_is_nan x = (0x7F800000 < take_bit 31 x)"

definition f32_is_infinite :: "f32 \<Rightarrow> bool" where
  "f32_is_infinite x = (take_bit 31 x = 0x7F800000)"

definition f32_ex :: "f32 \<Rightarrow> nat" where
  "f32_ex x = unat (take_bit 31 x) div 2 ^ 23"

definition f32_frac :: "f32 \<Rightarrow> nat" where
  "f32_frac x = unat (take_bit 31 x) mod 2 ^ 23"

definition f32_units :: "f32 \<Rightarrow> nat" where
  "f32_units x = (if f32_ex x = 0 then f32_frac x else (2 ^ 23 + f32_frac x) * 2 ^ (f32_ex x - 1))"

definition f32_int :: "f32 \<Rightarrow> int" where
  "f32_int x = (if bit x 31 then - int (f32_units x) else int (f32_units x))"

definition round_frac32 :: "nat \<Rightarrow> nat \<Rightarrow> nat" where
  "round_frac32 a b =
     (let sh = bit_len (a div b) - 24;
          d = b * 2 ^ sh;
          q = a div d;
          r = a mod d;
          q = (if d < 2 * r \<or> d = 2 * r \<and> odd q then Suc q else q)
      in min (sh * 2 ^ 23 + q) 0x7F800000)"

definition f32_mk :: "bool \<Rightarrow> nat \<Rightarrow> f32" where
  "f32_mk neg mag = (if neg then 0x80000000 + of_nat mag else of_nat mag)"

definition f32_add :: "f32 \<Rightarrow> f32 \<Rightarrow> f32" where
  "f32_add x y =
     (if f32_is_nan x \<or> f32_is_nan y then f32_nan
      else if f32_is_infinite x then (if f32_is_infinite y \<and> x \<noteq> y then f32_nan else x)
      else if f32_is_infinite y then y
      else let s = f32_int x + f32_int y
           in if s = 0 then (if bit x 31 \<and> bit y 31 then 0x80000000 else 0)
              else f32_mk (s < 0) (round_frac32 (nat \<bar>s\<bar>) 1))"

definition f32_mul :: "f32 \<Rightarrow> f32 \<Rightarrow> f32" where
  "f32_mul x y =
     (let neg = (bit x 31 \<noteq> bit y 31)
      in if f32_is_nan x \<or> f32_is_nan y then f32_nan
         else if f32_is_infinite x \<or> f32_is_infinite y
              then (if take_bit 31 x = 0 \<or> take_bit 31 y = 0 then f32_nan else f32_mk neg 0x7F800000)
         else f32_mk neg (round_frac32 (f32_units x * f32_units y) (2 ^ 149)))"

text \<open>The conversions: a unit of binary32 is \<open>2\<^sup>9\<^sup>2\<^sup>5\<close> units of binary64.\<close>

definition f32_of_f64 :: "f64 \<Rightarrow> f32" where
  "f32_of_f64 x =
     (if f64_is_nan x then f32_nan
      else if f64_is_infinite x then f32_mk (bit x 63) 0x7F800000
      else f32_mk (bit x 63) (round_frac32 (f64_units x) (2 ^ 925)))"

definition f64_of_f32 :: "f32 \<Rightarrow> f64" where
  "f64_of_f32 x =
     (if f32_is_nan x then f64_nan
      else if f32_is_infinite x then f64_mk (bit x 31) 0x7FF0000000000000
      else f64_mk (bit x 31) (round_frac (f32_units x * 2 ^ 925) 1))"

definition f64_trunc :: "int \<Rightarrow> int \<Rightarrow> f64 \<Rightarrow> int" where
  "f64_trunc lo hi x =
     (if f64_is_nan x then 0
      else if f64_is_infinite x then (if bit x 63 then lo else hi)
      else let t = int (f64_units x div 2 ^ 1074) in max lo (min hi (if bit x 63 then - t else t)))"

definition f64_as_i64 :: "f64 \<Rightarrow> i64" where
  "f64_as_i64 x = word_of_int (f64_trunc (- (2 ^ 63)) (2 ^ 63 - 1) x)"

definition f64_as_u64 :: "f64 \<Rightarrow> u64" where
  "f64_as_u64 x = word_of_int (f64_trunc 0 (2 ^ 64 - 1) x)"

definition f64_as_u16 :: "f64 \<Rightarrow> u16" where
  "f64_as_u16 x = word_of_int (f64_trunc 0 65535 x)"

definition f64_as_i16 :: "f64 \<Rightarrow> u16" where
  "f64_as_i16 x = word_of_int (f64_trunc (- 32768) 32767 x)"

end
