(* ===== verification/Modbus_Master.thy ===== *)
theory Modbus_Master
  imports Modbus_Frame Float32 Device_Registry "HOL-Library.Monad_Syntax"
begin

text \<open>
  The Modbus RTU master and its protocol adapter (\<open>modbus-rtu/src/master.rs\<close>, \<open>point.rs\<close>, \<open>adapter.rs\<close>): requests with
  retries, register and coil access, the conversion between registers and engineering values, and the point
  access of the device agent.

  The transport is a record of operations. A panic (of the coil parser) is the result \<open>None\<close>.
\<close>

section \<open>Master\<close>

record 't rtu_ops =
  tr_send :: "'t \<Rightarrow> bytes \<Rightarrow> 't \<times> (driver_error + unit)"
  tr_recv :: "'t \<Rightarrow> u32 \<Rightarrow> 't \<times> (driver_error + bytes)"

record modbus_stats =
  st_request_count :: u32
  st_response_count :: u32
  st_error_count :: u32
  st_timeout_count :: u32
  st_crc_error_count :: u32

record 't modbus_master =
  mm_transport :: 't
  mm_timeout_ms :: u32
  mm_retry_count :: u8
  mm_stats :: modbus_stats

definition stats_default :: modbus_stats where
  "stats_default = \<lparr>st_request_count = 0, st_response_count = 0, st_error_count = 0, st_timeout_count = 0, st_crc_error_count = 0\<rparr>"

definition mm_new :: "'t \<Rightarrow> u32 \<Rightarrow> u8 \<Rightarrow> 't modbus_master" where
  "mm_new transport timeout_ms retry_count =
     \<lparr>mm_transport = transport, mm_timeout_ms = timeout_ms, mm_retry_count = retry_count, mm_stats = stats_default\<rparr>"

definition build_frame :: "u8 \<Rightarrow> modbus_request \<Rightarrow> bytes" where
  "build_frame slave_addr req = mf_encode (mf_new slave_addr (fc_byte (rq_func_code req)) (rq_encode_data req))"

fun reg_pairs :: "bytes \<Rightarrow> nat \<Rightarrow> nat \<Rightarrow> u16 list" where
  "reg_pairs (a # b # rest) byte_count n =
     (if 2 * n < byte_count then from_be [a, b] # reg_pairs rest byte_count (Suc n) else [])"
| "reg_pairs _ byte_count n = []"

definition parse_reg_read :: "bytes \<Rightarrow> modbus_error + u16 list" where
  "parse_reg_read data =
     (if data = [] then Inl MeUnexpectedResponse
      else let byte_count = unat (data ! 0)
           in if length data < 1 + byte_count then Inl MeUnexpectedResponse
              else Inr (reg_pairs (drop 1 data) byte_count 0))"

definition parse_coils :: "(bool list \<Rightarrow> modbus_response) \<Rightarrow> bytes \<Rightarrow> u16 \<Rightarrow> (modbus_error + modbus_response) option" where
  "parse_coils mk data quantity =
     map_option (\<lambda>r. case r of Inl _ \<Rightarrow> Inl MeUnexpectedResponse | Inr bits \<Rightarrow> Inr (mk bits)) (parse_bit_data data quantity)"

definition parse_pair :: "(u16 \<Rightarrow> u16 \<Rightarrow> modbus_response) \<Rightarrow> bytes \<Rightarrow> modbus_error + modbus_response" where
  "parse_pair mk data =
     (if length data < 4 then Inl MeUnexpectedResponse
      else Inr (mk (from_be [data ! 0, data ! 1]) (from_be [data ! 2, data ! 3])))"

definition parse_response :: "modbus_request \<Rightarrow> modbus_frame \<Rightarrow> (modbus_error + modbus_response) option" where
  "parse_response req frame =
     (let data = mf_data frame
      in if mf_func_code frame AND 0x80 \<noteq> 0 then
           Some (Inr (RsError
             (if data = [] then ExSlaveDeviceFailure
              else case ec_from_u8 (data ! 0) of Some c \<Rightarrow> c | None \<Rightarrow> ExSlaveDeviceFailure)))
         else if mf_func_code frame \<noteq> fc_byte (rq_func_code req) then
           Some (Inl (MeFuncCodeMismatch (fc_byte (rq_func_code req)) (mf_func_code frame)))
         else case req of
             RqReadCoils _ _ quantity \<Rightarrow> parse_coils RsReadCoils data quantity
           | RqReadDiscreteInputs _ _ quantity \<Rightarrow> parse_coils RsReadDiscreteInputs data quantity
           | RqReadInputRegisters _ _ _ \<Rightarrow>
               Some (case parse_reg_read data of Inl e \<Rightarrow> Inl e | Inr regs \<Rightarrow> Inr (RsReadInputRegisters regs))
           | RqReadHoldingRegisters _ _ _ \<Rightarrow>
               Some (case parse_reg_read data of Inl e \<Rightarrow> Inl e | Inr regs \<Rightarrow> Inr (RsReadHoldingRegisters regs))
           | RqWriteSingleCoil _ _ v \<Rightarrow>
               Some (if length data < 4 then Inl MeUnexpectedResponse
                     else let addr = from_be [data ! 0, data ! 1];
                              on = (data ! 2 = 0xFF \<and> data ! 3 = 0)
                          in if on \<noteq> v then Inl MeUnexpectedResponse else Inr (RsWriteSingleCoil addr on))
           | RqWriteSingleRegister _ _ _ \<Rightarrow> Some (parse_pair RsWriteSingleRegister data)
           | RqWriteMultipleCoils _ _ _ \<Rightarrow> Some (parse_pair RsWriteMultipleCoils data)
           | RqWriteMultipleRegisters _ _ _ \<Rightarrow> Some (parse_pair RsWriteMultipleRegisters data))"

text \<open>One attempt after another; the last argument is how many are left.\<close>

definition count_error :: "modbus_stats \<Rightarrow> modbus_stats" where
  "count_error s = s\<lparr>st_error_count := st_error_count s + 1\<rparr>"

fun attempt_loop ::
  "'t rtu_ops \<Rightarrow> 't modbus_master \<Rightarrow> modbus_request \<Rightarrow> nat \<Rightarrow> ('t modbus_master \<times> (modbus_error + modbus_response)) option" where
  "attempt_loop ops m req 0 = Some (m, Inl MeMaxRetryExceeded)"
| "attempt_loop ops m req (Suc n) =
     (let s = mm_stats m;
          m = m\<lparr>mm_stats := s\<lparr>st_request_count := st_request_count s + 1\<rparr>\<rparr>;
          (t, sent) = tr_send ops (mm_transport m) (build_frame (rq_slave_addr req) req);
          m = m\<lparr>mm_transport := t\<rparr>
      in case sent of
           Inl e \<Rightarrow> Some (m, Inl (MeDriver e))
         | Inr _ \<Rightarrow>
           (let (t, received) = tr_recv ops (mm_transport m) (mm_timeout_ms m);
                m = m\<lparr>mm_transport := t\<rparr>;
                s = mm_stats m
            in case received of
                 Inr resp_bytes \<Rightarrow>
                   (case mf_decode resp_bytes of
                      Inr frame \<Rightarrow>
                        if mf_slave_addr frame \<noteq> rq_slave_addr req then Some (m\<lparr>mm_stats := count_error s\<rparr>, Inl MeAddrMismatch)
                        else map_option (\<lambda>r. (m\<lparr>mm_stats := s\<lparr>st_response_count := st_response_count s + 1\<rparr>\<rparr>, r))
                               (parse_response req frame)
                    | Inl MeCrcMismatch \<Rightarrow>
                        attempt_loop ops (m\<lparr>mm_stats := count_error (s\<lparr>st_crc_error_count := st_crc_error_count s + 1\<rparr>)\<rparr>) req n
                    | Inl e \<Rightarrow> Some (m\<lparr>mm_stats := count_error s\<rparr>, Inl e))
               | Inl DrTimeout \<Rightarrow>
                   attempt_loop ops (m\<lparr>mm_stats := count_error (s\<lparr>st_timeout_count := st_timeout_count s + 1\<rparr>)\<rparr>) req n
               | Inl e \<Rightarrow> Some (m\<lparr>mm_stats := count_error s\<rparr>, Inl (MeDriver e))))"

definition send_request_with_retry ::
  "'t rtu_ops \<Rightarrow> 't modbus_master \<Rightarrow> modbus_request \<Rightarrow> ('t modbus_master \<times> (modbus_error + modbus_response)) option" where
  "send_request_with_retry ops m req =
     (if rq_slave_addr req = 0 then
        (case tr_send ops (mm_transport m) (build_frame 0 req) of
           (t, Inl e) \<Rightarrow> Some (m\<lparr>mm_transport := t\<rparr>, Inl (MeDriver e))
         | (t, Inr _) \<Rightarrow>
             (let s = mm_stats m
              in Some (m\<lparr>mm_transport := t, mm_stats := s\<lparr>st_request_count := st_request_count s + 1\<rparr>\<rparr>, Inr RsBroadcast)))
      else if 247 < rq_slave_addr req then Some (m, Inl MeInvalidSlaveAddr)
      else attempt_loop ops m req (Suc (unat (mm_retry_count m))))"

text \<open>The public operations: a guard, a request, and the response it expects.\<close>

definition expecting ::
  "(modbus_response \<Rightarrow> 'r option) \<Rightarrow> 't rtu_ops \<Rightarrow> 't modbus_master \<Rightarrow> modbus_request \<Rightarrow> ('t modbus_master \<times> (modbus_error + 'r)) option" where
  "expecting pick ops m req =
     map_option (\<lambda>(m, r). (m, case r of
         Inl e \<Rightarrow> Inl e
       | Inr (RsError c) \<Rightarrow> Inl (MeException c)
       | Inr resp \<Rightarrow> (case pick resp of Some x \<Rightarrow> Inr x | None \<Rightarrow> Inl MeUnexpectedResponse)))
       (send_request_with_retry ops m req)"

definition read_holding_registers where
  "read_holding_registers ops m slave_addr start_addr quantity =
     (if quantity = 0 \<or> 125 < quantity then Some (m, Inl MeInvalidQuantity)
      else expecting (\<lambda>r. case r of RsReadHoldingRegisters regs \<Rightarrow> Some regs | _ \<Rightarrow> None) ops m
             (RqReadHoldingRegisters slave_addr start_addr quantity))"

definition read_input_registers where
  "read_input_registers ops m slave_addr start_addr quantity =
     (if quantity = 0 \<or> 125 < quantity then Some (m, Inl MeInvalidQuantity)
      else expecting (\<lambda>r. case r of RsReadInputRegisters regs \<Rightarrow> Some regs | _ \<Rightarrow> None) ops m
             (RqReadInputRegisters slave_addr start_addr quantity))"

definition read_coils where
  "read_coils ops m slave_addr start_addr quantity =
     (if quantity = 0 \<or> 2000 < quantity then Some (m, Inl MeInvalidQuantity)
      else expecting (\<lambda>r. case r of RsReadCoils bits \<Rightarrow> Some bits | _ \<Rightarrow> None) ops m (RqReadCoils slave_addr start_addr quantity))"

definition read_discrete_inputs where
  "read_discrete_inputs ops m slave_addr start_addr quantity =
     (if quantity = 0 \<or> 2000 < quantity then Some (m, Inl MeInvalidQuantity)
      else expecting (\<lambda>r. case r of RsReadDiscreteInputs bits \<Rightarrow> Some bits | _ \<Rightarrow> None) ops m
             (RqReadDiscreteInputs slave_addr start_addr quantity))"

definition write_single_register where
  "write_single_register ops m slave_addr reg_addr v =
     expecting (\<lambda>r. case r of RsWriteSingleRegister _ _ \<Rightarrow> Some () | RsBroadcast \<Rightarrow> Some () | _ \<Rightarrow> None) ops m
       (RqWriteSingleRegister slave_addr reg_addr v)"

definition write_multiple_registers where
  "write_multiple_registers ops m slave_addr start_addr vals =
     (if vals = [] \<or> 123 < length vals then Some (m, Inl MeInvalidQuantity)
      else expecting (\<lambda>r. case r of RsWriteMultipleRegisters _ _ \<Rightarrow> Some () | RsBroadcast \<Rightarrow> Some () | _ \<Rightarrow> None) ops m
             (RqWriteMultipleRegisters slave_addr start_addr vals))"

definition write_single_coil where
  "write_single_coil ops m slave_addr coil_addr v =
     expecting (\<lambda>r. case r of RsWriteSingleCoil _ _ \<Rightarrow> Some () | RsBroadcast \<Rightarrow> Some () | _ \<Rightarrow> None) ops m
       (RqWriteSingleCoil slave_addr coil_addr v)"

definition write_multiple_coils where
  "write_multiple_coils ops m slave_addr start_addr vals =
     (if vals = [] \<or> 1968 < length vals then Some (m, Inl MeInvalidQuantity)
      else expecting (\<lambda>r. case r of RsWriteMultipleCoils _ _ \<Rightarrow> Some () | RsBroadcast \<Rightarrow> Some () | _ \<Rightarrow> None) ops m
             (RqWriteMultipleCoils slave_addr start_addr vals))"

section \<open>Points\<close>

datatype modbus_data_type = MtU16 | MtI16 | MtU32 | MtF32 | MtBit u8
datatype access_mode = ReadOnly | WriteOnly | ReadWrite

record reg_to_point =
  rg_point_id :: u32
  rg_point_name :: bytes
  rg_slave_addr :: u8
  rg_reg_addr :: u16
  rg_data_type :: modbus_data_type
  rg_scale :: f64
  rg_offset :: f64
  rg_access :: access_mode

definition word_count :: "reg_to_point \<Rightarrow> u16" where
  "word_count p = (case rg_data_type p of MtU32 \<Rightarrow> 2 | MtF32 \<Rightarrow> 2 | _ \<Rightarrow> 1)"

definition scaled :: "reg_to_point \<Rightarrow> i64 \<Rightarrow> f64" where
  "scaled p raw = f64_add (f64_mul (f64_of_i64 raw) (rg_scale p)) (rg_offset p)"

definition two_words :: "u16 list \<Rightarrow> u32" where
  "two_words regs = push_bit 16 (ucast (regs ! 0)) OR ucast (regs ! 1)"

definition reg_convert :: "reg_to_point \<Rightarrow> u16 list \<Rightarrow> modbus_error + f64" where
  "reg_convert p regs =
     (case rg_data_type p of
        MtU16 \<Rightarrow> if regs = [] then Inl MeUnexpectedResponse else Inr (scaled p (ucast (regs ! 0)))
      | MtI16 \<Rightarrow> if regs = [] then Inl MeUnexpectedResponse else Inr (scaled p (scast (regs ! 0)))
      | MtU32 \<Rightarrow> if length regs < 2 then Inl MeUnexpectedResponse else Inr (scaled p (ucast (two_words regs)))
      | MtF32 \<Rightarrow>
          if length regs < 2 then Inl MeUnexpectedResponse
          else Inr (f64_of_f32 (f32_add (f32_mul (two_words regs) (f32_of_f64 (rg_scale p))) (f32_of_f64 (rg_offset p))))
      | MtBit bit_index \<Rightarrow>
          if regs = [] then Inl MeUnexpectedResponse
          else if 16 \<le> bit_index then Inl MeInvalidRegisterAddr
          else Inr (scaled p (ucast (drop_bit (unat bit_index) (regs ! 0) AND 1))))"

definition round_f64 :: "f64 \<Rightarrow> f64" where
  "round_f64 x =
     f64_of_i64 (f64_as_i64 (if f64_le f64_0 x then f64_add x 0x3FE0000000000000 else f64_sub x 0x3FE0000000000000))"

definition f64_within :: "f64 \<Rightarrow> f64 \<Rightarrow> f64 \<Rightarrow> bool" where
  "f64_within lo hi x = (f64_le lo x \<and> f64_le x hi)"

definition inverse_convert :: "reg_to_point \<Rightarrow> f64 \<Rightarrow> modbus_error + u16" where
  "inverse_convert p v =
     (if f64_lt (f64_abs (rg_scale p)) 0x3CB0000000000000 then Inl MeInvalidRegisterAddr
      else let raw_f = f64_div (f64_sub v (rg_offset p)) (rg_scale p)
           in case rg_data_type p of
                MtU16 \<Rightarrow>
                  if \<not> f64_within f64_0 0x40EFFFE000000000 raw_f then Inl MeInvalidQuantity else Inr (f64_as_u16 (round_f64 raw_f))
              | MtI16 \<Rightarrow>
                  if \<not> f64_within 0xC0E0000000000000 0x40DFFFC000000000 raw_f then Inl MeInvalidQuantity
                  else Inr (f64_as_i16 (round_f64 raw_f))
              | MtU32 \<Rightarrow>
                  if \<not> f64_within f64_0 0x41EFFFFFFFE00000 raw_f then Inl MeInvalidQuantity
                  else Inr (ucast (f64_as_u64 (round_f64 raw_f) AND 0xFFFF))
              | MtF32 \<Rightarrow>
                  if \<not> f64_is_finite raw_f then Inl MeInvalidQuantity else Inr (ucast (f32_of_f64 raw_f AND 0xFFFF))
              | MtBit bit_index \<Rightarrow>
                  if 16 \<le> bit_index then Inl MeInvalidRegisterAddr
                  else Inr (push_bit (unat bit_index) (if f64_lt 0x3FE0000000000000 (f64_abs v) then 1 else 0)))"

fun add_to_group :: "reg_to_point \<Rightarrow> (u8 \<times> reg_to_point list) list \<Rightarrow> (u8 \<times> reg_to_point list) list" where
  "add_to_group p [] = [(rg_slave_addr p, [p])]"
| "add_to_group p ((a, ps) # groups) = (if a = rg_slave_addr p then (a, ps @ [p]) # groups else (a, ps) # add_to_group p groups)"

definition group_by_slave :: "reg_to_point list \<Rightarrow> (u8 \<times> reg_to_point list) list" where
  "group_by_slave mappings = foldl (\<lambda>groups p. add_to_group p groups) [] mappings"

fun poll_all ::
  "'t rtu_ops \<Rightarrow> 't modbus_master \<Rightarrow> (u8 \<times> reg_to_point) list \<Rightarrow> ('t modbus_master \<times> (u32 \<times> (modbus_error + f64)) list) option" where
  "poll_all ops m [] = Some (m, [])"
| "poll_all ops m ((slave_addr, p) # rest) = do {
     (m, raw) \<leftarrow> read_holding_registers ops m slave_addr (rg_reg_addr p) (word_count p);
     (m, results) \<leftarrow> poll_all ops m rest;
     Some (m, (rg_point_id p, and_then raw (reg_convert p)) # results)
   }"

definition poll_points where
  "poll_points ops m mappings =
     poll_all ops m (concat (map (\<lambda>(a, ps). map (\<lambda>p. (a, p)) ps) (group_by_slave mappings)))"

section \<open>Adapter\<close>

datatype adapter_state = AsUninitialized | AsInitialized | AsRunning | AsStopped | AsError
datatype protocol_type = PrModbusRtu | PrModbusTcp | PrIec104 | PrCan | PrInternal

record 'a device_config =
  dc_device_id :: u16
  dc_name :: bytes
  dc_address :: 'a

record 'a adapter_config =
  acf_name :: bytes
  acf_protocol_type :: protocol_type
  acf_device_configs :: "'a device_config list"

record 't modbus_adapter =
  mo_transport :: 't
  mo_timeout_ms :: u32
  mo_retry_count :: u8
  mo_mappings :: "reg_to_point list"
  mo_device_id :: u16
  mo_state :: adapter_state

definition mo_new :: "'t \<Rightarrow> u32 \<Rightarrow> u8 \<Rightarrow> 't modbus_adapter" where
  "mo_new transport timeout_ms retry_count =
     \<lparr>mo_transport = transport, mo_timeout_ms = timeout_ms, mo_retry_count = retry_count, mo_mappings = [], mo_device_id = 0,
      mo_state = AsUninitialized\<rparr>"

definition with_mappings :: "'t modbus_adapter \<Rightarrow> reg_to_point list \<Rightarrow> 't modbus_adapter" where
  "with_mappings d mappings = d\<lparr>mo_mappings := mappings\<rparr>"

definition mo_init :: "'t modbus_adapter \<Rightarrow> 'a adapter_config \<Rightarrow> 't modbus_adapter \<times> (protocol_error + unit)" where
  "mo_init d config =
     (if acf_protocol_type config \<noteq> PrModbusRtu then (d, Inl InvalidConfig)
      else case acf_device_configs config of
             [] \<Rightarrow> (d, Inl InvalidConfig)
           | device # _ \<Rightarrow> (d\<lparr>mo_device_id := dc_device_id device, mo_state := AsInitialized\<rparr>, Inr ()))"

definition mo_start :: "'t modbus_adapter \<Rightarrow> 't modbus_adapter \<times> (protocol_error + unit)" where
  "mo_start d = (d\<lparr>mo_state := AsRunning\<rparr>, Inr ())"

definition mo_stop :: "'t modbus_adapter \<Rightarrow> 't modbus_adapter \<times> (protocol_error + unit)" where
  "mo_stop d = (d\<lparr>mo_state := AsStopped\<rparr>, Inr ())"

definition find_mapping :: "'t modbus_adapter \<Rightarrow> u32 \<Rightarrow> reg_to_point option" where
  "find_mapping d point_id = find (\<lambda>p. rg_point_id p = point_id) (mo_mappings d)"

definition mo_master :: "'t modbus_adapter \<Rightarrow> 't modbus_master" where
  "mo_master d = mm_new (mo_transport d) (mo_timeout_ms d) (mo_retry_count d)"

fun modbus_to_protocol :: "modbus_error \<Rightarrow> protocol_error" where
  "modbus_to_protocol MeInvalidSlaveAddr = InvalidConfig"
| "modbus_to_protocol MeInvalidQuantity = InvalidConfig"
| "modbus_to_protocol MeInvalidRegisterAddr = InvalidConfig"
| "modbus_to_protocol _ = ReadFailed"

definition mo_is_up :: "'t modbus_adapter \<Rightarrow> bool" where
  "mo_is_up d = (mo_state d = AsRunning \<or> mo_state d = AsInitialized)"

definition mo_read_point ::
  "'t rtu_ops \<Rightarrow> 't modbus_adapter \<Rightarrow> u32 \<Rightarrow> ('t modbus_adapter \<times> (protocol_error + data_point)) option" where
  "mo_read_point ops d point_id =
     (if \<not> mo_is_up d then Some (d, Inl ProtocolNotStarted)
      else case find_mapping d point_id of
             None \<Rightarrow> Some (d, Inl PointNotFound)
           | Some p \<Rightarrow>
             if rg_access p = WriteOnly then Some (d, Inl UnsupportedOperation)
             else do {
               (m, raw) \<leftarrow> read_holding_registers ops (mo_master d) (rg_slave_addr p) (rg_reg_addr p) (word_count p);
               let d = d\<lparr>mo_transport := mm_transport m\<rparr>;
               Some (d, case and_then raw (reg_convert p) of
                   Inl e \<Rightarrow> Inl (modbus_to_protocol e)
                 | Inr eng \<Rightarrow> Inr \<lparr>dp_point_id = point_id, dp_device_id = mo_device_id d, dp_name = rg_point_name p,
                     dp_description = None, dp_point_type = PtAnalog, dp_value = PvFloat eng, dp_quality = pq_good,
                     dp_timestamp_ms = 0, dp_source = DsModbusRtu, dp_unit = None\<rparr>)
             })"

definition mo_raw_value :: "reg_to_point \<Rightarrow> point_value \<Rightarrow> protocol_error + u16" where
  "mo_raw_value p v =
     (case v of
        PvFloat f \<Rightarrow> map_err (inverse_convert p f) modbus_to_protocol
      | PvInt i \<Rightarrow> map_err (inverse_convert p (f64_of_i64 i)) modbus_to_protocol
      | PvEnum e \<Rightarrow> Inr e
      | _ \<Rightarrow> Inl UnsupportedOperation)"

definition mo_write_point ::
  "'t rtu_ops \<Rightarrow> 't modbus_adapter \<Rightarrow> u32 \<Rightarrow> point_value \<Rightarrow> ('t modbus_adapter \<times> (protocol_error + unit)) option" where
  "mo_write_point ops d point_id v =
     (if \<not> mo_is_up d then Some (d, Inl ProtocolNotStarted)
      else case find_mapping d point_id of
             None \<Rightarrow> Some (d, Inl PointNotFound)
           | Some p \<Rightarrow>
             if rg_access p = ReadOnly then Some (d, Inl UnsupportedOperation)
             else case mo_raw_value p v of
                    Inl e \<Rightarrow> Some (d, Inl e)
                  | Inr raw \<Rightarrow> do {
                      (m, r) \<leftarrow> write_single_register ops (mo_master d) (rg_slave_addr p) (rg_reg_addr p) raw;
                      Some (d\<lparr>mo_transport := mm_transport m\<rparr>, map_err r modbus_to_protocol)
                    })"

definition mo_write_authorized ::
  "'t rtu_ops \<Rightarrow> 't modbus_adapter \<Rightarrow> authorized_command \<Rightarrow> point_value \<Rightarrow>
     ('t modbus_adapter \<times> (write_error + point_value option)) option" where
  "mo_write_authorized ops d cmd v =
     (if ac_device_id cmd \<noteq> mo_device_id d then Some (d, Inl CommandMismatch)
      else if find_mapping d (ac_point_id cmd) = None then Some (d, Inl CommandMismatch)
      else if \<not> (case v of PvFloat _ \<Rightarrow> True | PvInt _ \<Rightarrow> True | PvEnum _ \<Rightarrow> True | _ \<Rightarrow> False) then Some (d, Inl WriteUnauthorized)
      else map_option (\<lambda>(d, r). (d, case r of Inl e \<Rightarrow> Inl (WriteProtocol e) | Inr _ \<Rightarrow> Inr None))
             (mo_write_point ops d (ac_point_id cmd) v))"

fun read_device_loop ::
  "'t rtu_ops \<Rightarrow> 't modbus_adapter \<Rightarrow> u32 list \<Rightarrow> ('t modbus_adapter \<times> (protocol_error + data_point list)) option" where
  "read_device_loop ops d [] = Some (d, Inr [])"
| "read_device_loop ops d (p # ps) = do {
     (d, r) \<leftarrow> mo_read_point ops d p;
     (case r of
        Inl e \<Rightarrow> Some (d, Inl e)
      | Inr dp \<Rightarrow> map_option (\<lambda>(d, rs). (d, case rs of Inl e \<Rightarrow> Inl e | Inr dps \<Rightarrow> Inr (dp # dps))) (read_device_loop ops d ps))
   }"

definition mo_read_device_points ::
  "'t rtu_ops \<Rightarrow> 't modbus_adapter \<Rightarrow> u16 \<Rightarrow> ('t modbus_adapter \<times> (protocol_error + data_point list)) option" where
  "mo_read_device_points ops d device_id =
     (if device_id \<noteq> mo_device_id d then Some (d, Inl PointNotFound)
      else read_device_loop ops d (map rg_point_id (mo_mappings d)))"

text \<open>Register access does not panic, so the adapter is point access and authorized writing for the device agent.\<close>

definition modbus_ops :: "'t rtu_ops \<Rightarrow> 't modbus_adapter adapter_ops" where
  "modbus_ops ops =
     \<lparr>ad_read = (\<lambda>d p. the (mo_read_point ops d p)), ad_write = (\<lambda>d cmd v. the (mo_write_authorized ops d cmd v))\<rparr>"

end
