(* ===== verification/Modbus_Line.thy ===== *)
theory Modbus_Line
  imports Modbus_Frame
begin

text \<open>
  What the Modbus frame layer guarantees, and where it does not: the checksum, frames, the framer, the receive loop,
  coils.
\<close>

section \<open>The checksum detects bursts\<close>

lemma crc_bit_odd: "crc16_bit c = (if odd c then drop_bit 1 c XOR 0xA001 else drop_bit 1 c)"
  by (simp add: crc16_bit_def and_one_eq odd_iff_mod_2_eq_one)

lemma crc_bit_xor: "crc16_bit (a XOR b) = crc16_bit a XOR crc16_bit b"
  by (cases "odd a"; cases "odd b") (simp_all add: crc_bit_odd even_xor_iff drop_bit_xor ac_simps)

lemma word_eq_drop_odd: "a = b" if "drop_bit 1 a = drop_bit 1 b" "odd a \<longleftrightarrow> odd b" for a b :: u16
proof (rule bit_word_eqI)
  fix n assume "n < LENGTH(16)"
  show "bit a n \<longleftrightarrow> bit b n"
  proof (cases n)
    case 0
    then show ?thesis using that(2) by (simp add: bit_0)
  next
    case (Suc m)
    have "bit (drop_bit 1 a) m \<longleftrightarrow> bit (drop_bit 1 b) m" using that(1) by simp
    then show ?thesis using Suc by (simp add: bit_drop_bit_eq)
  qed
qed

lemma crc_bit_inj: "crc16_bit a = crc16_bit b \<longleftrightarrow> a = b"
proof
  assume e: "crc16_bit a = crc16_bit b"
  have top: "bit (crc16_bit c) 15 \<longleftrightarrow> odd c" for c
  proof -
    have "\<not> bit (drop_bit 1 c) 15" using bit_imp_le_length [of c 16] by (auto simp: bit_drop_bit_eq)
    then show ?thesis by (simp add: crc_bit_odd bit_xor_iff)
  qed
  have o: "odd a \<longleftrightarrow> odd b" using e top [of a] top [of b] by simp
  then have "drop_bit 1 a = drop_bit 1 b" using e by (auto simp: crc_bit_odd xor_cancel split: if_splits)
  then show "a = b" using o by (rule word_eq_drop_odd)
qed simp

lemma crc_steps_inj: "(crc16_bit ^^ n) a = (crc16_bit ^^ n) b \<longleftrightarrow> a = b"
  by (induction n) (simp_all add: crc_bit_inj)

lemma crc_steps_xor: "(crc16_bit ^^ n) (a XOR b) = (crc16_bit ^^ n) a XOR (crc16_bit ^^ n) b"
  by (induction n) (simp_all add: crc_bit_xor)

lemma crc_bit_push:
  assumes "n < 8"
  shows "crc16_bit (push_bit (Suc n) (ucast (b :: u8))) = push_bit n (ucast b)"
proof -
  have "drop_bit 1 (push_bit (Suc n) (ucast b) :: u16) = push_bit n (ucast b)"
  proof (rule bit_word_eqI)
    fix k assume "k < LENGTH(16)"
    moreover have "\<not> bit b (15 - n)" using bit_imp_le_length [of b "15 - n"] assms by auto
    ultimately show "bit (drop_bit 1 (push_bit (Suc n) (ucast b) :: u16)) k \<longleftrightarrow> bit (push_bit n (ucast b) :: u16) k"
      by (cases "k = 15") (auto simp: bit_drop_bit_eq bit_push_bit_iff bit_ucast_iff simp del: push_bit_Suc)
  qed
  moreover have "even (push_bit (Suc n) (ucast b) :: u16)" by (simp add: even_push_bit_iff del: push_bit_Suc)
  ultimately show ?thesis by (simp add: crc_bit_odd del: push_bit_Suc)
qed

lemma crc_steps_push: "n \<le> 8 \<Longrightarrow> (crc16_bit ^^ n) (push_bit n (ucast (b :: u8))) = ucast b"
  by (induction n) (simp_all add: crc_bit_push funpow_swap1 del: push_bit_Suc)

lemma ucast_u8_inj: "(ucast (x :: u8) :: u16) = ucast y \<longleftrightarrow> x = y"
proof
  assume e: "(ucast x :: u16) = ucast y"
  show "x = y"
  proof (rule bit_word_eqI)
    fix k assume k: "k < LENGTH(8)"
    have "bit (ucast x :: u16) k \<longleftrightarrow> bit (ucast y :: u16) k" by (simp only: e)
    then show "bit x k \<longleftrightarrow> bit y k" using k by (simp add: bit_ucast_iff)
  qed
qed simp

text \<open>Two bytes fed to the checksum determine and are determined by the state they leave.\<close>

lemma crc_byte_inj: "crc16_byte c x = crc16_byte c y \<longleftrightarrow> x = y" "crc16_byte c x = crc16_byte d x \<longleftrightarrow> c = d"
proof -
  have "c XOR ucast x = c XOR ucast y \<longleftrightarrow> x = y" using xor_cancel [of "ucast x" c "ucast y"] by (simp add: xor.commute ucast_u8_inj)
  then show "crc16_byte c x = crc16_byte c y \<longleftrightarrow> x = y" by (simp add: crc16_byte_def crc_steps_inj)
  show "crc16_byte c x = crc16_byte d x \<longleftrightarrow> c = d" by (simp add: crc16_byte_def crc_steps_inj xor_cancel)
qed

lemma crc_two_bytes_inj:
  "crc16_byte (crc16_byte c x) y = crc16_byte (crc16_byte c x') y' \<longleftrightarrow> x = x' \<and> y = y'"
proof
  assume "crc16_byte (crc16_byte c x) y = crc16_byte (crc16_byte c x') y'"
  then have e: "crc16_byte c x XOR ucast y = crc16_byte c x' XOR ucast y'" by (simp add: crc16_byte_def crc_steps_inj)
  have "(crc16_bit ^^ 8) (ucast (x XOR x')) = crc16_byte c x XOR crc16_byte c x'"
    by (simp add: crc16_byte_def crc_steps_xor unsigned_xor_eq ac_simps xor_self_eq)
  also have "\<dots> = ucast (y XOR y')"
    using e by (metis (no_types, lifting) unsigned_xor_eq xor.assoc xor.commute xor.left_neutral xor_self_eq)
  also have "\<dots> = (crc16_bit ^^ 8) (push_bit 8 (ucast (y XOR y')))" by (simp add: crc_steps_push)
  finally have u: "(ucast (x XOR x') :: u16) = push_bit 8 (ucast (y XOR y'))" by (simp only: crc_steps_inj)
  have "x XOR x' = 0"
  proof (rule bit_word_eqI)
    fix k assume "k < LENGTH(8)"
    have "bit (ucast (x XOR x') :: u16) k \<longleftrightarrow> bit (push_bit 8 (ucast (y XOR y')) :: u16) k" by (simp only: u)
    then show "bit (x XOR x') k \<longleftrightarrow> bit 0 k" using \<open>k < LENGTH(8)\<close> by (simp add: bit_ucast_iff bit_push_bit_iff)
  qed
  then have "x = x'" by (metis xor_cancel xor_self_eq)
  moreover from this have "ucast y = (ucast y' :: u16)" using e xor_cancel [of "ucast y" "crc16_byte c x" "ucast y'"] by (simp add: xor.commute)
  ultimately show "x = x' \<and> y = y'" by (simp add: ucast_u8_inj)
qed simp

lemma crc_foldl_inj: "foldl crc16_byte c bs = foldl crc16_byte d bs \<longleftrightarrow> c = d"
  by (induction bs arbitrary: c d) (simp_all add: crc_byte_inj)

lemma crc_burst:
  assumes "length mid' = length mid" and "length mid \<le> 2" and "mid' \<noteq> mid"
  shows "crc16_modbus (pre @ mid' @ post) \<noteq> crc16_modbus (pre @ mid @ post)"
proof -
  have "foldl crc16_byte c mid' \<noteq> foldl crc16_byte c mid" for c
  proof (cases mid)
    case Nil
    then show ?thesis using assms by simp
  next
    case (Cons x m)
    then obtain x' m' where m': "mid' = x' # m'" using assms(1) by (cases mid') auto
    show ?thesis
    proof (cases m)
      case Nil
      then show ?thesis using assms Cons m' by (auto simp: crc_byte_inj)
    next
      case (Cons y n)
      then obtain y' where "m' = [y']" "n = []" using assms \<open>mid = x # m\<close> m' by (cases m') auto
      then show ?thesis using assms \<open>mid = x # m\<close> m' Cons by (auto simp: crc_two_bytes_inj)
    qed
  qed
  then show ?thesis by (simp add: crc16_modbus_def crc_foldl_inj)
qed

text \<open>A checksum appended to what it covers leaves zero.\<close>

lemma crc_steps_0: "(crc16_bit ^^ n) 0 = 0"
  by (induction n) (simp_all add: crc16_bit_def)

lemma crc_own_bytes: "crc16_byte (crc16_byte c (ucast c)) (ucast (drop_bit 8 c)) = 0"
proof -
  have "c XOR ucast (ucast c :: u8) = push_bit 8 (ucast (ucast (drop_bit 8 c) :: u8))"
    by (rule bit_word_eqI) (auto simp: bit_xor_iff bit_ucast_iff bit_push_bit_iff bit_drop_bit_eq not_less)
  then have "crc16_byte c (ucast c) = ucast (ucast (drop_bit 8 c) :: u8)"
    unfolding crc16_byte_def using crc_steps_push [of 8 "ucast (drop_bit 8 c)"] by simp
  then show ?thesis by (simp add: crc16_byte_def crc_steps_0)
qed

lemma le_bytes_2: "le_bytes 2 (k :: u16) = [ucast k, ucast (drop_bit 8 k)]"
  by (simp add: numeral_2_eq_2)

lemma crc_appended: "crc16_modbus (bs @ le_bytes 2 k) = 0 \<longleftrightarrow> k = crc16_modbus bs"
proof
  let ?c = "crc16_modbus bs"
  assume "crc16_modbus (bs @ le_bytes 2 k) = 0"
  then have "crc16_byte (crc16_byte ?c (ucast k)) (ucast (drop_bit 8 k)) = crc16_byte (crc16_byte ?c (ucast ?c)) (ucast (drop_bit 8 ?c))"
    by (simp only: crc_own_bytes) (simp add: crc16_modbus_def le_bytes_2)
  then have "le_bytes 2 k = le_bytes 2 ?c" by (simp add: crc_two_bytes_inj le_bytes_2)
  moreover have "from_le (le_bytes 2 w) = w" for w :: u16 by simp
  ultimately show "k = ?c" by metis
next
  assume "k = crc16_modbus bs"
  then show "crc16_modbus (bs @ le_bytes 2 k) = 0" using crc_own_bytes [of k] by (simp add: crc16_modbus_def le_bytes_2)
qed

section \<open>Frames\<close>

lemma split_last_two:
  assumes "4 \<le> length buf"
  obtains a c d x y where "buf = a # c # d @ [x, y]"
proof -
  obtain a c r where r: "buf = a # c # r" using assms by (cases buf; cases "tl buf") auto
  obtain s y where s: "r = s @ [y]" using assms r by (cases r rule: rev_cases) auto
  obtain d x where "s = d @ [x]" using assms r s by (cases s rule: rev_cases) auto
  then show thesis using that r s by simp
qed

lemma mf_decode_eq:
  assumes "4 \<le> length buf"
  shows "mf_decode buf =
    (if crc16_modbus buf = 0 then Inr (mf_new (buf ! 0) (buf ! 1) (slice 2 (length buf - 2) buf)) else Inl MeCrcMismatch)"
proof -
  obtain a c d x y where b: "buf = a # c # d @ [x, y]" using assms by (rule split_last_two)
  let ?k = "from_le [x, y] :: u16"
  have "le_bytes 2 ?k = [x, y]" by (rule le_bytes_from_le_full) simp_all
  then have z: "crc16_modbus buf = 0 \<longleftrightarrow> ?k = crc16_modbus (a # c # d)"
    using crc_appended [of "a # c # d" ?k] by (simp add: b)
  have "buf ! (length buf - 2) = x" "buf ! (length buf - 1) = y" "take (length buf - 2) buf = a # c # d"
    "slice 2 (length buf - 2) buf = d" by (simp_all add: b slice_def nth_append)
  then show ?thesis using assms z by (simp add: mf_decode_def mf_new_def Let_def b)
qed

text \<open>A frame decodes exactly from its own encoding: decoding accepts a buffer if and only if it is the encoding of
  a frame with the checksum of its content, and then gives that frame.\<close>

lemma modbus_decode_iff:
  "mf_decode buf = Inr f \<longleftrightarrow> f = mf_new (mf_slave_addr f) (mf_func_code f) (mf_data f) \<and> buf = mf_encode f"
proof (cases "4 \<le> length buf")
  case True
  obtain a c d x y where b: "buf = a # c # d @ [x, y]" using True by (rule split_last_two)
  let ?k = "crc16_modbus (a # c # d)"
  have s: "slice 2 (length buf - 2) buf = d" "buf ! 0 = a" "buf ! 1 = c" by (simp_all add: b slice_def)
  have "le_bytes 2 (from_le [x, y] :: u16) = [x, y]" by (rule le_bytes_from_le_full) simp_all
  then have z: "crc16_modbus buf = 0 \<longleftrightarrow> [x, y] = le_bytes 2 ?k"
    using crc_appended [of "a # c # d" "from_le [x, y]"] crc_appended [of "a # c # d" ?k] by (auto simp: b)
  have "mf_new a c d = f \<and> [x, y] = le_bytes 2 ?k \<longleftrightarrow> f = mf_new (mf_slave_addr f) (mf_func_code f) (mf_data f) \<and> buf = mf_encode f"
    by (cases f) (auto simp: mf_new_def mf_encode_def b)
  then show ?thesis unfolding mf_decode_eq [OF True] s using z by auto
next
  case False
  then show ?thesis by (auto simp: mf_decode_def mf_encode_def)
qed

lemma crc_byte_steps:
  "crc16_byte c b = crc16_bit (crc16_bit (crc16_bit (crc16_bit (crc16_bit (crc16_bit (crc16_bit (crc16_bit (c XOR ucast b))))))))"
  by (simp add: crc16_byte_def numeral_eq_Suc)

lemma burst_refused:
  assumes "mf_decode (pre @ mid @ post) = Inr f"
    and "length mid' = length mid" and "length mid \<le> 2" and "mid' \<noteq> mid"
  shows "mf_decode (pre @ mid' @ post) = Inl MeCrcMismatch"
proof -
  have l: "4 \<le> length (pre @ mid @ post)" using assms(1) by (auto simp: mf_decode_def split: if_splits)
  then have "crc16_modbus (pre @ mid @ post) = 0" using assms(1) by (simp add: mf_decode_eq split: if_splits)
  then have "crc16_modbus (pre @ mid' @ post) \<noteq> 0" using crc_burst [OF assms(2-4), of pre post] by simp
  moreover have "4 \<le> length (pre @ mid' @ post)" using l assms(2) by simp
  ultimately show ?thesis by (simp only: mf_decode_eq if_False)
qed

text \<open>C29. The checksum catches every burst: a frame in which up to two consecutive bytes were changed, in the content or in the
  checksum, is refused.\<close>

theorem modbus_burst_refused:
  assumes "mf_decode (pre @ mid @ post) = Inr f"
    and "length mid' = length mid" and "length mid \<le> 2" and "mid' \<noteq> mid"
  shows "mf_decode (pre @ mid' @ post) = Inl MeCrcMismatch"
  using assms by (rule burst_refused)

lemma sample_frame: "mf_decode [1, 3, 0, 0, 0, 1, 0x84, 0x0A] = Inr (mf_new 1 3 [0, 0, 0, 1])"
proof -
  have "crc16_modbus [1, 3, 0, 0, 0, 1] = 0x0A84" by (simp add: crc16_modbus_def crc_byte_steps crc16_bit_def)
  then have "mf_encode (mf_new 1 3 [0, 0, 0, 1]) = [1, 3, 0, 0, 0, 1, 0x84, 0x0A]"
    by (simp add: mf_encode_def mf_new_def le_bytes_2)
  then show ?thesis by (simp add: modbus_decode_iff mf_new_def)
qed

theorem modbus_burst_refused_witness:
  "mf_decode [1, 3, 0, 0, 0, 1, 0x84, 0x0A] = Inr (mf_new 1 3 [0, 0, 0, 1]) \<and>
   mf_decode [1, 3, 0, 0, 0, 2, 0x85, 0x0A] = Inl MeCrcMismatch"
  using modbus_burst_refused [of "[1, 3, 0, 0, 0]" "[1, 0x84]" "[0x0A]" "mf_new 1 3 [0, 0, 0, 1]" "[2, 0x85]"] sample_frame by simp

section \<open>Framer\<close>

text \<open>The bytes of the frame that is being collected.\<close>

definition fr_holds :: "rtu_framer \<Rightarrow> bytes \<Rightarrow> bool" where
  "fr_holds f bs \<longleftrightarrow> (fr_has_data f \<longleftrightarrow> bs \<noteq> []) \<and> fr_len f = length bs \<and> take (length bs) (fr_buf f) = bs \<and>
     length (fr_buf f) = 256 \<and> length bs \<le> 256"

lemma fr_holds_new: "fr_holds (fr_new baud) []"
  by (simp add: fr_holds_def fr_new_def)

definition within_frame :: "rtu_framer \<Rightarrow> u64 \<Rightarrow> bool" where
  "within_frame f now \<longleftrightarrow> \<not> fr_has_data f \<or> saturating_sub now (fr_last_byte_ns f) < char_time_35_ns (fr_baud f)"

lemma feed_within:
  assumes "fr_holds f bs" and "within_frame f now" and "length bs < 256"
  shows "\<exists>f'. feed_byte f b now = (f', Inr None) \<and> fr_holds f' (bs @ [b]) \<and> fr_last_byte_ns f' = now \<and> fr_baud f' = fr_baud f"
proof -
  have "take (Suc (length bs)) ((fr_buf f)[length bs := b]) = bs @ [b]"
    using assms(1,3) by (simp add: fr_holds_def take_Suc_conv_app_nth)
  then show ?thesis using assms by (auto simp: feed_byte_def fr_holds_def within_frame_def Let_def not_le)
qed

lemma feed_full:
  assumes "fr_holds f bs" and "within_frame f now" and "length bs = 256"
  shows "\<exists>f'. feed_byte f b now = (f', Inl ()) \<and> fr_holds f' [b] \<and> fr_last_byte_ns f' = now \<and> fr_baud f' = fr_baud f"
proof -
  have "take (Suc 0) ((fr_buf f)[0 := b]) = [b]" using assms(1) by (cases "fr_buf f") (auto simp: fr_holds_def)
  then show ?thesis using assms by (auto simp: feed_byte_def fr_holds_def within_frame_def Let_def not_le)
qed

lemma feed_after_gap:
  assumes "fr_holds f bs" and "\<not> within_frame f now"
  shows "\<exists>f'. feed_byte f b now = (f', Inr (Some (b # tl bs))) \<and> fr_holds f' [b] \<and> fr_last_byte_ns f' = now \<and> fr_baud f' = fr_baud f"
proof -
  have d: "fr_has_data f" "bs \<noteq> []" using assms by (auto simp: within_frame_def fr_holds_def)
  obtain y ys where y: "fr_buf f = y # ys" using assms(1) by (cases "fr_buf f") (auto simp: fr_holds_def)
  have "take (length bs) ((fr_buf f)[0 := b]) = b # tl bs"
    using assms(1) d(2) y by (cases bs) (auto simp: fr_holds_def)
  then show ?thesis using assms d(1) y by (auto simp: feed_byte_def fr_holds_def within_frame_def Let_def not_le)
qed

lemma fr_flush_holds:
  "fr_holds f bs \<Longrightarrow> snd (fr_flush f) = (if bs = [] then None else Some bs) \<and> fr_holds (fst (fr_flush f)) []"
  by (auto simp: fr_flush_def fr_holds_def)

text \<open>Bytes with their times, and the frames they complete.\<close>

fun feed_all :: "rtu_framer \<Rightarrow> (u8 \<times> u64) list \<Rightarrow> rtu_framer \<times> bytes list" where
  "feed_all f [] = (f, [])"
| "feed_all f ((b, t) # rest) =
     (case feed_byte f b t of
        (f, r) \<Rightarrow> (case feed_all f rest of (f, frames) \<Rightarrow> (f, (case r of Inr (Some frame) \<Rightarrow> [frame] | _ \<Rightarrow> []) @ frames)))"

fun closely_spaced :: "u64 \<Rightarrow> u64 \<Rightarrow> u64 list \<Rightarrow> bool" where
  "closely_spaced gap last_ns [] = True"
| "closely_spaced gap last_ns (t # ts) = (saturating_sub t last_ns < gap \<and> closely_spaced gap t ts)"

lemma feed_all_collects:
  assumes "fr_holds f bs" and "length bs + length rest \<le> 256"
    and "case rest of [] \<Rightarrow> True | (b, t) # r \<Rightarrow> within_frame f t \<and> closely_spaced (char_time_35_ns (fr_baud f)) t (map snd r)"
  shows "\<exists>f'. feed_all f rest = (f', []) \<and> fr_holds f' (bs @ map fst rest) \<and> fr_baud f' = fr_baud f \<and>
    fr_last_byte_ns f' = (if rest = [] then fr_last_byte_ns f else snd (last rest))"
  using assms
proof (induction rest arbitrary: f bs)
  case (Cons a rest)
  obtain b t where a: "a = (b, t)" by fastforce
  obtain f1 where f1: "feed_byte f b t = (f1, Inr None)" "fr_holds f1 (bs @ [b])" "fr_last_byte_ns f1 = t" "fr_baud f1 = fr_baud f"
    using feed_within [OF Cons.prems(1), of t b] Cons.prems(2,3) a by auto
  have "\<exists>f'. feed_all f1 rest = (f', []) \<and> fr_holds f' ((bs @ [b]) @ map fst rest) \<and> fr_baud f' = fr_baud f1 \<and>
      fr_last_byte_ns f' = (if rest = [] then fr_last_byte_ns f1 else snd (last rest))"
    using Cons.prems(2,3) f1 a
    by (intro Cons.IH) (auto simp: within_frame_def fr_holds_def split: list.split)
  then show ?case using f1 a by auto
qed simp

text \<open>The framer spoils the frame it completes: when a frame was received and the next byte arrives after the silence that ends
  it, the framer returns the frame with its first byte replaced by that next byte; unless the two are equal, the checksum
  then refuses a frame that was received without an error.\<close>

theorem framer_spoils_frame:
  assumes "mf_decode frame = Inr m" and "length ts = length frame" and "length frame \<le> 256"
    and "closely_spaced (char_time_35_ns baud) (hd ts) (tl ts)"
    and "char_time_35_ns baud \<le> saturating_sub now (last ts)" and "b \<noteq> hd frame"
  shows "\<exists>f. feed_all (fr_new baud) (zip frame ts @ [(b, now)]) = (f, [b # tl frame]) \<and> mf_decode (b # tl frame) = Inl MeCrcMismatch"
proof -
  obtain x xs where fr: "frame = x # xs" using assms(1) by (cases frame) (auto simp: mf_decode_def)
  then obtain t us where ts: "ts = t # us" using assms(2) by (cases ts) auto
  have l: "length us = length xs" using assms(2) fr ts by simp
  have z: "zip frame ts \<noteq> []" "snd (last (zip frame ts)) = last ts" "map fst (zip frame ts) = frame"
    using l assms(2) by (auto simp: fr ts last_zip)
  have c: "case zip frame ts of [] \<Rightarrow> True | (b, t) # r \<Rightarrow> within_frame (fr_new baud) t \<and>
      closely_spaced (char_time_35_ns (fr_baud (fr_new baud))) t (map snd r)"
    using assms(4) l by (simp add: fr ts within_frame_def fr_new_def)
  have "length ([] :: bytes) + length (zip frame ts) \<le> 256" using assms(3) by simp
  from feed_all_collects [OF fr_holds_new this c] z
  obtain f1 where f1: "feed_all (fr_new baud) (zip frame ts) = (f1, [])" "fr_holds f1 frame" "fr_baud f1 = baud" "fr_last_byte_ns f1 = last ts"
    by (auto simp: fr_new_def)
  have "\<not> within_frame f1 now" using f1 assms(5) fr by (simp add: within_frame_def fr_holds_def not_less)
  then obtain f2 where f2: "feed_byte f1 b now = (f2, Inr (Some (b # tl frame)))" using feed_after_gap [OF f1(2)] by blast
  have app: "feed_all f (us @ vs) = (case feed_all f us of (f, fs) \<Rightarrow> (case feed_all f vs of (f, gs) \<Rightarrow> (f, fs @ gs)))" for f us vs
    by (induction us arbitrary: f) (auto split: prod.split)
  have "mf_decode ([] @ [b] @ xs) = Inl MeCrcMismatch"
    using burst_refused [of "[]" "[x]" xs m "[b]"] assms(1,6) fr by simp
  then show ?thesis using f1(1) f2 fr by (simp add: app)
qed

theorem framer_spoils_frame_witness:
  "\<exists>f. feed_all (fr_new 9600) (zip [1, 3, 0, 0, 0, 1, 0x84, 0x0A] [0, 100, 200, 300, 400, 500, 600, 700] @ [(2, 9000000)]) =
     (f, [[2, 3, 0, 0, 0, 1, 0x84, 0x0A]])"
proof -
  have c: "char_time_35_ns 9600 = 4010417" by (simp add: char_time_35_ns_def)
  have "closely_spaced (char_time_35_ns 9600) (hd [0, 100, 200, 300, 400, 500, 600, 700]) (tl [0, 100, 200, 300, 400, 500, 600, 700])"
    by (simp add: c saturating_sub_def)
  moreover have "char_time_35_ns 9600 \<le> saturating_sub 9000000 (last [0, 100, 200, 300, 400, 500, 600, 700])"
    by (simp add: c saturating_sub_def)
  ultimately show ?thesis
    using framer_spoils_frame [OF sample_frame, of "[0, 100, 200, 300, 400, 500, 600, 700]" 9600 9000000 2] by (simp only: list.sel list.size) auto
qed

section \<open>Receiving\<close>

text \<open>The line falls silent: sooner or later no byte is there at a time past the deadline.\<close>

inductive falls_silent :: "'u uart_ops \<Rightarrow> u64 \<Rightarrow> 'u \<Rightarrow> bool" for ops deadline where
  silence: "ua_read_byte ops u = (v, None) \<Longrightarrow> ua_now_ns ops v = (w, now) \<Longrightarrow> deadline \<le> now \<Longrightarrow> falls_silent ops deadline u"
| later: "ua_read_byte ops u = (v, r) \<Longrightarrow> ua_now_ns ops v = (w, now) \<Longrightarrow> falls_silent ops deadline w \<Longrightarrow> falls_silent ops deadline u"

lemma recv_loop_returns:
  "falls_silent ops deadline u \<Longrightarrow> \<exists>r. recv_loop ops u f deadline = Some r"
proof (induction u arbitrary: f rule: falls_silent.induct)
  case (silence u v w now)
  then show ?case by (subst recv_loop.simps) (auto split: prod.split option.split)
next
  case (later u v r w now)
  then show ?case
    by (subst recv_loop.simps) (auto split: prod.split option.split sum.split)
qed

text \<open>The line never falls silent for as long as the silence that ends a frame.\<close>

coinductive chatters :: "'u uart_ops \<Rightarrow> u64 \<Rightarrow> 'u \<Rightarrow> u64 \<Rightarrow> bool" for ops gap where
  "ua_read_byte ops u = (v, Some b) \<Longrightarrow> ua_now_ns ops v = (w, now) \<Longrightarrow> saturating_sub now last_ns < gap \<Longrightarrow>
     chatters ops gap w now \<Longrightarrow> chatters ops gap u last_ns"

definition hung_at :: "'u uart_ops \<Rightarrow> 'u \<Rightarrow> rtu_framer \<Rightarrow> bool" where
  "hung_at ops u f \<longleftrightarrow>
     (\<exists>bs v b w now. fr_holds f bs \<and> ua_read_byte ops u = (v, Some b) \<and> ua_now_ns ops v = (w, now) \<and> within_frame f now \<and>
        chatters ops (char_time_35_ns (fr_baud f)) w now)"

lemma hung_at_next:
  assumes "hung_at ops u f"
  obtains v b w now f' q where "ua_read_byte ops u = (v, Some b)" "ua_now_ns ops v = (w, now)" "feed_byte f b now = (f', q)"
    "q = Inr None \<or> q = Inl ()" "hung_at ops w f'"
proof -
  obtain bs v b w now where h: "fr_holds f bs" "ua_read_byte ops u = (v, Some b)" "ua_now_ns ops v = (w, now)" "within_frame f now"
    "chatters ops (char_time_35_ns (fr_baud f)) w now" using assms by (auto simp: hung_at_def)
  obtain f' q bs' where q: "feed_byte f b now = (f', q)" "q = Inr None \<or> q = Inl ()" "fr_holds f' bs'" "fr_last_byte_ns f' = now" "fr_baud f' = fr_baud f"
  proof (cases "length bs < 256")
    case True
    then show thesis using that feed_within [OF h(1,4), of b] by blast
  next
    case False
    then have "length bs = 256" using h(1) by (simp add: fr_holds_def)
    then show thesis using that feed_full [OF h(1,4), of b] by blast
  qed
  obtain v2 b2 w2 t2 where n: "ua_read_byte ops w = (v2, Some b2)" "ua_now_ns ops v2 = (w2, t2)"
    "saturating_sub t2 now < char_time_35_ns (fr_baud f)" "chatters ops (char_time_35_ns (fr_baud f)) w2 t2"
    using h(5) by (auto elim: chatters.cases)
  then have "hung_at ops w f'" using q(3-5) by (auto simp: hung_at_def within_frame_def)
  then show thesis using that h q by blast
qed

lemma recv_loop_hangs: "hung_at ops u f \<Longrightarrow> recv_loop ops u f deadline = None"
proof (rule ccontr)
  assume h: "hung_at ops u f" and "recv_loop ops u f deadline \<noteq> None"
  then obtain r where "recv_loop ops u f deadline = Some r" by blast
  then have "\<not> hung_at ops u f"
  proof (rule recv_loop.raw_induct [rotated])
    fix loop :: "'u uart_ops \<Rightarrow> 'u \<Rightarrow> rtu_framer \<Rightarrow> u64 \<Rightarrow> ('u \<times> rtu_framer \<times> (driver_error + bytes)) option"
    fix ops :: "'u uart_ops" and u :: 'u and f deadline r
    assume ih: "\<And>ops u f deadline r. loop ops u f deadline = Some r \<Longrightarrow> \<not> hung_at ops u f"
      and s: "(case ua_read_byte ops u of
        (u, Some byte) \<Rightarrow>
          (case ua_now_ns ops u of (u, now) \<Rightarrow>
             (case feed_byte f byte now of
                (f, Inr (Some frame)) \<Rightarrow> if length frame \<le> RX_MAX then Some (u, f, Inr frame) else loop ops u f deadline
              | (f, Inr None) \<Rightarrow> loop ops u f deadline
              | (f, Inl _) \<Rightarrow> loop ops u f deadline))
      | (u, None) \<Rightarrow>
          (case ua_now_ns ops u of (u, now) \<Rightarrow>
             if deadline \<le> now then
               (case fr_flush f of (f, Some frame) \<Rightarrow> Some (u, f, Inr frame) | (f, None) \<Rightarrow> Some (u, f, Inl DrTimeout))
             else loop ops u f deadline)) = Some r"
    show "\<not> hung_at ops u f"
    proof
      assume "hung_at ops u f"
      then obtain v b w now f' q where "ua_read_byte ops u = (v, Some b)" "ua_now_ns ops v = (w, now)" "feed_byte f b now = (f', q)"
        "q = Inr None \<or> q = Inl ()" and h: "hung_at ops w f'" by (rule hung_at_next)
      then have "loop ops w f' deadline = Some r" using s by auto
      from ih [OF this] h show False by simp
    qed
  qed
  with h show False by simp
qed

text \<open>A babbling line blocks the receiver for ever: while bytes keep arriving without the silence that ends a frame, it looks
  neither at the deadline nor ends, although it is to return within its time limit.\<close>

theorem babbling_line_hangs:
  assumes "ua_now_ns ops uart = (u, start)" and "ua_read_byte ops u = (v, Some b)" and "ua_now_ns ops v = (w, now)"
    and "chatters ops (char_time_35_ns baud) w now"
  shows "rs485_recv ops (rs485_new uart baud) timeout_ms = None"
proof -
  have "hung_at ops u (fr_new baud)"
    unfolding hung_at_def using assms(2-4) fr_holds_new [of baud] by (auto simp: within_frame_def fr_new_def)
  then show ?thesis using assms(1) by (simp add: rs485_recv_def rs485_new_def recv_loop_hangs)
qed

text \<open>A line on which some station sends a byte every microsecond.\<close>

definition babbling_ops :: "u64 uart_ops" where
  "babbling_ops =
     \<lparr>ua_read_byte = (\<lambda>c. (c, Some 0x55)), ua_write_bytes = (\<lambda>c data. (c, Inr (length data))),
      ua_wait_tx_done = (\<lambda>c _. (c, Inr ())), ua_now_ns = (\<lambda>c. (c + 1000, c))\<rparr>"

lemma babbling_chatters: "chatters babbling_ops 4010417 (c + 1000) c"
proof (coinduction arbitrary: c)
  case chatters
  have "saturating_sub (c + 1000) c < 4010417"
  proof (cases "c \<le> c + 1000")
    case True
    then show ?thesis by (simp add: saturating_sub_def)
  qed (simp add: saturating_sub_def)
  then show ?case by (auto simp: babbling_ops_def)
qed

theorem babbling_line_hangs_witness: "rs485_recv babbling_ops (rs485_new 0 9600) 100 = None"
  by (rule babbling_line_hangs [where u = 1000 and start = 0 and v = 1000 and b = "0x55" and w = 2000 and now = 1000])
    (use babbling_chatters [of 1000] in \<open>simp_all add: babbling_ops_def char_time_35_ns_def\<close>)

text \<open>On a line that falls silent the receiver returns: a frame, or a timeout when nothing was received.\<close>

theorem recv_returns:
  assumes "ua_now_ns ops (rt_uart t) = (u, start)" and "falls_silent ops (saturating_add start (ucast timeout_ms * 1000000)) u"
  shows "\<exists>t' r. rs485_recv ops t timeout_ms = Some (t', r)"
  using recv_loop_returns [OF assms(2), of "rt_framer t"] assms(1) by (auto simp: rs485_recv_def)

section \<open>Coils\<close>

lemma upt_8: "[0..<8] = [0, 1, 2, 3, 4, 5, 6, 7]"
  by (simp add: upt_rec)

lemma bit_coil_byte:
  assumes "k < 8"
  shows "bit (coil_byte vals j) k \<longleftrightarrow> j * 8 + k < length vals \<and> vals ! (j * 8 + k)"
proof -
  have "k \<in> {0, 1, 2, 3, 4, 5, 6, 7}" using assms by auto
  then show ?thesis unfolding coil_byte_def upt_8
    by (elim insertE emptyE) (simp_all add: Let_def bit_or_iff bit_push_bit_iff)
qed

text \<open>Coils are read back as they were packed.\<close>

lemma coils_roundtrip:
  assumes "0 < length vals" and "length vals \<le> 1968"
  shows "parse_bit_data (drop 4 (rq_encode_data (RqWriteMultipleCoils s a vals))) (of_nat (length vals)) = Some (Inr vals)"
proof -
  let ?n = "length vals" and ?m = "(length vals + 7) div 8"
  let ?d = "of_nat ?m # map (coil_byte vals) [0..<?m]"
  have d: "drop 4 (rq_encode_data (RqWriteMultipleCoils s a vals)) = ?d" by (simp add: Let_def)
  have n: "unat (of_nat ?n :: u16) = ?n" "unat (of_nat ?m :: u8) = ?m"
    using assms by (simp_all add: unsigned_of_nat take_bit_nat_eq_self)
  have byte: "i div 8 < ?m" if "i < ?n" for i using that by linarith
  have bits: "(?d ! (1 + i div 8)) AND push_bit (i mod 8) 1 \<noteq> 0 \<longleftrightarrow> vals ! i" if "i < ?n" for i
  proof -
    have "?d ! (1 + i div 8) = coil_byte vals (i div 8)" using byte [OF that] by simp
    moreover have "w AND push_bit k 1 \<noteq> 0 \<longleftrightarrow> bit w k" for w :: u8 and k by (simp add: and_exp_eq_0_iff_not_bit push_bit_eq_mult)
    ultimately show ?thesis using bit_coil_byte [of "i mod 8" vals "i div 8"] that by simp
  qed
  have "map (\<lambda>i. ?d ! (1 + i div 8) AND push_bit (i mod 8) 1 \<noteq> 0) [0..<?n] = vals"
    using bits by (intro nth_equalityI) simp_all
  moreover have "\<not> (\<exists>i \<in> set [0..<?n]. length ?d \<le> 1 + i div 8)" using byte by (auto simp: not_le)
  ultimately show ?thesis unfolding d parse_bit_data_def by (simp add: n del: map_map)
qed

end
