(* ===== verification/Float_Int.thy ===== *)
theory Float_Int
  imports Float32
begin

text \<open>
  Integers in binary64: numbers of up to 53 bits are represented exactly, the order of non-negative values is the order
  of their magnitudes, and casting back gives the integer.
\<close>

lemma f64_of_mag:
  assumes "M < 2 ^ 63"
  shows "unat (take_bit 63 (of_nat M :: f64)) = M" and "\<not> bit (of_nat M :: f64) 63"
proof -
  have u: "unat (of_nat M :: f64) = M" using assms by (simp add: unsigned_of_nat take_bit_nat_eq_self)
  then show t: "unat (take_bit 63 (of_nat M :: f64)) = M"
    using assms unfolding unsigned_take_bit_eq by (simp add: take_bit_nat_eq_self)
  show "\<not> bit (of_nat M :: f64) 63" using unat_f64 [of "of_nat M"] t u by auto
qed

lemma f64_representable:
  assumes "0 < m" and "m < 2 ^ 53" and "53 \<le> k" and "k \<le> 1990"
  shows "\<exists>z. f64_is_finite z \<and> \<not> bit z 63 \<and> f64_units z = m * 2 ^ k"
proof -
  obtain b where b: "2 ^ b \<le> m" "m < 2 ^ (b + 1)" using ex_power_ivl1 [of 2 m] assms(1) by auto
  have b52: "b \<le> 52"
  proof (rule ccontr)
    assume "\<not> b \<le> 52"
    then have "(2::nat) ^ 53 \<le> 2 ^ b" by (intro power_increasing) auto
    with b(1) assms(2) show False by linarith
  qed
  define f where "f = m * 2 ^ (52 - b) - 2 ^ 52"
  define e where "e = Suc (k + b - 52)"
  have lo: "2 ^ 52 \<le> m * 2 ^ (52 - b)"
  proof -
    have "(2::nat) ^ b * 2 ^ (52 - b) \<le> m * 2 ^ (52 - b)" using b(1) by simp
    then show ?thesis using b52 by (simp flip: power_add)
  qed
  have hi: "m * 2 ^ (52 - b) < 2 ^ 53"
  proof -
    have "m * 2 ^ (52 - b) < 2 ^ (b + 1) * 2 ^ (52 - b)" using b(2) by simp
    also have "(2::nat) ^ (b + 1) * 2 ^ (52 - b) = 2 ^ 53" using b52 by (simp only: power_add [symmetric]) simp
    finally show ?thesis .
  qed
  have f: "f < 2 ^ 52" "2 ^ 52 + f = m * 2 ^ (52 - b)" using lo hi by (simp_all add: f_def)
  have e: "e < 2047" "e \<noteq> 0" using assms(4) b52 by (simp_all add: e_def)
  let ?M = "e * 2 ^ 52 + f"
  have M: "?M < 2 ^ 63" using e(1) f(1) by simp
  let ?z = "of_nat ?M :: f64"
  have x: "f64_ex ?z = e" "f64_frac ?z = f"
    unfolding f64_ex_def f64_frac_def f64_of_mag(1) [OF M] using f(1) by simp_all
  have "f64_units ?z = m * 2 ^ (52 - b) * 2 ^ (k + b - 52)"
    using x e(2) f(2) by (simp add: f64_units_def) (simp add: e_def)
  also have "\<dots> = m * 2 ^ k" using b52 assms(3) by (simp add: mult.assoc flip: power_add)
  finally have "f64_units ?z = m * 2 ^ k" .
  moreover have "f64_is_finite ?z" using x(1) e(1) unfolding f64_is_finite_def by simp
  ultimately show ?thesis using f64_of_mag(2) [OF M] by blast
qed

lemma f64_units_less:
  assumes "unat (take_bit 63 x) < unat (take_bit 63 y)"
  shows "f64_units x < f64_units y"
proof -
  have m: "f64_ex x * 2 ^ 52 + f64_frac x < f64_ex y * 2 ^ 52 + f64_frac y" using assms by (simp add: f64_mag)
  show ?thesis
  proof (cases "f64_ex x = f64_ex y")
    case True
    then have "f64_frac x < f64_frac y" using m by simp
    then show ?thesis using True by (simp add: f64_units_def)
  next
    case False
    then have lt: "f64_ex x < f64_ex y" using m f64_frac_less [of y] by (cases "f64_ex y < f64_ex x") auto
    then obtain k where k: "f64_ex y = Suc k" by (cases "f64_ex y") auto
    have "f64_units x < 2 ^ 52 * 2 ^ k"
    proof (cases "f64_ex x")
      case 0
      then have "f64_units x < 2 ^ 52" using f64_frac_less [of x] by (simp add: f64_units_def)
      also have "\<dots> \<le> 2 ^ 52 * 2 ^ k" by simp
      finally show ?thesis .
    next
      case (Suc j)
      have "f64_units x < 2 ^ 53 * 2 ^ j" using Suc f64_frac_less [of x] by (simp add: f64_units_def)
      also have "\<dots> = 2 ^ 52 * 2 ^ Suc j" by simp
      also have "\<dots> \<le> 2 ^ 52 * 2 ^ k" using lt Suc k by (intro mult_left_mono power_increasing) auto
      finally show ?thesis .
    qed
    also have "\<dots> \<le> f64_units y" using k by (simp add: f64_units_def)
    finally show ?thesis .
  qed
qed

lemma f64_le_units:
  assumes "f64_is_finite x" "f64_is_finite y" "\<not> bit x 63" "\<not> bit y 63"
  shows "f64_le x y \<longleftrightarrow> f64_units x \<le> f64_units y"
proof -
  have u: "unat x = unat (take_bit 63 x)" "unat y = unat (take_bit 63 y)" using unat_f64 [of x] unat_f64 [of y] assms(3,4) by simp_all
  have "f64_le x y \<longleftrightarrow> unat (take_bit 63 x) \<le> unat (take_bit 63 y)"
    using f64_finite_not_special [OF assms(1)] f64_finite_not_special [OF assms(2)] assms(3,4) u
    by (simp add: f64_le_def f64_key_def word_le_nat_alt flip: word_le_def)
  moreover have "f64_units x = f64_units y" if "unat (take_bit 63 x) = unat (take_bit 63 y)"
    using that by (simp add: f64_units_def f64_ex_def f64_frac_def)
  ultimately show ?thesis
    using f64_units_less [of x y] f64_units_less [of y x]
    by (cases "unat (take_bit 63 x)" "unat (take_bit 63 y)" rule: linorder_cases) auto
qed

section \<open>Natural numbers\<close>

abbreviation f64_nat :: "nat \<Rightarrow> f64" where
  "f64_nat n \<equiv> f64_of_i64 (of_nat n)"

lemma f64_nat_units:
  assumes "n < 2 ^ 53"
  shows "f64_is_finite (f64_nat n) \<and> \<not> bit (f64_nat n) 63 \<and> f64_units (f64_nat n) = n * 2 ^ 1074"
proof -
  have s: "sint (of_nat n :: i64) = int n"
    using assms by (simp add: signed_of_nat signed_take_bit_int_eq_self)
  show ?thesis
  proof (cases "n = 0")
    case True
    then show ?thesis by (simp add: f64_of_i64_def round_frac_def f64_mk_def Let_def f64_eval bit_len.simps)
  next
    case False
    obtain z where z: "f64_is_finite z" "\<not> bit z 63" "f64_units z = n * 2 ^ 1074"
      using f64_representable [of n 1074] assms False by auto
    have "f64_nat n = f64_mk (bit z 63) (round_frac (f64_units z) 1)" using z(2,3) s by (simp add: f64_of_i64_def)
    then have "f64_nat n = z" using round_frac_units [OF z(1)] f64_mk_mag by simp
    then show ?thesis using z by simp
  qed
qed

lemma f64_half_units: "f64_is_finite 0x3FE0000000000000" "f64_int 0x3FE0000000000000 = 2 ^ 1073"
  "f64_units 0x3FE0000000000000 = 2 ^ 1073"
  by (simp_all add: f64_eval)

lemma f64_trunc_units:
  assumes "f64_is_finite x" "\<not> bit x 63"
  shows "f64_trunc lo hi x = max lo (min hi (int (f64_units x div 2 ^ 1074)))"
  using f64_finite_not_special [OF assms(1)] assms(2) by (simp add: f64_trunc_def Let_def del: power_numeral)

text \<open>Adding a half and truncating gives the integer back.\<close>

lemma f64_nat_plus_half:
  assumes "n < 2 ^ 52"
  shows "f64_as_i64 (f64_add (f64_nat n) 0x3FE0000000000000) = of_nat n"
proof -
  have v: "f64_is_finite (f64_nat n)" "\<not> bit (f64_nat n) 63" "f64_units (f64_nat n) = n * 2 ^ 1074"
    using f64_nat_units [of n] assms by auto
  obtain z where z: "f64_is_finite z" "\<not> bit z 63" "f64_units z = (2 * n + 1) * 2 ^ 1073"
    using f64_representable [of "2 * n + 1" 1073] assms by auto
  have p: "(2::nat) ^ 1074 = 2 * 2 ^ 1073" by (simp only: power_Suc [symmetric]) simp
  have "f64_add (f64_nat n) 0x3FE0000000000000 = z"
  proof (rule f64_add_exact)
    show "f64_int (f64_nat n) + f64_int 0x3FE0000000000000 = f64_int z"
      unfolding f64_half_units(2) using v(2,3) z(2,3) p by (simp add: f64_int_def algebra_simps del: power_numeral)
    have "f64_units z \<noteq> 0" unfolding z(3) by (simp del: power_numeral)
    then show "f64_int z \<noteq> 0" using z(2) by (simp add: f64_int_def)
  qed (use v z f64_half_units in simp_all)
  moreover have "f64_units z div 2 ^ 1074 = n" unfolding z(3) p by (simp add: div_mult2_eq del: power_numeral)
  ultimately have "f64_as_i64 (f64_add (f64_nat n) 0x3FE0000000000000) = word_of_int (max (- (2 ^ 63)) (min (2 ^ 63 - 1) (int n)))"
    using f64_trunc_units [OF z(1,2)] by (simp add: f64_as_i64_def)
  also have "max (- (2 ^ 63)) (min (2 ^ 63 - 1) (int n)) = int n" using assms by simp
  finally show ?thesis by simp
qed

end
