(* ===== verification/Modbus_Safety.thy ===== *)
theory Modbus_Safety
  imports Modbus_Master Modbus_Line Device_Safety Float_Int
begin

text \<open>
  What the Modbus master and adapter guarantee, and what they mean to the device agent that uses them.
\<close>

section \<open>Register access does not panic\<close>

definition reg_request :: "modbus_request \<Rightarrow> bool" where
  "reg_request req \<longleftrightarrow> (case req of RqReadCoils _ _ _ \<Rightarrow> False | RqReadDiscreteInputs _ _ _ \<Rightarrow> False | _ \<Rightarrow> True)"

lemma parse_response_returns: "reg_request req \<Longrightarrow> \<exists>r. parse_response req frame = Some r"
  by (cases req) (auto simp: parse_response_def reg_request_def Let_def)

lemma attempt_loop_returns: "reg_request req \<Longrightarrow> \<exists>x. attempt_loop ops m req n = Some x"
proof (induction n arbitrary: m)
  case (Suc n)
  then show ?case
    using parse_response_returns [of req]
    by (auto simp: Let_def split: prod.split sum.split modbus_error.split driver_error.split)
qed simp

lemma send_request_returns: "reg_request req \<Longrightarrow> \<exists>x. send_request_with_retry ops m req = Some x"
  using attempt_loop_returns [of req ops m "Suc (unat (mm_retry_count m))"]
  by (auto simp: send_request_with_retry_def Let_def simp del: attempt_loop.simps split: prod.split sum.split)

lemma read_holding_returns: "\<exists>x. read_holding_registers ops m s a q = Some x"
  using send_request_returns [of "RqReadHoldingRegisters s a q" ops m]
  by (auto simp: read_holding_registers_def expecting_def reg_request_def)

lemma write_single_returns: "\<exists>x. write_single_register ops m s a v = Some x"
  using send_request_returns [of "RqWriteSingleRegister s a v" ops m]
  by (auto simp: write_single_register_def expecting_def reg_request_def)

lemma mo_read_returns: "\<exists>x. mo_read_point ops d p = Some x"
proof (cases "find_mapping d p")
  case None
  then show ?thesis by (simp add: mo_read_point_def)
next
  case (Some r)
  obtain m raw where "read_holding_registers ops (mo_master d) (rg_slave_addr r) (rg_reg_addr r) (word_count r) = Some (m, raw)"
    using read_holding_returns by fast
  then show ?thesis using Some by (simp add: mo_read_point_def Let_def)
qed

lemma mo_write_returns: "\<exists>x. mo_write_authorized ops d cmd v = Some x"
proof (cases "find_mapping d (ac_point_id cmd)")
  case None
  then show ?thesis by (simp add: mo_write_authorized_def)
next
  case (Some r)
  have "\<exists>x. mo_write_point ops d (ac_point_id cmd) v = Some x"
  proof (cases "mo_raw_value r v")
    case (Inr raw)
    obtain m q where "write_single_register ops (mo_master d) (rg_slave_addr r) (rg_reg_addr r) raw = Some (m, q)"
      using write_single_returns by fast
    then show ?thesis using Some Inr by (simp add: mo_write_point_def)
  qed (simp add: Some mo_write_point_def)
  then show ?thesis by (auto simp: mo_write_authorized_def)
qed

section \<open>Behind the ingress\<close>

text \<open>Every sample the adapter reads carries time zero.\<close>

lemma mo_read_time:
  assumes "mo_read_point ops d p = Some (d', Inr dp)"
  shows "dp_timestamp_ms dp = 0"
proof -
  obtain r where r: "find_mapping d p = Some r" "mo_is_up d" "rg_access r \<noteq> WriteOnly"
    using assms by (auto simp: mo_read_point_def split: if_splits option.splits)
  obtain m raw where q: "read_holding_registers ops (mo_master d) (rg_slave_addr r) (rg_reg_addr r) (word_count r) = Some (m, raw)"
    using read_holding_returns by fast
  show ?thesis using assms r q by (cases "and_then raw (reg_convert r)") (auto simp: mo_read_point_def Let_def)
qed

lemma modbus_sample_time:
  assumes "read_telemetry_sample (modbus_ops ops) info name = (info', Some s)"
  shows "fs_timestamp_epoch s = 0"
proof -
  obtain p where p: "bt_get (di_point_map info) name = Some p"
    using assms by (auto simp: read_telemetry_sample_def split: option.splits)
  obtain d r where r: "mo_read_point ops (di_adapter info) p = Some (d, r)" using mo_read_returns by fast
  obtain dp where "r = Inr dp" using assms p r by (cases r) (auto simp: read_telemetry_sample_def modbus_ops_def)
  then show ?thesis
    using assms p r mo_read_time [of ops "di_adapter info" p d dp]
    by (auto simp: read_telemetry_sample_def modbus_ops_def split: option.splits)
qed

definition stale_grid :: "feedback_bundle \<Rightarrow> bool" where
  "stale_grid b \<longleftrightarrow> fs_quality (fb_grid_up b) \<noteq> Good \<or> fs_timestamp_epoch (fb_grid_up b) = 0"

lemma feedback_loop_stale:
  assumes "feedback_loop (modbus_ops ops) info b names = (info', b')" and "stale_grid b"
  shows "stale_grid b'"
  using assms
proof (induction names arbitrary: info b)
  case (Cons name names)
  obtain i2 s where r: "read_telemetry_sample (modbus_ops ops) info name = (i2, s)" by fastforce
  show ?case
  proof (cases s)
    case None
    then show ?thesis using Cons r by auto
  next
    case (Some x)
    have "stale_grid (set_feedback name x b)"
      using modbus_sample_time [OF r [unfolded Some]] Cons.prems(2) by (simp add: stale_grid_def set_feedback_def)
    then show ?thesis using Cons r Some by auto
  qed
qed simp

lemma modbus_feedback_untrusted:
  assumes "ingress_feedback (modbus_ops ops) devices i now = (devices1, fb)" and "max_age < now"
  shows "\<not> bundle_trusted fb now max_age"
proof -
  have "stale_grid (fb_untrusted now)" by (simp add: stale_grid_def fb_untrusted_def Let_def)
  then have "stale_grid fb"
    using assms(1) feedback_loop_stale by (fastforce simp: ingress_feedback_def Let_def split: option.splits prod.splits)
  then show ?thesis using assms(2) by (auto simp: stale_grid_def bundle_trusted_def trusted_def saturating_sub_def)
qed

text \<open>Without trusted feedback the write operation is not used.\<close>

lemma read_sample_no_write: "read_telemetry_sample (ops\<lparr>ad_write := w\<rparr>) info name = read_telemetry_sample ops info name"
  by (simp add: read_telemetry_sample_def cong: option.case_cong)

lemma feedback_loop_no_write: "feedback_loop (ops\<lparr>ad_write := w\<rparr>) info b names = feedback_loop ops info b names"
  by (induction names arbitrary: info b) (simp_all add: read_sample_no_write)

lemma ingress_feedback_no_write: "ingress_feedback (ops\<lparr>ad_write := w\<rparr>) devices i now = ingress_feedback ops devices i now"
  by (simp add: ingress_feedback_def feedback_loop_no_write Let_def cong: option.case_cong prod.case_cong)

lemma adapter_not_audited [simp]:
  "log_audit (env\<lparr>ie_adapter := a\<rparr>) ig ev t = log_audit env ig ev t"
  "ingress_deny (env\<lparr>ie_adapter := a\<rparr>) ig cls reason ctx t = ingress_deny env ig cls reason ctx t"
  "audit_event_of (env\<lparr>ie_adapter := a\<rparr>) ig actor device point c what t = audit_event_of env ig actor device point c what t"
proof -
  show l: "log_audit (env\<lparr>ie_adapter := a\<rparr>) ig ev t = log_audit env ig ev t" for ig ev t
    by (simp add: log_audit_def Let_def cong: sum.case_cong prod.case_cong)
  show "ingress_deny (env\<lparr>ie_adapter := a\<rparr>) ig cls reason ctx t = ingress_deny env ig cls reason ctx t"
    by (simp add: ingress_deny_def l Let_def cong: option.case_cong)
  show "audit_event_of (env\<lparr>ie_adapter := a\<rparr>) ig actor device point c what t = audit_event_of env ig actor device point c what t"
    by (simp add: audit_event_of_def l)
qed

lemma judge_no_write:
  assumes "ie_adapter env = modbus_ops ops" and "cc_feedback_max_age_secs (ig_chain ig) < now_ms div 1000"
  shows "ingress_judge (env\<lparr>ie_adapter := (modbus_ops ops)\<lparr>ad_write := w\<rparr>\<rparr>) ig devices bs e kw i now_ms =
    ingress_judge env ig devices bs e kw i now_ms"
    and "ingress_judge env ig devices bs e kw i now_ms = Some (ig', devices', out) \<Longrightarrow> \<not> is_written out"
proof -
  obtain devices1 fb where f: "ingress_feedback (modbus_ops ops) devices i (now_ms div 1000) = (devices1, fb)" by fastforce
  let ?c = "chain_select (ig_chain ig) (env_point_id e) (now_ms div 1000)"
  obtain c res where x: "chain_execute ?c bs (now_ms div 1000) fb = (c, res)" by fastforce
  have "\<not> bundle_trusted fb (now_ms div 1000) (cc_feedback_max_age_secs ?c)"
    using modbus_feedback_untrusted [OF f assms(2)] by (simp add: chain_select_def)
  then have ne: "res \<noteq> Executed cmd obs" for cmd obs
    using chain_execute_Executed_iff [of ?c bs "now_ms div 1000" fb] x by (auto simp: chain_admits_def)
  show "ingress_judge (env\<lparr>ie_adapter := (modbus_ops ops)\<lparr>ad_write := w\<rparr>\<rparr>) ig devices bs e kw i now_ms =
    ingress_judge env ig devices bs e kw i now_ms"
  proof (cases res)
    case (Executed cmd obs)
    then show ?thesis using ne by blast
  qed (use f x assms(1) in \<open>simp_all add: ingress_judge_def ingress_feedback_no_write Let_def\<close>)
  assume "ingress_judge env ig devices bs e kw i now_ms = Some (ig', devices', out)"
  from ingress_judge_unwritten [OF this] f x ne assms(1) show "\<not> is_written out" by (cases res) auto
qed

text \<open>C39. The device agent never writes a Modbus device: samples of the adapter carry time zero, so once the agent runs longer
  than the freshness limit of its chain, the feedback of a Modbus device is never trusted. Whatever frame arrives, the
  outcome is not an applied one, and the agent does the same whatever the write operation of the adapter is: it is not
  called.\<close>

theorem modbus_device_never_written:
  assumes "ie_adapter env = modbus_ops ops" and "cc_feedback_max_age_secs (ig_chain ig) < now_ms div 1000"
    and "process env ig devices payload now_ms = Some (ig', devices', out)"
  shows "\<not> is_written out \<and>
    process (env\<lparr>ie_adapter := (modbus_ops ops)\<lparr>ad_write := w\<rparr>\<rparr>) ig devices payload now_ms = Some (ig', devices', out)"
proof -
  have "process (env\<lparr>ie_adapter := (modbus_ops ops)\<lparr>ad_write := w\<rparr>\<rparr>) ig devices payload now_ms = process env ig devices payload now_ms"
    by (simp add: process_def judge_no_write(1) [OF assms(1,2)] Let_def cong: option.case_cong sum.case_cong prod.case_cong if_cong)
  moreover have "\<not> is_written out"
    using assms(3) judge_no_write(2) [OF assms(1,2)] by (cases rule: process_cases) blast+
  ultimately show ?thesis using assms(3) by simp
qed

section \<open>Writing and reading back\<close>

lemma f64_one_units: "f64_is_finite f64_1" "f64_units f64_1 = 2 ^ 1074" "\<not> bit f64_1 63"
  by (simp_all add: f64_eval)

lemma f64_sub_0:
  assumes "f64_is_finite x"
  shows "f64_sub x 0 = x"
proof -
  have n: "f64_neg 0 = 0x8000000000000000" by (simp add: f64_neg_def)
  have z: "f64_int 0x8000000000000000 = 0" "\<not> f64_is_nan 0x8000000000000000" "\<not> f64_is_infinite 0x8000000000000000"
    by (simp_all add: f64_eval f64_is_nan_def f64_is_infinite_def)
  note fin = f64_finite_not_special [OF assms]
  show ?thesis
  proof (cases "f64_units x = 0")
    case True
    with f64_mk_mag [of x] have "x = (if bit x 63 then 0x8000000000000000 else 0)" by (auto simp: f64_units_0_iff f64_mk_def)
    then show ?thesis using True fin z by (auto simp: f64_sub_def n f64_add_def f64_int_def)
  next
    case False
    then have "f64_sub x 0 = f64_mk (bit x 63) (round_frac (f64_units x) 1)"
      using fin z by (simp add: f64_sub_def n f64_add_def f64_int_def Let_def)
    then show ?thesis using round_frac_units [OF assms] f64_mk_mag by simp
  qed
qed

lemma f64_div_1: "f64_is_finite x \<Longrightarrow> f64_div x f64_1 = x"
  using f64_one_units by (intro f64_div_exact) simp_all

lemma f64_mul_1: "f64_is_finite x \<Longrightarrow> f64_mul x f64_1 = x"
  using f64_one_units by (intro f64_mul_exact) simp_all

text \<open>Points of one unsigned register in its own unit.\<close>

definition plain_point :: "reg_to_point \<Rightarrow> bool" where
  "plain_point p \<longleftrightarrow> rg_data_type p = MtU16 \<and> rg_scale p = f64_1 \<and> rg_offset p = f64_0 \<and> rg_access p = ReadWrite \<and>
     1 \<le> rg_slave_addr p \<and> rg_slave_addr p \<le> 247"

lemma inverse_plain:
  assumes "plain_point p" and "n < 65536"
  shows "inverse_convert p (f64_nat n) = Inr (of_nat n)"
proof -
  have v: "f64_is_finite (f64_nat n)" "\<not> bit (f64_nat n) 63" "f64_units (f64_nat n) = n * 2 ^ 1074"
    using f64_nat_units [of n] assms(2) by auto
  have top: "f64_is_finite 0x40EFFFE000000000" "\<not> bit (0x40EFFFE000000000 :: f64) 63" "f64_units 0x40EFFFE000000000 = 65535 * 2 ^ 1074"
    by (simp_all add: f64_eval)
  have zero: "f64_is_finite 0" "f64_units 0 = 0" by (simp_all add: f64_eval)
  have "n * 2 ^ 1074 \<le> 65535 * (2 ^ 1074 :: nat)" using assms(2) by (intro mult_right_mono) simp_all
  then have w: "f64_within f64_0 0x40EFFFE000000000 (f64_nat n)"
    using v top zero by (simp add: f64_within_def f64_le_units del: power_numeral)
  have "f64_le f64_0 (f64_nat n)" using w by (simp add: f64_within_def)
  then have r: "round_f64 (f64_nat n) = f64_nat n" using f64_nat_plus_half [of n] assms(2) by (simp add: round_f64_def)
  have "f64_as_u16 (f64_nat n) = of_nat n"
    unfolding f64_as_u16_def f64_trunc_units [OF v(1,2)] v(3) using assms(2) by (simp del: power_numeral)
  moreover have "\<not> f64_lt (f64_abs f64_1) 0x3CB0000000000000" by (simp add: f64_lt_def f64_abs_def f64_key_def)
  ultimately show ?thesis
    using assms(1) v(1) w r by (simp add: inverse_convert_def plain_point_def f64_sub_0 f64_div_1 Let_def)
qed

lemma convert_plain:
  assumes "plain_point p" and "n < 65536"
  shows "reg_convert p [of_nat n] = Inr (f64_nat n)"
proof -
  have v: "f64_is_finite (f64_nat n)" "\<not> bit (f64_nat n) 63" using f64_nat_units [of n] assms(2) by auto
  have "ucast (of_nat n :: u16) = (of_nat n :: i64)"
    using assms(2) by (intro word_unat_eq_iff [THEN iffD2]) (simp add: unsigned_of_nat unsigned_ucast_eq take_bit_nat_eq_self)
  moreover have "f64_nat n \<noteq> 0x8000000000000000" using v(2) by auto
  ultimately show ?thesis using assms(1) v(1)
    by (simp add: reg_convert_def plain_point_def scaled_def f64_mul_1 f64_add_0)
qed

text \<open>Slaves that answer as the protocol prescribes: a register write is echoed and stored, a register read returns the
  registers and changes none.\<close>

definition conforming :: "'t rtu_ops \<Rightarrow> ('t \<Rightarrow> u8 \<Rightarrow> u16 \<Rightarrow> u16) \<Rightarrow> bool" where
  "conforming ops regs \<longleftrightarrow>
     (\<forall>t s a v timeout. 1 \<le> s \<and> s \<le> 247 \<longrightarrow>
        (\<exists>t1 t2. tr_send ops t (build_frame s (RqWriteSingleRegister s a v)) = (t1, Inr ()) \<and>
           tr_recv ops t1 timeout = (t2, Inr (mf_encode (mf_new s 6 (be_bytes 2 a @ be_bytes 2 v)))) \<and>
           regs t2 = (regs t)(s := (regs t s)(a := v)))) \<and>
     (\<forall>t s a q timeout. 1 \<le> s \<and> s \<le> 247 \<and> 1 \<le> q \<and> q \<le> 125 \<longrightarrow>
        (\<exists>t1 t2. tr_send ops t (build_frame s (RqReadHoldingRegisters s a q)) = (t1, Inr ()) \<and>
           tr_recv ops t1 timeout = (t2, Inr (mf_encode (mf_new s 3
             (of_nat (2 * unat q) # concat (map (be_bytes 2) (map (\<lambda>i. regs t s (a + of_nat i)) [0..<unat q])))))) \<and>
           regs t2 = regs t))"

lemma mf_decode_encode: "mf_decode (mf_encode (mf_new s f d)) = Inr (mf_new s f d)"
  by (simp add: modbus_decode_iff mf_new_def)

lemma be_bytes_2: "be_bytes 2 (w :: u16) = [ucast (drop_bit 8 w), ucast w]"
  by (simp add: be_bytes_def le_bytes_2)

lemma from_be_2: "from_be [ucast (drop_bit 8 w), ucast w] = (w :: u16)"
proof -
  have "from_be [ucast (drop_bit 8 w), ucast w] = from_le (le_bytes 2 w)" by (simp add: from_be_def le_bytes_2)
  also have "\<dots> = w" by (rule from_le_le_bytes_full) simp
  finally show ?thesis .
qed

lemma reg_pairs_concat: "2 * (n + length ws) \<le> c \<Longrightarrow> reg_pairs (concat (map (be_bytes 2) ws)) c n = ws"
  by (induction ws arbitrary: n) (simp_all add: be_bytes_2 from_be_2)

lemma mf_new_fields [simp]: "mf_slave_addr (mf_new s f d) = s" "mf_func_code (mf_new s f d) = f" "mf_data (mf_new s f d) = d"
  by (simp_all add: mf_new_def)

text \<open>A request that is answered at once.\<close>

lemma send_request_answered:
  assumes "rq_slave_addr req = s" "1 \<le> s" "s \<le> 247" and "tr_send ops (mm_transport m) (build_frame s req) = (t1, Inr ())"
    and "tr_recv ops t1 (mm_timeout_ms m) = (t2, Inr (mf_encode (mf_new s f d)))" and "parse_response req (mf_new s f d) = Some r"
  shows "\<exists>m'. send_request_with_retry ops m req = Some (m', r) \<and> mm_transport m' = t2"
proof -
  have "s \<noteq> 0" "\<not> 247 < s" using assms(2,3) by auto
  then show ?thesis using assms(1,4-6) by (simp add: send_request_with_retry_def Let_def mf_decode_encode)
qed

lemma write_conforming:
  assumes "conforming ops regs" and "1 \<le> s" "s \<le> 247"
  shows "\<exists>m'. write_single_register ops m s a v = Some (m', Inr ()) \<and>
    regs (mm_transport m') = (regs (mm_transport m))(s := (regs (mm_transport m) s)(a := v))"
proof -
  let ?d = "be_bytes 2 a @ be_bytes 2 v"
  obtain t1 t2 where t: "tr_send ops (mm_transport m) (build_frame s (RqWriteSingleRegister s a v)) = (t1, Inr ())"
    "tr_recv ops t1 (mm_timeout_ms m) = (t2, Inr (mf_encode (mf_new s 6 ?d)))"
    "regs t2 = (regs (mm_transport m))(s := (regs (mm_transport m) s)(a := v))"
    using assms unfolding conforming_def by blast
  have "\<exists>x y. parse_response (RqWriteSingleRegister s a v) (mf_new s 6 ?d) = Some (Inr (RsWriteSingleRegister x y))"
    by (simp add: parse_response_def parse_pair_def Let_def)
  then show ?thesis using send_request_answered [OF _ assms(2,3) t(1,2)] t(3)
    by (fastforce simp: write_single_register_def expecting_def)
qed

lemma read_conforming:
  assumes "conforming ops regs" and "1 \<le> s" "s \<le> 247" and "1 \<le> q" "q \<le> 125"
  shows "\<exists>m'. read_holding_registers ops m s a q = Some (m', Inr (map (\<lambda>i. regs (mm_transport m) s (a + of_nat i)) [0..<unat q])) \<and>
    regs (mm_transport m') = regs (mm_transport m)"
proof -
  let ?ws = "map (\<lambda>i. regs (mm_transport m) s (a + of_nat i)) [0..<unat q]"
  let ?d = "of_nat (2 * unat q) # concat (map (be_bytes 2) ?ws)"
  obtain t1 t2 where t: "tr_send ops (mm_transport m) (build_frame s (RqReadHoldingRegisters s a q)) = (t1, Inr ())"
    "tr_recv ops t1 (mm_timeout_ms m) = (t2, Inr (mf_encode (mf_new s 3 ?d)))" "regs t2 = regs (mm_transport m)"
    using assms unfolding conforming_def by blast
  have q: "unat q \<le> 125" using assms(5) by (simp add: word_le_nat_alt)
  have c: "unat (of_nat (2 * unat q) :: u8) = 2 * unat q"
    using q by (simp add: unsigned_of_nat take_bit_nat_eq_self del: of_nat_mult)
  have l: "length (concat (map (be_bytes 2) ?ws)) = 2 * unat q" by (simp add: length_concat comp_def sum_list_triv)
  have "parse_reg_read ?d = Inr ?ws"
    using reg_pairs_concat [of 0 ?ws "2 * unat q"] c l by (simp add: parse_reg_read_def del: of_nat_mult)
  then have "parse_response (RqReadHoldingRegisters s a q) (mf_new s 3 ?d) = Some (Inr (RsReadHoldingRegisters ?ws))"
    by (simp add: parse_response_def del: of_nat_mult)
  from send_request_answered [OF _ assms(2,3) t(1,2) this]
  obtain m' where "send_request_with_retry ops m (RqReadHoldingRegisters s a q) = Some (m', Inr (RsReadHoldingRegisters ?ws))" "mm_transport m' = t2"
    by auto
  moreover have "q \<noteq> 0" "\<not> 125 < q" using assms(4,5) by auto
  ultimately show ?thesis using t(3) by (simp add: read_holding_registers_def expecting_def)
qed

text \<open>The adapter over conforming slaves: a write sets the register of the point, a read converts its registers.\<close>

definition reaches :: "'t modbus_adapter \<Rightarrow> u32 \<Rightarrow> reg_to_point \<Rightarrow> bool" where
  "reaches d point_id p \<longleftrightarrow> mo_is_up d \<and> find_mapping d point_id = Some p \<and> rg_access p = ReadWrite \<and>
     1 \<le> rg_slave_addr p \<and> rg_slave_addr p \<le> 247"

lemma reaches_transport: "reaches (d\<lparr>mo_transport := t\<rparr>) point_id p \<longleftrightarrow> reaches d point_id p"
  by (simp add: reaches_def find_mapping_def mo_is_up_def)

lemma mo_master_transport: "mm_transport (mo_master d) = mo_transport d"
  by (simp add: mo_master_def mm_new_def)

lemma write_point_conforming:
  assumes "conforming ops regs" and "reaches d (ac_point_id cmd) p" and "ac_device_id cmd = mo_device_id d"
    and "inverse_convert p f = Inr raw"
  obtains t where "mo_write_authorized ops d cmd (PvFloat f) = Some (d\<lparr>mo_transport := t\<rparr>, Inr None)"
    "regs t = (regs (mo_transport d))(rg_slave_addr p := (regs (mo_transport d) (rg_slave_addr p))(rg_reg_addr p := raw))"
proof -
  have "1 \<le> rg_slave_addr p" "rg_slave_addr p \<le> 247" using assms(2) by (simp_all add: reaches_def)
  from write_conforming [OF assms(1) this, of "mo_master d" "rg_reg_addr p" raw]
  obtain m where m: "write_single_register ops (mo_master d) (rg_slave_addr p) (rg_reg_addr p) raw = Some (m, Inr ())"
    "regs (mm_transport m) = (regs (mo_transport d))(rg_slave_addr p := (regs (mo_transport d) (rg_slave_addr p))(rg_reg_addr p := raw))"
    unfolding mo_master_transport by blast
  have "mo_write_authorized ops d cmd (PvFloat f) = Some (d\<lparr>mo_transport := mm_transport m\<rparr>, Inr None)"
    using assms(2-4) m(1) by (simp add: mo_write_authorized_def mo_write_point_def mo_raw_value_def map_err_def reaches_def)
  with m(2) that show thesis by blast
qed

lemma read_point_conforming:
  assumes "conforming ops regs" and "reaches d point_id p"
    and "reg_convert p (map (\<lambda>i. regs (mo_transport d) (rg_slave_addr p) (rg_reg_addr p + of_nat i)) [0..<unat (word_count p)]) = Inr x"
  obtains t dp where "mo_read_point ops d point_id = Some (d\<lparr>mo_transport := t\<rparr>, Inr dp)" "dp_value dp = PvFloat x"
    "regs t = regs (mo_transport d)"
proof -
  have r: "1 \<le> rg_slave_addr p" "rg_slave_addr p \<le> 247" using assms(2) by (simp_all add: reaches_def)
  have "1 \<le> word_count p" "word_count p \<le> 125" by (simp_all add: word_count_def split: modbus_data_type.split)
  from read_conforming [OF assms(1) r this, of "mo_master d" "rg_reg_addr p"]
  obtain m where m: "read_holding_registers ops (mo_master d) (rg_slave_addr p) (rg_reg_addr p) (word_count p) =
      Some (m, Inr (map (\<lambda>i. regs (mo_transport d) (rg_slave_addr p) (rg_reg_addr p + of_nat i)) [0..<unat (word_count p)]))"
    "regs (mm_transport m) = regs (mo_transport d)"
    unfolding mo_master_transport by blast
  have "\<exists>dp. mo_read_point ops d point_id = Some (d\<lparr>mo_transport := mm_transport m\<rparr>, Inr dp) \<and> dp_value dp = PvFloat x"
    using assms(2,3) m(1) by (simp add: mo_read_point_def reaches_def and_then_def Let_def)
  then show thesis using that m(2) by blast
qed

text \<open>C30. What is written to a plain Modbus point is read back: over a line to conforming slaves, an authorized write of a whole
  number below 65536 sets exactly the register of the point to that number, and reading the point then gives the number
  and changes no register.\<close>

theorem modbus_write_read_back:
  assumes "conforming ops regs" and "mo_is_up d" and "find_mapping d (ac_point_id cmd) = Some p" and "plain_point p"
    and "ac_device_id cmd = mo_device_id d" and "n < 65536"
  shows "\<exists>d1 d2 dp. mo_write_authorized ops d cmd (PvFloat (f64_nat n)) = Some (d1, Inr None) \<and>
    regs (mo_transport d1) = (regs (mo_transport d))
      (rg_slave_addr p := (regs (mo_transport d) (rg_slave_addr p))(rg_reg_addr p := of_nat n)) \<and>
    mo_read_point ops d1 (ac_point_id cmd) = Some (d2, Inr dp) \<and> dp_value dp = PvFloat (f64_nat n) \<and>
    regs (mo_transport d2) = regs (mo_transport d1)"
proof -
  have r: "reaches d (ac_point_id cmd) p" "word_count p = 1"
    using assms(2-4) by (simp_all add: reaches_def plain_point_def word_count_def)
  obtain t1 where t1: "mo_write_authorized ops d cmd (PvFloat (f64_nat n)) = Some (d\<lparr>mo_transport := t1\<rparr>, Inr None)"
    "regs t1 = (regs (mo_transport d))(rg_slave_addr p := (regs (mo_transport d) (rg_slave_addr p))(rg_reg_addr p := of_nat n))"
    by (rule write_point_conforming [OF assms(1) r(1) assms(5) inverse_plain [OF assms(4,6)]])
  let ?d1 = "d\<lparr>mo_transport := t1\<rparr>"
  have "reg_convert p (map (\<lambda>i. regs (mo_transport ?d1) (rg_slave_addr p) (rg_reg_addr p + of_nat i)) [0..<unat (word_count p)]) = Inr (f64_nat n)"
    using convert_plain [OF assms(4,6)] by (simp add: r(2) t1(2))
  then obtain t2 dp where t2: "mo_read_point ops ?d1 (ac_point_id cmd) = Some (?d1\<lparr>mo_transport := t2\<rparr>, Inr dp)"
    "dp_value dp = PvFloat (f64_nat n)" "regs t2 = regs (mo_transport ?d1)"
    using read_point_conforming [OF assms(1), of ?d1 "ac_point_id cmd" p] r(1) unfolding reaches_transport by blast
  show ?thesis
    by (rule exI [of _ ?d1], rule exI [of _ "?d1\<lparr>mo_transport := t2\<rparr>"], rule exI [of _ dp])
      (use t1 t2 in \<open>simp del: of_nat_add of_nat_mult\<close>)
qed

section \<open>A register bank\<close>

text \<open>A slave with its registers and the response it is about to give.\<close>

definition bank_send :: "(u8 \<Rightarrow> u16 \<Rightarrow> u16) \<times> bytes option \<Rightarrow> bytes \<Rightarrow> ((u8 \<Rightarrow> u16 \<Rightarrow> u16) \<times> bytes option) \<times> (driver_error + unit)" where
  "bank_send t data =
     (case mf_decode data of
        Inl _ \<Rightarrow> (t, Inr ())
      | Inr f \<Rightarrow>
        (let s = mf_slave_addr f; a = from_be (slice 0 2 (mf_data f)); v = from_be (slice 2 4 (mf_data f)) :: u16
         in if mf_func_code f = 6
            then (((fst t)(s := (fst t s)(a := v)), Some (mf_encode (mf_new s 6 (mf_data f)))), Inr ())
            else ((fst t, Some (mf_encode (mf_new s 3
                   (of_nat (2 * unat v) # concat (map (be_bytes 2) (map (\<lambda>i. fst t s (a + of_nat i)) [0..<unat v])))))), Inr ())))"

definition bank_ops :: "((u8 \<Rightarrow> u16 \<Rightarrow> u16) \<times> bytes option) rtu_ops" where
  "bank_ops =
     \<lparr>tr_send = bank_send,
      tr_recv = (\<lambda>t _. case snd t of None \<Rightarrow> (t, Inl DrTimeout) | Some b \<Rightarrow> ((fst t, None), Inr b))\<rparr>"

lemma bank_decodes:
  "mf_decode (build_frame s req) = Inr (mf_new s (fc_byte (rq_func_code req)) (rq_encode_data req))"
  by (simp add: build_frame_def mf_decode_encode)

lemma bank_conforming: "conforming bank_ops fst"
  unfolding conforming_def
  by (intro conjI allI impI)
    (simp_all add: bank_ops_def bank_send_def bank_decodes be_bytes_2 slice_def from_be_2 del: of_nat_mult)

definition bank_point :: reg_to_point where
  "bank_point = \<lparr>rg_point_id = 10, rg_point_name = str ''active_power'', rg_slave_addr = 1, rg_reg_addr = 40, rg_data_type = MtU16,
     rg_scale = f64_1, rg_offset = f64_0, rg_access = ReadWrite\<rparr>"

definition bank_adapter :: "((u8 \<Rightarrow> u16 \<Rightarrow> u16) \<times> bytes option) modbus_adapter" where
  "bank_adapter = \<lparr>mo_transport = ((\<lambda>_ _. 0), None), mo_timeout_ms = 100, mo_retry_count = 2, mo_mappings = [bank_point],
     mo_device_id = 7, mo_state = AsRunning\<rparr>"

theorem modbus_write_read_back_witness:
  "\<exists>d1 d2 dp. mo_write_authorized bank_ops bank_adapter demo_cmd (PvFloat (f64_nat 100)) = Some (d1, Inr None) \<and>
     fst (mo_transport d1) 1 40 = 100 \<and> mo_read_point bank_ops d1 10 = Some (d2, Inr dp) \<and> dp_value dp = PvFloat (f64_nat 100)"
proof -
  have c: "ac_point_id demo_cmd = 10" "ac_device_id demo_cmd = 7"
    by (simp_all add: demo_cmd_def authorized_of_def demo_builder_def builder_defs)
  have "find_mapping bank_adapter (ac_point_id demo_cmd) = Some bank_point"
    by (simp add: find_mapping_def bank_adapter_def bank_point_def c)
  moreover have "plain_point bank_point" by (simp add: plain_point_def bank_point_def)
  moreover have "mo_is_up bank_adapter" "ac_device_id demo_cmd = mo_device_id bank_adapter"
    by (simp_all add: mo_is_up_def bank_adapter_def c)
  ultimately obtain d1 d2 dp where
    "mo_write_authorized bank_ops bank_adapter demo_cmd (PvFloat (f64_nat 100)) = Some (d1, Inr None)"
    "fst (mo_transport d1) = (fst (mo_transport bank_adapter))
      (rg_slave_addr bank_point := (fst (mo_transport bank_adapter) (rg_slave_addr bank_point))(rg_reg_addr bank_point := of_nat 100))"
    "mo_read_point bank_ops d1 (ac_point_id demo_cmd) = Some (d2, Inr dp)" "dp_value dp = PvFloat (f64_nat 100)"
    using modbus_write_read_back [OF bank_conforming, of bank_adapter demo_cmd bank_point 100] by auto
  then show ?thesis by (auto simp: c bank_point_def)
qed

section \<open>Where the master and the adapter go wrong\<close>

text \<open>Points of two registers in their own unit: read as high word, low word.\<close>

definition wide_point :: "reg_to_point \<Rightarrow> bool" where
  "wide_point p \<longleftrightarrow> rg_data_type p = MtU32 \<and> rg_scale p = f64_1 \<and> rg_offset p = f64_0 \<and> rg_access p = ReadWrite \<and>
     1 \<le> rg_slave_addr p \<and> rg_slave_addr p \<le> 247"

lemma inverse_wide:
  assumes "wide_point p" and "n < 2 ^ 32"
  shows "inverse_convert p (f64_nat n) = Inr (of_nat n)"
proof -
  have v: "f64_is_finite (f64_nat n)" "\<not> bit (f64_nat n) 63" "f64_units (f64_nat n) = n * 2 ^ 1074"
    using f64_nat_units [of n] assms(2) by auto
  have top: "f64_is_finite 0x41EFFFFFFFE00000" "\<not> bit (0x41EFFFFFFFE00000 :: f64) 63" "f64_units 0x41EFFFFFFFE00000 = 4294967295 * 2 ^ 1074"
    by (simp_all add: f64_eval)
  have zero: "f64_is_finite 0" "f64_units 0 = 0" by (simp_all add: f64_eval)
  have "n * 2 ^ 1074 \<le> 4294967295 * (2 ^ 1074 :: nat)" using assms(2) by (intro mult_right_mono) simp_all
  then have w: "f64_within f64_0 0x41EFFFFFFFE00000 (f64_nat n)"
    using v top zero by (simp add: f64_within_def f64_le_units del: power_numeral)
  have "f64_le f64_0 (f64_nat n)" using w by (simp add: f64_within_def)
  then have r: "round_f64 (f64_nat n) = f64_nat n" using f64_nat_plus_half [of n] assms(2) by (simp add: round_f64_def)
  have "max 0 (min (2 ^ 64 - 1) (int n)) = int n" using assms(2) by simp
  then have "f64_as_u64 (f64_nat n) = of_nat n"
    unfolding f64_as_u64_def f64_trunc_units [OF v(1,2)] v(3) by (simp del: power_numeral)
  moreover have "ucast ((of_nat n :: u64) AND 0xFFFF) = (of_nat n :: u16)"
  proof (rule bit_word_eqI)
    fix k assume "k < LENGTH(16)"
    moreover have "bit (0xFFFF :: u64) k \<longleftrightarrow> k < 16"
      using bit_mask_iff [of 16 k, where 'a = u64] by (auto simp: mask_eq_exp_minus_1)
    ultimately show "bit (ucast ((of_nat n :: u64) AND 0xFFFF) :: u16) k \<longleftrightarrow> bit (of_nat n :: u16) k"
      by (auto simp: bit_ucast_iff bit_and_iff bit_of_nat_iff)
  qed
  moreover have "\<not> f64_lt (f64_abs f64_1) 0x3CB0000000000000" by (simp add: f64_lt_def f64_abs_def f64_key_def)
  ultimately show ?thesis
    using assms(1) v(1) w r by (simp add: inverse_convert_def wide_point_def f64_sub_0 f64_div_1 Let_def)
qed

lemma two_words_nat: "(ucast (two_words [h, l]) :: i64) = of_nat (unat h * 65536 + unat l)"
proof -
  have b: "unat h < 2 ^ 16" "unat l < 2 ^ 16" using unsigned_less [of h] unsigned_less [of l] by simp_all
  have "push_bit 16 (ucast h) OR ucast l = (push_bit 16 (ucast h) + ucast l :: u32)"
  proof (rule disjunctive_add [symmetric])
    fix k
    show "\<not> bit (push_bit 16 (ucast h) :: u32) k \<or> \<not> bit (ucast l :: u32) k"
      using bit_imp_le_length [of l k] by (auto simp: bit_push_bit_iff bit_ucast_iff)
  qed
  then have "unat (two_words [h, l]) = (unat h * 65536 + unat l) mod 2 ^ 32"
    by (simp add: two_words_def push_bit_eq_mult unat_word_ariths unsigned_ucast_eq take_bit_eq_mod mod_simps mult.commute)
  then have "unat (two_words [h, l]) = unat h * 65536 + unat l" using b by simp
  then show ?thesis by (metis of_nat_unat)
qed

lemma convert_wide:
  assumes "wide_point p"
  shows "reg_convert p [h, l] = Inr (f64_nat (unat h * 65536 + unat l))"
proof -
  have "unat h < 2 ^ 16" "unat l < 2 ^ 16" using unsigned_less [of h] unsigned_less [of l] by simp_all
  then have v: "f64_is_finite (f64_nat (unat h * 65536 + unat l))" "\<not> bit (f64_nat (unat h * 65536 + unat l)) 63"
    using f64_nat_units [of "unat h * 65536 + unat l"] by auto
  then have "f64_nat (unat h * 65536 + unat l) \<noteq> 0x8000000000000000" by auto
  then show ?thesis using assms v(1) two_words_nat [of h l]
    by (simp add: reg_convert_def wide_point_def scaled_def f64_mul_1 f64_add_0 del: of_nat_add of_nat_mult)
qed

text \<open>A point of two registers is written wrong: a write of a whole number is confirmed, but only its low word is written, and
  to the register of the high word; the register of the low word keeps its content, and reading the point gives another
  number.\<close>

theorem wide_point_written_wrong:
  assumes "conforming ops regs" and "mo_is_up d" and "find_mapping d (ac_point_id cmd) = Some p" and "wide_point p"
    and "ac_device_id cmd = mo_device_id d" and "n < 2 ^ 32"
  shows "\<exists>d1 d2 dp. mo_write_authorized ops d cmd (PvFloat (f64_nat n)) = Some (d1, Inr None) \<and>
    regs (mo_transport d1) = (regs (mo_transport d))
      (rg_slave_addr p := (regs (mo_transport d) (rg_slave_addr p))(rg_reg_addr p := of_nat n)) \<and>
    mo_read_point ops d1 (ac_point_id cmd) = Some (d2, Inr dp) \<and>
    dp_value dp = PvFloat (f64_nat (n mod 65536 * 65536 + unat (regs (mo_transport d) (rg_slave_addr p) (rg_reg_addr p + 1))))"
proof -
  let ?old = "regs (mo_transport d) (rg_slave_addr p) (rg_reg_addr p + 1)"
  have r: "reaches d (ac_point_id cmd) p" "word_count p = 2"
    using assms(2-4) by (simp_all add: reaches_def wide_point_def word_count_def)
  obtain t1 where t1: "mo_write_authorized ops d cmd (PvFloat (f64_nat n)) = Some (d\<lparr>mo_transport := t1\<rparr>, Inr None)"
    "regs t1 = (regs (mo_transport d))(rg_slave_addr p := (regs (mo_transport d) (rg_slave_addr p))(rg_reg_addr p := of_nat n))"
    by (rule write_point_conforming [OF assms(1) r(1) assms(5) inverse_wide [OF assms(4,6)]])
  let ?d1 = "d\<lparr>mo_transport := t1\<rparr>" and ?v = "f64_nat (n mod 65536 * 65536 + unat ?old)"
  have "[0..<unat (2 :: u16)] = [0, 1]" by (simp add: upt_rec)
  moreover have "unat (of_nat n :: u16) = n mod 65536" by (simp add: unsigned_of_nat take_bit_eq_mod)
  ultimately have "reg_convert p (map (\<lambda>i. regs (mo_transport ?d1) (rg_slave_addr p) (rg_reg_addr p + of_nat i)) [0..<unat (word_count p)]) = Inr ?v"
    using convert_wide [OF assms(4), of "of_nat n" ?old] by (simp add: r(2) t1(2) del: of_nat_add of_nat_mult)
  then obtain t2 dp where t2: "mo_read_point ops ?d1 (ac_point_id cmd) = Some (?d1\<lparr>mo_transport := t2\<rparr>, Inr dp)" "dp_value dp = PvFloat ?v"
    using read_point_conforming [OF assms(1), of ?d1 "ac_point_id cmd" p] r(1) unfolding reaches_transport by blast
  show ?thesis
    by (rule exI [of _ ?d1], rule exI [of _ "?d1\<lparr>mo_transport := t2\<rparr>"], rule exI [of _ dp])
      (use t1 t2 in \<open>simp del: of_nat_add of_nat_mult\<close>)
qed

theorem wide_point_written_wrong_witness:
  "\<exists>d1 d2 dp. mo_write_authorized bank_ops (bank_adapter\<lparr>mo_mappings := [bank_point\<lparr>rg_data_type := MtU32\<rparr>]\<rparr>) demo_cmd
       (PvFloat (f64_nat 65537)) = Some (d1, Inr None) \<and>
     mo_read_point bank_ops d1 10 = Some (d2, Inr dp) \<and> dp_value dp = PvFloat (f64_nat 65536)"
proof -
  let ?p = "bank_point\<lparr>rg_data_type := MtU32\<rparr>"
  let ?d = "bank_adapter\<lparr>mo_mappings := [?p]\<rparr>"
  have c: "ac_point_id demo_cmd = 10" "ac_device_id demo_cmd = 7"
    by (simp_all add: demo_cmd_def authorized_of_def demo_builder_def builder_defs)
  have "find_mapping ?d (ac_point_id demo_cmd) = Some ?p" by (simp add: find_mapping_def bank_point_def c)
  moreover have "wide_point ?p" by (simp add: wide_point_def bank_point_def)
  moreover have "mo_is_up ?d" "ac_device_id demo_cmd = mo_device_id ?d" by (simp_all add: mo_is_up_def bank_adapter_def c)
  moreover have "fst (mo_transport ?d) s a = 0" for s a by (simp add: bank_adapter_def)
  ultimately show ?thesis
    using wide_point_written_wrong [OF bank_conforming, of ?d demo_cmd ?p 65537] by (fastforce simp: c)
qed

text \<open>A short coil response crashes the master: a response with a valid checksum whose byte count is smaller than the
  requested number of coils needs passes the length check, and the read of the missing byte panics.\<close>

theorem short_coil_response_panics:
  assumes "1 \<le> s" "s \<le> 247" and "1 \<le> q" "q \<le> 2000"
    and "tr_send ops (mm_transport m) (build_frame s (RqReadCoils s a q)) = (t1, Inr ())"
    and "tr_recv ops t1 (mm_timeout_ms m) = (t2, Inr (mf_encode (mf_new s 1 (of_nat (length bs) # bs))))"
    and "length bs < 256" and "8 * length bs < unat q"
  shows "read_coils ops m s a q = None"
proof -
  let ?d = "of_nat (length bs) # bs"
  have "unat (of_nat (length bs) :: u8) = length bs" using assms(7) by (simp add: unsigned_of_nat take_bit_nat_eq_self)
  moreover have "\<exists>i \<in> set [0..<unat q]. length ?d \<le> 1 + i div 8"
    using assms(8) by (intro bexI [of _ "8 * length bs"]) simp_all
  ultimately have "parse_bit_data ?d q = None" by (simp add: parse_bit_data_def)
  then have n: "parse_response (RqReadCoils s a q) (mf_new s 1 ?d) = None" by (simp add: parse_response_def parse_coils_def)
  have "s \<noteq> 0" "\<not> 247 < s" "q \<noteq> 0" "\<not> 2000 < q" using assms(1-4) by auto
  then show ?thesis
    using assms(5,6) n by (simp add: read_coils_def expecting_def send_request_with_retry_def Let_def mf_decode_encode)
qed

theorem short_coil_response_panics_witness:
  "read_coils \<lparr>tr_send = (\<lambda>t _. (t, Inr ())), tr_recv = (\<lambda>t _. (t, Inr (mf_encode (mf_new 1 1 [0]))))\<rparr> (mm_new () 100 0) 1 0 8 = None"
  by (rule short_coil_response_panics [where bs = "[]"]) (simp_all add: mm_new_def)

section \<open>Retries\<close>

text \<open>A transport that counts what is sent.\<close>

definition counted_ops :: "'t rtu_ops \<Rightarrow> ('t \<times> nat) rtu_ops" where
  "counted_ops ops =
     \<lparr>tr_send = (\<lambda>(t, n) data. case tr_send ops t data of (t, r) \<Rightarrow> ((t, Suc n), r)),
      tr_recv = (\<lambda>(t, n) timeout. case tr_recv ops t timeout of (t, r) \<Rightarrow> ((t, n), r))\<rparr>"

lemma attempts_bounded:
  assumes "attempt_loop (counted_ops ops) m req k = Some (m', r)"
  shows "snd (mm_transport m') \<le> snd (mm_transport m) + k"
  using assms
proof (induction k arbitrary: m)
  case (Suc k)
  obtain t n where m: "mm_transport m = (t, n)" by fastforce
  obtain t1 sent where s: "tr_send ops t (build_frame (rq_slave_addr req) req) = (t1, sent)" by fastforce
  obtain t2 got where g: "tr_recv ops t1 (mm_timeout_ms m) = (t2, got)" by fastforce
  have later: "snd (mm_transport m') \<le> Suc n + k" if "attempt_loop (counted_ops ops) m1 req k = Some (m', r)"
    "mm_transport m1 = (t2, Suc n)" for m1
    using Suc.IH [OF that(1)] that(2) by simp
  show ?case
    using Suc.prems m s g later
    by (auto simp: counted_ops_def Let_def split: sum.splits driver_error.splits modbus_error.splits if_splits; fastforce)
qed simp

text \<open>C31. A request is sent at most as often as configured: whatever the line does, the master sends a request once and
  repeats it at most as often as its retry count says.\<close>

theorem modbus_sends_bounded:
  assumes "send_request_with_retry (counted_ops ops) m req = Some (m', r)"
  shows "snd (mm_transport m') \<le> snd (mm_transport m) + 1 + unat (mm_retry_count m)"
proof -
  have a: "attempt_loop (counted_ops ops) m req (Suc (unat (mm_retry_count m))) = Some (m', r) \<Longrightarrow> ?thesis"
    using attempts_bounded by fastforce
  show ?thesis
    using assms a
    by (cases "mm_transport m")
      (auto simp: send_request_with_retry_def counted_ops_def Let_def simp del: attempt_loop.simps split: prod.splits sum.splits if_splits)
qed

theorem modbus_sends_bounded_witness:
  "\<exists>m' r. send_request_with_retry (counted_ops \<lparr>tr_send = (\<lambda>t _. (t, Inr ())), tr_recv = (\<lambda>t _. (t, Inl DrTimeout))\<rparr>)
      (mm_new ((), 0) 100 2) (RqReadHoldingRegisters 1 0 1) = Some (m', r) \<and> snd (mm_transport m') \<le> 3"
proof -
  let ?ops = "counted_ops \<lparr>tr_send = (\<lambda>t _. (t, Inr ())), tr_recv = (\<lambda>t _. (t, Inl DrTimeout))\<rparr>"
  obtain m' r where r: "send_request_with_retry ?ops (mm_new ((), 0) 100 2) (RqReadHoldingRegisters 1 0 1) = Some (m', r)"
    using send_request_returns [of "RqReadHoldingRegisters 1 0 1" ?ops "mm_new ((), 0) 100 2"] by (auto simp: reg_request_def)
  from modbus_sends_bounded [OF r] r show ?thesis by (auto simp: mm_new_def)
qed

text \<open>The plant with a Modbus converter in place of the virtual one.\<close>

definition modbus_env :: "(((u8 \<Rightarrow> u16 \<Rightarrow> u16) \<times> bytes option) modbus_adapter, unit, unit) ingress_env" where
  "modbus_env =
     \<lparr>ie_adapter = modbus_ops bank_ops, ie_increment = (\<lambda>m _ _. m), ie_log = (\<lambda>a ev. Some (a, Inl StorageWriteFailed)),
      ie_fixed = take, ie_text = (\<lambda>_. [])\<rparr>"

definition modbus_devices :: "((u8 \<Rightarrow> u16 \<Rightarrow> u16) \<times> bytes option) modbus_adapter device_registry" where
  "modbus_devices = [(str ''pcs'',
     \<lparr>di_device_type = DtPcs, di_device_id = 7, di_adapter = bank_adapter, di_point_map = di_point_map plant_info,
      di_registration = di_registration plant_info, di_available = True\<rparr>)]"

theorem modbus_device_never_written_witness:
  "\<exists>ig' devices' out. process modbus_env plant_ingress modbus_devices (plant_payload f64_100) 100000 = Some (ig', devices', out) \<and>
     \<not> is_written out"
proof -
  have "returns (process modbus_env plant_ingress modbus_devices (plant_payload f64_100) 100000)"
    by (rule process_returns) (simp add: modbus_env_def returns_def)
  then obtain ig' devices' out where p: "process modbus_env plant_ingress modbus_devices (plant_payload f64_100) 100000 = Some (ig', devices', out)"
    by (metis returns_def option.exhaust prod_cases3)
  have "cc_feedback_max_age_secs (chain_select (ig_chain plant_ingress) POINT_POWER 100) = 60"
    unfolding plant_chain by (simp add: demo_chain_eq demo_profile_def ai_pcc_single_def tuning_default_def)
  then have "cc_feedback_max_age_secs (ig_chain plant_ingress) < 100000 div 1000" by (simp add: chain_select_def)
  with modbus_device_never_written [of modbus_env bank_ops plant_ingress 100000 modbus_devices "plant_payload f64_100" ig' devices' out] p
  show ?thesis by (auto simp: modbus_env_def)
qed

end
