(* ===== verification/Spec2Isabelle.thy ===== *)
theory Spec2Isabelle
  imports Chain_Scenario Wire Boot_Store Virtual_Plant Durable_Log Supervisor Intent_Store
    Schedule_Guard Decision_Gate Audit_Chain End_To_End Modbus_Safety
begin

text \<open>
  \<^bold>\<open>EnerOS, the control path and what it stands on.\<close>

  EnerOS is an energy-controller operating system: services on seL4 that measure a plant and send
  it commands. This development models the code through which a command passes on its way from a plan
  or a protocol write to the register of a device, the stores that carry its state across power cuts,
  the cryptography and byte formats it rests on, the boot control that decides which image runs, and
  the supervisor that restarts services. Definitions follow the Rust sources under \<open>src/crates\<close>
  function by function.

  \<^bold>\<open>How the parts interact.\<close> The dispatch engine takes a plan of the decision chain or a write request
  of a field protocol. It has trusted telemetry as feedback, lets the control chain judge the signed
  command, applies the safety guard and the rate and energy budgets of the decision gate, logs the
  intent durably, delivers a wire frame over a channel, settles the intent by the outcome frame that
  comes back and writes the audit chain. The device agent receives the frame: it verifies the envelope,
  routes by device number, reads the device's own telemetry, has its own control chain judge the command,
  writes through the adapter (the virtual converter, a Modbus device), reads back and answers. The
  control chain itself is: gateway (decoding, authentication, time, replay), lease and fencing token,
  idempotency cache, override sessions, policy, select-before-operate, feedback reconciliation, safety
  validator. A control profile configures both sides. The boot manager selects a slot from the
  boot-control record, spends a try and persists the record atomically in two copies under an anchor.
  The log writes records to a block device; the region store and the outbox keep state and messages in
  checksummed slots of a medium.

  \<^bold>\<open>Theories and the code they model.\<close>
  \<^item> \<open>EnerOS_Prelude\<close>: Rust's integers as words (\<open>+\<close> wraps as in the release profile, which has no
    overflow checks), checked and saturating arithmetic, byte orders, slices, IEEE comparisons on
    \<open>f64\<close> bit patterns, results as sums; the locales \<open>codec\<close> and \<open>transition_system\<close>.
  \<^item> \<open>Float64\<close>, \<open>Float32\<close>, \<open>Float_Int\<close>: IEEE-754 arithmetic, conversions and casts on bit patterns, and
    the exactness facts on integers.
  \<^item> \<open>Ordered_Map\<close>: \<open>BTreeMap\<close> as a sorted association list; the locale \<open>ordered_map\<close>.
  \<^item> \<open>Command_Model\<close>: \<open>telemetry-model/src\<close> (commands, quality, units, point specifications).
  \<^item> \<open>SM3\<close>: \<open>security/crypto/src/sm3\<close>, \<open>constant_time.rs\<close>.
  \<^item> \<open>Envelope\<close>, \<open>Gateway\<close>, \<open>Lease\<close>, \<open>Idempotency\<close>, \<open>Override\<close>, \<open>Policy\<close>, \<open>Safety\<close>, \<open>Control_Chain\<close>,
    \<open>Profile\<close>, \<open>Virtual_Plant\<close>, \<open>Wire\<close>: the files of \<open>protocols/control-gateway/src\<close> with the
    corresponding names (\<open>Safety\<close> also holds \<open>reconcile.rs\<close>). \<open>Chain_Scenario\<close> is one concrete
    deployment for the witnesses.
  \<^item> \<open>Crc32\<close>: \<open>abi/ipc-wire/src/lib.rs\<close>, \<open>crc32\<close>.
  \<^item> \<open>Boot_Control\<close>: \<open>boot/boot-protocol/src/boot_control.rs\<close>; \<open>Boot_Store\<close>: the persistence and the
    slot loop of \<open>boot/boot-manager-uefi/src/main.rs\<close>.
  \<^item> \<open>Block_Device\<close>: \<open>drivers/storage/src\<close> (\<open>error.rs\<close>, \<open>bad_block.rs\<close>, \<open>driver/mock.rs\<close>) and the locale
    \<open>block_device\<close>; \<open>Durable_Log\<close>: \<open>runtime/durable-log/src/lib.rs\<close>, proved inside that locale and
    interpreted on the RAM-backed device.
  \<^item> \<open>Durable_State\<close>, \<open>Durable_Outbox\<close>: \<open>runtime/durable-state/src/lib.rs\<close> (the two-slot region store, the
    outbox and its in-memory reference).
  \<^item> \<open>Supervisor\<close>: \<open>runtime/root-task/src/supervisor.rs\<close>.
  \<^item> \<open>Intent_Store\<close>: \<open>control-dispatch/src/intent.rs\<close>, \<open>durable_intent.rs\<close>, on the outbox.
  \<^item> \<open>Schedule_Guard\<close>, \<open>Trusted_Telemetry\<close>: \<open>ai/safety-validator/src\<close> (rules and rule chain; \<open>trusted.rs\<close>)
    and the guard of the dispatch engine. \<open>Decision_Gate\<close>: \<open>ai/dual-brain/src/gate.rs\<close>. \<open>Audit_Chain\<close>:
    \<open>security/audit/src\<close> and \<open>ai/dual-brain/src/audit.rs\<close>.
  \<^item> \<open>Dispatch_Engine\<close>: \<open>control-dispatch/src/engine.rs\<close>, \<open>dispatch.rs\<close>, \<open>feedback.rs\<close>, \<open>channel.rs\<close>;
    \<open>Dispatch_Clearance\<close> its specification and the lemmas that connect the two, \<open>Dispatch_Safety\<close> and
    \<open>Dispatch_Refusal\<close> its properties.
  \<^item> \<open>Device_Registry\<close>, \<open>Device_Ingress\<close>: \<open>agents/device-agent/src\<close> (\<open>registry.rs\<close>, \<open>virtual_device.rs\<close>,
    \<open>capability_digest.rs\<close>; \<open>ingress.rs\<close>, \<open>delivery.rs\<close>) and the handler of \<open>svc-device-agent.rs\<close>;
    \<open>Device_Safety\<close> its properties. \<open>End_To_End\<close>: engine and device agent together.
  \<^item> \<open>Modbus_Frame\<close>, \<open>Modbus_Master\<close>: \<open>protocols/modbus-rtu/src\<close>; \<open>Modbus_Line\<close>, \<open>Modbus_Safety\<close> their
    properties.

  \<^bold>\<open>State and operations.\<close> A struct is a record, an enum a datatype, a method with \<open>&mut self\<close> a
  function that returns the new state beside its result; \<open>Err\<close> is \<open>Inl\<close>, a panic is \<open>None\<close>. Fixed-size
  arrays are byte lists whose length the well-formedness predicates carry. Trait objects and generic
  parameters are function-valued fields or a record of operations, with the laws a client relies on as a
  locale that is interpreted on the implementations in the repository. SHA-256, the verification of a boot
  image, the metrics collector and the printers of texts are parameters; the clock of the engine is the
  sequence of its readings.

  \<^bold>\<open>What is shown.\<close> Of the chain: the exact condition under which a command is executed; finality of
  revocation, at most one execution per idempotency key and refusal of replays over all interleavings
  of the chain's operations (the relation \<open>chain_step\<close>); bounded memory; agreement of issuer and
  verifier; and that a NaN grid reading counts as a live grid. Of the engine: delivery exactly of cleared
  requests, committed receipts only on confirmation, budgets over any run, well-formed receipts, and that
  a budget refusal can end in a committed receipt. Of the device agent: which frames change a device and
  how, no second write of a replayed envelope, a set point outside the signature; and with the engine, that
  a counted commit is one write of the dispatched power. Of telemetry: the exact condition of trust, strictly
  increasing sequence numbers. Of the codecs: decoding succeeds exactly on encodings. Of SM3: the streaming
  hasher and the HMAC equal their reference definitions. Of the audit chain: a change that the verifier
  accepts shows a hash collision at a position of the two chains. Of boot: selection respects the security floor,
  persistence is atomic under every power cut, the loop ends. Of the stores: the log, the region store, the
  outbox and the intent store refine lists and maps, survive restarts and power cuts, under the conditions
  their statements name. Of the supervisor: the restart rate. Of Modbus: burst errors are refused, what is
  written is read back, the number of transmissions is bounded, and feedback without a time blocks a Modbus
  device.

  \<^bold>\<open>Bounds.\<close> The boot loop is a recursion on fuel. Each round that does not return disables the slot
  it tried, and there are two slots, so fuel 3 always returns, as the termination property of \<open>Boot_Store\<close> proves.
  The receive loop of a serial line is a \<open>partial_function\<close>, since it may run forever, and a lemma shows a line
  on which it does; its return is proved for lines that fall silent. Every other loop is structural or has a
  termination proof: the scans of the log decrease the distance to the tail, the attempts of the Modbus master
  the retries left.

  \<^bold>\<open>Not modelled.\<close> \<open>check_ramp\<close> and \<open>si_scale_factor\<close> of the point model, audit and debug texts, the durable
  audit log, GPT parsing and the provisioning gate, commissioning and incident replay, the device snapshot
  (\<open>persist.rs\<close>), the agent above the device agent (\<open>agent.rs\<close>), metrics, the plugin layer of Modbus RTU,
  Modbus TCP, IEC 60870 and IEC 61850, the SOE engine, the A/B update, the root task beyond its supervisor,
  register-level drivers, markets and federation, solvers and model inference, build tools: they lie beside
  the control path or are calls of seL4, firmware and hardware.
\<close>

section \<open>The control path\<close>

text \<open>C1. The control chain is exactly its specification: a request is executed if and only if the envelope decodes and is authentic, in time and not replayed, its lease is active with the current fencing token, its idempotency key is not held, an emergency actor or an open policy rule permits it on a point no override holds, the point is selected, every feedback sample is fresh, good and in range, the validator finds no hazard, and no dry run is demanded.\<close>

theorem chain_executes_iff:
  "snd (chain_execute c buf now fb) = Executed cmd obs \<longleftrightarrow>
     chain_admits c buf now fb cmd obs \<and> DryRun \<notin> set obs"
  by (rule chain_execute_Executed_iff)

lemma chain_admits_role:
  assumes "chain_admits c buf now fb cmd obs"
    and "role_of (cc_safety c) (ucast (ac_device_id cmd)) (ac_point_id cmd) = Some PccBreaker"
    and "is_on (ac_command cmd)"
  shows "pc_grid_up (measured_context fb) \<and> \<not> fb_maintenance_lockout fb \<and>
    trusted (fb_grid_up fb) now (cc_feedback_max_age_secs c) f64_0 f64_1"
  using assms by (auto simp: chain_admits_def role_of_def unsafe_action_def bundle_trusted_def measured_context_def)

text \<open>C6. A breaker-close command is executed only on fresh, good-quality grid feedback, outside maintenance lockout, with a grid value in (0, 1]; a NaN value is the one that slips through the comparisons.\<close>

theorem pcc_close_needs_live_grid:
  assumes "snd (chain_execute c buf now fb) = Executed cmd obs" and "is_on (ac_command cmd)"
    and "role_of (cc_safety c) (ucast (ac_device_id cmd)) (ac_point_id cmd) = Some PccBreaker"
  shows "\<not> fb_maintenance_lockout fb \<and> fs_quality (fb_grid_up fb) = Good \<and>
     saturating_sub now (fs_timestamp_epoch (fb_grid_up fb)) \<le> cc_feedback_max_age_secs c \<and>
     (f64_is_nan (fs_value (fb_grid_up fb)) \<or>
      f64_lt f64_0 (fs_value (fb_grid_up fb)) \<and> f64_le (fs_value (fb_grid_up fb)) f64_1)"
proof -
  from assms(1) have "chain_admits c buf now fb cmd obs" by (simp add: chain_execute_Executed_iff)
  from chain_admits_role [OF this assms(3,2)] show ?thesis
    by (auto simp: trusted_def measured_context_def f64_lt_def f64_le_def f64_eq_def f64_is_nan_def)
qed

theorem pcc_close_needs_live_grid_witness:
  "f64_is_nan (fs_value (fb_grid_up demo_feedback)) \<or>
     f64_lt f64_0 (fs_value (fb_grid_up demo_feedback)) \<and> f64_le (fs_value (fb_grid_up demo_feedback)) f64_1"
  using pcc_close_needs_live_grid [OF demo_executes]
  by (simp add: is_on_def role_of_def demo_cmd_fields demo_chain_fields profile_safety_point_def
      demo_profile_def ai_pcc_single_def)

text \<open>C7. Revocation is final: after a lease is revoked, no sequence of chain operations (new leases, reseeding, policy changes, overrides, requests) makes a request under that lease anything but denied.\<close>

theorem revoked_lease_denied:
  assumes "chain_step\<^sup>*\<^sup>* (chain_revoke c i) d"
    and "env_decode buf = Inr env" and "env_lease_id env = i"
  shows "\<exists>r. snd (chain_execute d buf now fb) = Denied r"
proof (cases "snd (gw_authorize (cc_gateway d) buf now)")
  case (Inl e)
  then show ?thesis by (auto simp: chain_execute_split)
next
  case (Inr cmd)
  with assms(2,3) have "ac_lease_id cmd = i" by (auto simp: gw_authorize_Inr_iff authorized_of_def)
  with Inr chain_lease.revoked_forever [OF assms(1)] show ?thesis
    by (auto simp: chain_execute_split)
qed

theorem revoked_lease_denied_witness:
  "\<exists>r. snd (chain_execute (chain_select (chain_revoke demo_chain (replicate 16 1)) 10 100) demo_buf 100 demo_feedback) = Denied r"
  by (rule revoked_lease_denied [of demo_chain "replicate 16 1", OF r_into_rtranclp, OF select demo_decode])
    (simp add: demo_builder_def builder_defs)

text \<open>C8. At most one execution per idempotency key: after an execution, and as long as the cache has room for the operations in between and its lifetime has not passed, no request with the same key is executed, however the chain is used meanwhile.\<close>

theorem executed_at_most_once:
  assumes "snd (chain_execute c buf now fb) = Executed cmd obs"
    and "ac_idempotency_key cmd \<noteq> zeros 16"
    and "c' = fst (chain_execute c buf now fb)" and "(chain_step ^^ n) c' d"
    and "length (ic_entries (cc_idempotency c')) + n \<le> ic_cap (cc_idempotency c')"
    and "t \<le> saturating_add now (ic_ttl_secs (cc_idempotency c))"
    and "snd (chain_execute d buf' t fb') = Executed cmd' obs'"
  shows "ac_idempotency_key cmd' \<noteq> ac_idempotency_key cmd"
proof
  assume same: "ac_idempotency_key cmd' = ac_idempotency_key cmd"
  have "covered (cc_idempotency c') (ac_idempotency_key cmd)
      (saturating_add now (ic_ttl_secs (cc_idempotency c)))"
    unfolding assms(3) chain_execute_records [OF assms(1)] by (rule covered_record_same [OF assms(2)])
  with covered_steps [OF assms(4) _ assms(5)] covered_check assms(6)
  have "ic_check (cc_idempotency d) (ac_idempotency_key cmd) t \<noteq> None" by blast
  with assms(7) same show False by (auto simp: chain_execute_Executed_iff chain_admits_def)
qed

theorem executed_at_most_once_witness:
  "snd (chain_execute demo_next demo_buf 120 demo_feedback) \<noteq> Executed demo_cmd []"
proof
  assume again: "snd (chain_execute demo_next demo_buf 120 demo_feedback) = Executed demo_cmd []"
  show False
    using executed_at_most_once [OF demo_executes _ demo_after_def demo_next_step demo_idempotency_room _ again]
    by (simp add: demo_cmd_fields demo_chain_fields ic_new_def saturating_add_def)
qed

text \<open>C9. Replay window: a command id that passed the gateway is refused at the gateway for as many further chain operations as the replay cache holds.\<close>

theorem replay_denied:
  assumes "snd (gw_authorize (cc_gateway c) buf now) = Inr cmd"
    and "(chain_step ^^ n) (fst (chain_execute c buf now fb)) d"
    and "n < gw_replay_cache_cap (cc_gateway c)"
    and "env_decode buf = Inr env" and "env_decode buf' = Inr env'"
    and "env_command_id env' = env_command_id env"
  shows "\<exists>e. snd (chain_execute d buf' t fb') = Denied (GatewayDeny e)"
proof -
  have "remembered (cc_gateway (fst (chain_execute c buf now fb))) (env_command_id env) 0"
    using assms(1,3,4) by (auto simp: gw_authorize_Inr_iff gw_authorize_state intro: remembered_after_record)
  with remembered_steps [OF assms(2), of "env_command_id env" 0] assms(3)
  have "remembered (cc_gateway d) (env_command_id env) n" by simp
  with remembered_denied [OF _ assms(5,6)] obtain e where "snd (gw_authorize (cc_gateway d) buf' t) = Inl e"
    by blast
  then show ?thesis by (auto simp: chain_execute_split)
qed

theorem replay_denied_witness:
  "\<exists>e. snd (chain_execute demo_next demo_buf 120 demo_feedback) = Denied (GatewayDeny e)"
  by (rule replay_denied [OF demo_authorized demo_next_step [unfolded demo_after_def] _ demo_decode demo_decode refl])
    (simp add: demo_chain_fields)

text \<open>C36. Bounded memory: in every state that the chain's operations reach from a new chain, the replay cache holds at most its capacity of command ids and no id twice, the idempotency cache holds at most its capacity of entries (one entry when its capacity is zero, since the code inserts after it evicts), and the keys of the idempotency cache, the selections, the lease grants, the safety points and the override sessions are in strict order, as every lookup in these maps needs.\<close>

theorem chain_reachable:
  assumes "chain_init c" and "chain_step\<^sup>*\<^sup>* c d"
  shows "length (gw_replay_cache (cc_gateway d)) \<le> gw_replay_cache_cap (cc_gateway d) \<and>
    distinct (gw_replay_cache (cc_gateway d)) \<and>
    ic_len (cc_idempotency d) \<le> (if ic_cap (cc_idempotency d) = 0 then 1 else ic_cap (cc_idempotency d)) \<and>
    bt_inv (ic_entries (cc_idempotency d)) \<and> bt_inv (sbo_states (cc_sbo d)) \<and>
    bt_inv (lsv_grants (cc_lease_service d)) \<and> bt_inv (sv_table (cc_safety d)) \<and>
    bt_inv (oa_sessions (cc_override_auth d))"
  using chain_ts.inv_reachable [OF assms]
  by (auto simp: chain_inv_def gw_inv_def ic_inv_def ic_len_def max_def split: if_splits)

theorem chain_reachable_witness:
  "gw_replay_cache (cc_gateway demo_after) = [replicate 16 2] \<and>
   ic_check (cc_idempotency demo_after) (replicate 16 4) 100 = Some Applied \<and>
   0 < ic_len (cc_idempotency demo_after) \<and> ic_len (cc_idempotency demo_after) \<le> 64 \<and>
   bt_inv (ic_entries (cc_idempotency demo_after)) \<and> bt_inv (lsv_grants (cc_lease_service demo_after))"
proof -
  obtain c0 where "chain_init c0" "chain_step\<^sup>*\<^sup>* c0 demo_after" using demo_after_reachable by blast
  note bounded = chain_reachable [OF this]
  have cap: "ic_cap (cc_idempotency demo_after) = 64" by (simp add: demo_after_idempotency ic_new_def)
  have held: "ic_check (cc_idempotency demo_after) (replicate 16 4) 100 = Some Applied"
    by (simp add: demo_after_idempotency ic_check_record_same ic_new_def saturating_add_def)
  then have "0 < ic_len (cc_idempotency demo_after)" by (auto simp: ic_check_def ic_len_def)
  with bounded cap held demo_after_replay_cache show ?thesis by simp
qed

text \<open>Default deny: a chain that was never configured denies every request, whatever its parameters.\<close>

theorem unconfigured_chain_denies:
  "\<exists>r. snd (chain_execute (chain_new key skew cap pol age ttl icap sttl) buf now fb) = Denied r"
  by (cases "snd (gw_authorize (gw_new key skew cap) buf now)")
    (auto simp: chain_execute_split chain_new_def lease_new_def lease_check_def)

text \<open>C11. Both sides of a profile agree: on the chain assembled from a profile with its lease and a selection, a correctly signed request that carries the facts of the profile, in time and with trusted feedback that shows no hazard, is executed with no obligations.\<close>

theorem profile_executes:
  assumes "profile_ready key p t0 t1 = Some (c, token)" and "profile_usable p"
    and "request_fits p token b now"
    and "now \<le> saturating_add t0 (cp_lease_ttl_secs p)"
    and "now \<le> saturating_add t1 (ct_sbo_select_ttl_secs (cp_tuning p))"
    and "bundle_trusted fb now (ct_feedback_max_age_secs (cp_tuning p))"
    and "\<not> unsafe_action (profile_safety_point p) (eb_command b) (measured_context fb)"
  shows "snd (chain_execute c (env_encode (eb_build b key)) now fb) =
     Executed (authorized_of (eb_build b key) (ucast (cp_device_id p))) []"
  using profile_executes_lemma [OF assms] by (simp add: chain_execute_Executed_iff)

theorem profile_executes_witness:
  "snd (chain_execute demo_chain (env_encode (eb_build demo_builder demo_key)) 100 demo_feedback) =
     Executed (authorized_of (eb_build demo_builder demo_key) 7) []"
  using profile_executes [OF demo_ready _ demo_fits, of demo_feedback] demo_trusted demo_safe
  by (simp add: profile_usable_def demo_profile_def ai_pcc_single_def tuning_default_def saturating_add_def)

text \<open>C12. And nothing else is: whatever bytes arrive, an executed command carries the lease, the first token after the epoch seed, the device and the point of the profile, and (outside emergency) its policy version and actor kind.\<close>

theorem profile_executes_only:
  assumes "profile_ready key p t0 t1 = Some (c, token)"
    and "snd (chain_execute c buf now fb) = Executed cmd obs"
  shows "token = cp_epoch_seed p + 1 \<and> ac_lease_id cmd = cp_lease_id p \<and> ac_fencing_token cmd = token \<and>
     ac_point_id cmd = cp_point_id p \<and> ucast (ac_device_id cmd) = cp_device_id p \<and>
     now \<le> saturating_add t0 (cp_lease_ttl_secs p) \<and>
     (ac_actor_kind cmd \<noteq> Emergency \<longrightarrow>
        ac_policy_version cmd = cp_policy_version p \<and> ac_actor_kind cmd = cp_actor_kind p)"
proof -
  note c = assms(1) [unfolded profile_ready_Some_iff]
  from assms(2) have a: "chain_admits c buf now fb cmd obs" by (simp add: chain_execute_Executed_iff)
  have "ac_lease_id cmd = cp_lease_id p \<and> ac_fencing_token cmd = token \<and> now \<le> saturating_add t0 (cp_lease_ttl_secs p)"
    using a c by (auto simp: chain_admits_def lease_check_Valid_iff split: if_splits)
  moreover have "ac_point_id cmd = cp_point_id p \<and> ucast (ac_device_id cmd) = cp_device_id p"
    using a c by (auto simp: chain_admits_def split: if_splits)
  moreover have "ac_policy_version cmd = cp_policy_version p \<and> ac_actor_kind cmd = cp_actor_kind p"
    if "ac_actor_kind cmd \<noteq> Emergency"
    using a c that by (auto simp: chain_admits_def chain_permits_def pdp_decide_Allow_iff rule_covers_def
       profile_rule_def split: if_splits)
  ultimately show ?thesis using c by blast
qed

theorem profile_executes_only_witness:
  "ac_fencing_token demo_cmd = 41 + 1 \<and> ac_policy_version demo_cmd = 5"
  using profile_executes_only [OF demo_ready demo_executes]
  by (simp add: demo_profile_def ai_pcc_single_def demo_cmd_def authorized_of_def demo_builder_def builder_defs)

text \<open>The plant context read from a bundle whose grid value is a NaN is the one read from a bundle
  with the grid up: a NaN lies outside no range and differs from zero.\<close>

lemma reconcile_context_nan_grid:
  assumes "f64_is_nan v"
  shows "reconcile_context c (fb\<lparr>fb_grid_up := s\<lparr>fs_value := v\<rparr>\<rparr>) now =
     reconcile_context c (fb\<lparr>fb_grid_up := s\<lparr>fs_value := f64_1\<rparr>\<rparr>) now"
proof -
  have one: "\<not> f64_lt f64_1 f64_0" "\<not> f64_lt f64_1 f64_1" "\<not> f64_eq f64_1 f64_0"
    by (simp_all add: f64_lt_def f64_eq_def f64_key_def f64_is_nan_def)
  show ?thesis
    using f64_nan_unordered [OF assms] one
    by (simp add: reconcile_context_def reconcile_def reconcile_field_def Let_def)
qed

text \<open>C40. The reconciliation takes a grid reading that is not a number for a live grid: whatever the chain, the request bytes, the time and the rest of the feedback, the chain answers and changes its state exactly as it would with a grid value of one, so a breaker close that a live grid permits is executed on a NaN.\<close>

theorem nan_grid_read_as_live:
  assumes "f64_is_nan v"
  shows "chain_execute c buf now (fb\<lparr>fb_grid_up := s\<lparr>fs_value := v\<rparr>\<rparr>) =
     chain_execute c buf now (fb\<lparr>fb_grid_up := s\<lparr>fs_value := f64_1\<rparr>\<rparr>)"
  unfolding chain_execute_def chain_finish_def reconcile_context_nan_grid [OF assms] ..

theorem nan_grid_read_as_live_witness:
  "snd (chain_execute demo_chain demo_buf 100 (demo_feedback\<lparr>fb_grid_up := good_sample f64_nan 100\<rparr>)) =
     Executed demo_cmd [] \<and>
   (\<forall>obs. snd (chain_execute demo_chain demo_buf 100 (demo_feedback\<lparr>fb_grid_up := good_sample f64_0 100\<rparr>)) \<noteq>
     Executed demo_cmd obs)"
proof
  have "demo_feedback\<lparr>fb_grid_up := (good_sample f64_nan 100)\<lparr>fs_value := f64_1\<rparr>\<rparr> = demo_feedback"
    by (simp add: demo_feedback_def fb_fresh_def good_sample_def)
  moreover have "f64_is_nan f64_nan" by (simp add: f64_is_nan_def)
  ultimately show "snd (chain_execute demo_chain demo_buf 100
      (demo_feedback\<lparr>fb_grid_up := good_sample f64_nan 100\<rparr>)) = Executed demo_cmd []"
    using nan_grid_read_as_live [where v = f64_nan and c = demo_chain and buf = demo_buf and now = 100
        and fb = demo_feedback and s = "good_sample f64_nan 100"]
      demo_executes by (simp add: good_sample_def)
next
  show "\<forall>obs. snd (chain_execute demo_chain demo_buf 100 (demo_feedback\<lparr>fb_grid_up := good_sample f64_0 100\<rparr>)) \<noteq>
      Executed demo_cmd obs"
    by (simp add: chain_execute_Executed_iff chain_admits_def demo_cmd_fields demo_chain_fields unsafe_action_def
        profile_safety_point_def demo_profile_def ai_pcc_single_def measured_context_def is_on_def demo_feedback_defs)
qed

end
